(* ===== verification/Prelude.thy ===== *)
theory Prelude
  imports Main "HOL-Library.Word" "HOL-Library.Monad_Syntax" "HOL-Library.Signed_Division"
begin

text \<open>
  Shared vocabulary of the development: the machine integers of the C sources, C's integer
  conversions, byte-addressed memory with \<open>memcpy\<close> and \<open>memset\<close>, reachability in
  transition systems, and the generic lemmas that the component theories use.

  Conventions. A value of C type \<open>uintN_t\<close> that is stored in a struct or a ring is an
  \<open>N word\<close>. A \<open>size_t\<close> that takes part in offset arithmetic is a \<open>nat\<close> whose
  operations are written with the reduction modulo \<open>2 ^ 64\<close> (\<open>size_add\<close>, \<open>size_sub\<close>,
  \<open>size_mul\<close>). A C \<open>int\<close> is an \<open>int\<close> with \<open>to_int\<close> at every narrowing conversion.
  An address is a \<open>nat\<close>; \<open>NULL\<close> is \<open>0\<close>. A computation that can hit a failed
  \<open>assert\<close> or a \<open>NULL\<close> dereference returns \<open>None\<close> there.
\<close>

unbundle bit_operations_syntax

type_synonym u8 = "8 word"
type_synonym u16 = "16 word"
type_synonym u32 = "32 word"
type_synonym u64 = "64 word"
type_synonym ptr = nat
type_synonym mem = "nat \<Rightarrow> u8"

named_theorems conv_simps \<open>C integer conversions on values that fit\<close>
named_theorems mem_simps \<open>reads over writes of memory\<close>

abbreviation (input) NULL :: ptr where "NULL \<equiv> 0"


section \<open>C integer conversions\<close>

text \<open>Conversion to a 32-bit \<open>int\<close> (two's complement), to \<open>unsigned int\<close> and to \<open>size_t\<close>.\<close>

definition to_int :: "int \<Rightarrow> int" where
  "to_int x = (x + 2 ^ 31) mod 2 ^ 32 - 2 ^ 31"

definition to_uint :: "int \<Rightarrow> int" where
  "to_uint x = x mod 2 ^ 32"

definition to_size :: "int \<Rightarrow> nat" where
  "to_size x = nat (x mod 2 ^ 64)"

definition size_add :: "nat \<Rightarrow> nat \<Rightarrow> nat" where
  "size_add a b = (a + b) mod 2 ^ 64"

definition size_sub :: "nat \<Rightarrow> nat \<Rightarrow> nat" where
  "size_sub a b = to_size (int a - int b)"

definition size_mul :: "nat \<Rightarrow> nat \<Rightarrow> nat" where
  "size_mul a b = (a * b) mod 2 ^ 64"

lemma to_int_id [conv_simps]: "- (2 ^ 31) \<le> x \<Longrightarrow> x < 2 ^ 31 \<Longrightarrow> to_int x = x"
  by (simp add: to_int_def)

lemma to_int_bounds: "- (2 ^ 31) \<le> to_int x \<and> to_int x < 2 ^ 31"
proof -
  have "0 \<le> (x + 2 ^ 31) mod 2 ^ 32 \<and> (x + 2 ^ 31) mod 2 ^ 32 < (2 ^ 32 :: int)"
    by (intro conjI pos_mod_sign pos_mod_bound) simp_all
  then show ?thesis by (simp add: to_int_def)
qed

lemma to_size_of_nat [conv_simps]: "n < 2 ^ 64 \<Longrightarrow> to_size (int n) = n"
  by (simp add: to_size_def)

lemma to_size_id [conv_simps]: "0 \<le> x \<Longrightarrow> x < 2 ^ 64 \<Longrightarrow> to_size x = nat x"
  by (simp add: to_size_def)

lemma size_add_id [conv_simps]: "a + b < 2 ^ 64 \<Longrightarrow> size_add a b = a + b"
  by (simp add: size_add_def)

lemma size_sub_id [conv_simps]: "b \<le> a \<Longrightarrow> a < 2 ^ 64 \<Longrightarrow> size_sub a b = a - b"
  by (simp add: size_sub_def to_size_def nat_diff_distrib')

lemma size_mul_id [conv_simps]: "a * b < 2 ^ 64 \<Longrightarrow> size_mul a b = a * b"
  by (simp add: size_mul_def)


text \<open>\<open>assert\<close>, and the bounds and \<open>NULL\<close> checks that C leaves to the programmer.\<close>

definition c_assert :: "bool \<Rightarrow> unit option" where
  "c_assert b = (if b then Some () else None)"

lemma c_assert_True [simp]: "c_assert True = Some ()"
  by (simp add: c_assert_def)

lemma c_assert_False [simp]: "c_assert False = None"
  by (simp add: c_assert_def)

lemma c_assert_Some_iff [simp]: "c_assert b = Some u \<longleftrightarrow> b"
  by (simp add: c_assert_def)


section \<open>Bytes of words\<close>

definition byte_at :: "'a::len word \<Rightarrow> nat \<Rightarrow> u8" where
  "byte_at v k = ucast (drop_bit k v AND 0xFF)"

lemma low_byte_mask: "(0xFF :: 'a::len word) = mask 8"
  by (simp add: mask_eq_exp_minus_1)

lemma bit_byte_at: "bit (byte_at v k) n \<longleftrightarrow> n < 8 \<and> bit v (k + n)" for v :: "'a::len word"
  by (auto simp: byte_at_def low_byte_mask bit_simps ac_simps dest: bit_imp_le_length)

lemma bit_shifted_byte:
  "bit (push_bit k (ucast (byte_at v k)) :: 'a::len word) n \<longleftrightarrow> k \<le> n \<and> n < k + 8 \<and> bit v n"
  for v :: "'a::len word"
  by (auto simp: bit_simps bit_byte_at dest: bit_imp_le_length)

lemma bit_low_byte: "bit (ucast (byte_at v 0) :: 'a::len word) n \<longleftrightarrow> n < 8 \<and> bit v n"
  for v :: "'a::len word"
  using bit_shifted_byte [of 0 v n] by simp

lemmas byte_bits = bit_or_iff bit_shifted_byte bit_low_byte

lemma unat_eq_iff: "unat v = unat w \<longleftrightarrow> v = w"
  by (simp add: word_unat_eq_iff)

lemma add_mod_1024_eq_iff:
  fixes a n :: nat
  assumes "n < 1024"
  shows "(a + n) mod 1024 = a mod 1024 \<longleftrightarrow> n = 0"
proof -
  have "(a + n) mod 1024 = (a mod 1024 + n) mod 1024" by (simp add: mod_simps)
  moreover have "(r + n) mod 1024 = r \<longleftrightarrow> n = 0" if "r < 1024" for r :: nat
    using that assms by (cases "r + n < 1024") (auto simp: le_mod_geq)
  ultimately show ?thesis by simp
qed

lemma word_and_1023: "w AND 1023 = w mod 1024" for w :: u16
proof -
  have "w AND 1023 = take_bit 10 w"
    by (simp add: take_bit_eq_mask mask_eq_exp_minus_1)
  then show ?thesis by (simp add: take_bit_eq_mod)
qed

lemma unat_and_1023: "unat (w AND 1023) = unat w mod 1024" for w :: u16
  by (simp add: word_and_1023 unat_mod)

lemma unat_and_1023_less [simp]: "unat (w AND 1023) < 1024" "\<not> 1024 \<le> unat (w AND 1023)" for w :: u16
  by (simp_all add: unat_and_1023 not_le)


lemma map_delete_None [simp]: "b p = None \<Longrightarrow> b(p := None) = b"
  by auto


section \<open>Byte-addressed memory\<close>

definition mem_read :: "mem \<Rightarrow> ptr \<Rightarrow> nat \<Rightarrow> u8 list" where
  "mem_read m p n = map m [p..<p + n]"

definition mem_write :: "ptr \<Rightarrow> u8 list \<Rightarrow> mem \<Rightarrow> mem" where
  "mem_write p bs m = (\<lambda>a. if p \<le> a \<and> a < p + length bs then bs ! (a - p) else m a)"

definition memcpy :: "ptr \<Rightarrow> ptr \<Rightarrow> nat \<Rightarrow> mem \<Rightarrow> mem" where
  "memcpy dst src n m = mem_write dst (mem_read m src n) m"

definition memset :: "ptr \<Rightarrow> u8 \<Rightarrow> nat \<Rightarrow> mem \<Rightarrow> mem" where
  "memset p b n m = mem_write p (replicate n b) m"

text \<open>The ranges \<open>[p, p + n)\<close> and \<open>[q, q + k)\<close> share no byte.\<close>

definition disjoint_range :: "ptr \<Rightarrow> nat \<Rightarrow> ptr \<Rightarrow> nat \<Rightarrow> bool" where
  "disjoint_range p n q k \<longleftrightarrow> p + n \<le> q \<or> q + k \<le> p"

lemma disjoint_range_sym: "disjoint_range p n q k \<Longrightarrow> disjoint_range q k p n"
  by (auto simp: disjoint_range_def)

lemma disjoint_range_sub:
  "disjoint_range p n q k \<Longrightarrow> p \<le> p' \<Longrightarrow> p' + n' \<le> p + n \<Longrightarrow> q \<le> q' \<Longrightarrow> q' + k' \<le> q + k
   \<Longrightarrow> disjoint_range p' n' q' k'"
  by (auto simp: disjoint_range_def)

lemma length_mem_read [simp]: "length (mem_read m p n) = n"
  by (simp add: mem_read_def)

lemma nth_mem_read [simp]: "i < n \<Longrightarrow> mem_read m p n ! i = m (p + i)"
  by (simp add: mem_read_def)

lemma mem_read_0 [simp]: "mem_read m p 0 = []"
  by (simp add: mem_read_def)

lemma mem_write_Nil [simp]: "mem_write p [] m = m"
  by (rule ext) (auto simp: mem_write_def)

lemma mem_read_eqI: "(\<And>i. i < n \<Longrightarrow> m (p + i) = m' (q + i)) \<Longrightarrow> mem_read m p n = mem_read m' q n"
  by (rule nth_equalityI) simp_all

lemma mem_write_outside [mem_simps]: "a < p \<or> p + length bs \<le> a \<Longrightarrow> mem_write p bs m a = m a"
  by (auto simp: mem_write_def)

lemma mem_write_inside: "i < length bs \<Longrightarrow> mem_write p bs m (p + i) = bs ! i"
  by (simp add: mem_write_def)

lemma mem_read_write_same [mem_simps]: "n = length bs \<Longrightarrow> mem_read (mem_write p bs m) p n = bs"
  by (rule nth_equalityI) (simp_all add: mem_write_inside)

lemma mem_read_write_disjoint [mem_simps]:
  "disjoint_range p n q (length bs) \<Longrightarrow> mem_read (mem_write q bs m) p n = mem_read m p n"
  by (rule mem_read_eqI) (auto simp: mem_write_def disjoint_range_def)

lemma mem_read_append: "mem_read m p (n + k) = mem_read m p n @ mem_read m (p + n) k"
  by (rule nth_equalityI) (auto simp: nth_append)

lemma take_mem_read: "k \<le> n \<Longrightarrow> take k (mem_read m p n) = mem_read m p k"
  by (rule nth_equalityI) simp_all

lemma drop_mem_read: "k \<le> n \<Longrightarrow> drop k (mem_read m p n) = mem_read m (p + k) (n - k)"
  by (rule nth_equalityI) (simp_all add: ac_simps)

lemma memcpy_outside [mem_simps]: "a < d \<or> d + n \<le> a \<Longrightarrow> memcpy d s n m a = m a"
  by (simp add: memcpy_def mem_write_outside)

lemma mem_read_memcpy [mem_simps]: "mem_read (memcpy d s n m) d n = mem_read m s n"
  by (simp add: memcpy_def mem_read_write_same)

lemma mem_read_memcpy_disjoint [mem_simps]:
  "disjoint_range p k d n \<Longrightarrow> mem_read (memcpy d s n m) p k = mem_read m p k"
  by (simp add: memcpy_def mem_read_write_disjoint)

lemma memset_outside [mem_simps]: "a < p \<or> p + n \<le> a \<Longrightarrow> memset p b n m a = m a"
  by (simp add: memset_def mem_write_outside)

lemma memset_inside: "p \<le> a \<Longrightarrow> a < p + n \<Longrightarrow> memset p b n m a = b"
  by (auto simp: memset_def mem_write_def)

lemma mem_read_memset_disjoint [mem_simps]:
  "disjoint_range p k q n \<Longrightarrow> mem_read (memset q b n m) p k = mem_read m p k"
  by (simp add: memset_def mem_read_write_disjoint)


section \<open>Transition systems\<close>

inductive reachable :: "('s \<Rightarrow> bool) \<Rightarrow> ('s \<Rightarrow> 's \<Rightarrow> bool) \<Rightarrow> 's \<Rightarrow> bool" for init step where
  reach_init: "init s \<Longrightarrow> reachable init step s"
| reach_step: "reachable init step s \<Longrightarrow> step s t \<Longrightarrow> reachable init step t"

text \<open>The contract of an inductive invariant, used by every step relation of the development.\<close>

locale inductive_invariant =
  fixes init :: "'s \<Rightarrow> bool"
    and step :: "'s \<Rightarrow> 's \<Rightarrow> bool"
    and inv :: "'s \<Rightarrow> bool"
  assumes inv_init: "init s \<Longrightarrow> inv s"
    and inv_step: "inv s \<Longrightarrow> step s t \<Longrightarrow> inv t"
begin

lemma reachable_inv: "reachable init step s \<Longrightarrow> inv s"
  by (induction rule: reachable.induct) (auto intro: inv_init inv_step)

lemma run_inv: "step\<^sup>*\<^sup>* s t \<Longrightarrow> inv s \<Longrightarrow> inv t"
  by (induction rule: rtranclp_induct) (auto intro: inv_step)

end

lemma reachable_run: "reachable init step s \<Longrightarrow> step\<^sup>*\<^sup>* s t \<Longrightarrow> reachable init step t"
  by (rotate_tac 1, induction rule: rtranclp_induct) (auto intro: reach_step)

end
