(* ===== verification/Shm.thy ===== *)
theory Shm
  imports Prelude
begin

text \<open>
  \<open>src/shm.c\<close> and \<open>src/shm.h\<close>: buffers in the huge pages shared with the vhost server.
  The process state \<open>sys\<close> holds the byte memory, the live blocks of DPDK's allocator, the
  C heap objects of type \<open>virtio_task_t\<close> and the counters of the open event descriptors.

  DPDK is not part of the sources. Its allocator \<open>rte_malloc_socket\<close> is the parameter
  \<open>rm\<close> of every operation that allocates: from the live blocks, a size and an alignment
  it computes an address, \<open>NULL\<close> when it has no memory. What its documentation
  promises is \<open>rte_malloc_spec\<close>. The C heap allocator fails exactly at the allocations the
  oracle \<open>s_oom\<close> names, so that every out-of-memory branch of the sources is reachable.
\<close>

text \<open>The functions of the program whose address is stored in \<open>task->cb\<close>.\<close>

datatype task_cb =
    vring_submit_sync_callback
  | blk_read_done
  | blk_write_last_block_done
  | blk_read_last_block_done
  | blk_write_full_blocks_done
  | blk_read_first_block_done

record virtio_buffer =
  vb_buf :: ptr
  vb_size :: nat
  vb_response :: bool
  vb_copy :: bool
  vb_offset_from :: nat
  vb_offset_to :: nat

text \<open>An entry of \<open>vbufs\<close> is \<open>None\<close> until it is first written: the array comes from \<open>malloc\<close>.\<close>

record virtio_task =
  vbufs :: "virtio_buffer option list"
  count :: nat
  limit :: nat
  vring_idx :: u16
  used_bytes :: u32
  cb :: "task_cb option"
  arg :: ptr

record sys =
  s_mem :: mem
  s_blocks :: "(ptr \<times> nat) list"
  s_tasks :: "ptr \<rightharpoonup> virtio_task"
  s_next :: ptr
  s_nalloc :: nat
  s_oom :: "nat \<Rightarrow> bool"
  s_efd :: "int \<rightharpoonup> nat"

type_synonym rte_malloc = "(ptr \<times> nat) list \<Rightarrow> nat \<Rightarrow> nat \<Rightarrow> ptr"

text \<open>
  What \<open>rte_malloc_socket\<close> documents: a block it returns is not \<open>NULL\<close>, lies in the
  address space and overlaps no live block.
\<close>

definition rte_malloc_spec :: "rte_malloc \<Rightarrow> bool" where
  "rte_malloc_spec rm \<longleftrightarrow> (\<forall>blocks n al. rm blocks n al \<noteq> NULL \<longrightarrow>
     rm blocks n al \<notin> fst ` set blocks \<and> rm blocks n al + n < 2 ^ 64 \<and>
     (\<forall>(q, k) \<in> set blocks. disjoint_range (rm blocks n al) n q k))"


section \<open>Allocation of shared buffers\<close>

definition alloc_shared_buf :: "rte_malloc \<Rightarrow> int \<Rightarrow> int \<Rightarrow> sys \<Rightarrow> ptr \<times> sys" where
  "alloc_shared_buf rm sz alignment s =
     (let p = rm (s_blocks s) (to_size sz) (nat (to_uint alignment))
      in if p = NULL then (NULL, s)
         else (p, s\<lparr>s_blocks := (p, to_size sz) # s_blocks s\<rparr>))"

definition zalloc_shared_buf :: "rte_malloc \<Rightarrow> int \<Rightarrow> int \<Rightarrow> sys \<Rightarrow> ptr \<times> sys" where
  "zalloc_shared_buf rm sz alignment s =
     (let (buf, s1) = alloc_shared_buf rm sz alignment s
      in if buf \<noteq> NULL then (buf, s1\<lparr>s_mem := memset buf 0 (to_size sz) (s_mem s1)\<rparr>)
         else (buf, s1))"

definition free_shared_buf :: "ptr \<Rightarrow> sys \<Rightarrow> sys" where
  "free_shared_buf buf s = (if buf = NULL then s else s\<lparr>s_blocks := filter (\<lambda>(q, k). q \<noteq> buf) (s_blocks s)\<rparr>)"

text \<open>\<open>calloc\<close> and \<open>malloc\<close>: whether the next allocation on the C heap succeeds.\<close>

definition c_alloc :: "sys \<Rightarrow> bool \<times> sys" where
  "c_alloc s = (\<not> s_oom s (s_nalloc s), s\<lparr>s_nalloc := Suc (s_nalloc s)\<rparr>)"


section \<open>Properties of the allocation interface\<close>

lemma alloc_shared_buf_cases:
  assumes "alloc_shared_buf rm sz al s = (p, s')"
  obtains (failed) "p = NULL" "s' = s"
    | (got) "p \<noteq> NULL" "p = rm (s_blocks s) (to_size sz) (nat (to_uint al))"
        "s' = s\<lparr>s_blocks := (p, to_size sz) # s_blocks s\<rparr>"
  using assms by (auto simp: alloc_shared_buf_def Let_def split: if_splits)

lemma alloc_shared_buf_fresh:
  assumes "rte_malloc_spec rm" "alloc_shared_buf rm sz al s = (p, s')" "p \<noteq> NULL"
  shows "p \<notin> fst ` set (s_blocks s)"
    and "p + to_size sz < 2 ^ 64"
    and "(q, k) \<in> set (s_blocks s) \<Longrightarrow> disjoint_range p (to_size sz) q k"
    and "s' = s\<lparr>s_blocks := (p, to_size sz) # s_blocks s\<rparr>"
proof -
  from assms(2,3) have p: "p = rm (s_blocks s) (to_size sz) (nat (to_uint al))"
    and s': "s' = s\<lparr>s_blocks := (p, to_size sz) # s_blocks s\<rparr>"
    by (auto elim: alloc_shared_buf_cases)
  from assms(1) have "rm (s_blocks s) (to_size sz) (nat (to_uint al)) \<noteq> NULL \<longrightarrow>
      rm (s_blocks s) (to_size sz) (nat (to_uint al)) \<notin> fst ` set (s_blocks s) \<and>
      rm (s_blocks s) (to_size sz) (nat (to_uint al)) + to_size sz < 2 ^ 64 \<and>
      (\<forall>(q, k) \<in> set (s_blocks s). disjoint_range (rm (s_blocks s) (to_size sz) (nat (to_uint al))) (to_size sz) q k)"
    unfolding rte_malloc_spec_def by (elim allE)
  then have spec: "p \<notin> fst ` set (s_blocks s)" "p + to_size sz < 2 ^ 64"
      "\<forall>(q, k) \<in> set (s_blocks s). disjoint_range p (to_size sz) q k"
    using assms(3) unfolding p [symmetric] by blast+
  show "p \<notin> fst ` set (s_blocks s)" "p + to_size sz < 2 ^ 64" using spec by blast+
  show "(q, k) \<in> set (s_blocks s) \<Longrightarrow> disjoint_range p (to_size sz) q k" using spec(3) by blast
  show "s' = s\<lparr>s_blocks := (p, to_size sz) # s_blocks s\<rparr>" by (rule s')
qed

text \<open>Live blocks never overlap.\<close>

definition blocks_disjoint :: "(ptr \<times> nat) list \<Rightarrow> bool" where
  "blocks_disjoint b \<longleftrightarrow> distinct (map fst b) \<and>
     (\<forall>(p, n) \<in> set b. \<forall>(q, k) \<in> set b. p \<noteq> q \<longrightarrow> disjoint_range p n q k)"

lemma alloc_shared_buf_disjoint:
  assumes "rte_malloc_spec rm" "blocks_disjoint (s_blocks s)"
    "alloc_shared_buf rm sz al s = (p, s')"
  shows "blocks_disjoint (s_blocks s')"
proof (cases "p = NULL")
  case True
  with assms show ?thesis by (auto elim: alloc_shared_buf_cases)
next
  case False
  note fresh = alloc_shared_buf_fresh [OF assms(1,3) False]
  show ?thesis
    unfolding blocks_disjoint_def fresh(4)
    using assms(2) fresh(1,3)
    by (auto simp: blocks_disjoint_def intro: disjoint_range_sym)
qed

lemma free_shared_buf_disjoint:
  "blocks_disjoint (s_blocks s) \<Longrightarrow> blocks_disjoint (s_blocks (free_shared_buf p s))"
  by (auto simp: blocks_disjoint_def free_shared_buf_def distinct_map_filter)

lemma filter_fresh_block: "p \<notin> fst ` set b \<Longrightarrow> filter (\<lambda>(q, k). q \<noteq> p) b = b"
  by (force intro: filter_True)

lemma free_alloc_shared_buf:
  assumes "rte_malloc_spec rm" "alloc_shared_buf rm sz al s = (p, s')"
  shows "free_shared_buf p s' = s"
proof (cases "p = NULL")
  case True
  with assms(2) show ?thesis by (auto simp: free_shared_buf_def elim: alloc_shared_buf_cases)
next
  case False
  note fresh = alloc_shared_buf_fresh [OF assms False]
  from False fresh(4) filter_fresh_block [OF fresh(1)] show ?thesis by (simp add: free_shared_buf_def)
qed

lemma free_shared_buf_sel [simp]:
  "s_mem (free_shared_buf p s) = s_mem s" "s_tasks (free_shared_buf p s) = s_tasks s"
  "s_next (free_shared_buf p s) = s_next s" "s_efd (free_shared_buf p s) = s_efd s"
  by (simp_all add: free_shared_buf_def)

text \<open>
  An allocator that meets the documented contract, for the concrete examples: it places a
  block behind every live one.
\<close>

definition bump_malloc :: rte_malloc where
  "bump_malloc blocks n al =
     (let p = foldr (\<lambda>(q, k) hi. max (q + k + 1) hi) blocks 4096
      in if p + n < 2 ^ 64 then p else NULL)"

lemma bump_above: "(q, k) \<in> set blocks \<Longrightarrow> q + k < foldr (\<lambda>(q, k) hi. max (q + k + 1) hi) blocks (hi :: nat)"
  by (induction blocks) auto

lemma bump_malloc_spec: "rte_malloc_spec bump_malloc"
  unfolding rte_malloc_spec_def
proof (intro allI impI)
  fix blocks :: "(ptr \<times> nat) list" and n al :: nat
  let ?p = "foldr (\<lambda>(q, k) hi. max (q + k + 1) hi) blocks 4096"
  assume "bump_malloc blocks n al \<noteq> NULL"
  then have p: "bump_malloc blocks n al = ?p" "?p + n < 2 ^ 64"
    by (simp_all add: bump_malloc_def Let_def split: if_splits)
  have above: "q + k < ?p" if "(q, k) \<in> set blocks" for q k using bump_above [OF that] .
  then have "?p \<notin> fst ` set blocks" "\<forall>(q, k) \<in> set blocks. disjoint_range ?p n q k"
    by (force, force simp: disjoint_range_def less_imp_le)
  with p show "bump_malloc blocks n al \<notin> fst ` set blocks \<and> bump_malloc blocks n al + n < 2 ^ 64 \<and>
      (\<forall>(q, k) \<in> set blocks. disjoint_range (bump_malloc blocks n al) n q k)" by simp
qed

end
