(* ===== verification/Virtio_Task.thy ===== *)
theory Virtio_Task
  imports Shm
begin

text \<open>
  \<open>src/virtio_task.c\<close>: a task is a bounded list of I/O buffers that becomes one descriptor
  chain. Buffers are allocated from shared memory (\<open>virtio_task_alloc_buf\<close>, freed with the
  task) or supplied by the caller (\<open>virtio_task_add_buf\<close>, zero copy).
\<close>

definition virtio_task_create :: "nat \<Rightarrow> sys \<Rightarrow> ptr \<times> sys" where
  "virtio_task_create nbufs s =
     (let (ok1, s1) = c_alloc s
      in if \<not> ok1 then (NULL, s1)
         else let (ok2, s2) = c_alloc s1
              in if \<not> ok2 then (NULL, s2)
                 else let t = s_next s2;
                          task = \<lparr>vbufs = replicate nbufs None, count = 0, limit = nbufs,
                                  vring_idx = 0, used_bytes = 0, cb = None, arg = NULL\<rparr>
                      in (t, s2\<lparr>s_next := Suc t, s_tasks := (s_tasks s2)(t \<mapsto> task)\<rparr>))"

fun free_vbufs :: "virtio_buffer option list \<Rightarrow> sys \<Rightarrow> sys" where
  "free_vbufs [] s = s"
| "free_vbufs (None # vs) s = free_vbufs vs s"
| "free_vbufs (Some vb # vs) s =
     free_vbufs vs (if vb_copy vb then free_shared_buf (vb_buf vb) s else s)"

definition virtio_task_destroy :: "ptr \<Rightarrow> sys \<Rightarrow> sys option" where
  "virtio_task_destroy t s = do {
     task \<leftarrow> s_tasks s t;
     let s1 = free_vbufs (take (count task) (vbufs task)) s;
     Some (s1\<lparr>s_tasks := (s_tasks s1)(t := None)\<rparr>)
   }"

text \<open>\<open>vbuf = &task->vbufs[task->count++]\<close> followed by the assignments to its fields.\<close>

definition push_vbuf :: "virtio_task \<Rightarrow> virtio_buffer \<Rightarrow> virtio_task" where
  "push_vbuf task vb = task\<lparr>vbufs := (vbufs task)[count task := Some vb], count := count task + 1\<rparr>"

definition virtio_task_alloc_buf_part ::
  "rte_malloc \<Rightarrow> ptr \<Rightarrow> nat \<Rightarrow> bool \<Rightarrow> bool \<Rightarrow> nat \<Rightarrow> nat \<Rightarrow> sys \<Rightarrow> (ptr \<times> sys) option" where
  "virtio_task_alloc_buf_part rm t sz response zero offset_from offset_to s = do {
     task \<leftarrow> s_tasks s t;
     if \<not> count task < limit task then None
     else let (data, s1) = alloc_shared_buf rm (to_int (int sz)) 0 s
          in if data = NULL then Some (NULL, s1)
             else let s2 = (if zero then s1\<lparr>s_mem := memset data 0 sz (s_mem s1)\<rparr> else s1);
                      vb = \<lparr>vb_buf = data, vb_size = sz, vb_response = response, vb_copy = True,
                            vb_offset_from = offset_from, vb_offset_to = offset_to\<rparr>
                  in Some (data, s2\<lparr>s_tasks := (s_tasks s2)(t \<mapsto> push_vbuf task vb)\<rparr>)
   }"

definition virtio_task_alloc_buf ::
  "rte_malloc \<Rightarrow> ptr \<Rightarrow> nat \<Rightarrow> bool \<Rightarrow> bool \<Rightarrow> sys \<Rightarrow> (ptr \<times> sys) option" where
  "virtio_task_alloc_buf rm t sz response zero s =
     virtio_task_alloc_buf_part rm t sz response zero 0 sz s"

definition virtio_task_add_buf :: "ptr \<Rightarrow> ptr \<Rightarrow> nat \<Rightarrow> bool \<Rightarrow> sys \<Rightarrow> sys option" where
  "virtio_task_add_buf t buf sz response s = do {
     task \<leftarrow> s_tasks s t;
     if \<not> count task < limit task then None
     else let vb = \<lparr>vb_buf = buf, vb_size = sz, vb_response = response, vb_copy = False,
                    vb_offset_from = 0, vb_offset_to = sz\<rparr>
          in Some (s\<lparr>s_tasks := (s_tasks s)(t \<mapsto> push_vbuf task vb)\<rparr>)
   }"

text \<open>The inner \<open>None\<close> of the result is an index below \<open>count\<close> of an entry never written.\<close>

definition virtio_task_get_buf :: "virtio_task \<Rightarrow> nat \<Rightarrow> ptr option" where
  "virtio_task_get_buf task idx =
     (if idx \<ge> count task then Some NULL else map_option vb_buf (vbufs task ! idx))"


section \<open>Well-formed tasks\<close>

definition task_wf :: "virtio_task \<Rightarrow> bool" where
  "task_wf task \<longleftrightarrow> length (vbufs task) = limit task \<and> count task \<le> limit task \<and>
     (\<forall>i < count task. vbufs task ! i \<noteq> None)"

text \<open>The buffers of a task, in order.\<close>

definition task_bufs :: "virtio_task \<Rightarrow> virtio_buffer list" where
  "task_bufs task = map the (take (count task) (vbufs task))"

lemma length_task_bufs [simp]: "task_wf task \<Longrightarrow> length (task_bufs task) = count task"
  by (simp add: task_bufs_def task_wf_def)

lemma nth_task_bufs:
  assumes "task_wf task" "i < count task"
  shows "vbufs task ! i = Some (task_bufs task ! i)"
proof -
  from assms have "vbufs task ! i \<noteq> None" "i < length (vbufs task)"
    by (simp_all add: task_wf_def del: not_None_eq)
  with assms(2) show ?thesis by (simp add: task_bufs_def)
qed

lemma take_vbufs: "task_wf task \<Longrightarrow> take (count task) (vbufs task) = map Some (task_bufs task)"
  by (rule nth_equalityI) (simp_all add: nth_task_bufs, simp add: task_wf_def)

lemma push_vbuf_wf: "task_wf task \<Longrightarrow> count task < limit task \<Longrightarrow> task_wf (push_vbuf task vb)"
  by (auto simp: task_wf_def push_vbuf_def nth_list_update less_Suc_eq)

lemma push_vbuf_bufs:
  "task_wf task \<Longrightarrow> count task < limit task \<Longrightarrow> task_bufs (push_vbuf task vb) = task_bufs task @ [vb]"
  by (simp add: task_bufs_def task_wf_def push_vbuf_def take_Suc_conv_app_nth nth_append)

lemma push_vbuf_sel [simp]:
  "count (push_vbuf task vb) = Suc (count task)" "limit (push_vbuf task vb) = limit task"
  "vring_idx (push_vbuf task vb) = vring_idx task" "used_bytes (push_vbuf task vb) = used_bytes task"
  "cb (push_vbuf task vb) = cb task" "arg (push_vbuf task vb) = arg task"
  by (simp_all add: push_vbuf_def)

text \<open>Updating fields the well-formedness does not read.\<close>

lemma task_wf_update [simp]:
  "task_wf (task\<lparr>vring_idx := i\<rparr>) = task_wf task" "task_wf (task\<lparr>used_bytes := u\<rparr>) = task_wf task"
  "task_wf (task\<lparr>cb := c\<rparr>) = task_wf task" "task_wf (task\<lparr>arg := a\<rparr>) = task_wf task"
  "task_bufs (task\<lparr>vring_idx := i\<rparr>) = task_bufs task" "task_bufs (task\<lparr>used_bytes := u\<rparr>) = task_bufs task"
  "task_bufs (task\<lparr>cb := c\<rparr>) = task_bufs task" "task_bufs (task\<lparr>arg := a\<rparr>) = task_bufs task"
  by (simp_all add: task_wf_def task_bufs_def)

text \<open>Destroying a task changes only the live blocks.\<close>

lemma free_vbufs_sel [simp]:
  "s_tasks (free_vbufs vs s) = s_tasks s" "s_mem (free_vbufs vs s) = s_mem s" "s_efd (free_vbufs vs s) = s_efd s"
  "s_next (free_vbufs vs s) = s_next s" "s_oom (free_vbufs vs s) = s_oom s"
  by (induction vs s rule: free_vbufs.induct) (simp_all add: free_shared_buf_def)

lemma free_vbufs_blocks:
  "s_blocks (free_vbufs (map Some bs) s) =
    filter (\<lambda>(q, k). q \<notin> vb_buf ` {b \<in> set bs. vb_copy b \<and> vb_buf b \<noteq> NULL}) (s_blocks s)"
proof (induction bs arbitrary: s)
  case Nil
  then show ?case by simp
next
  case (Cons b bs)
  have "filter (\<lambda>(q, k). q \<notin> vb_buf ` {c \<in> set bs. vb_copy c \<and> vb_buf c \<noteq> NULL}) (s_blocks (if vb_copy b then free_shared_buf (vb_buf b) s else s)) =
      filter (\<lambda>(q, k). q \<notin> vb_buf ` {c \<in> set (b # bs). vb_copy c \<and> vb_buf c \<noteq> NULL}) (s_blocks s)"
    by (auto simp: free_shared_buf_def intro!: filter_cong)
  then show ?case using Cons.IH by simp
qed

end
