(* ===== verification/Vring.thy ===== *)
theory Vring
  imports Virtio_Task
begin

text \<open>
  \<open>src/vring.h\<close> and \<open>src/vring.c\<close>: the split virtqueue. The descriptor table, the avail
  ring (written by this library) and the used ring (written by the vhost server) live in
  shared memory; \<open>tasks\<close> records which task owns which descriptor slot.

  This theory is the sequential semantics of the operations: one call runs to its end before the
  next one starts, so a compare-and-swap on a word that was just read succeeds. The theory
  \<open>Vring_Conc\<close> has their interleavings. \<open>None\<close> is a failed assertion, a read outside
  an array, a spin that no other thread ends or (for \<open>claim_slot\<close>) fuel that ran out;
  the lemmas below show when none of these
  happens.
\<close>

definition VHOST_VRING_SIZE :: nat where "VHOST_VRING_SIZE = 1024"

definition VIRTIO_DESC_F_NEXT :: u16 where "VIRTIO_DESC_F_NEXT = 1"
definition VIRTIO_DESC_F_WRITE :: u16 where "VIRTIO_DESC_F_WRITE = 2"
definition VRING_USED_F_NO_NOTIFY :: u16 where "VRING_USED_F_NO_NOTIFY = 1"
definition VRING_AVAIL_F_NO_INTERRUPT :: u16 where "VRING_AVAIL_F_NO_INTERRUPT = 1"

record vring_desc =
  d_addr :: u64
  d_len :: u32
  d_flags :: u16
  d_next :: u16

record vring_avail =
  a_flags :: u16
  a_idx :: u16
  a_ring :: "u16 list"

record vring_used_elem =
  ue_id :: u32
  ue_len :: u32

record vring_used =
  u_flags :: u16
  u_idx :: u16
  u_ring :: "vring_used_elem list"

record vhost_vring =
  desc :: "vring_desc list"
  avail :: vring_avail
  used :: vring_used

text \<open>
  \<open>vring_shm\<close> is the address of the shared structure and \<open>shm\<close> its contents, through which
  the C pointers \<open>desc\<close>, \<open>avail\<close> and \<open>used\<close> go.
\<close>

record vring =
  kickfd :: int
  callfd :: int
  vring_shm :: ptr
  shm :: vhost_vring
  num :: u16
  free_count :: u16
  last_avail_idx :: u16
  last_used_idx :: u16
  tasks :: "ptr list"
  task_idx :: u16

definition vhost_vring_zero :: vhost_vring where
  "vhost_vring_zero = \<lparr>
     desc = replicate VHOST_VRING_SIZE \<lparr>d_addr = 0, d_len = 0, d_flags = 0, d_next = 0\<rparr>,
     avail = \<lparr>a_flags = 0, a_idx = 0, a_ring = replicate VHOST_VRING_SIZE 0\<rparr>,
     used = \<lparr>u_flags = 0, u_idx = 0, u_ring = replicate VHOST_VRING_SIZE \<lparr>ue_id = 0, ue_len = 0\<rparr>\<rparr>\<rparr>"

text \<open>
  \<open>sizeof (struct vhost_vring)\<close>: 16 bytes per descriptor, the avail ring of 2052 bytes, then the
  used ring of 8196 bytes at the next multiple of 4096, padded to a multiple of 4096.
\<close>

definition sizeof_vhost_vring :: nat where "sizeof_vhost_vring = 32768"

text \<open>
  The event descriptors. \<open>eventfd(0, EFD_NONBLOCK)\<close> opens the lowest free descriptor below the
  limit of the process or returns \<open>-1\<close>; a write of 1 fails when the counter would pass
  \<open>2 ^ 64 - 2\<close>.
\<close>

definition FD_LIMIT :: int where "FD_LIMIT = 1024"

definition eventfd :: "sys \<Rightarrow> int \<times> sys" where
  "eventfd s = (case filter (\<lambda>fd. s_efd s fd = None) [0..FD_LIMIT - 1] of
      [] \<Rightarrow> (-1, s)
    | fd # _ \<Rightarrow> (fd, s\<lparr>s_efd := (s_efd s)(fd \<mapsto> 0)\<rparr>))"

definition close_efd :: "int \<Rightarrow> sys \<Rightarrow> sys" where
  "close_efd fd s = s\<lparr>s_efd := (s_efd s)(fd := None)\<rparr>"

definition eventfd_write :: "int \<Rightarrow> sys \<Rightarrow> sys option" where
  "eventfd_write fd s = (case s_efd s fd of
      None \<Rightarrow> None
    | Some n \<Rightarrow> if n + 1 \<le> 2 ^ 64 - 2 then Some (s\<lparr>s_efd := (s_efd s)(fd \<mapsto> n + 1)\<rparr>) else None)"


section \<open>Creation and destruction\<close>

definition vring_create :: "rte_malloc \<Rightarrow> sys \<Rightarrow> vring option \<times> sys" where
  "vring_create rm s =
     (let (ok, s1) = c_alloc s
      in if \<not> ok then (None, s1)
         else let (p, s2) = zalloc_shared_buf rm (int sizeof_vhost_vring) 0 s1
         in if p = NULL then (None, s2)
            else let (kick, s3) = eventfd s2
            in if kick < 0 then (None, free_shared_buf p s3)
               else let (call, s4) = eventfd s3
               in if call < 0 then (None, free_shared_buf p (close_efd kick s4))
                  else (Some \<lparr>kickfd = kick, callfd = call, vring_shm = p, shm = vhost_vring_zero,
                              num = of_nat VHOST_VRING_SIZE, free_count = 0,
                              last_avail_idx = a_idx (avail vhost_vring_zero),
                              last_used_idx = u_idx (used vhost_vring_zero),
                              tasks = replicate VHOST_VRING_SIZE NULL, task_idx = 0\<rparr>, s4))"

definition vring_destroy :: "vring \<Rightarrow> sys \<Rightarrow> sys" where
  "vring_destroy vr s =
     free_shared_buf (vring_shm vr) (close_efd (callfd vr) (close_efd (kickfd vr) s))"


section \<open>Enqueueing a task\<close>

definition vring_mask :: "vring \<Rightarrow> u16" where
  "vring_mask vr = num vr - 1"

definition vring_set_desc :: "vring \<Rightarrow> u16 \<Rightarrow> virtio_buffer \<Rightarrow> bool \<Rightarrow> vring" where
  "vring_set_desc vr idx vbuf is_last =
     (let flags0 = (if vb_response vbuf then 0 OR VIRTIO_DESC_F_WRITE else 0);
          flags = (if \<not> is_last then flags0 OR VIRTIO_DESC_F_NEXT else flags0);
          d = desc (shm vr) ! unat idx;
          d' = d\<lparr>d_addr := of_nat (vb_buf vbuf), d_len := of_nat (vb_size vbuf), d_flags := flags\<rparr>
      in vr\<lparr>shm := (shm vr)\<lparr>desc := (desc (shm vr))[unat idx := d']\<rparr>\<rparr>)"

definition set_desc_next :: "vring \<Rightarrow> u16 \<Rightarrow> u16 \<Rightarrow> vring" where
  "set_desc_next vr prev_idx desc_idx =
     vr\<lparr>shm := (shm vr)\<lparr>desc := (desc (shm vr))
       [unat prev_idx := (desc (shm vr) ! unat prev_idx)\<lparr>d_next := desc_idx\<rparr>]\<rparr>\<rparr>"

definition vring_flush :: "vring \<Rightarrow> u16 \<Rightarrow> sys \<Rightarrow> (vring \<times> sys) option" where
  "vring_flush vr desc_idx s =
     (let idx = last_avail_idx vr;
          vr1 = vr\<lparr>last_avail_idx := idx + 1\<rparr>;
          av = avail (shm vr1);
          av1 = av\<lparr>a_ring := (a_ring av)[unat (idx AND vring_mask vr) := desc_idx]\<rparr>
      in if a_idx av1 \<noteq> idx then None
         else let vr2 = vr1\<lparr>shm := (shm vr1)\<lparr>avail := av1\<lparr>a_idx := idx + 1\<rparr>\<rparr>\<rparr>
              in if u_flags (used (shm vr2)) AND VRING_USED_F_NO_NOTIFY = 0
                 then map_option (\<lambda>s'. (vr2, s')) (eventfd_write (kickfd vr2) s)
                 else Some (vr2, s))"

text \<open>
  The two nested loops that look for a free slot and claim it by compare-and-swap:
  \<open>Some (True, idx, ts)\<close> when slot \<open>idx\<close> was claimed, \<open>Some (False, _, _)\<close> when the scan came
  back to \<open>saved\<close>. The scan visits each slot at most once, so \<open>VHOST_VRING_SIZE\<close> rounds suffice.
\<close>

fun claim_slot :: "nat \<Rightarrow> ptr \<Rightarrow> u16 \<Rightarrow> u16 \<Rightarrow> u16 \<Rightarrow> ptr list \<Rightarrow> (bool \<times> u16 \<times> ptr list) option" where
  "claim_slot 0 t msk saved desc_idx ts = None"
| "claim_slot (Suc fuel) t msk saved desc_idx ts =
     (if unat desc_idx \<ge> length ts then None
      else if ts ! unat desc_idx \<noteq> NULL then
        (let desc_idx' = (desc_idx + 1) AND msk
         in if desc_idx' = saved then Some (False, desc_idx', ts)
            else claim_slot fuel t msk saved desc_idx' ts)
      else Some (True, desc_idx, ts[unat desc_idx := t]))"

definition release_slots :: "u16 list \<Rightarrow> ptr list \<Rightarrow> ptr list" where
  "release_slots slots ts = fold (\<lambda>j ts. ts[unat j := NULL]) slots ts"

fun put_loop :: "ptr \<Rightarrow> nat list \<Rightarrow> u16 list \<Rightarrow> u16 \<Rightarrow> vring \<Rightarrow> virtio_task
    \<Rightarrow> (int \<times> vring \<times> virtio_task) option" where
  "put_loop t [] slots prev_idx vr task = Some (0, vr, task)"
| "put_loop t (i # is) slots prev_idx vr task =
     (case claim_slot VHOST_VRING_SIZE t (vring_mask vr) (task_idx vr) (task_idx vr) (tasks vr) of
        None \<Rightarrow> None
      | Some (False, _, ts) \<Rightarrow> Some (-1, vr\<lparr>tasks := release_slots slots ts\<rparr>, task)
      | Some (True, desc_idx, ts) \<Rightarrow>
          (case vbufs task ! i of
             None \<Rightarrow> None
           | Some vbuf \<Rightarrow>
               let vr1 = vr\<lparr>tasks := ts, task_idx := (desc_idx + 1) AND vring_mask vr\<rparr>;
                   task1 = (if i = 0 then task\<lparr>vring_idx := desc_idx\<rparr> else task);
                   vr2 = (if i = 0 then vr1 else set_desc_next vr1 prev_idx desc_idx);
                   vr3 = vring_set_desc vr2 desc_idx vbuf (i = count task - 1)
               in put_loop t is (slots @ [desc_idx]) desc_idx vr3 task1))"

definition vring_put_task :: "vring \<Rightarrow> ptr \<Rightarrow> sys \<Rightarrow> (int \<times> vring \<times> sys) option" where
  "vring_put_task vr t s = do {
     task \<leftarrow> s_tasks s t;
     (rc, vr1, task1) \<leftarrow> put_loop t [0..<count task] [] 0 vr task;
     let s1 = s\<lparr>s_tasks := (s_tasks s)(t \<mapsto> task1)\<rparr>;
     if rc \<noteq> 0 then Some (rc, vr1, s1)
     else do {
       (vr2, s2) \<leftarrow> vring_flush vr1 (vring_idx task1) s1;
       Some (0, vr2, s2)
     }
   }"


section \<open>Dequeueing a completed task\<close>

lemma taken_decreases:
  "i < length ts \<Longrightarrow> ts ! i \<noteq> NULL \<Longrightarrow>
   length (filter (\<lambda>p. p \<noteq> NULL) (ts[i := NULL])) < length (filter (\<lambda>p. p \<noteq> NULL) ts)"
  by (induction ts arbitrary: i) (auto split: nat.splits)

text \<open>
  The loop that frees the slots of a chain. Each round either ends it or clears a slot that
  was taken (the assertion), so it stops even on a table whose links form a cycle.
\<close>

function free_chain :: "vring_desc list \<Rightarrow> u16 \<Rightarrow> ptr list \<Rightarrow> ptr list option" where
  "free_chain ds idx ts =
     (if unat idx \<ge> length ds \<or> unat idx \<ge> length ts then None
      else if d_flags (ds ! unat idx) AND VIRTIO_DESC_F_NEXT \<noteq> 0 then
        (if ts ! unat idx = NULL then None
         else free_chain ds (d_next (ds ! unat idx)) (ts[unat idx := NULL]))
      else Some (ts[unat idx := NULL]))"
  by pat_completeness auto

termination
  by (relation "measure (\<lambda>(ds, idx, ts). length (filter (\<lambda>p. p \<noteq> NULL) ts))")
    (auto intro!: taken_decreases simp del: neq0_conv bot_nat_0.not_eq_extremum)

declare free_chain.simps [simp del]

text \<open>The result is \<open>NULL\<close> when the used ring has nothing new.\<close>

definition vring_get_task :: "vring \<Rightarrow> sys \<Rightarrow> (ptr \<times> vring \<times> sys) option" where
  "vring_get_task vr s =
     (let u = used (shm vr); idx = last_used_idx vr; msk = vring_mask vr
      in if idx AND msk = u_idx u AND msk then Some (NULL, vr, s)
         else if unat (idx AND msk) \<ge> length (u_ring u) then None
         else do {
           let elem = u_ring u ! unat (idx AND msk);
           let desc_idx = (ucast (ue_id elem) :: u16);
           c_assert (unat desc_idx < length (tasks vr));
           let t = tasks vr ! unat desc_idx;
           task \<leftarrow> s_tasks s t;
           let task1 = task\<lparr>used_bytes := ue_len elem\<rparr>;
           c_assert (vring_idx task1 = desc_idx);
           ts \<leftarrow> free_chain (desc (shm vr)) desc_idx (tasks vr);
           Some (t, vr\<lparr>tasks := ts, last_used_idx := idx + 1\<rparr>,
                 s\<lparr>s_tasks := (s_tasks s)(t \<mapsto> task1)\<rparr>)
         })"


section \<open>Shape of the rings and of the descriptor chains\<close>

definition vring_sizes :: "vring \<Rightarrow> bool" where
  "vring_sizes vr \<longleftrightarrow> num vr = 1024 \<and> length (tasks vr) = 1024 \<and> unat (task_idx vr) < 1024 \<and>
     length (desc (shm vr)) = 1024 \<and> length (a_ring (avail (shm vr))) = 1024 \<and>
     length (u_ring (used (shm vr))) = 1024"

text \<open>A descriptor describes a buffer of the chain; only the last one has no successor.\<close>

definition desc_holds :: "vring_desc \<Rightarrow> virtio_buffer \<Rightarrow> bool \<Rightarrow> bool" where
  "desc_holds d b is_last \<longleftrightarrow> d_addr d = of_nat (vb_buf b) \<and> d_len d = of_nat (vb_size b) \<and>
     d_flags d = (if vb_response b then VIRTIO_DESC_F_WRITE else 0) OR
                 (if is_last then 0 else VIRTIO_DESC_F_NEXT)"

definition desc_chain :: "vring_desc list \<Rightarrow> u16 list \<Rightarrow> virtio_buffer list \<Rightarrow> bool" where
  "desc_chain ds c bufs \<longleftrightarrow> length c = length bufs \<and>
     (\<forall>k < length c. desc_holds (ds ! unat (c ! k)) (bufs ! k) (Suc k = length c)) \<and>
     (\<forall>k. Suc k < length c \<longrightarrow> d_next (ds ! unat (c ! k)) = c ! Suc k)"

definition free_slots :: "vring \<Rightarrow> nat set" where
  "free_slots vr = {i. i < 1024 \<and> tasks vr ! i = NULL}"

lemma finite_free_slots [simp]: "finite (free_slots vr)"
  by (simp add: free_slots_def)

lemma vring_mask_1023: "vring_sizes vr \<Longrightarrow> vring_mask vr = 1023"
  by (simp add: vring_sizes_def vring_mask_def)

lemma next_flag [simp]:
  "((if r then VIRTIO_DESC_F_WRITE else 0) OR VIRTIO_DESC_F_NEXT) AND VIRTIO_DESC_F_NEXT \<noteq> 0"
  "(if r then VIRTIO_DESC_F_WRITE else 0) AND VIRTIO_DESC_F_NEXT = 0"
  by (simp_all add: VIRTIO_DESC_F_WRITE_def VIRTIO_DESC_F_NEXT_def)

lemma desc_holds_next:
  "desc_holds d b is_last \<Longrightarrow> d_flags d AND VIRTIO_DESC_F_NEXT \<noteq> 0 \<longleftrightarrow> \<not> is_last"
  unfolding desc_holds_def using next_flag [of "vb_response b"] by (cases is_last) simp_all

lemma desc_chain_Cons:
  assumes "desc_chain ds (i # j # c) (b # bs)"
  shows "d_flags (ds ! unat i) AND VIRTIO_DESC_F_NEXT \<noteq> 0" and "d_next (ds ! unat i) = j"
    and "desc_chain ds (j # c) bs"
proof -
  have len: "length (j # c) = length bs"
    and holds: "\<And>k. k < length (i # j # c) \<Longrightarrow>
      desc_holds (ds ! unat ((i # j # c) ! k)) ((b # bs) ! k) (Suc k = length (i # j # c))"
    and links: "\<And>k. Suc k < length (i # j # c) \<Longrightarrow>
      d_next (ds ! unat ((i # j # c) ! k)) = (i # j # c) ! Suc k"
    using assms unfolding desc_chain_def by auto
  show "d_flags (ds ! unat i) AND VIRTIO_DESC_F_NEXT \<noteq> 0"
    using holds [of 0] by (simp add: desc_holds_next)
  show "d_next (ds ! unat i) = j" using links [of 0] by simp
  show "desc_chain ds (j # c) bs"
    unfolding desc_chain_def
  proof (intro conjI allI impI)
    show "length (j # c) = length bs" by (rule len)
    fix k
    show "desc_holds (ds ! unat ((j # c) ! k)) (bs ! k) (Suc k = length (j # c))"
      if "k < length (j # c)" using holds [of "Suc k"] that by simp
    show "d_next (ds ! unat ((j # c) ! k)) = (j # c) ! Suc k"
      if "Suc k < length (j # c)" using links [of "Suc k"] that by simp
  qed
qed

lemma desc_chain_single:
  "desc_chain ds [i] bs \<Longrightarrow> d_flags (ds ! unat i) AND VIRTIO_DESC_F_NEXT = 0"
  by (auto simp: desc_chain_def dest: desc_holds_next)


section \<open>Claiming slots\<close>

lemma unat_next_slot: "unat ((w + 1) AND 1023) = (unat w + 1) mod 1024" for w :: u16
proof -
  have "unat ((w + 1) AND 1023) = unat (w + 1) mod 1024" by (rule unat_and_1023)
  also have "\<dots> = (unat w + 1) mod 2 ^ 16 mod 1024" by (simp add: unat_word_ariths)
  also have "\<dots> = (unat w + 1) mod 1024" by (simp add: mod_mod_cancel)
  finally show ?thesis .
qed

lemma all_slots_scanned:
  fixes n :: nat
  assumes "n < 1024" "\<forall>i < 1024. P ((n + i) mod 1024)" "i < 1024"
  shows "P i"
proof -
  have "(n + (i + 1024 - n) mod 1024) mod 1024 = i"
    using assms(1,3) by (simp add: mod_add_right_eq)
  moreover have "P ((n + (i + 1024 - n) mod 1024) mod 1024)"
    using assms(2) by simp
  ultimately show ?thesis by simp
qed

lemma claim_slot_scan:
  assumes "length ts = 1024" "unat saved < 1024" "unat idx = (unat saved + j) mod 1024"
    "j < 1024" "\<forall>i < j. ts ! ((unat saved + i) mod 1024) \<noteq> NULL" "1024 \<le> fuel + j"
  shows "(\<exists>idx'. claim_slot fuel t 1023 saved idx ts = Some (True, idx', ts[unat idx' := t]) \<and>
            unat idx' < 1024 \<and> ts ! unat idx' = NULL)
    \<or> (\<exists>idx'. claim_slot fuel t 1023 saved idx ts = Some (False, idx', ts) \<and>
            (\<forall>i < 1024. ts ! i \<noteq> NULL))"
  using assms
proof (induction fuel arbitrary: idx j)
  case 0
  then show ?case by simp
next
  case (Suc fuel)
  have idx: "unat idx < 1024" using Suc.prems(3) by simp
  show ?case
  proof (cases "ts ! unat idx = NULL")
    case True
    then show ?thesis using idx Suc.prems(1) by simp
  next
    case taken: False
    let ?idx = "(idx + 1) AND 1023"
    have next_idx: "unat ?idx = (unat saved + Suc j) mod 1024"
      by (simp add: unat_next_slot Suc.prems(3) mod_Suc_eq)
    have scanned: "\<forall>i < Suc j. ts ! ((unat saved + i) mod 1024) \<noteq> NULL"
      using Suc.prems(3,5) taken by (auto simp: less_Suc_eq)
    show ?thesis
    proof (cases "?idx = saved")
      case True
      then have "(unat saved + Suc j) mod 1024 = unat saved" using next_idx by simp
      then have "Suc j = 1024" using Suc.prems(2,4)
        by (auto simp: mod_if split: if_splits)
      then have "\<forall>i < 1024. ts ! i \<noteq> NULL"
        using all_slots_scanned [of "unat saved" "\<lambda>i. ts ! i \<noteq> NULL"] Suc.prems(2) scanned by simp
      then show ?thesis using True taken idx Suc.prems(1) by (simp add: Let_def)
    next
      case False
      have "Suc j < 1024"
      proof (rule ccontr)
        assume "\<not> Suc j < 1024"
        with Suc.prems(4) have "Suc j = 1024" by simp
        with next_idx Suc.prems(2) have "unat ?idx = unat saved" by simp
        with False show False by (simp only: word_unat_eq_iff)
      qed
      from Suc.IH [OF Suc.prems(1,2) next_idx this scanned] Suc.prems(6)
      show ?thesis using False taken idx Suc.prems(1) by (simp add: Let_def)
    qed
  qed
qed

lemma claim_slot_correct:
  assumes "vring_sizes vr"
  obtains (claimed) idx where
      "claim_slot VHOST_VRING_SIZE t (vring_mask vr) (task_idx vr) (task_idx vr) (tasks vr)
         = Some (True, idx, (tasks vr)[unat idx := t])"
      "unat idx \<in> free_slots vr"
    | (full) idx where
      "claim_slot VHOST_VRING_SIZE t (vring_mask vr) (task_idx vr) (task_idx vr) (tasks vr)
         = Some (False, idx, tasks vr)"
      "free_slots vr = {}"
  using claim_slot_scan [of "tasks vr" "task_idx vr" "task_idx vr" 0 VHOST_VRING_SIZE t] assms
  by (auto simp: vring_mask_1023 vring_sizes_def VHOST_VRING_SIZE_def free_slots_def)


section \<open>The loop of vring_put_task\<close>

text \<open>The fields that claiming and filling slots does not write.\<close>

definition same_rings :: "vring \<Rightarrow> vring \<Rightarrow> bool" where
  "same_rings vr0 vr \<longleftrightarrow> avail (shm vr) = avail (shm vr0) \<and> used (shm vr) = used (shm vr0) \<and>
     num vr = num vr0 \<and> last_avail_idx vr = last_avail_idx vr0 \<and>
     last_used_idx vr = last_used_idx vr0 \<and> kickfd vr = kickfd vr0 \<and> callfd vr = callfd vr0 \<and>
     vring_shm vr = vring_shm vr0 \<and> free_count vr = free_count vr0"

text \<open>
  What holds after the slots \<open>slots\<close> have been claimed, against the ring \<open>vr0\<close> at the
  start: they were free and now belong to the task, they hold the first buffers of the
  task in order and linked, and nothing else changed.
\<close>

definition put_inv :: "vring \<Rightarrow> ptr \<Rightarrow> virtio_task \<Rightarrow> u16 list \<Rightarrow> vring \<Rightarrow> bool" where
  "put_inv vr0 t task slots vr \<longleftrightarrow> vring_sizes vr \<and> distinct slots \<and>
     unat ` set slots \<subseteq> free_slots vr0 \<and>
     (\<forall>i < 1024. tasks vr ! i = (if i \<in> unat ` set slots then t else tasks vr0 ! i)) \<and>
     (\<forall>k < length slots. desc_holds (desc (shm vr) ! unat (slots ! k)) (task_bufs task ! k) (Suc k = count task)) \<and>
     (\<forall>k. Suc k < length slots \<longrightarrow> d_next (desc (shm vr) ! unat (slots ! k)) = slots ! Suc k) \<and>
     (\<forall>i < 1024. i \<notin> unat ` set slots \<longrightarrow> desc (shm vr) ! i = desc (shm vr0) ! i) \<and>
     same_rings vr0 vr"

lemma put_inv_start: "vring_sizes vr \<Longrightarrow> put_inv vr t task [] vr"
  by (simp add: put_inv_def same_rings_def)

lemma put_inv_free_slots:
  assumes "put_inv vr0 t task slots vr" "t \<noteq> NULL"
  shows "free_slots vr = free_slots vr0 - unat ` set slots"
proof -
  have "\<forall>i < 1024. tasks vr ! i = (if i \<in> unat ` set slots then t else tasks vr0 ! i)"
    using assms(1) by (simp add: put_inv_def)
  with assms(2) show ?thesis by (auto simp: free_slots_def split: if_splits)
qed

lemma card_slots: "distinct slots \<Longrightarrow> card (unat ` set slots) = length slots" for slots :: "u16 list"
  by (simp add: card_image inj_on_def distinct_card word_unat_eq_iff)

lemma put_inv_card:
  assumes "put_inv vr0 t task slots vr" "t \<noteq> NULL"
  shows "card (free_slots vr) + length slots = card (free_slots vr0)"
proof -
  have sub: "unat ` set slots \<subseteq> free_slots vr0" and dist: "distinct slots"
    using assms(1) by (auto simp: put_inv_def)
  have "card (free_slots vr0 - unat ` set slots) = card (free_slots vr0) - length slots"
    using sub card_Diff_subset [of "unat ` set slots" "free_slots vr0"] card_slots [OF dist] by simp
  moreover have "length slots \<le> card (free_slots vr0)"
    using card_mono [OF finite_free_slots sub] card_slots [OF dist] by simp
  ultimately show ?thesis by (simp add: put_inv_free_slots [OF assms])
qed

text \<open>One round of the loop: the state after a slot has been claimed and filled.\<close>

definition put_step :: "ptr \<Rightarrow> virtio_task \<Rightarrow> nat \<Rightarrow> u16 \<Rightarrow> u16 \<Rightarrow> vring \<Rightarrow> vring" where
  "put_step t task i prev_idx idx vr =
     (let vr1 = vr\<lparr>tasks := (tasks vr)[unat idx := t], task_idx := (idx + 1) AND vring_mask vr\<rparr>;
          vr2 = (if i = 0 then vr1 else set_desc_next vr1 prev_idx idx)
      in vring_set_desc vr2 idx (task_bufs task ! i) (i = count task - 1))"

lemmas put_step_defs = put_step_def Let_def vring_set_desc_def set_desc_next_def

lemma put_step_frame:
  "vring_sizes vr \<Longrightarrow> vring_sizes (put_step t task i prev_idx idx vr)"
  "tasks (put_step t task i prev_idx idx vr) = (tasks vr)[unat idx := t]"
  "same_rings vr (put_step t task i prev_idx idx vr)"
  by (auto simp: vring_sizes_def same_rings_def put_step_defs vring_mask_def)

text \<open>The descriptors after a round: the new one is filled, the one before it is linked to it, the others are as before.\<close>

lemma put_step_desc:
  assumes "vring_sizes vr" "unat idx < 1024"
  shows "i < count task \<Longrightarrow> desc_holds (desc (shm (put_step t task i prev_idx idx vr)) ! unat idx) (task_bufs task ! i) (Suc i = count task)"
    "i \<noteq> 0 \<Longrightarrow> unat prev_idx < 1024 \<Longrightarrow> unat prev_idx \<noteq> unat idx \<Longrightarrow>
      desc (shm (put_step t task i prev_idx idx vr)) ! unat prev_idx = (desc (shm vr) ! unat prev_idx)\<lparr>d_next := idx\<rparr>"
    "j \<noteq> unat idx \<Longrightarrow> i = 0 \<or> j \<noteq> unat prev_idx \<Longrightarrow> desc (shm (put_step t task i prev_idx idx vr)) ! j = desc (shm vr) ! j"
  using assms by (auto simp: vring_sizes_def put_step_defs desc_holds_def)

lemma put_inv_slots:
  assumes inv: "put_inv vr0 t task slots vr" and free: "unat idx \<in> free_slots vr" and t: "t \<noteq> NULL"
  shows "unat idx < 1024" "unat idx \<notin> unat ` set slots" "unat idx \<in> free_slots vr0" "k < length slots \<Longrightarrow> unat (slots ! k) < 1024"
    "k < length slots \<Longrightarrow> unat (slots ! k) \<noteq> unat idx"
    "k < length slots \<Longrightarrow> j < length slots \<Longrightarrow> unat (slots ! k) = unat (slots ! j) \<longleftrightarrow> k = j"
proof -
  show idx: "unat idx < 1024" "unat idx \<notin> unat ` set slots" "unat idx \<in> free_slots vr0"
    using free put_inv_free_slots [OF inv t] by (auto simp: free_slots_def)
  have dist: "distinct slots" and sub: "unat ` set slots \<subseteq> free_slots vr0" using inv by (auto simp: put_inv_def)
  show "unat (slots ! k) < 1024" "unat (slots ! k) \<noteq> unat idx" if "k < length slots"
    using subsetD [OF sub, OF imageI, OF nth_mem [OF that]] imageI [OF nth_mem [OF that], of unat] idx(2) by (auto simp: free_slots_def)
  show "unat (slots ! k) = unat (slots ! j) \<longleftrightarrow> k = j" if "k < length slots" "j < length slots"
    using that dist by (simp add: nth_eq_iff_index_eq flip: word_unat_eq_iff)
qed

text \<open>The descriptors of the slots claimed before: their contents stay, and the last of them gets its link.\<close>

lemma put_step_slots:
  assumes inv: "put_inv vr0 t task slots vr" and free: "unat idx \<in> free_slots vr" and t: "t \<noteq> NULL"
    and i: "i = length slots" and prev: "slots \<noteq> [] \<longrightarrow> prev_idx = last slots" and k: "k < length slots"
  shows "desc (shm (put_step t task i prev_idx idx vr)) ! unat (slots ! k) =
    (if Suc k = i then (desc (shm vr) ! unat (slots ! k))\<lparr>d_next := idx\<rparr> else desc (shm vr) ! unat (slots ! k))"
proof -
  note sl = put_inv_slots [OF inv free t]
  have sizes: "vring_sizes vr" using inv by (simp add: put_inv_def)
  have p: "prev_idx = slots ! (i - 1)" "i - 1 < length slots" using prev k i by (auto simp: last_conv_nth)
  show ?thesis
  proof (cases "Suc k = i")
    case True
    then have "prev_idx = slots ! k" "i \<noteq> 0" using p(1) by auto
    then show ?thesis using put_step_desc(2) [OF sizes sl(1), of i prev_idx] sl(4,5) [OF k] True by simp
  next
    case False
    then have "unat (slots ! k) \<noteq> unat prev_idx" using sl(6) [OF k p(2)] p(1) k i by auto
    then show ?thesis using put_step_desc(3) [OF sizes sl(1), of _ i prev_idx] sl(5) [OF k] False by simp
  qed
qed

lemma put_inv_step:
  assumes inv: "put_inv vr0 t task slots vr" and free: "unat idx \<in> free_slots vr"
    and t: "t \<noteq> NULL" and i: "i = length slots" "i < count task"
    and prev: "slots \<noteq> [] \<longrightarrow> prev_idx = last slots"
  shows "put_inv vr0 t task (slots @ [idx]) (put_step t task i prev_idx idx vr)"
  unfolding put_inv_def
proof (intro conjI allI impI)
  let ?vr = "put_step t task i prev_idx idx vr"
  note sl = put_inv_slots [OF inv free t] and step = put_step_slots [OF inv free t i(1) prev]
  have sizes: "vring_sizes vr" "length (tasks vr) = 1024" using inv by (auto simp: put_inv_def vring_sizes_def)
  show "distinct (slots @ [idx])" "unat ` set (slots @ [idx]) \<subseteq> free_slots vr0" using inv sl(2,3) by (auto simp: put_inv_def)
  show "same_rings vr0 ?vr" using put_step_frame(3) [of vr t task i prev_idx idx] inv by (simp add: same_rings_def put_inv_def)
  show "vring_sizes ?vr" by (rule put_step_frame(1) [OF sizes(1)])
  show "tasks ?vr ! k = (if k \<in> unat ` set (slots @ [idx]) then t else tasks vr0 ! k)" if "k < 1024" for k
    using that inv sl(1) sizes(2) by (simp add: put_step_frame(2) nth_list_update put_inv_def)
  show "desc (shm ?vr) ! k = desc (shm vr0) ! k" if k: "k < 1024" "k \<notin> unat ` set (slots @ [idx])" for k
  proof -
    have "i = 0 \<or> k \<noteq> unat prev_idx" using k(2) prev i(1) by auto
    then show ?thesis using put_step_desc(3) [OF sizes(1) sl(1), of k i prev_idx] inv k by (simp add: put_inv_def)
  qed
  show "desc_holds (desc (shm ?vr) ! unat ((slots @ [idx]) ! k)) (task_bufs task ! k) (Suc k = count task)"
    if "k < length (slots @ [idx])" for k
  proof (cases "k < length slots")
    case True
    then show ?thesis using step [OF True] inv by (simp add: nth_append put_inv_def desc_holds_def)
  next
    case False
    then have "k = i" using that i(1) by simp
    then show ?thesis using put_step_desc(1) [OF sizes(1) sl(1) i(2)] i(1) by simp
  qed
  show "d_next (desc (shm ?vr) ! unat ((slots @ [idx]) ! k)) = (slots @ [idx]) ! Suc k" if "Suc k < length (slots @ [idx])" for k
    using that step [of k] inv i(1) by (auto simp: nth_append put_inv_def less_Suc_eq)
qed

lemma put_inv_vring_idx [simp]: "put_inv vr0 t (task\<lparr>vring_idx := x\<rparr>) slots vr = put_inv vr0 t task slots vr"
  by (simp add: put_inv_def)

lemma put_loop_claimed:
  assumes "task_wf task" "i < count task"
    "claim_slot VHOST_VRING_SIZE t (vring_mask vr) (task_idx vr) (task_idx vr) (tasks vr)
       = Some (True, idx, (tasks vr)[unat idx := t])"
  shows "put_loop t (i # is) slots prev_idx vr task =
    put_loop t is (slots @ [idx]) idx (put_step t task i prev_idx idx vr)
      (if i = 0 then task\<lparr>vring_idx := idx\<rparr> else task)"
  using assms nth_task_bufs [OF assms(1,2)] by (simp add: put_step_def Let_def)

lemma put_loop_success:
  assumes "put_inv vr0 t task slots vr" "task_wf task" "t \<noteq> NULL"
    "length slots \<le> count task" "count task \<le> card (free_slots vr0)"
    "slots \<noteq> [] \<longrightarrow> prev_idx = last slots"
  shows "\<exists>c vr'. put_loop t [length slots..<count task] slots prev_idx vr task =
      Some (0, vr', if length slots = 0 \<and> c \<noteq> [] then task\<lparr>vring_idx := hd c\<rparr> else task) \<and>
    put_inv vr0 t task c vr' \<and> length c = count task \<and> take (length slots) c = slots"
  using assms
proof (induction "count task - length slots" arbitrary: slots prev_idx vr task)
  case 0
  then show ?case by (intro exI [of _ slots] exI [of _ vr]) auto
next
  case (Suc n)
  let ?i = "length slots"
  have i: "?i < count task" using Suc.hyps(2) by simp
  then have upt: "[?i..<count task] = ?i # [Suc ?i..<count task]" by (simp add: upt_conv_Cons)
  have sizes: "vring_sizes vr" using Suc.prems(1) by (simp add: put_inv_def)
  from sizes show ?case
  proof (cases rule: claim_slot_correct [of vr t])
    case (claimed idx)
    let ?vr = "put_step t task ?i prev_idx idx vr"
    let ?task = "if ?i = 0 then task\<lparr>vring_idx := idx\<rparr> else task"
    have inv': "put_inv vr0 t ?task (slots @ [idx]) ?vr"
      using put_inv_step [OF Suc.prems(1) claimed(2) Suc.prems(3) refl i Suc.prems(6)] by auto
    have "\<exists>c vr'. put_loop t [length (slots @ [idx])..<count ?task] (slots @ [idx]) idx ?vr ?task =
        Some (0, vr', if length (slots @ [idx]) = 0 \<and> c \<noteq> [] then ?task\<lparr>vring_idx := hd c\<rparr> else ?task) \<and>
      put_inv vr0 t ?task c vr' \<and> length c = count ?task \<and> take (length (slots @ [idx])) c = slots @ [idx]"
      using Suc.hyps(2) Suc.prems i inv' by (intro Suc.hyps(1)) auto
    then obtain c vr' where c: "put_loop t [Suc ?i..<count task] (slots @ [idx]) idx ?vr ?task = Some (0, vr', ?task)"
      "put_inv vr0 t task c vr'" "length c = count task" "take (Suc ?i) c = slots @ [idx]"
      by (auto split: if_splits)
    have "take ?i c = slots" using arg_cong [OF c(4), of "take ?i"] by simp
    moreover have "hd c = idx" if "?i = 0"
      using c(3,4) that i by (cases c) auto
    ultimately show ?thesis
      using c i put_loop_claimed [OF Suc.prems(2) i claimed(1), of "[Suc ?i..<count task]" slots prev_idx]
      by (intro exI [of _ c] exI [of _ vr']) (auto simp: upt)
  next
    case (full idx)
    then show ?thesis using put_inv_card [OF Suc.prems(1,3)] i Suc.prems(5) by simp
  qed
qed

lemma length_release_slots [simp]: "length (release_slots slots ts) = length ts"
  unfolding release_slots_def by (induction slots arbitrary: ts) auto

lemma nth_release_slots:
  "i < length ts \<Longrightarrow> release_slots slots ts ! i = (if i \<in> unat ` set slots then NULL else ts ! i)"
  unfolding release_slots_def by (induction slots arbitrary: ts) (auto simp: nth_list_update)

lemma put_inv_release:
  assumes "put_inv vr0 t task slots vr" "vring_sizes vr0"
  shows "release_slots slots (tasks vr) = tasks vr0"
  using assms
  by (intro nth_equalityI) (auto simp: put_inv_def vring_sizes_def nth_release_slots free_slots_def)

text \<open>When the ring has too few free slots everything that was claimed is given back.\<close>

definition put_undone :: "vring \<Rightarrow> vring \<Rightarrow> bool" where
  "put_undone vr0 vr \<longleftrightarrow> vring_sizes vr \<and> tasks vr = tasks vr0 \<and> same_rings vr0 vr \<and>
     (\<forall>i < 1024. i \<notin> free_slots vr0 \<longrightarrow> desc (shm vr) ! i = desc (shm vr0) ! i)"

lemma put_inv_undone:
  assumes "put_inv vr0 t task slots vr" "vring_sizes vr0"
  shows "put_undone vr0 (vr\<lparr>tasks := tasks vr0\<rparr>)"
proof -
  have "unat ` set slots \<subseteq> free_slots vr0" using assms(1) by (simp add: put_inv_def)
  then have "i \<notin> free_slots vr0 \<Longrightarrow> i \<notin> unat ` set slots" for i by blast
  with assms show ?thesis by (simp add: put_undone_def put_inv_def vring_sizes_def same_rings_def)
qed

lemma put_loop_full:
  assumes "put_inv vr0 t task slots vr" "task_wf task" "t \<noteq> NULL" "vring_sizes vr0"
    "length slots \<le> count task" "card (free_slots vr0) < count task"
    "slots \<noteq> [] \<longrightarrow> prev_idx = last slots"
  shows "\<exists>vr' x. put_loop t [length slots..<count task] slots prev_idx vr task =
      Some (-1, vr', task\<lparr>vring_idx := x\<rparr>) \<and> put_undone vr0 vr'"
  using assms
proof (induction "count task - length slots" arbitrary: slots prev_idx vr task)
  case 0
  then show ?case using put_inv_card [OF "0.prems"(1,3)] by simp
next
  case (Suc n)
  let ?i = "length slots"
  have i: "?i < count task" using Suc.hyps(2) by simp
  then have upt: "[?i..<count task] = ?i # [Suc ?i..<count task]" by (simp add: upt_conv_Cons)
  have sizes: "vring_sizes vr" using Suc.prems(1) by (simp add: put_inv_def)
  from sizes show ?case
  proof (cases rule: claim_slot_correct [of vr t])
    case (claimed idx)
    let ?vr = "put_step t task ?i prev_idx idx vr"
    let ?task = "if ?i = 0 then task\<lparr>vring_idx := idx\<rparr> else task"
    have inv': "put_inv vr0 t ?task (slots @ [idx]) ?vr"
      using put_inv_step [OF Suc.prems(1) claimed(2) Suc.prems(3) refl i Suc.prems(7)] by auto
    have "\<exists>vr' x. put_loop t [length (slots @ [idx])..<count ?task] (slots @ [idx]) idx ?vr ?task =
        Some (-1, vr', ?task\<lparr>vring_idx := x\<rparr>) \<and> put_undone vr0 vr'"
      using Suc.hyps(2) Suc.prems i inv' by (intro Suc.hyps(1)) auto
    then show ?thesis
      using i put_loop_claimed [OF Suc.prems(2) i claimed(1), of "[Suc ?i..<count task]" slots prev_idx]
      by (auto simp: upt split: if_splits)
  next
    case (full idx)
    then show ?thesis
      using put_inv_release [OF Suc.prems(1,4)] put_inv_undone [OF Suc.prems(1,4)]
      by (intro exI [of _ "vr\<lparr>tasks := tasks vr0\<rparr>"] exI [of _ "vring_idx task"]) (simp add: upt)
  qed
qed

end
