(* ===== verification/Vring_Refine.thy ===== *)
theory Vring_Refine
  imports Vring
begin

text \<open>
  The specification of the virtqueue and the refinement of \<open>vring_put_task\<close> and
  \<open>vring_get_task\<close> to it. A \<open>vqueue\<close> is what the code promises to its callers: the tasks in
  flight, each with the chain of slots it occupies, and the completions the server has
  reported and the library has not yet picked up, in order. \<open>vring_rep vr s q\<close> says that the
  ring \<open>vr\<close> and the task objects in \<open>s\<close> represent \<open>q\<close>; it is the invariant of the ring.

  The server's side of the protocol is \<open>used_push\<close>: it appends an element to the used ring and
  advances its index, which is the only thing it writes in the ring structures.
\<close>

record vqueue =
  inflight :: "(ptr \<times> u16 list) list"
  completed :: "(ptr \<times> u32) list"

definition used_push :: "u32 \<Rightarrow> u32 \<Rightarrow> vring \<Rightarrow> vring" where
  "used_push i l vr =
     (let u = used (shm vr)
      in vr\<lparr>shm := (shm vr)\<lparr>used := u\<lparr>u_ring := (u_ring u)[unat (u_idx u AND 1023) := \<lparr>ue_id = i, ue_len = l\<rparr>],
                                       u_idx := u_idx u + 1\<rparr>\<rparr>\<rparr>)"


section \<open>The representation of a queue by a ring\<close>

definition task_in_ring :: "vring \<Rightarrow> sys \<Rightarrow> ptr \<Rightarrow> u16 list \<Rightarrow> bool" where
  "task_in_ring vr s t c \<longleftrightarrow> t \<noteq> NULL \<and> c \<noteq> [] \<and> (\<forall>i \<in> set c. unat i < 1024 \<and> tasks vr ! unat i = t) \<and>
     (\<exists>task. s_tasks s t = Some task \<and> task_wf task \<and> vring_idx task = hd c \<and>
        desc_chain (desc (shm vr)) c (task_bufs task))"

definition slots_rep :: "vring \<Rightarrow> sys \<Rightarrow> (ptr \<times> u16 list) list \<Rightarrow> bool" where
  "slots_rep vr s fl \<longleftrightarrow> distinct (map fst fl) \<and> distinct (concat (map snd fl)) \<and>
     (\<forall>(t, c) \<in> set fl. task_in_ring vr s t c) \<and>
     (\<forall>i < 1024. tasks vr ! i \<noteq> NULL \<longrightarrow> (\<exists>(t, c) \<in> set fl. i \<in> unat ` set c))"

definition used_rep :: "vring \<Rightarrow> (ptr \<times> u16 list) list \<Rightarrow> (ptr \<times> u32) list \<Rightarrow> bool" where
  "used_rep vr fl dn \<longleftrightarrow> distinct (map fst dn) \<and> length dn < 1024 \<and>
     u_idx (used (shm vr)) = last_used_idx vr + of_nat (length dn) \<and>
     (\<forall>k < length dn. \<exists>c. (fst (dn ! k), c) \<in> set fl \<and>
        u_ring (used (shm vr)) ! unat ((last_used_idx vr + of_nat k) AND 1023) =
          \<lparr>ue_id = ucast (hd c), ue_len = snd (dn ! k)\<rparr>)"

definition vring_rep :: "vring \<Rightarrow> sys \<Rightarrow> vqueue \<Rightarrow> bool" where
  "vring_rep vr s q \<longleftrightarrow> vring_sizes vr \<and> a_idx (avail (shm vr)) = last_avail_idx vr \<and>
     slots_rep vr s (inflight q) \<and> used_rep vr (inflight q) (completed q)"

definition queue_slots :: "vqueue \<Rightarrow> nat" where
  "queue_slots q = length (concat (map snd (inflight q)))"

definition kick_ready :: "vring \<Rightarrow> sys \<Rightarrow> bool" where
  "kick_ready vr s \<longleftrightarrow> (\<exists>n. s_efd s (kickfd vr) = Some n \<and> n + 1 \<le> 2 ^ 64 - 2)"

text \<open>The counter of the kick descriptor leaves room for \<open>k\<close> more notifications.\<close>

definition kick_room :: "nat \<Rightarrow> vring \<Rightarrow> sys \<Rightarrow> bool" where
  "kick_room k vr s \<longleftrightarrow> (\<exists>n. s_efd s (kickfd vr) = Some n \<and> n + k \<le> 2 ^ 64 - 2)"

lemma kick_room_ready: "kick_room (Suc k) vr s \<Longrightarrow> kick_ready vr s"
  by (auto simp: kick_room_def kick_ready_def)


section \<open>Facts about the representation\<close>

lemma slots_repD:
  assumes "slots_rep vr s fl" "(t, c) \<in> set fl"
  shows "task_in_ring vr s t c" and "distinct c"
  using assms by (auto simp: slots_rep_def distinct_concat_iff)

lemma slots_rep_covered:
  assumes "slots_rep vr s fl" "i < 1024" "tasks vr ! i \<noteq> NULL"
  shows "\<exists>t c. (t, c) \<in> set fl \<and> i \<in> unat ` set c"
proof -
  have "\<exists>(t, c) \<in> set fl. i \<in> unat ` set c" using assms by (simp add: slots_rep_def)
  then show ?thesis by auto
qed

lemma slots_rep_owner:
  assumes "slots_rep vr s fl" "(t, c) \<in> set fl" "(t', c') \<in> set fl" "i \<in> set c" "i \<in> set c'"
  shows "t = t' \<and> c = c'"
proof -
  have "tasks vr ! unat i = t" using slots_repD(1) [OF assms(1,2)] assms(4) by (simp add: task_in_ring_def)
  moreover have "tasks vr ! unat i = t'" using slots_repD(1) [OF assms(1,3)] assms(5) by (simp add: task_in_ring_def)
  ultimately have "t = t'" by simp
  moreover have "distinct (map fst fl)" using assms(1) by (simp add: slots_rep_def)
  ultimately show ?thesis using assms(2,3) by (auto dest: eq_key_imp_eq_value)
qed

text \<open>The taken slots of the array are exactly those of the chains in flight.\<close>

lemma slots_rep_taken:
  assumes "slots_rep vr s fl"
  shows "{i. i < 1024 \<and> tasks vr ! i \<noteq> NULL} = unat ` set (concat (map snd fl))" (is "?A = ?B")
proof
  show "?A \<subseteq> ?B" using assms by (fastforce simp: slots_rep_def)
  show "?B \<subseteq> ?A" using assms by (fastforce dest: slots_repD(1) simp: task_in_ring_def)
qed

lemma card_free_slots:
  assumes "vring_rep vr s q"
  shows "card (free_slots vr) + queue_slots q = 1024"
proof -
  have sr: "slots_rep vr s (inflight q)" and dist: "distinct (concat (map snd (inflight q)))"
    using assms by (auto simp: vring_rep_def slots_rep_def)
  let ?T = "{i. i < 1024 \<and> tasks vr ! i \<noteq> NULL}"
  have "card ?T = queue_slots q"
    unfolding slots_rep_taken [OF sr] queue_slots_def by (rule card_slots [OF dist])
  moreover have "card (free_slots vr \<union> ?T) = card (free_slots vr) + card ?T"
    by (rule card_Un_disjoint) (auto simp: free_slots_def)
  moreover have "free_slots vr \<union> ?T = {..<1024}" by (auto simp: free_slots_def)
  ultimately show ?thesis by simp
qed

lemma desc_chain_cong:
  "(\<And>i. i \<in> set c \<Longrightarrow> ds ! unat i = ds' ! unat i) \<Longrightarrow> desc_chain ds c bs = desc_chain ds' c bs"
  by (simp add: desc_chain_def)

text \<open>A change that keeps the slots and descriptors of the tasks in flight keeps them in the ring.\<close>

lemma task_in_ring_cong:
  assumes "task_in_ring vr s t c"
    "\<And>i. i \<in> set c \<Longrightarrow> tasks vr' ! unat i = tasks vr ! unat i"
    "\<And>i. i \<in> set c \<Longrightarrow> desc (shm vr') ! unat i = desc (shm vr) ! unat i"
    "\<And>task. s_tasks s t = Some task \<Longrightarrow> \<exists>task'. s_tasks s' t = Some task' \<and>
       task_wf task' = task_wf task \<and> vring_idx task' = vring_idx task \<and> task_bufs task' = task_bufs task"
  shows "task_in_ring vr' s' t c"
  using assms desc_chain_cong [of c "desc (shm vr')" "desc (shm vr)"]
  unfolding task_in_ring_def by force

lemma masked_index_eq:
  fixes x :: u16
  assumes "n < 1024"
  shows "x AND 1023 = (x + of_nat n) AND 1023 \<longleftrightarrow> n = 0"
proof -
  have "unat ((x + of_nat n) AND 1023) = (unat x + n) mod 1024"
    using assms by (simp add: unat_and_1023 unat_word_ariths unat_of_nat mod_mod_cancel mod_simps)
  moreover have "unat x mod 1024 = (unat x + n) mod 1024 \<longleftrightarrow> n = 0"
    using add_mod_1024_eq_iff [OF assms, of "unat x"] by metis
  ultimately show ?thesis by (simp add: word_unat_eq_iff unat_and_1023)
qed



section \<open>The server completes a task\<close>

lemma used_push_sel [simp]:
  "tasks (used_push i l vr) = tasks vr" "task_idx (used_push i l vr) = task_idx vr"
  "num (used_push i l vr) = num vr" "desc (shm (used_push i l vr)) = desc (shm vr)"
  "avail (shm (used_push i l vr)) = avail (shm vr)"
  "last_used_idx (used_push i l vr) = last_used_idx vr"
  "last_avail_idx (used_push i l vr) = last_avail_idx vr"
  "kickfd (used_push i l vr) = kickfd vr" "callfd (used_push i l vr) = callfd vr"
  "u_idx (used (shm (used_push i l vr))) = u_idx (used (shm vr)) + 1"
  "u_flags (used (shm (used_push i l vr))) = u_flags (used (shm vr))"
  "u_ring (used (shm (used_push i l vr))) =
     (u_ring (used (shm vr)))[unat (u_idx (used (shm vr)) AND 1023) := \<lparr>ue_id = i, ue_len = l\<rparr>]"
  by (simp_all add: used_push_def Let_def)

lemma masked_index_add:
  fixes x :: u16
  assumes "n < 1024" "k < 1024" "unat ((x + of_nat n) AND 1023) = unat ((x + of_nat k) AND 1023)"
  shows "n = k"
proof -
  have *: "n = k" if "n \<le> k" "n < 1024" "k < 1024" "(x + of_nat n) AND 1023 = (x + of_nat k) AND 1023" for n k :: nat
  proof -
    have "x + of_nat k = (x + of_nat n) + of_nat (k - n)" using that(1) by (simp flip: of_nat_add)
    moreover have "k - n < 1024" using that by linarith
    ultimately show ?thesis using masked_index_eq [of "k - n" "x + of_nat n"] that by simp
  qed
  from assms(3) have "(x + of_nat n) AND 1023 = (x + of_nat k) AND 1023"
    by (simp only: word_unat_eq_iff)
  with assms(1,2) * [of n k] * [of k n] show ?thesis by (cases "n \<le> k") auto
qed

lemma slots_rep_cong:
  assumes "slots_rep vr s fl" "tasks vr' = tasks vr"
    "\<And>i. i < 1024 \<Longrightarrow> tasks vr ! i \<noteq> NULL \<Longrightarrow> desc (shm vr') ! i = desc (shm vr) ! i"
    "\<And>t task. t \<in> fst ` set fl \<Longrightarrow> s_tasks s t = Some task \<Longrightarrow> \<exists>task'. s_tasks s' t = Some task' \<and>
       task_wf task' = task_wf task \<and> vring_idx task' = vring_idx task \<and> task_bufs task' = task_bufs task"
  shows "slots_rep vr' s' fl"
proof -
  have "task_in_ring vr' s' t c" if "(t, c) \<in> set fl" for t c
  proof (rule task_in_ring_cong [OF slots_repD(1) [OF assms(1) that]])
    show "desc (shm vr') ! unat i = desc (shm vr) ! unat i" if "i \<in> set c" for i
      using slots_repD(1) [OF assms(1) \<open>(t, c) \<in> set fl\<close>] that by (intro assms(3)) (auto simp: task_in_ring_def)
    show "\<exists>task'. s_tasks s' t = Some task' \<and> task_wf task' = task_wf task \<and>
        vring_idx task' = vring_idx task \<and> task_bufs task' = task_bufs task"
      if "s_tasks s t = Some task" for task
      using assms(4) \<open>(t, c) \<in> set fl\<close> that by force
  qed (simp add: assms(2))
  with assms(1,2) show ?thesis unfolding slots_rep_def by auto
qed

lemma vring_rep_tasks_cong:
  assumes "vring_rep vr s q" "\<And>t. t \<in> fst ` set (inflight q) \<Longrightarrow> s_tasks s' t = s_tasks s t"
  shows "vring_rep vr s' q"
  using assms slots_rep_cong [of vr s "inflight q" vr s'] by (simp add: vring_rep_def)

lemma vring_rep_update_task:
  assumes "vring_rep vr s q" "t \<notin> fst ` set (inflight q)" "s_tasks s' = (s_tasks s)(t := x)"
  shows "vring_rep vr s' q"
proof (rule vring_rep_tasks_cong [OF assms(1)])
  fix u assume "u \<in> fst ` set (inflight q)"
  with assms(2) have "u \<noteq> t" by blast
  with assms(3) show "s_tasks s' u = s_tasks s u" by simp
qed

lemma used_push_rep:
  assumes rep: "vring_rep vr s q" and t: "(t, c) \<in> set (inflight q)"
    and new: "t \<notin> fst ` set (completed q)" and room: "length (completed q) < 1023"
  shows "vring_rep (used_push (ucast (hd c)) l vr) s (q\<lparr>completed := completed q @ [(t, l)]\<rparr>)"
proof -
  let ?vr = "used_push (ucast (hd c)) l vr" and ?n = "length (completed q)"
  have sizes: "vring_sizes vr" and sr: "slots_rep vr s (inflight q)"
    and ur: "used_rep vr (inflight q) (completed q)"
    using rep by (auto simp: vring_rep_def)
  have idx: "u_idx (used (shm vr)) = last_used_idx vr + of_nat ?n"
    and len: "length (u_ring (used (shm vr))) = 1024"
    using ur sizes by (simp_all add: used_rep_def vring_sizes_def)
  have slot: "u_ring (used (shm ?vr)) ! unat ((last_used_idx vr + of_nat k) AND 1023) =
      (if k = ?n then \<lparr>ue_id = ucast (hd c), ue_len = l\<rparr>
       else u_ring (used (shm vr)) ! unat ((last_used_idx vr + of_nat k) AND 1023))" if "k \<le> ?n" for k
    using that room len masked_index_add [of ?n k "last_used_idx vr"] by (auto simp: idx nth_list_update)
  have "used_rep ?vr (inflight q) (completed q @ [(t, l)])"
    unfolding used_rep_def
  proof (intro conjI allI impI)
    show "distinct (map fst (completed q @ [(t, l)]))" using ur new by (auto simp: used_rep_def)
    show "length (completed q @ [(t, l)]) < 1024" using room by simp
    show "u_idx (used (shm ?vr)) = last_used_idx ?vr + of_nat (length (completed q @ [(t, l)]))"
      by (simp add: idx)
    fix k assume k: "k < length (completed q @ [(t, l)])"
    show "\<exists>c. (fst ((completed q @ [(t, l)]) ! k), c) \<in> set (inflight q) \<and>
        u_ring (used (shm ?vr)) ! unat ((last_used_idx ?vr + of_nat k) AND 1023) =
          \<lparr>ue_id = ucast (hd c), ue_len = snd ((completed q @ [(t, l)]) ! k)\<rparr>"
    proof (cases "k = ?n")
      case True
      with t show ?thesis using slot [of k] by auto
    next
      case False
      with k have "k < ?n" by simp
      with ur slot [of k] False show ?thesis by (auto simp: used_rep_def nth_append)
    qed
  qed
  moreover have "slots_rep ?vr s (inflight q)" by (rule slots_rep_cong [OF sr]) auto
  ultimately show ?thesis using rep by (simp add: vring_rep_def vring_sizes_def)
qed


section \<open>vring_get_task refines taking the oldest completion\<close>

lemma free_chain_chain:
  assumes "desc_chain ds c bs" "c \<noteq> []" "distinct c" "\<forall>i \<in> set c. unat i < length ds \<and> unat i < length ts \<and> ts ! unat i \<noteq> NULL"
  shows "free_chain ds (hd c) ts = Some (release_slots c ts)"
  using assms
proof (induction c arbitrary: bs ts)
  case Nil
  then show ?case by simp
next
  case (Cons i c)
  then obtain b bs' where bs: "bs = b # bs'" by (cases bs) (auto simp: desc_chain_def)
  show ?case
  proof (cases c)
    case Nil
    then show ?thesis
      using Cons.prems desc_chain_single [of ds i bs] by (simp add: free_chain.simps [of ds i] release_slots_def)
  next
    case (Cons j c')
    note chain = desc_chain_Cons [OF Cons.prems(1) [unfolded bs Cons]]
    have "free_chain ds (hd c) (ts[unat i := NULL]) = Some (release_slots c (ts[unat i := NULL]))"
    proof (rule Cons.IH)
      show "desc_chain ds c bs'" using chain(3) Cons by simp
      show "\<forall>k \<in> set c. unat k < length ds \<and> unat k < length (ts[unat i := NULL]) \<and> ts[unat i := NULL] ! unat k \<noteq> NULL"
        using Cons.prems(3,4) by (auto simp: nth_list_update unat_eq_iff)
    qed (use Cons Cons.prems(3) in auto)
    then show ?thesis
      using Cons.prems(4) chain(1,2) Cons by (simp add: free_chain.simps [of ds i] release_slots_def)
  qed
qed


lemma vring_get_empty:
  assumes "vring_rep vr s q" "completed q = []"
  shows "vring_get_task vr s = Some (NULL, vr, s)"
  using assms by (simp add: vring_get_task_def vring_rep_def used_rep_def)

lemma distinct_concat_filter: "distinct (concat (map f xs)) \<Longrightarrow> distinct (concat (map f (filter P xs)))"
  by (induction xs) auto

definition drop_task :: "ptr \<Rightarrow> (ptr \<times> u16 list) list \<Rightarrow> (ptr \<times> u16 list) list" where
  "drop_task t fl = filter (\<lambda>(t', c). t' \<noteq> t) fl"

lemma slots_rep_release:
  assumes sr: "slots_rep vr s fl" and t: "(t, c) \<in> set fl" and sizes: "vring_sizes vr"
  shows "slots_rep (vr\<lparr>tasks := release_slots c (tasks vr), last_used_idx := u\<rparr>)
    (s\<lparr>s_tasks := (s_tasks s)(t \<mapsto> task)\<rparr>) (drop_task t fl)" (is "slots_rep ?vr ?s ?fl")
proof -
  have len: "length (tasks vr) = 1024" using sizes by (simp add: vring_sizes_def)
  have kept: "tasks ?vr ! unat i = tasks vr ! unat i" if "(t', c') \<in> set fl" "t' \<noteq> t" "i \<in> set c'" for t' c' i
  proof -
    have "i \<notin> set c" using slots_rep_owner [OF sr t that(1)] that by auto
    moreover have "unat i < 1024" using slots_repD(1) [OF sr that(1)] that(3) by (simp add: task_in_ring_def)
    ultimately show ?thesis using len by (auto simp: nth_release_slots unat_eq_iff)
  qed
  have "task_in_ring ?vr ?s t' c'" if "(t', c') \<in> set ?fl" for t' c'
  proof -
    from that have fl: "(t', c') \<in> set fl" "t' \<noteq> t" by (auto simp: drop_task_def)
    show ?thesis
      by (rule task_in_ring_cong [OF slots_repD(1) [OF sr fl(1)]]) (use kept [OF fl] fl(2) in auto)
  qed
  moreover have "\<exists>(t', c') \<in> set ?fl. i \<in> unat ` set c'" if "i < 1024" "tasks ?vr ! i \<noteq> NULL" for i
  proof -
    from that len have i: "i \<notin> unat ` set c" "tasks vr ! i \<noteq> NULL" by (auto simp: nth_release_slots split: if_splits)
    with slots_rep_covered [OF sr \<open>i < 1024\<close>]
    obtain t' c' where fl: "(t', c') \<in> set fl" "i \<in> unat ` set c'" by blast
    have "t' \<noteq> t" using sr t fl i by (auto simp: slots_rep_def dest: eq_key_imp_eq_value)
    with fl show ?thesis by (auto simp: drop_task_def)
  qed
  ultimately show ?thesis
    using sr unfolding slots_rep_def drop_task_def
    by (auto intro: distinct_concat_filter simp: distinct_map_filter)
qed

lemma used_rep_tail:
  assumes "used_rep vr fl ((t, l) # dn)"
  shows "used_rep (vr\<lparr>tasks := ts, last_used_idx := last_used_idx vr + 1\<rparr>) (drop_task t fl) dn"
proof -
  have dist: "t \<notin> fst ` set dn" "distinct (map fst dn)" and len: "length dn < 1023"
    and idx: "u_idx (used (shm vr)) = last_used_idx vr + of_nat (Suc (length dn))"
    and elem: "\<And>k. k < Suc (length dn) \<Longrightarrow> \<exists>c. (fst (((t, l) # dn) ! k), c) \<in> set fl \<and>
        u_ring (used (shm vr)) ! unat ((last_used_idx vr + of_nat k) AND 1023) =
          \<lparr>ue_id = ucast (hd c), ue_len = snd (((t, l) # dn) ! k)\<rparr>"
    using assms unfolding used_rep_def by auto
  have "\<exists>c. (fst (dn ! k), c) \<in> set (drop_task t fl) \<and>
      u_ring (used (shm vr)) ! unat ((last_used_idx vr + 1 + of_nat k) AND 1023) =
        \<lparr>ue_id = ucast (hd c), ue_len = snd (dn ! k)\<rparr>" if "k < length dn" for k
  proof -
    have "fst (dn ! k) \<noteq> t" using dist(1) nth_mem [OF that] by force
    then show ?thesis using elem [of "Suc k"] that by (auto simp: drop_task_def add.assoc)
  qed
  then show ?thesis using dist len idx by (simp add: used_rep_def add.assoc)
qed

lemma vring_get_completed:
  assumes rep: "vring_rep vr s q" and q: "completed q = (t, l) # dn"
  shows "t \<noteq> NULL" and "\<exists>vr' task. s_tasks s t = Some task \<and>
    vring_get_task vr s = Some (t, vr', s\<lparr>s_tasks := (s_tasks s)(t \<mapsto> task\<lparr>used_bytes := l\<rparr>)\<rparr>) \<and>
    vring_rep vr' (s\<lparr>s_tasks := (s_tasks s)(t \<mapsto> task\<lparr>used_bytes := l\<rparr>)\<rparr>)
      \<lparr>inflight = drop_task t (inflight q), completed = dn\<rparr>"
proof -
  have sizes: "vring_sizes vr" and sr: "slots_rep vr s (inflight q)"
    and ur: "used_rep vr (inflight q) ((t, l) # dn)" and av: "a_idx (avail (shm vr)) = last_avail_idx vr"
    using rep q by (auto simp: vring_rep_def)
  from ur obtain c where c: "(t, c) \<in> set (inflight q)"
    "u_ring (used (shm vr)) ! unat (last_used_idx vr AND 1023) = \<lparr>ue_id = ucast (hd c), ue_len = l\<rparr>"
    unfolding used_rep_def by (auto dest: spec [of _ 0])
  note in_ring = slots_repD(1) [OF sr c(1)]
  from in_ring obtain task where task: "s_tasks s t = Some task" "vring_idx task = hd c"
    "desc_chain (desc (shm vr)) c (task_bufs task)" and "c \<noteq> []" "t \<noteq> NULL"
    and slots: "\<And>i. i \<in> set c \<Longrightarrow> unat i < 1024 \<and> tasks vr ! unat i = t"
    by (auto simp: task_in_ring_def)
  have hd: "unat (hd c) < 1024" "tasks vr ! unat (hd c) = t" using slots [of "hd c"] \<open>c \<noteq> []\<close> by simp_all
  have chain: "free_chain (desc (shm vr)) (hd c) (tasks vr) = Some (release_slots c (tasks vr))"
    using free_chain_chain [OF task(3) \<open>c \<noteq> []\<close> slots_repD(2) [OF sr c(1)]] slots sizes \<open>t \<noteq> NULL\<close>
    by (auto simp: vring_sizes_def)
  have pending: "last_used_idx vr AND 1023 \<noteq> u_idx (used (shm vr)) AND 1023"
    using ur masked_index_eq [of "length ((t, l) # dn)" "last_used_idx vr"] by (simp add: used_rep_def)
  let ?vr = "vr\<lparr>tasks := release_slots c (tasks vr), last_used_idx := last_used_idx vr + 1\<rparr>"
  let ?s = "s\<lparr>s_tasks := (s_tasks s)(t \<mapsto> task\<lparr>used_bytes := l\<rparr>)\<rparr>"
  have id16: "(ucast (ucast (hd c) :: u32) :: u16) = hd c"
    by (rule bit_word_eqI) (simp add: bit_simps)
  have "length (u_ring (used (shm vr))) = 1024" "length (tasks vr) = 1024"
    using sizes by (simp_all add: vring_sizes_def)
  then have "vring_get_task vr s = Some (t, ?vr, ?s)"
    using pending c(2) hd task(1,2) chain
    by (simp add: vring_get_task_def vring_mask_1023 [OF sizes] id16 Let_def)
  moreover have "vring_rep ?vr ?s \<lparr>inflight = drop_task t (inflight q), completed = dn\<rparr>"
    using slots_rep_release [OF sr c(1) sizes] used_rep_tail [OF ur] sizes av
    by (simp add: vring_rep_def vring_sizes_def)
  ultimately show "\<exists>vr' task. s_tasks s t = Some task \<and> vring_get_task vr s =
      Some (t, vr', s\<lparr>s_tasks := (s_tasks s)(t \<mapsto> task\<lparr>used_bytes := l\<rparr>)\<rparr>) \<and>
    vring_rep vr' (s\<lparr>s_tasks := (s_tasks s)(t \<mapsto> task\<lparr>used_bytes := l\<rparr>)\<rparr>)
      \<lparr>inflight = drop_task t (inflight q), completed = dn\<rparr>" using task(1) by blast
  show "t \<noteq> NULL" by fact
qed



section \<open>vring_put_task refines enqueueing\<close>

definition published :: "u16 \<Rightarrow> vring \<Rightarrow> vring" where
  "published d vr = vr\<lparr>last_avail_idx := last_avail_idx vr + 1,
     shm := (shm vr)\<lparr>avail := (avail (shm vr))\<lparr>
       a_ring := (a_ring (avail (shm vr)))[unat (last_avail_idx vr AND 1023) := d],
       a_idx := last_avail_idx vr + 1\<rparr>\<rparr>\<rparr>"

lemma vring_flush_published:
  assumes "vring_sizes vr" "a_idx (avail (shm vr)) = last_avail_idx vr" "kick_ready vr s"
  shows "\<exists>e. vring_flush vr d s = Some (published d vr, s\<lparr>s_efd := e\<rparr>) \<and>
    (\<forall>k. kick_room (Suc k) vr s \<longrightarrow> kick_room k vr (s\<lparr>s_efd := e\<rparr>))"
proof -
  from assms(3) obtain n where n: "s_efd s (kickfd vr) = Some n" "n + 1 \<le> 2 ^ 64 - 2"
    by (auto simp: kick_ready_def)
  let ?e = "if u_flags (used (shm vr)) AND VRING_USED_F_NO_NOTIFY = 0 then (s_efd s)(kickfd vr \<mapsto> Suc n) else s_efd s"
  have "vring_flush vr d s = Some (published d vr, s\<lparr>s_efd := ?e\<rparr>)"
    using assms(2) n
    by (auto simp: vring_flush_def published_def Let_def vring_mask_1023 [OF assms(1)] eventfd_write_def)
  moreover have "kick_room k vr (s\<lparr>s_efd := ?e\<rparr>)" if "kick_room (Suc k) vr s" for k
    using that n by (auto simp: kick_room_def)
  ultimately show ?thesis by blast
qed

lemma put_inv_chain:
  assumes "put_inv vr0 t task c vr" "length c = count task" "task_wf task"
  shows "desc_chain (desc (shm vr)) c (task_bufs task)"
  using assms by (auto simp: put_inv_def desc_chain_def)

lemma slots_rep_put:
  assumes sr: "slots_rep vr0 s fl" and inv: "put_inv vr0 t task c vr"
    and task: "task_wf task" "0 < count task" "length c = count task"
    and t: "t \<noteq> NULL" "t \<notin> fst ` set fl"
    and s': "s_tasks s' = (s_tasks s)(t \<mapsto> task\<lparr>vring_idx := hd c\<rparr>)"
  shows "slots_rep vr s' (fl @ [(t, c)])"
proof -
  have free: "unat ` set c \<subseteq> free_slots vr0" and dist: "distinct c"
    and tasks: "\<And>i. i < 1024 \<Longrightarrow> tasks vr ! i = (if i \<in> unat ` set c then t else tasks vr0 ! i)"
    and descs: "\<And>i. i < 1024 \<Longrightarrow> i \<notin> unat ` set c \<Longrightarrow> desc (shm vr) ! i = desc (shm vr0) ! i"
    using inv by (auto simp: put_inv_def)
  have other: "unat i < 1024 \<and> unat i \<notin> unat ` set c" if "(t', c') \<in> set fl" "i \<in> set c'" for t' c' i
  proof -
    have "unat i < 1024" "tasks vr0 ! unat i \<noteq> NULL"
      using slots_repD(1) [OF sr that(1)] that(2) by (auto simp: task_in_ring_def)
    moreover from this have "unat i \<notin> free_slots vr0" by (simp add: free_slots_def)
    ultimately show ?thesis using free by blast
  qed
  have "task_in_ring vr s' t' c'" if fl: "(t', c') \<in> set fl" for t' c'
  proof (rule task_in_ring_cong [OF slots_repD(1) [OF sr fl]])
    show "tasks vr ! unat i = tasks vr0 ! unat i" if "i \<in> set c'" for i
      using other [OF fl that] tasks by simp
    show "desc (shm vr) ! unat i = desc (shm vr0) ! unat i" if "i \<in> set c'" for i
      using other [OF fl that] descs by simp
    have "t' \<noteq> t" using t(2) fl by force
    then show "\<exists>task'. s_tasks s' t' = Some task' \<and> task_wf task' = task_wf u \<and>
        vring_idx task' = vring_idx u \<and> task_bufs task' = task_bufs u"
      if "s_tasks s t' = Some u" for u using s' that by simp
  qed
  moreover have "task_in_ring vr s' t c"
    using put_inv_chain [OF inv task(3,1)] free tasks task s' t(1)
    by (auto simp: task_in_ring_def free_slots_def)
  moreover have "set c \<inter> set (concat (map snd fl)) = {}" using other by force
  moreover have "\<exists>(t', c') \<in> set (fl @ [(t, c)]). i \<in> unat ` set c'" if "i < 1024" "tasks vr ! i \<noteq> NULL" for i
    using slots_rep_covered [OF sr \<open>i < 1024\<close>] tasks [OF \<open>i < 1024\<close>] that(2) by (cases "i \<in> unat ` set c") auto
  ultimately show ?thesis
    using sr dist t(2) unfolding slots_rep_def by auto
qed

lemma vring_put_ok:
  assumes rep: "vring_rep vr s q" and task: "s_tasks s t = Some task" "task_wf task" "0 < count task"
    and t: "t \<noteq> NULL" "t \<notin> fst ` set (inflight q)" and kick: "kick_ready vr s"
    and room: "queue_slots q + count task \<le> 1024"
  shows "\<exists>c vr' e. vring_put_task vr t s = Some (0, vr', s\<lparr>s_tasks := (s_tasks s)(t \<mapsto> task\<lparr>vring_idx := hd c\<rparr>), s_efd := e\<rparr>) \<and>
    vring_rep vr' (s\<lparr>s_tasks := (s_tasks s)(t \<mapsto> task\<lparr>vring_idx := hd c\<rparr>), s_efd := e\<rparr>)
      (q\<lparr>inflight := inflight q @ [(t, c)]\<rparr>) \<and>
    length c = count task \<and> avail (shm vr') = avail (shm (published (hd c) vr)) \<and>
    used (shm vr') = used (shm vr) \<and> kickfd vr' = kickfd vr \<and>
    (\<forall>k. kick_room (Suc k) vr s \<longrightarrow> kick_room k vr' (s\<lparr>s_efd := e\<rparr>))"
proof -
  have sizes: "vring_sizes vr" and sr: "slots_rep vr s (inflight q)"
    and ur: "used_rep vr (inflight q) (completed q)" and av: "a_idx (avail (shm vr)) = last_avail_idx vr"
    using rep by (auto simp: vring_rep_def)
  have "count task \<le> card (free_slots vr)" using card_free_slots [OF rep] room by simp
  with put_loop_success [OF put_inv_start [OF sizes] task(2) t(1), of 0]
  obtain c vr1 where c: "put_loop t [0..<count task] [] 0 vr task = Some (0, vr1, if c \<noteq> [] then task\<lparr>vring_idx := hd c\<rparr> else task)"
    "put_inv vr t task c vr1" "length c = count task" by auto
  have ne: "c \<noteq> []" using c(3) task(3) by auto
  have same: "same_rings vr vr1" and sizes1: "vring_sizes vr1" using c(2) by (auto simp: put_inv_def)
  let ?s = "\<lambda>e. s\<lparr>s_tasks := (s_tasks s)(t \<mapsto> task\<lparr>vring_idx := hd c\<rparr>), s_efd := e\<rparr>"
  let ?vr = "published (hd c) vr1"
  obtain e where flush: "vring_flush vr1 (hd c) (?s (s_efd s)) = Some (?vr, ?s e)"
    "\<forall>k. kick_room (Suc k) vr1 (?s (s_efd s)) \<longrightarrow> kick_room k vr1 (?s e)"
    using vring_flush_published [OF sizes1, of "?s (s_efd s)"] same av kick by (auto simp: same_rings_def kick_ready_def)
  have "vring_put_task vr t s = Some (0, ?vr, ?s e)"
    using c(1) ne flush(1) task(1) by (simp add: vring_put_task_def)
  moreover have "slots_rep vr1 (?s e) (inflight q @ [(t, c)])"
    by (rule slots_rep_put [OF sr c(2) task(2,3) c(3) t]) simp
  then have "slots_rep ?vr (?s e) (inflight q @ [(t, c)])"
    by (rule slots_rep_cong) (auto simp: published_def)
  moreover have "used_rep ?vr (inflight q @ [(t, c)]) (completed q)"
    using ur same by (fastforce simp: used_rep_def published_def same_rings_def)
  moreover have "vring_sizes ?vr" using sizes1 by (simp add: vring_sizes_def published_def)
  moreover have "\<forall>k. kick_room (Suc k) vr s \<longrightarrow> kick_room k ?vr (s\<lparr>s_efd := e\<rparr>)"
    using flush(2) same by (simp add: kick_room_def published_def same_rings_def)
  ultimately show ?thesis
    using c(3) same
    by (intro exI [of _ c] exI [of _ ?vr] exI [of _ e]) (simp add: vring_rep_def published_def same_rings_def)
qed

lemma vring_put_full:
  assumes rep: "vring_rep vr s q" and task: "s_tasks s t = Some task" "task_wf task"
    and t: "t \<noteq> NULL" "t \<notin> fst ` set (inflight q)" and full: "1024 < queue_slots q + count task"
  shows "\<exists>vr' x. vring_put_task vr t s = Some (-1, vr', s\<lparr>s_tasks := (s_tasks s)(t \<mapsto> task\<lparr>vring_idx := x\<rparr>)\<rparr>) \<and>
    vring_rep vr' (s\<lparr>s_tasks := (s_tasks s)(t \<mapsto> task\<lparr>vring_idx := x\<rparr>)\<rparr>) q \<and>
    tasks vr' = tasks vr \<and> same_rings vr vr'"
proof -
  have sizes: "vring_sizes vr" and sr: "slots_rep vr s (inflight q)"
    and ur: "used_rep vr (inflight q) (completed q)" and av: "a_idx (avail (shm vr)) = last_avail_idx vr"
    using rep by (auto simp: vring_rep_def)
  have "card (free_slots vr) < count task" using card_free_slots [OF rep] full by simp
  with put_loop_full [OF put_inv_start [OF sizes] task(2) t(1) sizes, of 0]
  obtain vr' x where p: "put_loop t [0..<count task] [] 0 vr task = Some (-1, vr', task\<lparr>vring_idx := x\<rparr>)"
    "put_undone vr vr'" by auto
  let ?s = "s\<lparr>s_tasks := (s_tasks s)(t \<mapsto> task\<lparr>vring_idx := x\<rparr>)\<rparr>"
  have "slots_rep vr' ?s (inflight q)"
  proof (rule slots_rep_cong [OF sr])
    show "desc (shm vr') ! i = desc (shm vr) ! i" if "i < 1024" "tasks vr ! i \<noteq> NULL" for i
      using p(2) that by (simp add: put_undone_def free_slots_def)
  qed (use p(2) t(2) in \<open>auto simp: put_undone_def\<close>)
  moreover have "used_rep vr' (inflight q) (completed q)"
    using ur p(2) by (simp add: used_rep_def put_undone_def same_rings_def)
  ultimately show ?thesis
    using p task(1) av by (intro exI [of _ vr'] exI [of _ x])
      (simp add: vring_put_task_def vring_rep_def put_undone_def same_rings_def)
qed



section \<open>The interface of the ring\<close>

text \<open>
  What the clients of the ring (the poller and the device layer) rely on. \<open>ready r s t n\<close>:
  task \<open>t\<close> has \<open>n\<close> buffers and may be submitted.
\<close>

locale task_ring =
  fixes rep :: "'r \<Rightarrow> 's \<Rightarrow> vqueue \<Rightarrow> bool"
    and ready :: "'r \<Rightarrow> 's \<Rightarrow> ptr \<Rightarrow> nat \<Rightarrow> bool"
    and put :: "'r \<Rightarrow> ptr \<Rightarrow> 's \<Rightarrow> (int \<times> 'r \<times> 's) option"
    and complete :: "u16 \<Rightarrow> u32 \<Rightarrow> 'r \<Rightarrow> 'r"
    and get :: "'r \<Rightarrow> 's \<Rightarrow> (ptr \<times> 'r \<times> 's) option"
    and announced :: "'r \<Rightarrow> u16"
  assumes put_ok: "rep r s q \<Longrightarrow> ready r s t n \<Longrightarrow> t \<notin> fst ` set (inflight q) \<Longrightarrow> queue_slots q + n \<le> 1024 \<Longrightarrow>
      \<exists>c r' s'. put r t s = Some (0, r', s') \<and> length c = n \<and> announced r' = hd c \<and>
        rep r' s' (q\<lparr>inflight := inflight q @ [(t, c)]\<rparr>)"
    and put_full: "rep r s q \<Longrightarrow> ready r s t n \<Longrightarrow> t \<notin> fst ` set (inflight q) \<Longrightarrow> 1024 < queue_slots q + n \<Longrightarrow>
      \<exists>r' s'. put r t s = Some (-1, r', s') \<and> rep r' s' q"
    and complete_ok: "rep r s q \<Longrightarrow> (t, c) \<in> set (inflight q) \<Longrightarrow> t \<notin> fst ` set (completed q) \<Longrightarrow>
      length (completed q) < 1023 \<Longrightarrow> rep (complete (hd c) l r) s (q\<lparr>completed := completed q @ [(t, l)]\<rparr>)"
    and get_empty: "rep r s q \<Longrightarrow> completed q = [] \<Longrightarrow> get r s = Some (NULL, r, s)"
    and get_next: "rep r s q \<Longrightarrow> completed q = (t, l) # dn \<Longrightarrow>
      \<exists>r' s'. get r s = Some (t, r', s') \<and> t \<noteq> NULL \<and>
        rep r' s' \<lparr>inflight = drop_task t (inflight q), completed = dn\<rparr>"
begin

lemma drop_task_fresh: "t \<notin> fst ` set fl \<Longrightarrow> drop_task t fl = fl"
  by (force simp: drop_task_def intro: filter_True)

lemma drop_task_append: "t \<notin> fst ` set fl \<Longrightarrow> drop_task t (fl @ [(t, c)]) = fl"
  using drop_task_fresh [of t fl] by (simp add: drop_task_def)

text \<open>Submit, completion by the server, pick-up: the task comes back and the queue is as before.\<close>

lemma submit_complete_get:
  assumes "rep r s q" "ready r s t n" "t \<notin> fst ` set (inflight q)" "queue_slots q + n \<le> 1024"
    "completed q = []"
  shows "\<exists>r1 s1 r2 s2. put r t s = Some (0, r1, s1) \<and>
    get (complete (announced r1) l r1) s1 = Some (t, r2, s2) \<and> rep r2 s2 q"
proof -
  from put_ok [OF assms(1-4)] obtain c r1 s1 where put: "put r t s = Some (0, r1, s1)" "announced r1 = hd c"
    "rep r1 s1 (q\<lparr>inflight := inflight q @ [(t, c)]\<rparr>)" by blast
  from complete_ok [OF put(3), of t c l] assms(5)
  have "rep (complete (hd c) l r1) s1 \<lparr>inflight = inflight q @ [(t, c)], completed = [(t, l)]\<rparr>" by (cases q) simp
  from get_next [OF this] obtain r2 s2 where "get (complete (hd c) l r1) s1 = Some (t, r2, s2)"
    "rep r2 s2 \<lparr>inflight = inflight q, completed = []\<rparr>" by (auto simp: drop_task_append [OF assms(3)])
  moreover have "\<lparr>inflight = inflight q, completed = []\<rparr> = q" using assms(5) by (cases q) simp
  ultimately show ?thesis using put by metis
qed

text \<open>A submission that the ring refuses leaves every other task where it was.\<close>

lemma refused_then_get:
  assumes "rep r s q" "ready r s t n" "t \<notin> fst ` set (inflight q)" "1024 < queue_slots q + n"
    "completed q = (u, l) # dn"
  shows "\<exists>r1 s1 r2 s2. put r t s = Some (-1, r1, s1) \<and> get r1 s1 = Some (u, r2, s2)"
  using put_full [OF assms(1-4)] get_next [OF _ assms(5)] by blast

end

definition submittable :: "vring \<Rightarrow> sys \<Rightarrow> ptr \<Rightarrow> nat \<Rightarrow> bool" where
  "submittable vr s t n \<longleftrightarrow> t \<noteq> NULL \<and> kick_ready vr s \<and> 0 < n \<and>
     (\<exists>task. s_tasks s t = Some task \<and> task_wf task \<and> count task = n)"

text \<open>The last head that was put into the avail ring.\<close>

definition last_announced :: "vring \<Rightarrow> u16" where
  "last_announced vr = a_ring (avail (shm vr)) ! unat ((a_idx (avail (shm vr)) - 1) AND 1023)"

interpretation vq: task_ring vring_rep submittable vring_put_task "\<lambda>h l. used_push (ucast h) l"
  vring_get_task last_announced
proof
  fix vr s q t n
  assume *: "vring_rep vr s q" "submittable vr s t n" "t \<notin> fst ` set (inflight q)" "queue_slots q + n \<le> 1024"
  then obtain c vr' e task where put: "vring_put_task vr t s = Some (0, vr', s\<lparr>s_tasks := (s_tasks s)(t \<mapsto> task\<lparr>vring_idx := hd c\<rparr>), s_efd := e\<rparr>)"
    "vring_rep vr' (s\<lparr>s_tasks := (s_tasks s)(t \<mapsto> task\<lparr>vring_idx := hd c\<rparr>), s_efd := e\<rparr>) (q\<lparr>inflight := inflight q @ [(t, c)]\<rparr>)"
    "length c = n" "avail (shm vr') = avail (shm (published (hd c) vr))"
    unfolding submittable_def using vring_put_ok [of vr s q t] by meson
  moreover have "length (a_ring (avail (shm vr))) = 1024" using *(1) by (simp add: vring_rep_def vring_sizes_def)
  ultimately show "\<exists>c vr' s'. vring_put_task vr t s = Some (0, vr', s') \<and> length c = n \<and> last_announced vr' = hd c \<and>
      vring_rep vr' s' (q\<lparr>inflight := inflight q @ [(t, c)]\<rparr>)"
    by (auto simp: last_announced_def published_def intro!: exI [of _ c] exI [of _ vr'])
next
  fix vr s q t n
  assume "vring_rep vr s q" "submittable vr s t n" "t \<notin> fst ` set (inflight q)" "1024 < queue_slots q + n"
  then show "\<exists>vr' s'. vring_put_task vr t s = Some (-1, vr', s') \<and> vring_rep vr' s' q"
    unfolding submittable_def using vring_put_full [of vr s q t] by metis
next
  fix vr s q t l dn
  assume *: "vring_rep vr s q" "completed q = (t, l) # dn"
  from vring_get_completed [OF *]
  show "\<exists>vr' s'. vring_get_task vr s = Some (t, vr', s') \<and> t \<noteq> NULL \<and>
      vring_rep vr' s' \<lparr>inflight = drop_task t (inflight q), completed = dn\<rparr>" by blast
qed (auto intro: used_push_rep vring_get_empty)



section \<open>The ring after creation\<close>

definition empty_queue :: vqueue where
  "empty_queue = \<lparr>inflight = [], completed = []\<rparr>"

lemma vring_rep_initial:
  "tasks vr = replicate 1024 NULL \<Longrightarrow> shm vr = vhost_vring_zero \<Longrightarrow> num vr = 1024 \<Longrightarrow>
   last_avail_idx vr = 0 \<Longrightarrow> last_used_idx vr = 0 \<Longrightarrow> task_idx vr = 0 \<Longrightarrow> vring_rep vr s empty_queue"
  by (simp add: vring_rep_def vring_sizes_def slots_rep_def used_rep_def empty_queue_def
      vhost_vring_zero_def VHOST_VRING_SIZE_def)

lemma eventfd_cases:
  assumes "eventfd s = (fd, s')"
  obtains (failed) "fd = -1" "s' = s"
    | (opened) "0 \<le> fd" "s_efd s fd = None" "s' = s\<lparr>s_efd := (s_efd s)(fd \<mapsto> 0)\<rparr>"
proof (cases "filter (\<lambda>fd. s_efd s fd = None) [0..FD_LIMIT - 1]")
  case Nil
  with assms that(1) show ?thesis by (simp add: eventfd_def)
next
  case (Cons f fs)
  then have "f \<in> set (filter (\<lambda>fd. s_efd s fd = None) [0..FD_LIMIT - 1])" by simp
  then have "0 \<le> f" "s_efd s f = None" by auto
  with Cons assms that(2) show ?thesis by (auto simp: eventfd_def)
qed

lemma zalloc_shared_buf_cases:
  assumes "rte_malloc_spec rm" "zalloc_shared_buf rm sz al s = (p, s')"
  obtains (failed) "p = NULL" "s' = s"
    | (got) m where "p \<noteq> NULL" "p \<notin> fst ` set (s_blocks s)"
        "s' = s\<lparr>s_blocks := (p, to_size sz) # s_blocks s, s_mem := m\<rparr>"
proof -
  obtain q s1 where a: "alloc_shared_buf rm sz al s = (q, s1)" by fastforce
  with assms(2) have p: "p = q" "s' = (if q \<noteq> NULL then s1\<lparr>s_mem := memset q 0 (to_size sz) (s_mem s1)\<rparr> else s1)"
    by (auto simp: zalloc_shared_buf_def split: if_splits)
  from a show ?thesis
  proof (cases rule: alloc_shared_buf_cases)
    case failed
    with p that(1) show ?thesis by simp
  next
    case got
    with alloc_shared_buf_fresh(1) [OF assms(1) a] p that(2) show ?thesis by simp
  qed
qed

lemma vring_create_cases:
  assumes "rte_malloc_spec rm" "vring_create rm s = (r, s')"
  obtains (failed) "r = None" "s_blocks s' = s_blocks s" "s_efd s' = s_efd s"
    | (created) vr m where "r = Some vr" "vring_rep vr s' empty_queue"
        "s_efd s (kickfd vr) = None" "s_efd s (callfd vr) = None" "kickfd vr \<noteq> callfd vr"
        "vring_shm vr \<noteq> NULL" "vring_shm vr \<notin> fst ` set (s_blocks s)"
        "s' = s\<lparr>s_nalloc := Suc (s_nalloc s), s_blocks := (vring_shm vr, sizeof_vhost_vring) # s_blocks s,
              s_mem := m, s_efd := (s_efd s)(kickfd vr \<mapsto> 0, callfd vr \<mapsto> 0)\<rparr>"
proof -
  let ?s = "s\<lparr>s_nalloc := Suc (s_nalloc s)\<rparr>"
  obtain p s2 where z: "zalloc_shared_buf rm (int sizeof_vhost_vring) 0 ?s = (p, s2)" by fastforce
  obtain kick s3 where k: "eventfd s2 = (kick, s3)" by fastforce
  obtain call s4 where c: "eventfd s3 = (call, s4)" by fastforce
  have sz: "to_size (int sizeof_vhost_vring) = sizeof_vhost_vring"
    by (simp add: sizeof_vhost_vring_def to_size_def)
  show ?thesis
  proof (cases "s_oom s (s_nalloc s)")
    case True
    with assms(2) that(1) show ?thesis by (auto simp: vring_create_def c_alloc_def)
  next
    case ok: False
    from assms(1) z show ?thesis
    proof (cases rule: zalloc_shared_buf_cases)
      case failed
      with ok z assms(2) that(1) show ?thesis by (auto simp: vring_create_def c_alloc_def)
    next
      case shm: (got m)
      from k show ?thesis
      proof (cases rule: eventfd_cases)
        case failed
        with ok z k shm assms(2) that(1) show ?thesis
          by (auto simp: vring_create_def c_alloc_def free_shared_buf_def filter_fresh_block)
      next
        case kick: opened
        from c show ?thesis
        proof (cases rule: eventfd_cases)
          case failed
          with ok z k c shm kick assms(2) that(1) show ?thesis
            by (auto simp: vring_create_def c_alloc_def free_shared_buf_def filter_fresh_block close_efd_def)
        next
          case call: opened
          let ?vr = "\<lparr>kickfd = kick, callfd = call, vring_shm = p, shm = vhost_vring_zero, num = 1024,
              free_count = 0, last_avail_idx = 0, last_used_idx = 0, tasks = replicate 1024 NULL, task_idx = 0\<rparr>"
          have "(r, s') = (Some ?vr, s4)"
            using ok z k c shm(1) kick(1) call(1) assms(2)
            by (simp add: vring_create_def c_alloc_def VHOST_VRING_SIZE_def vhost_vring_zero_def)
          moreover have "vring_rep ?vr s4 empty_queue" by (rule vring_rep_initial) simp_all
          moreover have "kick \<noteq> call" using kick call by auto
          ultimately show ?thesis
            using shm kick call by (intro that(2) [of ?vr m]) (simp_all add: sz)
        qed
      qed
    qed
  qed
qed

end
