(* ===== verification/Vring_Theorems.thy ===== *)
theory Vring_Theorems
  imports Vring_Refine
begin

text \<open>
  What the ring component guarantees, stated over the operations themselves, with a concrete
  ring and task on which each statement is instantiated.
\<close>

definition example_buffer :: "ptr \<Rightarrow> nat \<Rightarrow> bool \<Rightarrow> virtio_buffer" where
  "example_buffer p n r = \<lparr>vb_buf = p, vb_size = n, vb_response = r, vb_copy = True,
     vb_offset_from = 0, vb_offset_to = n\<rparr>"

definition example_task :: virtio_task where
  "example_task = \<lparr>vbufs = [Some (example_buffer 8192 51 False), Some (example_buffer 16384 108 True)],
     count = 2, limit = 2, vring_idx = 0, used_bytes = 0, cb = None, arg = NULL\<rparr>"

text \<open>A task with more buffers than the ring has slots.\<close>

definition example_big_task :: virtio_task where
  "example_big_task = \<lparr>vbufs = replicate 1025 (Some (example_buffer 8192 51 False)),
     count = 1025, limit = 1025, vring_idx = 0, used_bytes = 0, cb = None, arg = NULL\<rparr>"

definition example_sys :: sys where
  "example_sys = \<lparr>s_mem = (\<lambda>_. 0), s_blocks = [], s_tasks = [100 \<mapsto> example_task, 101 \<mapsto> example_big_task],
     s_next = 200, s_nalloc = 0, s_oom = (\<lambda>_. False), s_efd = [3 \<mapsto> 0, 4 \<mapsto> 0]\<rparr>"

definition example_ring :: vring where
  "example_ring = \<lparr>kickfd = 3, callfd = 4, vring_shm = 4096, shm = vhost_vring_zero, num = 1024,
     free_count = 0, last_avail_idx = 0, last_used_idx = 0, tasks = replicate 1024 NULL, task_idx = 0\<rparr>"

text \<open>The same ring with the example task published in slots 5 and 6 and completed by the server.\<close>

definition example_done_ring :: vring where
  "example_done_ring = example_ring\<lparr>
     tasks := (replicate 1024 NULL)[5 := 100, 6 := 100],
     shm := vhost_vring_zero\<lparr>
       desc := (desc vhost_vring_zero)
         [5 := \<lparr>d_addr = 8192, d_len = 51, d_flags = 1, d_next = 6\<rparr>,
          6 := \<lparr>d_addr = 16384, d_len = 108, d_flags = 2, d_next = 0\<rparr>],
       used := \<lparr>u_flags = 0, u_idx = 1,
         u_ring = (replicate 1024 \<lparr>ue_id = 0, ue_len = 0\<rparr>)[0 := \<lparr>ue_id = 5, ue_len = 108\<rparr>]\<rparr>\<rparr>\<rparr>"

definition example_done_sys :: sys where
  "example_done_sys = example_sys\<lparr>s_tasks := [100 \<mapsto> example_task\<lparr>vring_idx := 5\<rparr>]\<rparr>"

lemma example_rep: "vring_rep example_ring s empty_queue"
  by (rule vring_rep_initial) (simp_all add: example_ring_def)

lemma example_queue [simp]: "queue_slots empty_queue = 0" "inflight empty_queue = []" "completed empty_queue = []"
  by (simp_all add: queue_slots_def empty_queue_def)

lemma example_task_facts:
  "task_wf example_task" "count example_task = 2" "s_tasks example_sys 100 = Some example_task"
  by (auto simp: example_task_def task_wf_def example_sys_def less_Suc_eq numeral_2_eq_2)

lemma example_blocks: "s_blocks example_sys = []"
  by (simp add: example_sys_def)

lemma example_big_task_facts:
  "task_wf example_big_task" "count example_big_task = 1025" "s_tasks example_sys 101 = Some example_big_task"
  by (simp_all add: example_big_task_def task_wf_def example_sys_def)

lemma example_kick: "kick_ready example_ring example_sys"
  by (simp add: kick_ready_def example_ring_def example_sys_def)

lemma example_submittable: "submittable example_ring example_sys 100 2"
  using example_task_facts example_kick by (simp add: submittable_def)

definition example_done_queue :: vqueue where
  "example_done_queue = \<lparr>inflight = [(100, [5, 6])], completed = [(100, 108)]\<rparr>"

lemma example_done_chain:
  "desc_chain (desc (shm example_done_ring)) [5, 6] (task_bufs (example_task\<lparr>vring_idx := 5\<rparr>))"
  by (auto simp: desc_chain_def example_done_ring_def vhost_vring_zero_def VHOST_VRING_SIZE_def task_bufs_def
      example_task_def example_buffer_def desc_holds_def less_Suc_eq VIRTIO_DESC_F_WRITE_def VIRTIO_DESC_F_NEXT_def)

lemma example_done_slots: "slots_rep example_done_ring example_done_sys [(100, [5, 6])]"
proof -
  have "task_in_ring example_done_ring example_done_sys 100 [5, 6]"
    unfolding task_in_ring_def
  proof (intro conjI)
    show "\<forall>i \<in> set [5, 6]. unat i < 1024 \<and> tasks example_done_ring ! unat (i :: u16) = 100"
      by (simp add: example_done_ring_def)
    show "\<exists>task. s_tasks example_done_sys 100 = Some task \<and> task_wf task \<and> vring_idx task = hd [5, 6] \<and>
        desc_chain (desc (shm example_done_ring)) [5, 6] (task_bufs task)"
      using example_done_chain example_task_facts(1)
      by (intro exI [of _ "example_task\<lparr>vring_idx := 5\<rparr>"]) (simp add: example_done_sys_def)
  qed simp_all
  moreover have "i = 5 \<or> i = 6" if "i < 1024" "tasks example_done_ring ! i \<noteq> NULL" for i
    using that by (auto simp: example_done_ring_def nth_list_update split: if_splits)
  ultimately show ?thesis by (auto simp: slots_rep_def)
qed

lemma example_done_rep: "vring_rep example_done_ring example_done_sys example_done_queue"
  using example_done_slots
  by (simp add: vring_rep_def example_done_queue_def used_rep_def)
    (auto simp: vring_sizes_def example_done_ring_def example_ring_def vhost_vring_zero_def VHOST_VRING_SIZE_def)



lemma slots_rep_tasks_unique:
  assumes "slots_rep vr s fl" "slots_rep vr' s' fl" "vring_sizes vr" "vring_sizes vr'"
  shows "tasks vr = tasks vr'"
proof (rule nth_equalityI)
  show "length (tasks vr) = length (tasks vr')" using assms(3,4) by (simp add: vring_sizes_def)
  fix i assume "i < length (tasks vr)"
  then have i: "i < 1024" using assms(3) by (simp add: vring_sizes_def)
  have owner: "tasks vr ! i = t \<and> tasks vr' ! i = t" if "(t, c) \<in> set fl" "i \<in> unat ` set c" for t c
    using slots_repD(1) [OF assms(1) that(1)] slots_repD(1) [OF assms(2) that(1)] that(2)
    by (auto simp: task_in_ring_def)
  show "tasks vr ! i = tasks vr' ! i"
    using slots_rep_covered [OF assms(1) i] slots_rep_covered [OF assms(2) i] owner by metis
qed


section \<open>Theorems\<close>

text \<open>
  C1. Enqueueing refines the queue specification: when the ring has a free slot for every buffer
  of a well-formed task that is not in flight, \<open>vring_put_task\<close> returns 0, the task is in flight
  with a chain of as many slots as it has buffers, the head of the chain is stored at the avail
  index and the avail index advances by one (modulo \<open>2 ^ 16\<close>).
\<close>

theorem vring_put_task_enqueues:
  assumes "vring_rep vr s q" "s_tasks s t = Some task" "task_wf task" "0 < count task"
    "t \<noteq> NULL" "t \<notin> fst ` set (inflight q)" "kick_ready vr s" "queue_slots q + count task \<le> 1024"
  shows "\<exists>c vr' s'. vring_put_task vr t s = Some (0, vr', s') \<and>
    vring_rep vr' s' (q\<lparr>inflight := inflight q @ [(t, c)]\<rparr>) \<and> length c = count task \<and>
    a_ring (avail (shm vr')) = (a_ring (avail (shm vr)))[unat (last_avail_idx vr AND 1023) := hd c] \<and>
    a_idx (avail (shm vr')) = last_avail_idx vr + 1"
  using vring_put_ok [OF assms] by (fastforce simp: published_def)

theorem vring_put_task_enqueues_witness:
  "\<exists>c vr' s'. vring_put_task example_ring 100 example_sys = Some (0, vr', s') \<and>
    vring_rep vr' s' (empty_queue\<lparr>inflight := [(100, c)]\<rparr>) \<and> length c = 2 \<and>
    a_ring (avail (shm vr')) = (a_ring (avail (shm example_ring)))[unat (last_avail_idx example_ring AND 1023) := hd c] \<and>
    a_idx (avail (shm vr')) = last_avail_idx example_ring + 1"
  using vring_put_task_enqueues [OF example_rep example_task_facts(3,1), simplified example_task_facts, OF _ _ _ example_kick]
  by simp

text \<open>
  C3. When the ring has too few free slots for the whole task, \<open>vring_put_task\<close> returns -1,
  every slot it had claimed is free again, both rings and their indices are untouched, and the
  ring still represents the same queue: no task in flight is disturbed.
\<close>

theorem vring_put_task_full_restores:
  assumes "vring_rep vr s q" "s_tasks s t = Some task" "task_wf task"
    "t \<noteq> NULL" "t \<notin> fst ` set (inflight q)" "1024 < queue_slots q + count task"
  shows "\<exists>vr' s'. vring_put_task vr t s = Some (-1, vr', s') \<and> vring_rep vr' s' q \<and>
    tasks vr' = tasks vr \<and> avail (shm vr') = avail (shm vr) \<and> used (shm vr') = used (shm vr) \<and>
    last_avail_idx vr' = last_avail_idx vr"
  using vring_put_full [OF assms] by (fastforce simp: same_rings_def)

theorem vring_put_task_full_restores_witness:
  "\<exists>vr' s'. vring_put_task example_ring 101 example_sys = Some (-1, vr', s') \<and> vring_rep vr' s' empty_queue \<and>
    tasks vr' = tasks example_ring \<and> avail (shm vr') = avail (shm example_ring) \<and>
    used (shm vr') = used (shm example_ring) \<and> last_avail_idx vr' = last_avail_idx example_ring"
  using vring_put_task_full_restores [OF example_rep example_big_task_facts(3,1)] example_big_task_facts(2) by simp

text \<open>
  C2. Dequeueing refines the queue specification: when the server has reported completions,
  \<open>vring_get_task\<close> returns the task of the oldest one with the byte count the server wrote,
  passes its assertions, and frees exactly the slots of that task.
\<close>

theorem vring_get_task_dequeues:
  assumes "vring_rep vr s q" "completed q = (t, l) # dn"
  shows "\<exists>vr' s' task'. vring_get_task vr s = Some (t, vr', s') \<and> s_tasks s' t = Some task' \<and>
    used_bytes task' = l \<and> vring_rep vr' s' \<lparr>inflight = drop_task t (inflight q), completed = dn\<rparr>"
proof -
  from vring_get_completed(2) [OF assms] obtain vr' task where g: "s_tasks s t = Some task"
    "vring_get_task vr s = Some (t, vr', s\<lparr>s_tasks := (s_tasks s)(t \<mapsto> task\<lparr>used_bytes := l\<rparr>)\<rparr>)"
    "vring_rep vr' (s\<lparr>s_tasks := (s_tasks s)(t \<mapsto> task\<lparr>used_bytes := l\<rparr>)\<rparr>)
      \<lparr>inflight = drop_task t (inflight q), completed = dn\<rparr>" by blast
  then show ?thesis
    by (intro exI [of _ vr'] exI [of _ "s\<lparr>s_tasks := (s_tasks s)(t \<mapsto> task\<lparr>used_bytes := l\<rparr>)\<rparr>"]
        exI [of _ "task\<lparr>used_bytes := l\<rparr>"]) simp
qed

theorem vring_get_task_dequeues_witness:
  "\<exists>vr' s' task'. vring_get_task example_done_ring example_done_sys = Some (100, vr', s') \<and>
    s_tasks s' 100 = Some task' \<and> used_bytes task' = 108 \<and> vring_rep vr' s' empty_queue"
  using vring_get_task_dequeues [OF example_done_rep, of 100 108 "[]"]
  by (simp add: example_done_queue_def drop_task_def empty_queue_def)

text \<open>
  C4. Round trip: a task put into the ring, completed by the server under the head it finds in the
  avail ring, and fetched, comes back as
  itself and leaves the slot array and the specification's queue exactly as they were.
\<close>

theorem vring_put_complete_get:
  assumes "vring_rep vr s q" "submittable vr s t n" "t \<notin> fst ` set (inflight q)"
    "queue_slots q + n \<le> 1024" "completed q = []"
  shows "\<exists>vr1 s1 vr2 s2. vring_put_task vr t s = Some (0, vr1, s1) \<and>
    vring_get_task (used_push (ucast (last_announced vr1)) l vr1) s1 = Some (t, vr2, s2) \<and>
    vring_rep vr2 s2 q \<and> tasks vr2 = tasks vr"
proof -
  from vq.submit_complete_get [OF assms] obtain vr1 s1 vr2 s2 where
    r: "vring_put_task vr t s = Some (0, vr1, s1)"
    "vring_get_task (used_push (ucast (last_announced vr1)) l vr1) s1 = Some (t, vr2, s2)" "vring_rep vr2 s2 q" by blast
  then have "tasks vr2 = tasks vr"
    using slots_rep_tasks_unique [of vr2 s2 "inflight q" vr s] assms(1) by (simp add: vring_rep_def)
  with r show ?thesis by blast
qed

theorem vring_put_complete_get_witness:
  "\<exists>vr1 s1 vr2 s2. vring_put_task example_ring 100 example_sys = Some (0, vr1, s1) \<and>
    vring_get_task (used_push (ucast (last_announced vr1)) 108 vr1) s1 = Some (100, vr2, s2) \<and>
    vring_rep vr2 s2 empty_queue \<and> tasks vr2 = tasks example_ring"
  using vring_put_complete_get [OF example_rep example_submittable] by simp

text \<open>
  C6. \<open>vring_get_task\<close> compares the indices modulo the ring size, so it reports nothing when
  the server is exactly 1024 completions ahead (1024 tasks of one buffer each, all done).
\<close>

theorem vring_get_task_misses_full_lap:
  assumes "vring_sizes vr" "u_idx (used (shm vr)) = last_used_idx vr + 1024"
  shows "vring_get_task vr s = Some (NULL, vr, s)"
proof -
  have "last_used_idx vr AND 1023 = (last_used_idx vr + 1024) AND 1023"
  proof (rule unat_eq_iff [THEN iffD1])
    have "unat ((last_used_idx vr + 1024) AND 1023) = (unat (last_used_idx vr) + 1024) mod 2 ^ 16 mod 1024"
      by (simp add: unat_and_1023 unat_word_ariths)
    also have "\<dots> = unat (last_used_idx vr AND 1023)" by (simp add: mod_mod_cancel unat_and_1023)
    finally show "unat (last_used_idx vr AND 1023) = unat ((last_used_idx vr + 1024) AND 1023)" ..
  qed
  then show ?thesis using assms by (simp add: vring_get_task_def vring_mask_1023)
qed

theorem vring_get_task_misses_full_lap_witness:
  "vring_get_task (example_ring\<lparr>shm := vhost_vring_zero\<lparr>used := (used vhost_vring_zero)\<lparr>u_idx := 1024\<rparr>\<rparr>\<rparr>) example_sys
   = Some (NULL, example_ring\<lparr>shm := vhost_vring_zero\<lparr>used := (used vhost_vring_zero)\<lparr>u_idx := 1024\<rparr>\<rparr>\<rparr>, example_sys)"
  by (rule vring_get_task_misses_full_lap)
    (simp_all add: example_ring_def vring_sizes_def vhost_vring_zero_def VHOST_VRING_SIZE_def)

text \<open>
  C7. \<open>vring_create\<close> either fails and leaves no shared block and no event descriptor behind, or
  returns a ring that represents the empty queue; \<open>vring_destroy\<close> then gives everything back.
\<close>

theorem vring_create_destroy:
  assumes "rte_malloc_spec rm" "vring_create rm s = (r, s')"
  shows "case r of
      None \<Rightarrow> s_blocks s' = s_blocks s \<and> s_efd s' = s_efd s
    | Some vr \<Rightarrow> vring_rep vr s' empty_queue \<and> kick_ready vr s' \<and>
        s_blocks (vring_destroy vr s') = s_blocks s \<and> s_efd (vring_destroy vr s') = s_efd s"
  using assms
proof (cases rule: vring_create_cases)
  case failed
  then show ?thesis by simp
next
  case (created vr m)
  then show ?thesis
    using filter_fresh_block [OF created(7)]
    by (auto simp: vring_destroy_def close_efd_def free_shared_buf_def kick_ready_def fun_upd_twist)
qed

theorem vring_create_destroy_witness:
  "case fst (vring_create bump_malloc example_sys) of
      None \<Rightarrow> s_blocks (snd (vring_create bump_malloc example_sys)) = [] \<and>
        s_efd (snd (vring_create bump_malloc example_sys)) = s_efd example_sys
    | Some vr \<Rightarrow> vring_rep vr (snd (vring_create bump_malloc example_sys)) empty_queue \<and>
        kick_ready vr (snd (vring_create bump_malloc example_sys)) \<and>
        s_blocks (vring_destroy vr (snd (vring_create bump_malloc example_sys))) = [] \<and>
        s_efd (vring_destroy vr (snd (vring_create bump_malloc example_sys))) = s_efd example_sys"
  using vring_create_destroy [OF bump_malloc_spec prod.collapse [symmetric], of example_sys]
  unfolding example_blocks .

end
