(* ===== verification/Vring_Poller.thy ===== *)
theory Vring_Poller
  imports Vring_Theorems
begin

text \<open>
  \<open>src/vring_poller.c\<close>: the thread that picks up completed tasks and calls their callbacks, its
  adaptive sleep interval, and the submission of tasks, asynchronous and synchronous.

  The state \<open>pworld\<close> holds the request ring, the process memory, the poller object, the
  condition variables that were signalled, and the state \<open>w_srv\<close> of the vhost server. The
  server is a separate program: its action on the ring, the shared memory and its own state is a
  parameter \<open>serve\<close>. Callbacks are dispatched through the parameter \<open>cbs\<close>, from the
  function stored in the task to its effect; the record is extended by the device layer.

  One execution of the body of the thread's outer loop is \<open>poll_iteration\<close>. What happens in the
  other threads, in the server and in the clock between two iterations is the list of
  \<open>poll_input\<close>s that \<open>vring_poll\<close> consumes. The inner loop is bounded by fuel;
  \<open>drain_complete\<close> shows that one more than the number of completions is enough.
  The sources are modelled as built by default, with \<open>POLL_DELAY\<close> undefined.
\<close>

definition SLEEP_MIN :: int where "SLEEP_MIN = 5"
definition SLEEP_MAX :: int where "SLEEP_MAX = 150"
definition SLEEP_DELTA_MAX :: int where "SLEEP_DELTA_MAX = drop_bit 1 (SLEEP_MAX - SLEEP_MIN)"
definition IOPS_HIGH :: u32 where "IOPS_HIGH = 120000"

text \<open>\<open>iops\<close> is \<open>None\<close> until it is first assigned: the object comes from \<open>malloc\<close>.\<close>

record vring_poller =
  tid :: nat
  end_flag :: bool
  iops :: "u32 option"
  sleepy_poll :: bool
  sleep :: int
  sleep_delta :: int

record 'd pworld =
  w_ring :: vring
  w_sys :: sys
  w_poller :: vring_poller
  w_woken :: "ptr list"
  w_srv :: 'd

type_synonym ('d, 'z) callbacks =
  "task_cb \<Rightarrow> ptr \<Rightarrow> ptr \<Rightarrow> ('d, 'z) pworld_scheme \<Rightarrow> ('d, 'z) pworld_scheme option"

type_synonym 'd server = "vring \<Rightarrow> mem \<Rightarrow> 'd \<Rightarrow> vring \<times> mem \<times> 'd"


section \<open>The poller object\<close>

definition vring_poller_create :: "sys \<Rightarrow> vring_poller option \<times> sys" where
  "vring_poller_create s =
     (let (ok, s1) = c_alloc s
      in if \<not> ok then (None, s1)
         else (Some \<lparr>tid = 0, end_flag = False, iops = None, sleepy_poll = False,
                     sleep = (SLEEP_MIN + SLEEP_MAX) div 2, sleep_delta = SLEEP_DELTA_MAX\<rparr>, s1))"

definition eval_performance :: "vring_poller \<Rightarrow> u32 \<Rightarrow> u32 \<Rightarrow> vring_poller" where
  "eval_performance p iops_old iops_new =
     (if iops_old = 0 \<or> iops_new = 0 then p
      else let delta_sign = (if sleep_delta p \<ge> 0 then 1 else -1);
               d0 = to_int (to_int (to_int (uint (iops_new - iops_old)) * 2 ^ 9) sdiv to_int (uint iops_old));
               d1 = (if d0 = 0 then (if iops_new \<ge> iops_old then 1 else -1) else d0);
               d2 = to_int (d1 * delta_sign);
               d3 = (if d2 > SLEEP_DELTA_MAX then SLEEP_DELTA_MAX else d2);
               d4 = (if d3 < - SLEEP_DELTA_MAX then - SLEEP_DELTA_MAX else d3);
               s1 = sleep p + d4;
               s2 = (if s1 < SLEEP_MIN then SLEEP_MIN else s1);
               s3 = (if s2 > SLEEP_MAX then SLEEP_MAX else s2)
           in p\<lparr>sleep := s3, sleep_delta := d4\<rparr>)"


section \<open>The poller thread\<close>

text \<open>
  \<open>poll\<close> on the call descriptor: it reports an error, a readable counter (which the read then
  resets), or a time out.
\<close>

definition do_poll :: "bool \<Rightarrow> vring \<Rightarrow> sys \<Rightarrow> sys" where
  "do_poll poll_fails vr s =
     (if poll_fails then s
      else case s_efd s (callfd vr) of
          Some n \<Rightarrow> if n > 0 then s\<lparr>s_efd := (s_efd s)(callfd vr \<mapsto> 0)\<rparr> else s
        | None \<Rightarrow> s)"

fun drain :: "nat \<Rightarrow> ('d, 'z) callbacks \<Rightarrow> u32 \<Rightarrow> ('d, 'z) pworld_scheme \<Rightarrow> (u32 \<times> ('d, 'z) pworld_scheme) option" where
  "drain 0 cbs iocount w = None"
| "drain (Suc fuel) cbs iocount w = do {
     (t, vr, s) \<leftarrow> vring_get_task (w_ring w) (w_sys w);
     let w1 = w\<lparr>w_ring := vr, w_sys := s\<rparr>;
     if t = NULL then Some (iocount, w1)
     else do {
       task \<leftarrow> s_tasks s t;
       w2 \<leftarrow> (case cb task of None \<Rightarrow> Some w1 | Some c \<Rightarrow> cbs c t (arg task) w1);
       drain fuel cbs (iocount + 1) w2
     }
   }"

definition set_no_interrupt :: "bool \<Rightarrow> vring \<Rightarrow> vring" where
  "set_no_interrupt b vr =
     (let av = avail (shm vr);
          fl = (if b then a_flags av OR VRING_AVAIL_F_NO_INTERRUPT else a_flags av AND NOT VRING_AVAIL_F_NO_INTERRUPT)
      in vr\<lparr>shm := (shm vr)\<lparr>avail := av\<lparr>a_flags := fl\<rparr>\<rparr>\<rparr>)"

text \<open>The once-per-second accounting; \<open>None\<close> is a read of \<open>iops\<close> before it was assigned.\<close>

definition track_iops :: "u32 \<Rightarrow> vring_poller \<Rightarrow> vring \<Rightarrow> (vring_poller \<times> vring) option" where
  "track_iops iocount_per_sec p vr = do {
     p1 \<leftarrow> (if sleepy_poll p
            then (case iops p of None \<Rightarrow> None | Some old \<Rightarrow> Some (eval_performance p old iocount_per_sec))
            else Some p);
     let p2 = p1\<lparr>iops := Some iocount_per_sec\<rparr>;
     if \<not> sleepy_poll p2 \<and> iocount_per_sec > IOPS_HIGH
     then Some (p2\<lparr>sleepy_poll := True\<rparr>, set_no_interrupt True vr)
     else if sleepy_poll p2 \<and> iocount_per_sec < IOPS_HIGH
     then Some (p2\<lparr>sleepy_poll := False\<rparr>, set_no_interrupt False vr)
     else Some (p2, vr)
   }"

record poll_locals =
  iocount_per_sec :: u32
  second :: int

definition poll_iteration :: "nat \<Rightarrow> ('d, 'z) callbacks \<Rightarrow> int \<Rightarrow> bool \<Rightarrow> poll_locals \<times> ('d, 'z) pworld_scheme
    \<Rightarrow> (poll_locals \<times> ('d, 'z) pworld_scheme) option" where
  "poll_iteration fuel cbs tv_sec poll_fails = (\<lambda>(l, w). do {
     (iocount, w1) \<leftarrow> drain fuel cbs 0 w;
     let n = iocount_per_sec l + iocount;
     (l2, w2) \<leftarrow> (if tv_sec \<noteq> second l
       then do {
         (p, vr) \<leftarrow> track_iops n (w_poller w1) (w_ring w1);
         Some (\<lparr>iocount_per_sec = 0, second = tv_sec\<rparr>, w1\<lparr>w_poller := p, w_ring := vr\<rparr>)
       }
       else Some (l\<lparr>iocount_per_sec := n\<rparr>, w1));
     Some (l2, if \<not> sleepy_poll (w_poller w2)
               then w2\<lparr>w_sys := do_poll poll_fails (w_ring w2) (w_sys w2)\<rparr> else w2)
   })"

text \<open>Callbacks that return where others do, with the same result, can take their place.\<close>

lemma drain_more:
  assumes "drain fuel cbs n w = Some r" "\<And>c t a w w'. cbs c t a w = Some w' \<Longrightarrow> cbs' c t a w = Some w'"
  shows "drain fuel cbs' n w = Some r"
  using assms(1)
proof (induction fuel arbitrary: n w)
  case (Suc fuel)
  then obtain t vr s where get: "vring_get_task (w_ring w) (w_sys w) = Some (t, vr, s)" by (auto simp: bind_eq_Some_conv)
  show ?case
  proof (cases "t = NULL")
    case True
    then show ?thesis using Suc.prems get by simp
  next
    case False
    with Suc.prems get obtain task w2 where "s_tasks s t = Some task" "drain fuel cbs (n + 1) w2 = Some r"
      "(case cb task of None \<Rightarrow> Some (w\<lparr>w_ring := vr, w_sys := s\<rparr>) | Some c \<Rightarrow> cbs c t (arg task) (w\<lparr>w_ring := vr, w_sys := s\<rparr>)) = Some w2"
      by (auto simp: bind_eq_Some_conv Let_def)
    with False get Suc.IH assms(2) show ?thesis by (cases "cb task") (auto simp: Let_def)
  qed
qed simp

lemma poll_iteration_more:
  assumes "poll_iteration fuel cbs sec fails lw = Some r" "\<And>c t a w w'. cbs c t a w = Some w' \<Longrightarrow> cbs' c t a w = Some w'"
  shows "poll_iteration fuel cbs' sec fails lw = Some r"
proof -
  obtain l w where lw: "lw = (l, w)" by fastforce
  with assms(1) obtain n w1 where "drain fuel cbs 0 w = Some (n, w1)" by (auto simp: poll_iteration_def bind_eq_Some_conv)
  with drain_more [OF this assms(2)] assms(1) show ?thesis by (simp add: lw poll_iteration_def)
qed

text \<open>What the rest of the system does before an iteration tests \<open>end\<close>.\<close>

record 'w poll_input =
  pi_others :: "'w \<Rightarrow> 'w"
  pi_fuel :: nat
  pi_sec :: int
  pi_poll_fails :: bool

fun vring_poll :: "('d, 'z) callbacks \<Rightarrow> ('d, 'z) pworld_scheme poll_input list
    \<Rightarrow> poll_locals \<times> ('d, 'z) pworld_scheme \<Rightarrow> (poll_locals \<times> ('d, 'z) pworld_scheme) option" where
  "vring_poll cbs [] (l, w) = Some (l, w)"
| "vring_poll cbs (i # is) (l, w) =
     (let w1 = pi_others i w
      in if end_flag (w_poller w1) then Some (l, w1\<lparr>w_poller := (w_poller w1)\<lparr>tid := 0\<rparr>\<rparr>)
         else (case poll_iteration (pi_fuel i) cbs (pi_sec i) (pi_poll_fails i) (l, w1) of
                 None \<Rightarrow> None
               | Some lw \<Rightarrow> vring_poll cbs is lw))"

text \<open>\<open>new_tid\<close> is the identifier \<open>pthread_create\<close> returns, \<open>None\<close> when it fails.\<close>

definition vring_poller_start :: "nat option \<Rightarrow> vring_poller \<Rightarrow> int \<times> vring_poller" where
  "vring_poller_start new_tid p =
     (if tid p \<noteq> 0 then (0, p)
      else let p1 = p\<lparr>end_flag := False\<rparr>
           in case new_tid of None \<Rightarrow> (-1, p1) | Some i \<Rightarrow> (0, p1\<lparr>tid := i\<rparr>))"

text \<open>\<open>vring_poller_stop\<close> up to its wait for the thread, which \<open>vring_poll\<close> then ends.\<close>

definition vring_poller_request_stop :: "('d, 'z) pworld_scheme \<Rightarrow> ('d, 'z) pworld_scheme option" where
  "vring_poller_request_stop w =
     (if tid (w_poller w) = 0 then Some w
      else do {
        s \<leftarrow> eventfd_write (callfd (w_ring w)) (w_sys w);
        Some (w\<lparr>w_poller := (w_poller w)\<lparr>end_flag := True\<rparr>, w_sys := s\<rparr>)
      })"

definition vring_poller_stop :: "('d, 'z) callbacks \<Rightarrow> ('d, 'z) pworld_scheme poll_input list
    \<Rightarrow> poll_locals \<times> ('d, 'z) pworld_scheme \<Rightarrow> (poll_locals \<times> ('d, 'z) pworld_scheme) option" where
  "vring_poller_stop cbs is = (\<lambda>(l, w). do {
     w1 \<leftarrow> vring_poller_request_stop w;
     if tid (w_poller w) = 0 then Some (l, w1)
     else do {
       (l2, w2) \<leftarrow> vring_poll cbs is (l, w1);
       c_assert (tid (w_poller w2) = 0);
       Some (l2, w2)
     }
   })"


section \<open>Submission\<close>

definition vring_submit_task :: "ptr \<Rightarrow> task_cb option \<Rightarrow> ptr \<Rightarrow> ('d, 'z) pworld_scheme
    \<Rightarrow> (int \<times> ('d, 'z) pworld_scheme) option" where
  "vring_submit_task t c ctx w = do {
     task \<leftarrow> s_tasks (w_sys w) t;
     let s1 = (w_sys w)\<lparr>s_tasks := (s_tasks (w_sys w))(t \<mapsto> task\<lparr>cb := c, arg := ctx\<rparr>)\<rparr>;
     (rc, vr, s2) \<leftarrow> vring_put_task (w_ring w) t s1;
     Some (rc, w\<lparr>w_ring := vr, w_sys := s2\<rparr>)
   }"

definition sync_callback :: "ptr \<Rightarrow> ptr \<Rightarrow> ('d, 'z) pworld_scheme \<Rightarrow> ('d, 'z) pworld_scheme option" where
  "sync_callback t sync_arg w = Some (w\<lparr>w_woken := w_woken w @ [sync_arg]\<rparr>)"

definition run_server :: "'d server \<Rightarrow> ('d, 'z) pworld_scheme \<Rightarrow> ('d, 'z) pworld_scheme" where
  "run_server serve w =
     (let (vr, m, d) = serve (w_ring w) (s_mem (w_sys w)) (w_srv w)
      in w\<lparr>w_ring := vr, w_sys := (w_sys w)\<lparr>s_mem := m\<rparr>, w_srv := d\<rparr>)"

text \<open>
  While the caller waits on its condition variable the server and the poller run; \<open>sync_arg\<close> is
  the address of the local variable that holds the variable. \<open>None\<close> is a wait that is not
  ended. \<open>pthread_cond_wait\<close> returns 0 on a valid mutex and condition variable.
\<close>

definition vring_submit_task_sync :: "('d, 'z) callbacks \<Rightarrow> 'd server \<Rightarrow> nat \<Rightarrow> ptr \<Rightarrow> ptr \<Rightarrow> ('d, 'z) pworld_scheme
    \<Rightarrow> (int \<times> ('d, 'z) pworld_scheme) option" where
  "vring_submit_task_sync cbs serve fuel sync_arg t w = do {
     (rc, w1) \<leftarrow> vring_submit_task t (Some vring_submit_sync_callback) sync_arg w;
     if rc \<noteq> 0 then Some (-1, w1)
     else do {
       (n, w2) \<leftarrow> drain fuel cbs 0 (run_server serve w1);
       c_assert (sync_arg \<in> set (w_woken w2));
       Some (0, w2\<lparr>w_woken := removeAll sync_arg (w_woken w2)\<rparr>)
     }
   }"


section \<open>The sleep interval\<close>

lemmas sleep_consts = SLEEP_MIN_def SLEEP_MAX_def

lemma sleep_delta_max [simp]: "SLEEP_DELTA_MAX = 72"
  by (simp add: SLEEP_DELTA_MAX_def sleep_consts drop_bit_eq_div)

definition poller_wf :: "vring_poller \<Rightarrow> bool" where
  "poller_wf p \<longleftrightarrow> SLEEP_MIN \<le> sleep p \<and> sleep p \<le> SLEEP_MAX \<and> \<bar>sleep_delta p\<bar> \<le> SLEEP_DELTA_MAX \<and>
     (sleepy_poll p \<longrightarrow> iops p \<noteq> None)"

lemma eval_performance_sel [simp]:
  "tid (eval_performance p a b) = tid p" "end_flag (eval_performance p a b) = end_flag p"
  "iops (eval_performance p a b) = iops p" "sleepy_poll (eval_performance p a b) = sleepy_poll p"
  by (simp_all add: eval_performance_def Let_def)

lemma eval_performance_range:
  assumes "SLEEP_MIN \<le> sleep p" "sleep p \<le> SLEEP_MAX" "\<bar>sleep_delta p\<bar> \<le> SLEEP_DELTA_MAX"
  shows "SLEEP_MIN \<le> sleep (eval_performance p a b)" "sleep (eval_performance p a b) \<le> SLEEP_MAX"
    "\<bar>sleep_delta (eval_performance p a b)\<bar> \<le> SLEEP_DELTA_MAX"
  using assms
  by (cases "a = 0 \<or> b = 0";
      auto simp: eval_performance_def Let_def sleep_consts abs_le_iff not_less)+

lemma eval_performance_bounds: "poller_wf p \<Longrightarrow> poller_wf (eval_performance p a b)"
  unfolding poller_wf_def using eval_performance_range [of p a b] by simp

lemma to_int_mod [simp]: "to_int (x mod 2 ^ 32) = to_int x"
  by (simp add: to_int_def mod_add_left_eq)

lemma to_int_uint_diff:
  fixes a b :: u32
  assumes "\<bar>uint b - uint a\<bar> < 2 ^ 22"
  shows "to_int (uint (b - a)) = uint b - uint a"
proof -
  have "uint (b - a) = (uint b - uint a) mod 2 ^ 32" by (simp add: uint_word_ariths)
  then have "to_int (uint (b - a)) = to_int (uint b - uint a)" by (simp only: to_int_mod)
  also have "\<dots> = uint b - uint a" using assms by (intro to_int_id) auto
  finally show ?thesis .
qed

lemma sdiv_bound:
  fixes x k :: int
  assumes "\<bar>x\<bar> < 2 ^ 31" "0 < k"
  shows "\<bar>x sdiv k\<bar> < 2 ^ 31" "0 < x sdiv k \<Longrightarrow> 0 < x" "x sdiv k < 0 \<Longrightarrow> x < 0"
proof -
  have "\<bar>x\<bar> div k \<le> \<bar>x\<bar>" "0 \<le> \<bar>x\<bar> div k"
    using assms(2) zdiv_mono2 [of "\<bar>x\<bar>" 1 k] by (simp_all add: pos_imp_zdiv_nonneg_iff)
  then show "\<bar>x sdiv k\<bar> < 2 ^ 31" "0 < x sdiv k \<Longrightarrow> 0 < x" "x sdiv k < 0 \<Longrightarrow> x < 0"
    using assms by (auto simp: signed_divide_int_def sgn_if abs_mult split: if_splits)
qed

text \<open>The raw change has the sign of the difference in performance.\<close>

lemma raw_delta:
  fixes a b :: u32
  assumes "\<bar>uint b - uint a\<bar> < 2 ^ 22" "uint a < 2 ^ 31" "a \<noteq> 0"
  defines "d \<equiv> to_int (to_int (to_int (uint (b - a)) * 2 ^ 9) sdiv to_int (uint a))"
  shows "\<bar>d\<bar> < 2 ^ 31" "0 < d \<Longrightarrow> uint a < uint b" "d < 0 \<Longrightarrow> uint b < uint a"
proof -
  have a: "0 < uint a" using assms(3) by (simp add: uint_0_iff order_less_le)
  let ?x = "(uint b - uint a) * 2 ^ 9"
  have x: "\<bar>?x\<bar> < 2 ^ 31" using assms(1) by (simp add: abs_mult)
  have "to_int ?x = ?x" using x by (intro to_int_id) auto
  moreover have "to_int (uint a) = uint a" using a assms(2) by (intro to_int_id) auto
  moreover note sdiv = sdiv_bound [OF x a]
  moreover have "to_int (?x sdiv uint a) = ?x sdiv uint a" using sdiv(1) by (intro to_int_id) auto
  ultimately have d: "d = ?x sdiv uint a" by (simp only: d_def to_int_uint_diff [OF assms(1)])
  show "\<bar>d\<bar> < 2 ^ 31" "0 < d \<Longrightarrow> uint a < uint b" "d < 0 \<Longrightarrow> uint b < uint a"
    using sdiv by (auto simp: d)
qed

lemma eval_performance_direction:
  assumes "\<bar>uint b - uint a\<bar> < 2 ^ 22" "uint a < 2 ^ 31" "a \<noteq> 0" "b \<noteq> 0"
  shows "sleep_delta (eval_performance p a b) \<noteq> 0 \<and>
    (0 \<le> sleep_delta (eval_performance p a b) \<longleftrightarrow> (0 \<le> sleep_delta p) = (a \<le> b))"
proof -
  define d0 where "d0 = to_int (to_int (to_int (uint (b - a)) * 2 ^ 9) sdiv to_int (uint a))"
  define d1 where "d1 = (if d0 = 0 then (if b \<ge> a then 1 else -1) else d0)"
  define sg :: int where "sg = (if sleep_delta p \<ge> 0 then 1 else -1)"
  note raw = raw_delta [OF assms(1-3), folded d0_def]
  have d1: "d1 \<noteq> 0" "\<bar>d1\<bar> < 2 ^ 31" "0 \<le> d1 \<longleftrightarrow> a \<le> b"
    using raw by (cases d0 "0 :: int" rule: linorder_cases; auto simp: d1_def word_le_def split: if_splits)+
  then have "to_int (d1 * sg) = d1 * sg" by (intro to_int_id) (auto simp: sg_def)
  moreover have "sleep_delta (eval_performance p a b) =
      (let d2 = to_int (d1 * sg); d3 = (if d2 > SLEEP_DELTA_MAX then SLEEP_DELTA_MAX else d2)
       in if d3 < - SLEEP_DELTA_MAX then - SLEEP_DELTA_MAX else d3)"
    unfolding eval_performance_def Let_def d1_def d0_def sg_def using assms(3,4)
    by (simp only: if_False simp_thms vring_poller.select_convs vring_poller.update_convs) simp
  ultimately have "sleep_delta (eval_performance p a b) =
      (let d3 = (if d1 * sg > 72 then 72 else d1 * sg) in if d3 < -72 then -72 else d3)" by (simp add: Let_def)
  with d1 show ?thesis by (auto simp: Let_def sg_def split: if_splits)
qed



section \<open>Draining the used ring\<close>

text \<open>
  The contract between the poller and the callbacks: \<open>inv w q\<close> relates the state to the queue of
  the specification. Running the callback of the task that was just fetched keeps it and reports
  no completion of its own (it may submit new tasks).
\<close>

locale completion_handler =
  fixes cbs :: "('d, 'z) callbacks"
    and inv :: "('d, 'z) pworld_scheme \<Rightarrow> vqueue \<Rightarrow> bool"
  assumes inv_rep: "inv w q \<Longrightarrow> vring_rep (w_ring w) (w_sys w) q"
    and handled: "inv w q \<Longrightarrow> completed q = (t, l) # dn \<Longrightarrow>
      vring_get_task (w_ring w) (w_sys w) = Some (t, vr, s) \<Longrightarrow> s_tasks s t = Some task \<Longrightarrow>
      \<exists>w' q'. (case cb task of None \<Rightarrow> Some (w\<lparr>w_ring := vr, w_sys := s\<rparr>)
                | Some c \<Rightarrow> cbs c t (arg task) (w\<lparr>w_ring := vr, w_sys := s\<rparr>)) = Some w' \<and>
              inv w' q' \<and> completed q' = dn"
begin

lemma drain_complete:
  assumes "inv w q" "length (completed q) < fuel"
  shows "\<exists>w' q'. drain fuel cbs n w = Some (n + of_nat (length (completed q)), w') \<and> inv w' q' \<and> completed q' = []"
  using assms
proof (induction "completed q" arbitrary: w q fuel n)
  case Nil
  then obtain f where "fuel = Suc f" by (cases fuel) auto
  moreover have "vring_get_task (w_ring w) (w_sys w) = Some (NULL, w_ring w, w_sys w)"
    using vring_get_empty [OF inv_rep [OF Nil.prems(1)]] Nil.hyps by simp
  ultimately show ?case using Nil by auto
next
  case (Cons e dn)
  obtain t l where e: "e = (t, l)" by fastforce
  with Cons.hyps(2) have q: "completed q = (t, l) # dn" by simp
  from Cons.prems(2) obtain f where f: "fuel = Suc f" by (cases fuel) auto
  from vring_get_completed [OF inv_rep [OF Cons.prems(1)] q] obtain vr s task where
    get: "t \<noteq> NULL" "vring_get_task (w_ring w) (w_sys w) = Some (t, vr, s)" "s_tasks s t = Some task"
    by fastforce
  from handled [OF Cons.prems(1) q get(2,3)] obtain w' q' where
    w': "(case cb task of None \<Rightarrow> Some (w\<lparr>w_ring := vr, w_sys := s\<rparr>)
       | Some c \<Rightarrow> cbs c t (arg task) (w\<lparr>w_ring := vr, w_sys := s\<rparr>)) = Some w'" "inv w' q'" "completed q' = dn"
    by blast
  have "length (completed q') < f" using Cons.prems(2) q w'(3) f by simp
  from Cons.hyps(1) [OF w'(3) [symmetric] w'(2) this, of "n + 1"]
  show ?case using get w'(1) f q w'(3) by (simp add: ac_simps)
qed

end

text \<open>The dispatch of the only callback that the poller's own file declares.\<close>

definition sync_only :: "('d, 'z) callbacks" where
  "sync_only c t a w = (case c of vring_submit_sync_callback \<Rightarrow> sync_callback t a w | _ \<Rightarrow> None)"

text \<open>Every completed task was submitted synchronously, and \<open>args\<close> are the wake-ups done and due.\<close>

definition sync_inv :: "ptr list \<Rightarrow> ('d, 'z) pworld_scheme \<Rightarrow> vqueue \<Rightarrow> bool" where
  "sync_inv args w q \<longleftrightarrow> vring_rep (w_ring w) (w_sys w) q \<and>
     (\<forall>(t, l) \<in> set (completed q). \<exists>task. s_tasks (w_sys w) t = Some task \<and> cb task = Some vring_submit_sync_callback) \<and>
     w_woken w @ map (\<lambda>(t, l). arg (the (s_tasks (w_sys w) t))) (completed q) = args"

interpretation sync: completion_handler sync_only "sync_inv args"
proof
  show "vring_rep (w_ring w) (w_sys w) q" if "sync_inv args w q" for w :: "('d, 'z) pworld_scheme" and q
    using that by (simp add: sync_inv_def)
next
  fix w :: "('d, 'z) pworld_scheme" and q t l dn vr s task
  assume inv: "sync_inv args w q" and q: "completed q = (t, l) # dn"
    and get: "vring_get_task (w_ring w) (w_sys w) = Some (t, vr, s)" and task: "s_tasks s t = Some task"
  have rep: "vring_rep (w_ring w) (w_sys w) q" using inv by (simp add: sync_inv_def)
  from vring_get_completed(2) [OF rep q] get obtain task0 where
    s: "s_tasks (w_sys w) t = Some task0" "s = (w_sys w)\<lparr>s_tasks := (s_tasks (w_sys w))(t \<mapsto> task0\<lparr>used_bytes := l\<rparr>)\<rparr>"
    and rep': "vring_rep vr s \<lparr>inflight = drop_task t (inflight q), completed = dn\<rparr>" by auto
  have t: "t \<notin> fst ` set dn" using rep q by (simp add: vring_rep_def used_rep_def)
  have task': "cb task = Some vring_submit_sync_callback" "arg task = arg task0"
    using inv q s task by (auto simp: sync_inv_def)
  have same: "s_tasks s t' = s_tasks (w_sys w) t'" if "(t', l') \<in> set dn" for t' l'
    using t that s(2) by force
  then have "map (\<lambda>(t, l). arg (the (s_tasks s t))) dn = map (\<lambda>(t, l). arg (the (s_tasks (w_sys w) t))) dn" by auto
  then have "sync_inv args (w\<lparr>w_ring := vr, w_sys := s, w_woken := w_woken w @ [arg task]\<rparr>)
      \<lparr>inflight = drop_task t (inflight q), completed = dn\<rparr>"
    using inv q rep' s(1) task'(2) same by (fastforce simp: sync_inv_def)
  then show "\<exists>w' q'. (case cb task of None \<Rightarrow> Some (w\<lparr>w_ring := vr, w_sys := s\<rparr>)
      | Some c \<Rightarrow> sync_only c t (arg task) (w\<lparr>w_ring := vr, w_sys := s\<rparr>)) = Some w' \<and>
    sync_inv args w' q' \<and> completed q' = dn"
    using task'(1) by (intro exI [of _ "w\<lparr>w_ring := vr, w_sys := s, w_woken := w_woken w @ [arg task]\<rparr>"]
        exI [of _ "\<lparr>inflight = drop_task t (inflight q), completed = dn\<rparr>"])
      (simp add: sync_only_def sync_callback_def)
qed



section \<open>Iterations of the poller thread\<close>

definition no_interrupt :: "vring \<Rightarrow> bool" where
  "no_interrupt vr \<longleftrightarrow> a_flags (avail (shm vr)) AND VRING_AVAIL_F_NO_INTERRUPT \<noteq> 0"

lemma flag_bits: "(x OR 1) AND 1 = (1 :: u16)" "(x AND NOT 1) AND 1 = (0 :: u16)"
  by (auto intro!: bit_word_eqI simp: bit_simps simp del: bit.compl_one)

lemma clear_low_bit: "(x AND - 2) AND 1 = (0 :: u16)"
  using flag_bits(2) [of x] by simp

lemma set_no_interrupt_flag [simp]: "no_interrupt (set_no_interrupt b vr) = b"
  by (simp add: no_interrupt_def set_no_interrupt_def Let_def VRING_AVAIL_F_NO_INTERRUPT_def flag_bits clear_low_bit)

lemma set_no_interrupt_rep: "vring_rep vr s q \<Longrightarrow> vring_rep (set_no_interrupt b vr) s q"
  by (auto simp: vring_rep_def set_no_interrupt_def Let_def vring_sizes_def used_rep_def intro: slots_rep_cong)

lemma track_iops_total:
  assumes "poller_wf p"
  shows "\<exists>p' vr'. track_iops n p vr = Some (p', vr') \<and> poller_wf p' \<and> iops p' = Some n \<and>
    (vr' = vr \<and> sleepy_poll p' = sleepy_poll p \<or> vr' = set_no_interrupt (sleepy_poll p') vr)"
proof (cases "sleepy_poll p")
  case True
  with assms obtain old where "iops p = Some old" by (auto simp: poller_wf_def)
  with True eval_performance_bounds [OF assms, of old n] show ?thesis
    by (cases "n < IOPS_HIGH") (auto simp: track_iops_def poller_wf_def Let_def)
next
  case False
  with assms show ?thesis by (cases "n > IOPS_HIGH") (auto simp: track_iops_def poller_wf_def Let_def)
qed

lemma vring_get_task_shm: "vring_get_task vr s = Some (t, vr', s') \<Longrightarrow> shm vr' = shm vr"
  by (auto simp: vring_get_task_def Let_def bind_eq_Some_conv split: if_splits)

locale poll_handler = completion_handler cbs inv
  for cbs :: "('d, 'z) callbacks" and inv +
  assumes inv_poller: "inv w q \<Longrightarrow> inv (w\<lparr>w_poller := p\<rparr>) q"
    and inv_flags: "inv w q \<Longrightarrow> inv (w\<lparr>w_ring := set_no_interrupt b (w_ring w)\<rparr>) q"
    and inv_efd: "inv w q \<Longrightarrow> inv (w\<lparr>w_sys := (w_sys w)\<lparr>s_efd := e\<rparr>\<rparr>) q"
    and callback_frame: "cbs c t a w = Some w' \<Longrightarrow>
      w_poller w' = w_poller w \<and> a_flags (avail (shm (w_ring w'))) = a_flags (avail (shm (w_ring w)))"
begin

lemma drain_frame:
  "drain fuel cbs n w = Some (n', w') \<Longrightarrow>
   w_poller w' = w_poller w \<and> a_flags (avail (shm (w_ring w'))) = a_flags (avail (shm (w_ring w)))"
proof (induction fuel arbitrary: n w)
  case 0
  then show ?case by simp
next
  case (Suc fuel)
  from Suc.prems obtain t vr s where get: "vring_get_task (w_ring w) (w_sys w) = Some (t, vr, s)"
    by (auto simp: bind_eq_Some_conv)
  let ?w = "w\<lparr>w_ring := vr, w_sys := s\<rparr>"
  show ?case
  proof (cases "t = NULL")
    case True
    with Suc.prems get show ?thesis by (auto simp: vring_get_task_shm)
  next
    case False
    with Suc.prems get obtain task :: virtio_task and w2 where
      w2: "(case cb task of None \<Rightarrow> Some ?w | Some c \<Rightarrow> cbs c t (arg task) ?w) = Some w2"
      "drain fuel cbs (n + 1) w2 = Some (n', w')"
      by (simp add: bind_eq_Some_conv Let_def) blast
    have "w_poller w2 = w_poller w \<and> a_flags (avail (shm (w_ring w2))) = a_flags (avail (shm (w_ring w)))"
      using w2(1) callback_frame [of _ t "arg task" ?w w2] vring_get_task_shm [OF get]
      by (auto split: option.splits)
    with Suc.IH [OF w2(2)] show ?thesis by simp
  qed
qed

lemma do_poll_inv: "inv w q \<Longrightarrow> inv (w\<lparr>w_sys := do_poll f (w_ring w) (w_sys w)\<rparr>) q"
  using inv_efd [of w q "s_efd (w_sys w)"] inv_efd [of w q "(s_efd (w_sys w))(callfd (w_ring w) \<mapsto> 0)"]
  by (auto simp: do_poll_def split: option.splits)

text \<open>Every iteration returns, hands out all completions and keeps the poller well-formed.\<close>

lemma iteration_total:
  assumes "inv w q" "length (completed q) < fuel" "poller_wf (w_poller w)"
    and flag: "no_interrupt (w_ring w) = sleepy_poll (w_poller w)"
  shows "\<exists>l' w' q'. poll_iteration fuel cbs tv_sec f (l, w) = Some (l', w') \<and> inv w' q' \<and> completed q' = [] \<and>
    poller_wf (w_poller w') \<and> no_interrupt (w_ring w') = sleepy_poll (w_poller w')"
proof -
  from drain_complete [OF assms(1,2), of 0] obtain n w1 q1 where
    w1: "drain fuel cbs 0 w = Some (n, w1)" "inv w1 q1" "completed q1 = []" by blast
  note frame = drain_frame [OF w1(1)]
  let ?n = "iocount_per_sec l + n"
  show ?thesis
  proof (cases "tv_sec = second l")
    case True
    with w1 frame assms(3) flag do_poll_inv [OF w1(2), of f] show ?thesis
      by (cases "sleepy_poll (w_poller w1)") (auto simp: poll_iteration_def Let_def no_interrupt_def)
  next
    case False
    have "poller_wf (w_poller w1)" using frame assms(3) by simp
    from track_iops_total [OF this, of ?n "w_ring w1"] obtain p vr where
      t: "track_iops ?n (w_poller w1) (w_ring w1) = Some (p, vr)" "poller_wf p"
        "vr = w_ring w1 \<and> sleepy_poll p = sleepy_poll (w_poller w1) \<or> vr = set_no_interrupt (sleepy_poll p) (w_ring w1)"
      by blast
    let ?w = "w1\<lparr>w_poller := p, w_ring := vr\<rparr>"
    have inv: "inv ?w q1"
      using inv_poller [OF w1(2), of p] inv_flags [OF inv_poller [OF w1(2)], of _ p] t(3) by auto
    moreover have flag': "no_interrupt vr = sleepy_poll p"
      using t(3) frame flag by (auto simp: no_interrupt_def [of "w_ring w"] no_interrupt_def [of "w_ring w1"])
    ultimately show ?thesis
      using w1 t(1,2) False do_poll_inv [OF inv, of f]
      by (cases "sleepy_poll p") (auto simp: poll_iteration_def Let_def)
  qed
qed

end

context poll_handler
begin

definition others_ok :: "('d, 'z) pworld_scheme poll_input \<Rightarrow> bool" where
  "others_ok i \<longleftrightarrow> (\<forall>w q. inv w q \<longrightarrow> poller_wf (w_poller w) \<longrightarrow> no_interrupt (w_ring w) = sleepy_poll (w_poller w) \<longrightarrow>
     (\<exists>q'. inv (pi_others i w) q' \<and> length (completed q') < pi_fuel i \<and> poller_wf (w_poller (pi_others i w)) \<and>
        no_interrupt (w_ring (pi_others i w)) = sleepy_poll (w_poller (pi_others i w))))"

text \<open>The thread never gets stuck, whatever the other threads and the server do between iterations.\<close>

lemma poll_total:
  assumes "\<forall>i \<in> set is. others_ok i" "inv w q" "poller_wf (w_poller w)"
    "no_interrupt (w_ring w) = sleepy_poll (w_poller w)"
  shows "\<exists>l' w' q'. vring_poll cbs is (l, w) = Some (l', w') \<and> inv w' q' \<and> poller_wf (w_poller w')"
  using assms
proof (induction "is" arbitrary: l w q)
  case Nil
  then show ?case by auto
next
  case (Cons i "is")
  let ?w = "pi_others i w"
  have "others_ok i" using Cons.prems(1) by simp
  then obtain q1 where q1: "inv ?w q1" "length (completed q1) < pi_fuel i" "poller_wf (w_poller ?w)"
    "no_interrupt (w_ring ?w) = sleepy_poll (w_poller ?w)"
    using Cons.prems(2-4) unfolding others_ok_def by blast
  show ?case
  proof (cases "end_flag (w_poller ?w)")
    case True
    with q1(3) inv_poller [OF q1(1), of "(w_poller ?w)\<lparr>tid := 0\<rparr>"] show ?thesis
      by (auto simp: poller_wf_def Let_def)
  next
    case False
    from iteration_total [OF q1, of "pi_sec i" "pi_poll_fails i" l] obtain l2 w2 q2 where
      w2: "poll_iteration (pi_fuel i) cbs (pi_sec i) (pi_poll_fails i) (l, ?w) = Some (l2, w2)" "inv w2 q2"
      "poller_wf (w_poller w2)" "no_interrupt (w_ring w2) = sleepy_poll (w_poller w2)" by blast
    from Cons.IH [OF _ w2(2-4), of l2] Cons.prems(1) w2(1) False show ?thesis by (simp add: Let_def)
  qed
qed

end

interpretation sync_poll: poll_handler sync_only "sync_inv args"
proof
  show "sync_inv args (w\<lparr>w_ring := set_no_interrupt b (w_ring w)\<rparr>) q" if "sync_inv args w q"
    for w :: "('d, 'z) pworld_scheme" and q b
    using that by (simp add: sync_inv_def set_no_interrupt_rep)
  show "sync_inv args (w\<lparr>w_sys := (w_sys w)\<lparr>s_efd := e\<rparr>\<rparr>) q" if "sync_inv args w q"
    for w :: "('d, 'z) pworld_scheme" and q e
    using that by (auto simp: sync_inv_def vring_rep_def intro: slots_rep_cong)
qed (auto simp: sync_inv_def sync_only_def sync_callback_def split: task_cb.splits)



section \<open>Synchronous submission\<close>

text \<open>The head announced last starts a chain that describes \<open>bufs\<close>.\<close>

definition announces :: "vring \<Rightarrow> virtio_buffer list \<Rightarrow> bool" where
  "announces vr bufs \<longleftrightarrow> vring_sizes vr \<and> (\<exists>c. c \<noteq> [] \<and> distinct c \<and> (\<forall>i \<in> set c. unat i < 1024) \<and>
     hd c = last_announced vr \<and> desc_chain (desc (shm vr)) c bufs)"

text \<open>
  What the server did with the chain announced last: it completed it with length \<open>l\<close> and left
  the memory \<open>m'\<close> and its own state \<open>d'\<close>.
\<close>

definition serves :: "'d server \<Rightarrow> virtio_buffer list \<Rightarrow> mem \<Rightarrow> 'd \<Rightarrow> u32 \<Rightarrow> mem \<Rightarrow> 'd \<Rightarrow> bool" where
  "serves serve bufs m d l m' d' \<longleftrightarrow> (\<forall>vr. announces vr bufs \<longrightarrow>
     serve vr m d = (used_push (ucast (last_announced vr)) l vr, m', d'))"

lemma vring_put_announces:
  assumes rep: "vring_rep vr s q" and task: "s_tasks s t = Some task" "task_wf task" "0 < count task"
    and t: "t \<noteq> NULL" "t \<notin> fst ` set (inflight q)" and kick: "kick_room (Suc k) vr s"
    and room: "queue_slots q + count task \<le> 1024"
  obtains c vr' e where
    "vring_put_task vr t s = Some (0, vr', s\<lparr>s_tasks := (s_tasks s)(t \<mapsto> task\<lparr>vring_idx := hd c\<rparr>), s_efd := e\<rparr>)"
    "vring_rep vr' (s\<lparr>s_tasks := (s_tasks s)(t \<mapsto> task\<lparr>vring_idx := hd c\<rparr>), s_efd := e\<rparr>)
      (q\<lparr>inflight := inflight q @ [(t, c)]\<rparr>)"
    "announces vr' (task_bufs task)" "last_announced vr' = hd c" "kick_room k vr' (s\<lparr>s_efd := e\<rparr>)" "length c = count task"
proof -
  from vring_put_ok [OF rep task t kick_room_ready [OF kick] room] kick obtain c vr' e where
    put: "vring_put_task vr t s = Some (0, vr', s\<lparr>s_tasks := (s_tasks s)(t \<mapsto> task\<lparr>vring_idx := hd c\<rparr>), s_efd := e\<rparr>)"
    "vring_rep vr' (s\<lparr>s_tasks := (s_tasks s)(t \<mapsto> task\<lparr>vring_idx := hd c\<rparr>), s_efd := e\<rparr>)
      (q\<lparr>inflight := inflight q @ [(t, c)]\<rparr>)"
    and av: "avail (shm vr') = avail (shm (published (hd c) vr))" and kick': "kick_room k vr' (s\<lparr>s_efd := e\<rparr>)"
    and len: "length c = count task"
    by blast
  let ?s = "s\<lparr>s_tasks := (s_tasks s)(t \<mapsto> task\<lparr>vring_idx := hd c\<rparr>), s_efd := e\<rparr>"
  have "length (a_ring (avail (shm vr))) = 1024" using rep by (simp add: vring_rep_def vring_sizes_def)
  then have ann: "last_announced vr' = hd c" using av by (simp add: last_announced_def published_def)
  have sr: "slots_rep vr' ?s (inflight q @ [(t, c)])" "vring_sizes vr'" using put(2) by (auto simp: vring_rep_def)
  have "task_in_ring vr' ?s t c" "distinct c" using slots_repD [OF sr(1), of t c] by auto
  then have "announces vr' (task_bufs task)" using sr(2) ann by (auto simp: announces_def task_in_ring_def)
  with put ann kick' len that show ?thesis by blast
qed

lemma put_loop_fds: "put_loop t is slots prev_idx vr task = Some (rc, vr', task') \<Longrightarrow> kickfd vr' = kickfd vr \<and> callfd vr' = callfd vr"
  by (induction t "is" slots prev_idx vr task rule: put_loop.induct)
    (auto simp: Let_def vring_set_desc_def set_desc_next_def split: option.splits bool.splits if_splits)

lemma submit_frame:
  assumes "vring_submit_task t c a w = Some (rc, w')"
  shows "kickfd (w_ring w') = kickfd (w_ring w)" "fd \<noteq> kickfd (w_ring w) \<Longrightarrow> s_efd (w_sys w') fd = s_efd (w_sys w) fd"
    "callfd (w_ring w') = callfd (w_ring w)"
  using assms
  by (auto simp: vring_submit_task_def vring_put_task_def vring_flush_def eventfd_write_def Let_def bind_eq_Some_conv
      dest!: put_loop_fds split: if_splits option.splits)

text \<open>An asynchronous submission to a ring with room.\<close>

lemma vring_submit_task_ok:
  assumes rep: "vring_rep (w_ring w) (w_sys w) q"
    and task: "s_tasks (w_sys w) t = Some task" "task_wf task" "0 < count task"
    and t: "t \<noteq> NULL" "t \<notin> fst ` set (inflight q)"
    and kick: "kick_room (Suc k) (w_ring w) (w_sys w)" and room: "queue_slots q + count task \<le> 1024"
  obtains c vr' s' e where
    "s' = (w_sys w)\<lparr>s_tasks := (s_tasks (w_sys w))(t \<mapsto> task\<lparr>cb := f, arg := ctx, vring_idx := hd c\<rparr>), s_efd := e\<rparr>"
    "vring_submit_task t f ctx w = Some (0, w\<lparr>w_ring := vr', w_sys := s'\<rparr>)"
    "vring_rep vr' s' (q\<lparr>inflight := inflight q @ [(t, c)]\<rparr>)" "announces vr' (task_bufs task)"
    "last_announced vr' = hd c" "kick_room k vr' s'" "length c = count task"
proof -
  let ?task = "task\<lparr>cb := f, arg := ctx\<rparr>"
  let ?s = "(w_sys w)\<lparr>s_tasks := (s_tasks (w_sys w))(t \<mapsto> ?task)\<rparr>"
  have rep0: "vring_rep (w_ring w) ?s q" using t(2) by (intro vring_rep_tasks_cong [OF rep]) auto
  have pre: "s_tasks ?s t = Some ?task" "task_wf ?task" "0 < count ?task" "queue_slots q + count ?task \<le> 1024"
    "kick_room (Suc k) (w_ring w) ?s" using task room kick by (simp_all add: kick_room_def)
  obtain c vr1 e where
    put: "vring_put_task (w_ring w) t ?s = Some (0, vr1, ?s\<lparr>s_tasks := (s_tasks ?s)(t \<mapsto> ?task\<lparr>vring_idx := hd c\<rparr>), s_efd := e\<rparr>)"
    "vring_rep vr1 (?s\<lparr>s_tasks := (s_tasks ?s)(t \<mapsto> ?task\<lparr>vring_idx := hd c\<rparr>), s_efd := e\<rparr>) (q\<lparr>inflight := inflight q @ [(t, c)]\<rparr>)"
    "announces vr1 (task_bufs ?task)" "last_announced vr1 = hd c" "kick_room k vr1 (?s\<lparr>s_efd := e\<rparr>)" "length c = count ?task"
    by (rule vring_put_announces [OF rep0 pre(1-3) t pre(5,4)])
  show ?thesis
    by (rule that [OF refl, where c = c and vr' = vr1 and e = e])
      (use put task(1) in \<open>simp_all add: vring_submit_task_def kick_room_def Let_def\<close>)
qed

lemma vring_get_fds:
  "vring_get_task vr s = Some (t, vr', s') \<Longrightarrow> kickfd vr' = kickfd vr \<and> callfd vr' = callfd vr \<and> s_efd s' = s_efd s"
  by (auto simp: vring_get_task_def Let_def bind_eq_Some_conv split: if_splits)

lemma drain_single:
  assumes rep: "vring_rep (w_ring w) (w_sys w) q" and q: "completed q = [(t, l)]"
    and task: "s_tasks (w_sys w) t = Some task" "cb task = Some vring_submit_sync_callback"
    and cbs: "cbs vring_submit_sync_callback = sync_callback"
  obtains vr' where
    "drain (Suc (Suc f)) cbs n w = Some (n + 1, w\<lparr>w_ring := vr', w_woken := w_woken w @ [arg task],
       w_sys := (w_sys w)\<lparr>s_tasks := (s_tasks (w_sys w))(t \<mapsto> task\<lparr>used_bytes := l\<rparr>)\<rparr>\<rparr>)"
    "vring_rep vr' ((w_sys w)\<lparr>s_tasks := (s_tasks (w_sys w))(t \<mapsto> task\<lparr>used_bytes := l\<rparr>)\<rparr>)
       \<lparr>inflight = drop_task t (inflight q), completed = []\<rparr>"
    "kickfd vr' = kickfd (w_ring w)" "callfd vr' = callfd (w_ring w)"
proof -
  let ?s = "(w_sys w)\<lparr>s_tasks := (s_tasks (w_sys w))(t \<mapsto> task\<lparr>used_bytes := l\<rparr>)\<rparr>"
  from vring_get_completed [OF rep q] task(1) obtain vr' where
    get: "t \<noteq> NULL" "vring_get_task (w_ring w) (w_sys w) = Some (t, vr', ?s)"
    "vring_rep vr' ?s \<lparr>inflight = drop_task t (inflight q), completed = []\<rparr>" by auto
  have "vring_get_task vr' ?s = Some (NULL, vr', ?s)" by (rule vring_get_empty [OF get(3)]) simp
  then have "drain (Suc (Suc f)) cbs n w = Some (n + 1, w\<lparr>w_ring := vr', w_woken := w_woken w @ [arg task], w_sys := ?s\<rparr>)"
    using get(1,2) task(2) by (simp add: cbs sync_callback_def Let_def)
  with get(2,3) that show ?thesis by (blast dest: vring_get_fds)
qed

lemma vring_submit_task_sync_ok:
  assumes rep: "vring_rep (w_ring w) (w_sys w) q" and idle: "completed q = []"
    and task: "s_tasks (w_sys w) t = Some task" "task_wf task" "0 < count task"
    and t: "t \<noteq> NULL" "t \<notin> fst ` set (inflight q)"
    and kick: "kick_room (Suc k) (w_ring w) (w_sys w)" and room: "queue_slots q + count task \<le> 1024"
    and cbs: "cbs vring_submit_sync_callback = sync_callback"
    and srv: "serves serve (task_bufs task) (s_mem (w_sys w)) (w_srv w) l m' d'"
  obtains vr' idx e s' where
    "s' = (w_sys w)\<lparr>s_mem := m', s_tasks := (s_tasks (w_sys w))(t \<mapsto>
        task\<lparr>cb := Some vring_submit_sync_callback, arg := sarg, vring_idx := idx, used_bytes := l\<rparr>), s_efd := e\<rparr>"
    "vring_submit_task_sync cbs serve (Suc (Suc f)) sarg t w =
      Some (0, w\<lparr>w_ring := vr', w_sys := s', w_srv := d', w_woken := removeAll sarg (w_woken w)\<rparr>)"
    "vring_rep vr' s' q" "kick_room k vr' s'" "kickfd vr' = kickfd (w_ring w)" "callfd vr' = callfd (w_ring w)"
    "\<forall>fd. fd \<noteq> kickfd (w_ring w) \<longrightarrow> e fd = s_efd (w_sys w) fd"
proof -
  let ?task = "task\<lparr>cb := Some vring_submit_sync_callback, arg := sarg\<rparr>"
  obtain c vr1 s1 e where s1: "s1 = (w_sys w)\<lparr>s_tasks := (s_tasks (w_sys w))(t \<mapsto> ?task\<lparr>vring_idx := hd c\<rparr>), s_efd := e\<rparr>"
    and sub: "vring_submit_task t (Some vring_submit_sync_callback) sarg w = Some (0, w\<lparr>w_ring := vr1, w_sys := s1\<rparr>)"
    "vring_rep vr1 s1 (q\<lparr>inflight := inflight q @ [(t, c)]\<rparr>)" "announces vr1 (task_bufs task)" "last_announced vr1 = hd c"
    "kick_room k vr1 s1" "length c = count task"
    by (rule vring_submit_task_ok [OF rep task t kick room])
  let ?vr2 = "used_push (ucast (hd c)) l vr1" and ?task2 = "?task\<lparr>vring_idx := hd c\<rparr>"
  let ?w2 = "w\<lparr>w_ring := ?vr2, w_sys := s1\<lparr>s_mem := m'\<rparr>, w_srv := d'\<rparr>"
  let ?q2 = "\<lparr>inflight = inflight q @ [(t, c)], completed = [(t, l)]\<rparr>"
  have serve: "run_server serve (w\<lparr>w_ring := vr1, w_sys := s1\<rparr>) = ?w2"
    using srv sub(3,4) by (simp add: serves_def run_server_def s1)
  have "vring_rep ?vr2 s1 ?q2" using used_push_rep [OF sub(2), of t c l] idle by (cases q) simp
  then have rep2: "vring_rep (w_ring ?w2) (w_sys ?w2) ?q2" using vring_rep_tasks_cong [of ?vr2 _ ?q2 "s1\<lparr>s_mem := m'\<rparr>"] by simp
  have pre2: "completed ?q2 = [(t, l)]" "s_tasks (w_sys ?w2) t = Some ?task2" "cb ?task2 = Some vring_submit_sync_callback"
    by (simp_all add: s1)
  obtain vr3 where d: "drain (Suc (Suc f)) cbs 0 ?w2 = Some (0 + 1, ?w2\<lparr>w_ring := vr3, w_woken := w_woken ?w2 @ [arg ?task2],
       w_sys := (w_sys ?w2)\<lparr>s_tasks := (s_tasks (w_sys ?w2))(t \<mapsto> ?task2\<lparr>used_bytes := l\<rparr>)\<rparr>\<rparr>)"
    "vring_rep vr3 ((w_sys ?w2)\<lparr>s_tasks := (s_tasks (w_sys ?w2))(t \<mapsto> ?task2\<lparr>used_bytes := l\<rparr>)\<rparr>)
       \<lparr>inflight = drop_task t (inflight ?q2), completed = []\<rparr>" "kickfd vr3 = kickfd (w_ring ?w2)" "callfd vr3 = callfd (w_ring ?w2)"
    by (rule drain_single [of ?w2 ?q2 t l ?task2 cbs, OF rep2 pre2 cbs])
  have "\<lparr>inflight = inflight q, completed = []\<rparr> = q" using idle by (cases q) simp
  then have q': "\<lparr>inflight = drop_task t (inflight ?q2), completed = []\<rparr> = q" by (simp add: vq.drop_task_append [OF t(2)])
  have frame: "kickfd vr3 = kickfd (w_ring w)" "callfd vr3 = callfd (w_ring w)" "\<forall>fd. fd \<noteq> kickfd (w_ring w) \<longrightarrow> e fd = s_efd (w_sys w) fd"
    using submit_frame [OF sub(1)] d(3,4) s1 by simp_all
  show ?thesis
  proof (rule that [OF refl, where vr' = vr3 and idx = "hd c" and e = e])
    show "vring_rep vr3 ((w_sys w)\<lparr>s_mem := m', s_tasks := (s_tasks (w_sys w))(t \<mapsto>
        task\<lparr>cb := Some vring_submit_sync_callback, arg := sarg, vring_idx := hd c, used_bytes := l\<rparr>), s_efd := e\<rparr>) q"
      by (intro vring_rep_tasks_cong [OF d(2) [unfolded q']]) (auto simp: s1)
  qed (use sub(1,5) d(1,3) serve s1 frame in \<open>simp_all add: kick_room_def vring_submit_task_sync_def del: drain.simps\<close>)
qed

end
