(* ===== verification/Poller_Theorems.thy ===== *)
theory Poller_Theorems
  imports Vring_Poller
begin

text \<open>What the poller guarantees, with concrete instances.\<close>

definition example_poller :: vring_poller where
  "example_poller = \<lparr>tid = 7, end_flag = False, iops = None, sleepy_poll = False, sleep = 77, sleep_delta = 72\<rparr>"

text \<open>A world whose ring holds one completed task, submitted synchronously with argument 500.\<close>

definition example_world :: "unit pworld" where
  "example_world = \<lparr>w_ring = example_done_ring,
     w_sys = example_sys\<lparr>s_tasks := [100 \<mapsto> example_task\<lparr>vring_idx := 5, cb := Some vring_submit_sync_callback, arg := 500\<rparr>]\<rparr>,
     w_poller = example_poller, w_woken = [], w_srv = ()\<rparr>"

lemma example_world_inv: "sync_inv [500] example_world example_done_queue"
proof -
  have "slots_rep example_done_ring (w_sys example_world) [(100, [5, 6])]"
    by (rule slots_rep_cong [OF example_done_slots]) (auto simp: example_done_sys_def example_world_def)
  then have "vring_rep example_done_ring (w_sys example_world) example_done_queue"
    using example_done_rep by (simp add: vring_rep_def example_done_queue_def)
  then show ?thesis by (simp add: sync_inv_def example_world_def example_done_queue_def)
qed

lemma example_poller_wf: "poller_wf example_poller"
  by (simp add: poller_wf_def example_poller_def sleep_consts)

lemma example_world_flag: "no_interrupt (w_ring example_world) = sleepy_poll (w_poller example_world)"
  by (simp add: no_interrupt_def example_world_def example_done_ring_def example_poller_def vhost_vring_zero_def)


section \<open>Theorems\<close>

text \<open>
  Whatever rates are measured, \<open>eval_performance\<close> keeps the sleep interval between
  \<open>SLEEP_MIN\<close> and \<open>SLEEP_MAX\<close> and the last change within \<open>SLEEP_DELTA_MAX\<close>, also where the
  intermediate product wraps around.
\<close>

lemma eval_performance_keeps_bounds:
  assumes "5 \<le> sleep p" "sleep p \<le> 150" "\<bar>sleep_delta p\<bar> \<le> 72"
  shows "5 \<le> sleep (eval_performance p iops_old iops_new) \<and> sleep (eval_performance p iops_old iops_new) \<le> 150 \<and>
    \<bar>sleep_delta (eval_performance p iops_old iops_new)\<bar> \<le> 72"
  using eval_performance_range [of p iops_old iops_new] assms by (simp add: sleep_consts)

text \<open>
  C14. Hill climbing. When one of the two rates is 0 nothing changes. Otherwise the sleep interval moves by the new change, within its bounds,
  and the change is at most \<open>SLEEP_DELTA_MAX\<close>. When moreover the old rate is below \<open>2 ^ 31\<close> and the two are less than \<open>2 ^ 22\<close>
  apart, the new change is never zero; it keeps the direction of the last one when the rate did not fall and reverses
  it when it fell. For rates further apart the shift by 9 wraps around and the direction can be wrong, see \<open>eval_performance_wraps\<close>.
\<close>

theorem eval_performance_climbs:
  "(iops_old = 0 \<or> iops_new = 0 \<longrightarrow> eval_performance p iops_old iops_new = p) \<and>
   (iops_old \<noteq> 0 \<and> iops_new \<noteq> 0 \<longrightarrow>
      sleep (eval_performance p iops_old iops_new) = min 150 (max 5 (sleep p + sleep_delta (eval_performance p iops_old iops_new))) \<and>
      \<bar>sleep_delta (eval_performance p iops_old iops_new)\<bar> \<le> 72) \<and>
   (iops_old \<noteq> 0 \<and> iops_new \<noteq> 0 \<and> \<bar>uint iops_new - uint iops_old\<bar> < 2 ^ 22 \<and> uint iops_old < 2 ^ 31 \<longrightarrow>
      sleep_delta (eval_performance p iops_old iops_new) \<noteq> 0 \<and>
      (0 \<le> sleep_delta (eval_performance p iops_old iops_new) \<longleftrightarrow> (0 \<le> sleep_delta p) = (iops_old \<le> iops_new)))"
proof (intro conjI impI)
  show "eval_performance p iops_old iops_new = p" if "iops_old = 0 \<or> iops_new = 0" using that by (simp add: eval_performance_def)
  show "sleep (eval_performance p iops_old iops_new) = min 150 (max 5 (sleep p + sleep_delta (eval_performance p iops_old iops_new)))"
    "\<bar>sleep_delta (eval_performance p iops_old iops_new)\<bar> \<le> 72" if "iops_old \<noteq> 0 \<and> iops_new \<noteq> 0"
    using that by (simp add: eval_performance_def Let_def sleep_consts, simp add: eval_performance_def sleep_consts abs_le_iff Let_def)
  show "sleep_delta (eval_performance p iops_old iops_new) \<noteq> 0"
    "0 \<le> sleep_delta (eval_performance p iops_old iops_new) \<longleftrightarrow> (0 \<le> sleep_delta p) = (iops_old \<le> iops_new)"
    if "iops_old \<noteq> 0 \<and> iops_new \<noteq> 0 \<and> \<bar>uint iops_new - uint iops_old\<bar> < 2 ^ 22 \<and> uint iops_old < 2 ^ 31"
    using eval_performance_direction [of iops_new iops_old p] that by simp_all
qed

theorem eval_performance_climbs_witness:
  "eval_performance example_poller 200000 0 = example_poller \<and>
    sleep (eval_performance example_poller 200000 150000) = min 150 (max 5 (sleep example_poller + sleep_delta (eval_performance example_poller 200000 150000))) \<and>
    sleep_delta (eval_performance example_poller 200000 150000) \<noteq> 0 \<and>
    (0 \<le> sleep_delta (eval_performance example_poller 200000 150000) \<longleftrightarrow>
      (0 \<le> sleep_delta example_poller) = ((200000 :: u32) \<le> 150000))"
  using eval_performance_climbs [of 200000 0 example_poller] eval_performance_climbs [of 200000 150000 example_poller] by simp

text \<open>
  The shift by 9 wraps around for a larger jump: from 1 to \<open>2 ^ 22 + 1\<close> completions per
  second the rate rose, yet the direction is reversed.
\<close>

lemma eval_performance_wraps:
  "0 \<le> sleep_delta example_poller \<and> sleep_delta (eval_performance example_poller 1 4194305) = - 72"
  by (simp add: eval_performance_def example_poller_def to_int_def signed_divide_int_def Let_def)

text \<open>
  C8. The poller wakes the waiting submitters in the order in which the server completed
  their tasks, each exactly once, and leaves nothing in the used ring: when all pending
  completions are of synchronous submissions the drain ends, counts them, and \<open>args\<close> (the
  wake-ups done before, followed by those due) are the wake-ups done.
\<close>

theorem drain_wakes_in_order:
  assumes "sync_inv args w q" "length (completed q) < fuel"
  shows "\<exists>w' q'. drain fuel sync_only n w = Some (n + of_nat (length (completed q)), w') \<and>
    vring_rep (w_ring w') (w_sys w') q' \<and> completed q' = [] \<and> w_woken w' = args"
proof -
  from sync.drain_complete [OF assms, of n] obtain w' q' where
    "drain fuel sync_only n w = Some (n + of_nat (length (completed q)), w')" "sync_inv args w' q'" "completed q' = []"
    by blast
  then show ?thesis by (auto simp: sync_inv_def)
qed

theorem drain_wakes_in_order_witness:
  "\<exists>w' q'. drain 2 sync_only 0 example_world = Some (0 + of_nat (length (completed example_done_queue)), w') \<and>
    vring_rep (w_ring w') (w_sys w') q' \<and> completed q' = [] \<and> w_woken w' = [500]"
  by (rule drain_wakes_in_order [OF example_world_inv]) (simp add: example_done_queue_def)

text \<open>
  C13. One pass of the poller loop, when all pending completions are of synchronous submissions, returns for every set of callbacks in which
  the callback of such a submission is \<open>vring_submit_sync_callback\<close>: it never reads the uninitialised \<open>iops\<close>,
  hands out every completion, keeps the sleep interval in its bounds, and the server's
  interrupt suppression flag is set exactly while the poller sleeps on a timer. (A pass that meets a failing assertion of an
  asynchronous callback does not return.)
\<close>

theorem poll_iteration_returns:
  assumes "sync_inv args w q" "length (completed q) < fuel" "poller_wf (w_poller w)"
    "no_interrupt (w_ring w) = sleepy_poll (w_poller w)" "\<And>t a v. cbs vring_submit_sync_callback t a v = sync_callback t a v"
  shows "\<exists>l' w' q'. poll_iteration fuel cbs tv_sec poll_fails (l, w) = Some (l', w') \<and> sync_inv args w' q' \<and>
    completed q' = [] \<and> poller_wf (w_poller w') \<and> no_interrupt (w_ring w') = sleepy_poll (w_poller w')"
proof -
  have "cbs c t a v = Some v'" if "sync_only c t a v = Some v'" for c t a v v'
    using that assms(5) by (simp add: sync_only_def split: task_cb.splits)
  with sync_poll.iteration_total [OF assms(1-4), of tv_sec poll_fails l] poll_iteration_more show ?thesis by metis
qed

theorem poll_iteration_returns_witness:
  "\<exists>l' w' q'. poll_iteration 2 sync_only 1 False (\<lparr>iocount_per_sec = 0, second = 0\<rparr>, example_world) = Some (l', w') \<and>
    sync_inv [500] w' q' \<and> completed q' = [] \<and> poller_wf (w_poller w') \<and>
    no_interrupt (w_ring w') = sleepy_poll (w_poller w')"
  by (rule poll_iteration_returns [OF example_world_inv _ _ example_world_flag])
    (simp_all add: example_done_queue_def example_world_def example_poller_wf sync_only_def)

text \<open>
  C9. A synchronous submission to an idle ring with room returns 0 with the server's result
  in place: the memory is what the server left, the task has the server's byte count, the ring
  represents the same queue as before, and no shared block was allocated or freed.
\<close>

theorem vring_submit_task_sync_round_trip:
  assumes "vring_rep (w_ring w) (w_sys w) q" "completed q = []"
    "s_tasks (w_sys w) t = Some task" "task_wf task" "0 < count task"
    "t \<noteq> NULL" "t \<notin> fst ` set (inflight q)"
    "kick_room (Suc k) (w_ring w) (w_sys w)" "queue_slots q + count task \<le> 1024"
    "serves serve (task_bufs task) (s_mem (w_sys w)) (w_srv w) l m' d'"
  shows "\<exists>w'. vring_submit_task_sync sync_only serve 2 sync_arg t w = Some (0, w') \<and>
    s_mem (w_sys w') = m' \<and> w_srv w' = d' \<and> vring_rep (w_ring w') (w_sys w') q \<and>
    map_option used_bytes (s_tasks (w_sys w') t) = Some l \<and> s_blocks (w_sys w') = s_blocks (w_sys w)"
proof -
  have cbs: "sync_only vring_submit_sync_callback = (sync_callback :: ptr \<Rightarrow> ptr \<Rightarrow> ('a, 'b) pworld_scheme \<Rightarrow> _)"
    by (intro ext) (simp add: sync_only_def)
  obtain vr' idx e s' where "s' = (w_sys w)\<lparr>s_mem := m', s_tasks := (s_tasks (w_sys w))(t \<mapsto>
        task\<lparr>cb := Some vring_submit_sync_callback, arg := sync_arg, vring_idx := idx, used_bytes := l\<rparr>), s_efd := e\<rparr>"
    "vring_submit_task_sync sync_only serve (Suc (Suc 0)) sync_arg t w =
      Some (0, w\<lparr>w_ring := vr', w_sys := s', w_srv := d', w_woken := removeAll sync_arg (w_woken w)\<rparr>)"
    "vring_rep vr' s' q" "kick_room k vr' s'" "kickfd vr' = kickfd (w_ring w)" "callfd vr' = callfd (w_ring w)" "\<forall>fd. fd \<noteq> kickfd (w_ring w) \<longrightarrow> e fd = s_efd (w_sys w) fd"
    by (rule vring_submit_task_sync_ok [of w q t task k sync_only serve l m' d' sync_arg 0, OF assms(1-9) cbs assms(10)])
  then show ?thesis by (simp add: numeral_2_eq_2)
qed

definition echo_server :: "unit server" where
  "echo_server vr m d = (used_push (ucast (last_announced vr)) 108 vr, m, d)"

definition example_idle_world :: "unit pworld" where
  "example_idle_world = \<lparr>w_ring = example_ring, w_sys = example_sys, w_poller = example_poller, w_woken = [], w_srv = ()\<rparr>"

theorem vring_submit_task_sync_round_trip_witness:
  "\<exists>w'. vring_submit_task_sync sync_only echo_server 2 500 100 example_idle_world = Some (0, w') \<and>
    s_mem (w_sys w') = s_mem (w_sys example_idle_world) \<and> w_srv w' = () \<and> vring_rep (w_ring w') (w_sys w') empty_queue \<and>
    map_option used_bytes (s_tasks (w_sys w') 100) = Some 108 \<and> s_blocks (w_sys w') = s_blocks (w_sys example_idle_world)"
proof (rule vring_submit_task_sync_round_trip [where k = 3 and task = example_task])
  show "vring_rep (w_ring example_idle_world) (w_sys example_idle_world) empty_queue"
    using example_rep by (simp add: example_idle_world_def)
  show "kick_room (Suc 3) (w_ring example_idle_world) (w_sys example_idle_world)"
    by (simp add: kick_room_def example_idle_world_def example_sys_def example_ring_def)
  show "serves echo_server (task_bufs example_task) (s_mem (w_sys example_idle_world)) (w_srv example_idle_world) 108
      (s_mem (w_sys example_idle_world)) ()"
    by (simp add: serves_def echo_server_def)
qed (use example_task_facts in \<open>simp_all add: example_idle_world_def\<close>)

text \<open>
  Stopping: once \<open>vring_poller_stop\<close> has set \<open>end\<close> and written the call descriptor, the
  poller thread leaves its loop at the next test of the flag without another pass, so the wait
  for \<open>tid\<close> to become 0 ends; a poller that is not running is left alone.
\<close>

lemma vring_poller_stop_ends:
  assumes "eventfd_write (callfd (w_ring w)) (w_sys w) = Some s"
    "\<And>v. w_poller (pi_others i v) = w_poller v"
  shows "\<exists>w'. vring_poller_stop cbs (i # is) (l, w) = Some (l, w') \<and> tid (w_poller w') = 0"
  using assms(1) assms(2) [of "w\<lparr>w_poller := (w_poller w)\<lparr>end_flag := True\<rparr>, w_sys := s\<rparr>"]
  by (simp add: vring_poller_stop_def vring_poller_request_stop_def Let_def)

definition quiet_input :: "'w poll_input" where
  "quiet_input = \<lparr>pi_others = id, pi_fuel = 1, pi_sec = 0, pi_poll_fails = False\<rparr>"

end
