(* ===== verification/Sync_Wait.thy ===== *)
theory Sync_Wait
  imports Poller_Theorems
begin

text \<open>
  \<open>src/vring_poller.c\<close>, \<open>vring_submit_task_sync\<close> and \<open>vring_submit_sync_callback\<close> step by step: any number of threads
  submit a task each and wait for it, next to the poller and the server. \<open>Vring_Poller\<close> has the same two functions as
  one uninterrupted call; here the mutex and the condition variable, which are local variables of the submitting thread,
  are explicit and the steps of all threads interleave.

  A submission is named by the address of its local \<open>task_sync_arg\<close>, an element of \<open>A\<close>; its task is \<open>task_of a\<close>.

  \<^bold>\<open>Granularity.\<close> Every call of a thread library function is a step of its own. A call into \<open>vring.c\<close>, \<open>vring_submit_task\<close> or
  \<open>vring_get_task\<close>, is one step: the theorems are about the runs in which these calls do not overlap. This is an assumption, not a
  property of the code, which has no lock around them. Overlapping submissions are the subject of \<open>Vring_Tickets\<close>, which shows that they
  do not disturb each other; a submission that overlaps a fetch can corrupt the ring, see \<open>Vring_Race\<close>.

  The server is not part of the sources: it completes the chains announced and not yet completed, in any
  order, with any length and any change of the data; they are kept in \<open>sy_pending\<close>, and its completions in \<open>sy_log\<close>.
  A pass of the poller that finds no completion changes nothing (\<open>vring_get_empty\<close>) and is not a step.
  \<open>spurious\<close> says whether \<open>pthread_cond_wait\<close> may return without a signal, as POSIX allows. It fails only for arguments that are not valid
  or a mutex that is not held, which does not happen here; a failing step would leave the mutex locked.
\<close>

datatype submit_pc = SLock | SSubmit | SFail | SWait | SBlocked | SWoken | SUnlock | SReturned int

datatype poll_pc = PPoll | PLock ptr | PSignal ptr | PUnlock ptr

datatype mtx_owner = Submitter | Poller

record ('d) sync_state =
  sy_world :: "'d pworld"
  sy_pc :: "ptr \<Rightarrow> submit_pc"
  sy_mtx :: "ptr \<Rightarrow> mtx_owner option"
  sy_poll :: poll_pc
  sy_pending :: "u16 list"
  sy_log :: "(u16 \<times> u32) list"

text \<open>What a signal does: it wakes the waiting thread, and nobody when none waits.\<close>

definition cond_signal :: "submit_pc \<Rightarrow> submit_pc" where
  "cond_signal pc = (if pc = SBlocked then SWoken else pc)"

definition server_completes :: "u16 \<Rightarrow> u32 \<Rightarrow> mem \<Rightarrow> 'd \<Rightarrow> 'd pworld \<Rightarrow> 'd pworld" where
  "server_completes h l m d = run_server (\<lambda>vr _ _. (used_push (ucast h) l vr, m, d))"

inductive sync_step :: "bool \<Rightarrow> ptr set \<Rightarrow> (ptr \<Rightarrow> ptr) \<Rightarrow> 'd sync_state \<Rightarrow> 'd sync_state \<Rightarrow> bool"
  for spurious A task_of where
  lock: "a \<in> A \<Longrightarrow> sy_pc s a = SLock \<Longrightarrow> sy_mtx s a = None
    \<Longrightarrow> sync_step spurious A task_of s (s\<lparr>sy_pc := (sy_pc s)(a := SSubmit), sy_mtx := (sy_mtx s)(a := Some Submitter)\<rparr>)"
| submit: "a \<in> A \<Longrightarrow> sy_pc s a = SSubmit
    \<Longrightarrow> vring_submit_task (task_of a) (Some vring_submit_sync_callback) a (sy_world s) = Some (0, w)
    \<Longrightarrow> sync_step spurious A task_of s (s\<lparr>sy_pc := (sy_pc s)(a := SWait), sy_world := w,
          sy_pending := sy_pending s @ [last_announced (w_ring w)]\<rparr>)"
| submit_fails: "a \<in> A \<Longrightarrow> sy_pc s a = SSubmit
    \<Longrightarrow> vring_submit_task (task_of a) (Some vring_submit_sync_callback) a (sy_world s) = Some (rc, w) \<Longrightarrow> rc \<noteq> 0
    \<Longrightarrow> sync_step spurious A task_of s (s\<lparr>sy_pc := (sy_pc s)(a := SFail), sy_world := w\<rparr>)"
| fail_unlock: "a \<in> A \<Longrightarrow> sy_pc s a = SFail
    \<Longrightarrow> sync_step spurious A task_of s (s\<lparr>sy_pc := (sy_pc s)(a := SReturned (-1)), sy_mtx := (sy_mtx s)(a := None)\<rparr>)"
| wait: "a \<in> A \<Longrightarrow> sy_pc s a = SWait
    \<Longrightarrow> sync_step spurious A task_of s (s\<lparr>sy_pc := (sy_pc s)(a := SBlocked), sy_mtx := (sy_mtx s)(a := None)\<rparr>)"
| wake_up: "a \<in> A \<Longrightarrow> sy_pc s a = SBlocked \<Longrightarrow> spurious
    \<Longrightarrow> sync_step spurious A task_of s (s\<lparr>sy_pc := (sy_pc s)(a := SWoken)\<rparr>)"
| relock: "a \<in> A \<Longrightarrow> sy_pc s a = SWoken \<Longrightarrow> sy_mtx s a = None
    \<Longrightarrow> sync_step spurious A task_of s (s\<lparr>sy_pc := (sy_pc s)(a := SUnlock), sy_mtx := (sy_mtx s)(a := Some Submitter)\<rparr>)"
| unlock: "a \<in> A \<Longrightarrow> sy_pc s a = SUnlock
    \<Longrightarrow> sync_step spurious A task_of s (s\<lparr>sy_pc := (sy_pc s)(a := SReturned 0), sy_mtx := (sy_mtx s)(a := None)\<rparr>)"
| serve: "h \<in> set (sy_pending s)
    \<Longrightarrow> sync_step spurious A task_of s (s\<lparr>sy_world := server_completes h l m d (sy_world s),
          sy_pending := removeAll h (sy_pending s), sy_log := (h, l) # sy_log s\<rparr>)"
| poll: "sy_poll s = PPoll \<Longrightarrow> vring_get_task (w_ring (sy_world s)) (w_sys (sy_world s)) = Some (t, vr, sys) \<Longrightarrow> t \<noteq> NULL
    \<Longrightarrow> s_tasks sys t = Some task \<Longrightarrow> cb task = Some vring_submit_sync_callback
    \<Longrightarrow> sync_step spurious A task_of s (s\<lparr>sy_world := (sy_world s)\<lparr>w_ring := vr, w_sys := sys\<rparr>, sy_poll := PLock (arg task)\<rparr>)"
| poll_lock: "sy_poll s = PLock a \<Longrightarrow> sy_mtx s a = None
    \<Longrightarrow> sync_step spurious A task_of s (s\<lparr>sy_poll := PSignal a, sy_mtx := (sy_mtx s)(a := Some Poller)\<rparr>)"
| poll_signal: "sy_poll s = PSignal a
    \<Longrightarrow> sync_step spurious A task_of s (s\<lparr>sy_poll := PUnlock a, sy_pc := (sy_pc s)(a := cond_signal (sy_pc s a))\<rparr>)"
| poll_unlock: "sy_poll s = PUnlock a
    \<Longrightarrow> sync_step spurious A task_of s (s\<lparr>sy_poll := PPoll, sy_mtx := (sy_mtx s)(a := None)\<rparr>)"

inductive_cases sync_stepE: "sync_step spurious A task_of s s'"


section \<open>The invariant\<close>

text \<open>How far the task of a submission has come.\<close>

datatype task_stage = Away | Queued | Done | Calling | Signalling | Releasing

definition stage :: "vqueue \<Rightarrow> poll_pc \<Rightarrow> ptr \<Rightarrow> ptr \<Rightarrow> task_stage" where
  "stage q pp a t =
     (if pp = PLock a then Calling else if pp = PSignal a then Signalling else if pp = PUnlock a then Releasing
      else if t \<in> fst ` set (completed q) then Done else if t \<in> fst ` set (inflight q) then Queued else Away)"

text \<open>The program counter, the owner of the mutex and the stage that go together.\<close>

definition phases :: "(submit_pc \<times> mtx_owner option \<times> task_stage) set" where
  "phases = {(SLock, None, Away), (SSubmit, Some Submitter, Away),
     (SWait, Some Submitter, Queued), (SWait, Some Submitter, Done), (SWait, Some Submitter, Calling),
     (SBlocked, None, Queued), (SBlocked, None, Done), (SBlocked, None, Calling), (SBlocked, Some Poller, Signalling),
     (SWoken, Some Poller, Releasing), (SWoken, None, Away), (SUnlock, Some Submitter, Away), (SReturned 0, None, Away)}"

definition unsubmitted :: "ptr set \<Rightarrow> 'd sync_state \<Rightarrow> ptr set" where
  "unsubmitted A s = {a \<in> A. sy_pc s a \<in> {SLock, SSubmit}}"

definition poll_target :: "poll_pc \<Rightarrow> ptr set" where
  "poll_target pp = (case pp of PPoll \<Rightarrow> {} | PLock a \<Rightarrow> {a} | PSignal a \<Rightarrow> {a} | PUnlock a \<Rightarrow> {a})"

definition pending_heads :: "vqueue \<Rightarrow> u16 list" where
  "pending_heads q = map (hd \<circ> snd) (filter (\<lambda>(t, c). t \<notin> fst ` set (completed q)) (inflight q))"

text \<open>The task of a submission, and the result the server has given it.\<close>

definition job_task :: "sys \<Rightarrow> vqueue \<Rightarrow> nat \<Rightarrow> ptr \<Rightarrow> ptr \<Rightarrow> bool" where
  "job_task s q n a t \<longleftrightarrow> (\<exists>task. s_tasks s t = Some task \<and> task_wf task \<and> count task = n \<and>
     (t \<in> fst ` set (inflight q) \<longrightarrow> cb task = Some vring_submit_sync_callback \<and> arg task = a))"

definition result_logged :: "sys \<Rightarrow> (u16 \<times> u32) list \<Rightarrow> ptr \<Rightarrow> bool" where
  "result_logged s lg t \<longleftrightarrow> (\<exists>task. s_tasks s t = Some task \<and> (vring_idx task, used_bytes task) \<in> set lg)"

definition completions_logged :: "sys \<Rightarrow> (u16 \<times> u32) list \<Rightarrow> vqueue \<Rightarrow> bool" where
  "completions_logged s lg q \<longleftrightarrow>
     (\<forall>(t, l) \<in> set (completed q). \<exists>task. s_tasks s t = Some task \<and> (vring_idx task, l) \<in> set lg)"

definition sync_rep :: "ptr set \<Rightarrow> (ptr \<Rightarrow> ptr) \<Rightarrow> (ptr \<Rightarrow> nat) \<Rightarrow> 'd sync_state \<Rightarrow> vqueue \<Rightarrow> bool" where
  "sync_rep A task_of n s q \<longleftrightarrow>
     vring_rep (w_ring (sy_world s)) (w_sys (sy_world s)) q \<and>
     (\<forall>a \<in> A. (sy_pc s a, sy_mtx s a, stage q (sy_poll s) a (task_of a)) \<in> phases) \<and>
     (\<forall>a \<in> A. job_task (w_sys (sy_world s)) q (n a) a (task_of a)) \<and>
     fst ` set (inflight q) \<subseteq> task_of ` A \<and>
     poll_target (sy_poll s) \<subseteq> {a \<in> A. task_of a \<notin> fst ` set (inflight q)} \<and>
     sy_pending s = pending_heads q \<and>
     queue_slots q + sum n (unsubmitted A s) \<le> 1024 \<and>
     kick_room (card (unsubmitted A s)) (w_ring (sy_world s)) (w_sys (sy_world s)) \<and>
     completions_logged (w_sys (sy_world s)) (sy_log s) q \<and>
     (\<forall>a \<in> A. a \<notin> unsubmitted A s \<longrightarrow> task_of a \<notin> fst ` set (inflight q) \<longrightarrow>
        result_logged (w_sys (sy_world s)) (sy_log s) (task_of a))"

text \<open>The steps that are left: ten for every submission.\<close>

fun pc_weight :: "submit_pc \<Rightarrow> nat" where
  "pc_weight SLock = 10" | "pc_weight SSubmit = 9" | "pc_weight SFail = 1" | "pc_weight SWait = 3"
| "pc_weight SBlocked = 2" | "pc_weight SWoken = 2" | "pc_weight SUnlock = 1" | "pc_weight (SReturned r) = 0"

fun poll_weight :: "poll_pc \<Rightarrow> nat" where
  "poll_weight PPoll = 0" | "poll_weight (PLock a) = 3" | "poll_weight (PSignal a) = 2" | "poll_weight (PUnlock a) = 1"

definition steps_left :: "ptr set \<Rightarrow> 'd sync_state \<Rightarrow> vqueue \<Rightarrow> nat" where
  "steps_left A s q = (\<Sum>a \<in> A. pc_weight (sy_pc s a)) + 5 * length (sy_pending s) + 4 * length (completed q) +
     poll_weight (sy_poll s)"


definition jobs_ok :: "ptr set \<Rightarrow> (ptr \<Rightarrow> ptr) \<Rightarrow> (ptr \<Rightarrow> nat) \<Rightarrow> bool" where
  "jobs_ok A task_of n \<longleftrightarrow> finite A \<and> card A \<le> 1023 \<and> inj_on task_of A \<and> (\<forall>a \<in> A. task_of a \<noteq> NULL \<and> 0 < n a)"

lemma stage_other:
  assumes "b \<noteq> a" "poll_target pp \<subseteq> {a}" "poll_target pp' \<subseteq> {a}"
  shows "stage q pp b t = stage q pp' b t"
  using assms by (cases pp; cases pp') (auto simp: stage_def poll_target_def)

lemma stage_idle [simp]: "stage q PPoll a t =
    (if t \<in> fst ` set (completed q) then Done else if t \<in> fst ` set (inflight q) then Queued else Away)"
  by (simp add: stage_def)

lemma sum_update:
  fixes f :: "'a \<Rightarrow> nat"
  assumes "finite A" "a \<in> A"
  shows "(\<Sum>b \<in> A. f ((g(a := x)) b)) + f (g a) = (\<Sum>b \<in> A. f (g b)) + f x"
proof -
  have "(\<Sum>b \<in> A - {a}. f ((g(a := x)) b)) = (\<Sum>b \<in> A - {a}. f (g b))" by (rule sum.cong) auto
  then show ?thesis using assms by (simp add: sum.remove)
qed

text \<open>A step that moves the submission \<open>a\<close> and the poller only, and leaves the ring alone.\<close>

lemma sync_rep_local:
  assumes rep: "sync_rep A task_of n s q"
    and same: "sy_world s' = sy_world s" "sy_pending s' = sy_pending s" "sy_log s' = sy_log s"
    and other: "\<And>b. b \<noteq> a \<Longrightarrow> sy_pc s' b = sy_pc s b \<and> sy_mtx s' b = sy_mtx s b \<and>
      stage q (sy_poll s') b (task_of b) = stage q (sy_poll s) b (task_of b)"
    and here: "(sy_pc s' a, sy_mtx s' a, stage q (sy_poll s') a (task_of a)) \<in> phases"
      "sy_pc s' a \<in> {SLock, SSubmit} \<longleftrightarrow> sy_pc s a \<in> {SLock, SSubmit}"
    and target: "poll_target (sy_poll s') \<subseteq> poll_target (sy_poll s)"
  shows "sync_rep A task_of n s' q"
proof -
  have "sy_pc s' b \<in> {SLock, SSubmit} \<longleftrightarrow> sy_pc s b \<in> {SLock, SSubmit}" for b
    using other [of b] here(2) by (cases "b = a") simp_all
  then have un: "unsubmitted A s' = unsubmitted A s" by (simp add: unsubmitted_def)
  have "(sy_pc s' b, sy_mtx s' b, stage q (sy_poll s') b (task_of b)) \<in> phases" if "b \<in> A" for b
    using rep other [of b] here(1) that by (cases "b = a") (auto simp: sync_rep_def)
  then show ?thesis using rep target unfolding sync_rep_def un same by blast
qed

lemma sync_repD:
  assumes "sync_rep A task_of n s q" "a \<in> A"
  shows "(sy_pc s a, sy_mtx s a, stage q (sy_poll s) a (task_of a)) \<in> phases"
    "job_task (w_sys (sy_world s)) q (n a) a (task_of a)"
  using assms by (auto simp: sync_rep_def)

lemmas phase_cases = sync_repD(1) [unfolded phases_def, simplified]

lemma steps_left_pc:
  assumes "jobs_ok A task_of n" "a \<in> A" "sy_pc s' = (sy_pc s)(a := pc)" "sy_pending s' = sy_pending s"
    "pc_weight (sy_pc s a) + poll_weight (sy_poll s) = Suc (pc_weight pc + poll_weight (sy_poll s'))"
  shows "steps_left A s q = Suc (steps_left A s' q)"
  using sum_update [of A a pc_weight "sy_pc s" pc] assms by (simp add: steps_left_def jobs_ok_def)

lemma local_step:
  assumes "jobs_ok A task_of n" "sync_rep A task_of n s q" "a \<in> A"
    "sy_world s' = sy_world s" "sy_pending s' = sy_pending s" "sy_log s' = sy_log s"
    "sy_pc s' = (sy_pc s)(a := pc)" "sy_mtx s' = (sy_mtx s)(a := m)"
    "(pc, m, stage q (sy_poll s') a (task_of a)) \<in> phases"
    "pc \<in> {SLock, SSubmit} \<longleftrightarrow> sy_pc s a \<in> {SLock, SSubmit}"
    "sy_poll s' = sy_poll s \<or> poll_target (sy_poll s) = {a} \<and> poll_target (sy_poll s') \<subseteq> {a}"
    "pc_weight (sy_pc s a) + poll_weight (sy_poll s) = Suc (pc_weight pc + poll_weight (sy_poll s'))"
  shows "\<exists>q'. sync_rep A task_of n s' q' \<and> steps_left A s q = Suc (steps_left A s' q')"
proof (intro exI conjI)
  show "sync_rep A task_of n s' q"
    using assms(9-11) stage_other [of _ a "sy_poll s'" "sy_poll s" q] 
    by (intro sync_rep_local [OF assms(2,4-6), of a]) (auto simp: assms(7,8))
  show "steps_left A s q = Suc (steps_left A s' q)" by (rule steps_left_pc [OF assms(1,3,7,5,12)])
qed


section \<open>The steps on the ring\<close>

lemma completed_inflight:
  assumes "vring_rep vr s q" "(t, l) \<in> set (completed q)"
  shows "t \<in> fst ` set (inflight q)"
proof -
  from assms(2) obtain k where k: "k < length (completed q)" "completed q ! k = (t, l)" by (auto simp: in_set_conv_nth)
  with assms(1) obtain c where "(t, c) \<in> set (inflight q)" by (auto simp: vring_rep_def used_rep_def)
  then show ?thesis by force
qed

lemma head_task:
  assumes "vring_rep vr s q" "(t, c) \<in> set (inflight q)"
  shows "c \<noteq> []" "\<exists>task. s_tasks s t = Some task \<and> vring_idx task = hd c"
  using assms slots_repD(1) [of vr s "inflight q" t c] by (auto simp: vring_rep_def task_in_ring_def)

lemma heads_inj:
  assumes "vring_rep vr s q"
  shows "inj_on (hd \<circ> snd) (set (inflight q))"
proof (rule inj_onI)
  fix x y assume xy: "x \<in> set (inflight q)" "y \<in> set (inflight q)" "(hd \<circ> snd) x = (hd \<circ> snd) y"
  have "snd x \<noteq> []" "snd y \<noteq> []" using head_task(1) [OF assms, of "fst x" "snd x"] head_task(1) [OF assms, of "fst y" "snd y"] xy by auto
  then have "hd (snd x) \<in> set (snd x)" "hd (snd y) \<in> set (snd y)" by simp_all
  then have "hd (snd x) \<in> set (snd x)" "hd (snd x) \<in> set (snd y)" using xy(3) by simp_all
  then show "x = y"
    using slots_rep_owner [of vr s "inflight q" "fst x" "snd x" "fst y" "snd y"] assms xy(1,2) by (auto simp: vring_rep_def prod_eq_iff)
qed

lemma pending_heads_distinct:
  assumes "vring_rep vr s q"
  shows "distinct (pending_heads q)"
proof -
  have "distinct (inflight q)" using assms by (auto simp: vring_rep_def slots_rep_def distinct_map)
  then show ?thesis using inj_on_subset [OF heads_inj [OF assms]] by (auto simp: pending_heads_def distinct_map)
qed

lemma pending_heads_complete:
  assumes "vring_rep vr s q" "(t, c) \<in> set (inflight q)"
  shows "pending_heads (q\<lparr>completed := completed q @ [(t, l)]\<rparr>) = removeAll (hd c) (pending_heads q)"
proof -
  have dist: "distinct (map fst (inflight q))" using assms(1) by (simp add: vring_rep_def slots_rep_def)
  have "fst x \<noteq> t \<longleftrightarrow> hd (snd x) \<noteq> hd c" if "x \<in> set (inflight q)" for x
    using inj_onD [OF heads_inj [OF assms(1)], of x "(t, c)"] eq_key_imp_eq_value [OF dist assms(2), of "snd x"] that assms(2)
    by (cases x) auto
  then have "filter (\<lambda>(u, c). u \<notin> fst ` set (completed q @ [(t, l)])) (inflight q) =
      filter (\<lambda>x. hd (snd x) \<noteq> hd c) (filter (\<lambda>(u, c). u \<notin> fst ` set (completed q)) (inflight q))"
    by (auto intro!: filter_cong) blast
  then show ?thesis by (simp add: pending_heads_def removeAll_filter_not_eq filter_map comp_def eq_commute)
qed

lemma pending_heads_get:
  assumes "completed q = (t, l) # dn" "t \<notin> fst ` set dn"
  shows "pending_heads \<lparr>inflight = drop_task t (inflight q), completed = dn\<rparr> = pending_heads q"
  using assms by (auto simp: pending_heads_def drop_task_def intro!: arg_cong [where f = "map _"] filter_cong)

lemma in_drop_task [simp]: "u \<in> fst ` set (drop_task t fl) \<longleftrightarrow> u \<in> fst ` set fl \<and> u \<noteq> t"
  by (force simp: drop_task_def)

lemma queue_slots_append: "queue_slots (q\<lparr>inflight := inflight q @ [(t, c)]\<rparr>) = queue_slots q + length c"
  by (simp add: queue_slots_def)

lemma queue_slots_drop: "queue_slots \<lparr>inflight = drop_task t (inflight q), completed = dn\<rparr> \<le> queue_slots q"
proof -
  have "length (concat (map snd (filter P xs))) \<le> length (concat (map snd xs))" for P and xs :: "(ptr \<times> u16 list) list"
    by (induction xs) auto
  then show ?thesis by (simp add: queue_slots_def drop_task_def)
qed


lemma completions_logged_mono:
  assumes "completions_logged s lg q" "set (completed q') \<subseteq> set (completed q)" "set lg \<subseteq> set lg'"
    "\<And>t. t \<in> fst ` set (completed q') \<Longrightarrow> s_tasks s' t = s_tasks s t"
  shows "completions_logged s' lg' q'"
  unfolding completions_logged_def
proof (intro ballI)
  fix x assume x: "x \<in> set (completed q')"
  with assms(1,2) have "case x of (t, l) \<Rightarrow> \<exists>task. s_tasks s t = Some task \<and> (vring_idx task, l) \<in> set lg"
    by (auto simp: completions_logged_def)
  moreover have "s_tasks s' (fst x) = s_tasks s (fst x)" using x by (intro assms(4)) simp
  ultimately show "case x of (t, l) \<Rightarrow> \<exists>task. s_tasks s' t = Some task \<and> (vring_idx task, l) \<in> set lg'"
    using assms(3) by (cases x) auto
qed

text \<open>A submission that has the mutex goes into the ring.\<close>

lemma away_task:
  assumes "sync_rep A task_of n s q" "a \<in> A" "sy_pc s a = SSubmit"
  shows "task_of a \<notin> fst ` set (inflight q)" "a \<notin> poll_target (sy_poll s)" "sy_mtx s a = Some Submitter" "a \<in> unsubmitted A s"
  using phase_cases [OF assms(1,2)] assms(2,3)
  by (auto simp: stage_def poll_target_def unsubmitted_def split: if_splits poll_pc.splits)

lemma unsubmitted_submit:
  assumes "a \<in> A" "sy_pc s' = (sy_pc s)(a := SWait)"
  shows "unsubmitted A s' = unsubmitted A s - {a}"
  using assms by (auto simp: unsubmitted_def)

lemma submit_ok:
  assumes ok: "jobs_ok A task_of n" and rep: "sync_rep A task_of n s q" and a: "a \<in> A" "sy_pc s a = SSubmit"
  obtains c task e vr sys where
    "s_tasks (w_sys (sy_world s)) (task_of a) = Some task" "task_wf task" "count task = n a" "length c = n a"
    "sys = (w_sys (sy_world s))\<lparr>s_tasks := (s_tasks (w_sys (sy_world s)))(task_of a \<mapsto>
       task\<lparr>cb := Some vring_submit_sync_callback, arg := a, vring_idx := hd c\<rparr>), s_efd := e\<rparr>"
    "vring_submit_task (task_of a) (Some vring_submit_sync_callback) a (sy_world s) =
       Some (0, (sy_world s)\<lparr>w_ring := vr, w_sys := sys\<rparr>)"
    "vring_rep vr sys (q\<lparr>inflight := inflight q @ [(task_of a, c)]\<rparr>)" "last_announced vr = hd c"
    "kick_room (card (unsubmitted A s - {a})) vr sys" "queue_slots q + n a + sum n (unsubmitted A s - {a}) \<le> 1024"
proof -
  note away = away_task [OF rep a]
  obtain task where task: "s_tasks (w_sys (sy_world s)) (task_of a) = Some task" "task_wf task" "count task = n a"
    using sync_repD(2) [OF rep a(1)] by (auto simp: job_task_def)
  have fin: "finite (unsubmitted A s)" using ok by (simp add: jobs_ok_def unsubmitted_def)
  have vr: "vring_rep (w_ring (sy_world s)) (w_sys (sy_world s)) q" using rep by (simp add: sync_rep_def)
  have kick: "kick_room (Suc (card (unsubmitted A s - {a}))) (w_ring (sy_world s)) (w_sys (sy_world s))"
    using rep card_Suc_Diff1 [OF fin away(4)] by (simp add: sync_rep_def)
  have room: "queue_slots q + n a + sum n (unsubmitted A s - {a}) \<le> 1024"
    using rep sum.remove [OF fin away(4), of n] by (simp add: sync_rep_def)
  have pre: "0 < count task" "task_of a \<noteq> NULL" "queue_slots q + count task \<le> 1024"
    using ok a(1) room task(3) by (auto simp: jobs_ok_def)
  show ?thesis
    by (rule vring_submit_task_ok [OF vr task(1,2) pre(1,2) away(1) kick pre(3),
          where f = "Some vring_submit_sync_callback" and ctx = a])
      (rule that [OF task _ _ _ _ _ _ room]; simp add: task(3))
qed

text \<open>A step on the task of one submission leaves the tasks of the others alone.\<close>

lemma job_task_other:
  assumes "job_task s q m b t" "s_tasks s' t = s_tasks s t" "t \<in> fst ` set (inflight q') \<Longrightarrow> t \<in> fst ` set (inflight q)"
  shows "job_task s' q' m b t"
  using assms by (auto simp: job_task_def)

lemma result_logged_other:
  assumes "result_logged s lg t" "s_tasks s' t = s_tasks s t" "set lg \<subseteq> set lg'"
  shows "result_logged s' lg' t"
  using assms by (auto simp: result_logged_def)

lemma other_task: "jobs_ok A task_of n \<Longrightarrow> a \<in> A \<Longrightarrow> b \<in> A \<Longrightarrow> b \<noteq> a \<Longrightarrow> task_of b \<noteq> task_of a"
  by (auto simp: jobs_ok_def dest: inj_onD)

lemma submit_phase:
  assumes ok: "jobs_ok A task_of n" and rep: "sync_rep A task_of n s q" and a: "a \<in> A" "sy_pc s a = SSubmit" and b: "b \<in> A"
  shows "(((sy_pc s)(a := SWait)) b, sy_mtx s b, stage (q\<lparr>inflight := inflight q @ [(task_of a, c)]\<rparr>) (sy_poll s) b (task_of b)) \<in> phases"
proof (cases "b = a")
  case True
  have "vring_rep (w_ring (sy_world s)) (w_sys (sy_world s)) q" using rep by (simp add: sync_rep_def)
  then have "task_of a \<notin> fst ` set (completed q)" using away_task(1) [OF rep a] completed_inflight by auto
  with True show ?thesis using away_task [OF rep a] by (auto simp: stage_def phases_def poll_target_def split: poll_pc.splits)
next
  case False
  then show ?thesis using sync_repD(1) [OF rep b] other_task [OF ok a(1) b] by (simp add: stage_def split: if_splits)
qed

lemma submit_step:
  assumes ok: "jobs_ok A task_of n" and rep: "sync_rep A task_of n s q" and a: "a \<in> A" "sy_pc s a = SSubmit"
    and sub: "vring_submit_task (task_of a) (Some vring_submit_sync_callback) a (sy_world s) = Some (rc, w)"
  defines "s' \<equiv> s\<lparr>sy_pc := (sy_pc s)(a := SWait), sy_world := w, sy_pending := sy_pending s @ [last_announced (w_ring w)]\<rparr>"
  shows "rc = 0" and "\<exists>q'. sync_rep A task_of n s' q' \<and> steps_left A s q = Suc (steps_left A s' q')"
proof -
  note away = away_task [OF rep a]
  obtain c task e vr sys where task: "s_tasks (w_sys (sy_world s)) (task_of a) = Some task" "task_wf task" "count task = n a" "length c = n a"
    and sys: "sys = (w_sys (sy_world s))\<lparr>s_tasks := (s_tasks (w_sys (sy_world s)))(task_of a \<mapsto>
       task\<lparr>cb := Some vring_submit_sync_callback, arg := a, vring_idx := hd c\<rparr>), s_efd := e\<rparr>"
    and sub': "vring_submit_task (task_of a) (Some vring_submit_sync_callback) a (sy_world s) =
       Some (0, (sy_world s)\<lparr>w_ring := vr, w_sys := sys\<rparr>)"
    and new: "vring_rep vr sys (q\<lparr>inflight := inflight q @ [(task_of a, c)]\<rparr>)" "last_announced vr = hd c"
      "kick_room (card (unsubmitted A s - {a})) vr sys" "queue_slots q + n a + sum n (unsubmitted A s - {a}) \<le> 1024"
    by (rule submit_ok [OF ok rep a])
  show "rc = 0" using sub sub' by simp
  have w: "w = (sy_world s)\<lparr>w_ring := vr, w_sys := sys\<rparr>" using sub sub' by simp
  let ?q = "q\<lparr>inflight := inflight q @ [(task_of a, c)]\<rparr>"
  have vr: "vring_rep (w_ring (sy_world s)) (w_sys (sy_world s)) q" using rep by (simp add: sync_rep_def)
  have fresh: "task_of a \<notin> fst ` set (completed q)" using away(1) completed_inflight [OF vr] by auto
  have un: "unsubmitted A s' = unsubmitted A s - {a}" by (rule unsubmitted_submit [OF a(1)]) (simp add: s'_def)
  note other = other_task [OF ok a(1)] and phase = submit_phase [OF ok rep a, of _ c]
  have job: "job_task sys ?q (n b) b (task_of b)" if "b \<in> A" for b
    by (cases "b = a", use task in \<open>simp add: job_task_def sys\<close>, rule job_task_other [OF sync_repD(2) [OF rep that]])
      (use other [OF that] in \<open>simp_all add: sys\<close>)
  have "completions_logged (w_sys (sy_world s)) (sy_log s) q" using rep by (simp add: sync_rep_def)
  then have logged: "completions_logged sys (sy_log s) ?q"
    by (rule completions_logged_mono) (use fresh in \<open>simp_all add: sys, blast\<close>)
  have result: "result_logged sys (sy_log s) (task_of b)"
    if "b \<in> A" "b \<notin> unsubmitted A s - {a}" "task_of b \<notin> fst ` set (inflight ?q)" for b
  proof -
    have "b \<noteq> a" using that(3) by auto
    then have "result_logged (w_sys (sy_world s)) (sy_log s) (task_of b)" using rep that by (simp add: sync_rep_def)
    then show ?thesis by (rule result_logged_other) (use other [OF that(1) \<open>b \<noteq> a\<close>] in \<open>simp_all add: sys\<close>)
  qed
  have "pending_heads ?q = pending_heads q @ [hd c]" using fresh by (simp add: pending_heads_def)
  moreover have "poll_target (sy_poll s) \<subseteq> {b \<in> A. task_of b \<notin> fst ` set (inflight ?q)}"
  proof
    fix b assume b: "b \<in> poll_target (sy_poll s)"
    then have "b \<in> A" "task_of b \<notin> fst ` set (inflight q)" using rep by (auto simp: sync_rep_def)
    with b away(2) other [of b] show "b \<in> {b \<in> A. task_of b \<notin> fst ` set (inflight ?q)}" by auto
  qed
  moreover have "fst ` set (inflight ?q) \<subseteq> task_of ` A" using rep a(1) by (auto simp: sync_rep_def)
  ultimately have "sync_rep A task_of n s' ?q"
    using rep new task(4) phase job logged result un
    by (simp add: sync_rep_def s'_def w queue_slots_append)
  moreover have "steps_left A s q = Suc (steps_left A s' ?q)"
    using sum_update [of A a pc_weight "sy_pc s" SWait] ok a by (simp add: steps_left_def s'_def jobs_ok_def)
  ultimately show "\<exists>q'. sync_rep A task_of n s' q' \<and> steps_left A s q = Suc (steps_left A s' q')" by blast
qed


text \<open>The server completes a chain.\<close>

lemma pending_head:
  assumes "sync_rep A task_of n s q" "h \<in> set (sy_pending s)"
  obtains t c where "(t, c) \<in> set (inflight q)" "t \<notin> fst ` set (completed q)" "h = hd c"
  using assms by (auto simp: sync_rep_def pending_heads_def)

lemma few_completed:
  assumes ok: "jobs_ok A task_of n" and rep: "sync_rep A task_of n s q"
    and t: "t \<in> fst ` set (inflight q)" "t \<notin> fst ` set (completed q)"
  shows "length (completed q) < 1023"
proof -
  have vr: "vring_rep (w_ring (sy_world s)) (w_sys (sy_world s)) q" and sub: "fst ` set (inflight q) \<subseteq> task_of ` A"
    using rep by (auto simp: sync_rep_def)
  have fin: "finite A" "card A \<le> 1023" using ok by (auto simp: jobs_ok_def)
  have "fst ` set (completed q) \<subset> fst ` set (inflight q)" using completed_inflight [OF vr] t by auto
  then have "fst ` set (completed q) \<subset> task_of ` A" using sub by (rule psubset_subset_trans)
  then have "card (fst ` set (completed q)) < card (task_of ` A)" by (rule psubset_card_mono [OF finite_imageI [OF fin(1)]])
  also have "\<dots> \<le> card A" by (rule card_image_le [OF fin(1)])
  finally have "card (fst ` set (completed q)) < 1023" using fin(2) by simp
  moreover have "distinct (map fst (completed q))" using vr by (simp add: vring_rep_def used_rep_def)
  then have "card (fst ` set (completed q)) = length (completed q)" using distinct_card by fastforce
  ultimately show ?thesis by simp
qed

lemma serve_step:
  assumes ok: "jobs_ok A task_of n" and rep: "sync_rep A task_of n s q" and h: "h \<in> set (sy_pending s)"
    and s'_def: "s' = s\<lparr>sy_world := server_completes h l m d (sy_world s), sy_pending := removeAll h (sy_pending s),
    sy_log := (h, l) # sy_log s\<rparr>"
  shows "\<exists>q'. sync_rep A task_of n s' q' \<and> steps_left A s q = Suc (steps_left A s' q')"
proof -
  let ?w = "sy_world s"
  obtain t c where t: "(t, c) \<in> set (inflight q)" "t \<notin> fst ` set (completed q)" "h = hd c" by (rule pending_head [OF rep h])
  have fl: "t \<in> fst ` set (inflight q)" using t(1) by force
  let ?q = "q\<lparr>completed := completed q @ [(t, l)]\<rparr>"
  have vr: "vring_rep (w_ring ?w) (w_sys ?w) q" and pend: "sy_pending s = pending_heads q"
    and logged: "completions_logged (w_sys ?w) (sy_log s) q"
    using rep by (simp_all add: sync_rep_def)
  have "vring_rep (used_push (ucast h) l (w_ring ?w)) (w_sys ?w) ?q"
    unfolding t(3) by (rule used_push_rep [OF vr t(1,2) few_completed [OF ok rep fl t(2)]])
  then have vr': "vring_rep (used_push (ucast h) l (w_ring ?w)) ((w_sys ?w)\<lparr>s_mem := m\<rparr>) ?q"
    by (rule vring_rep_tasks_cong) simp
  have un: "unsubmitted A s' = unsubmitted A s" by (simp add: unsubmitted_def s'_def)
  have "stage ?q (sy_poll s) b (task_of b) = (if stage q (sy_poll s) b (task_of b) = Queued \<and> task_of b = t then Done
      else stage q (sy_poll s) b (task_of b))" if "b \<in> A" for b
    using rep that fl t(2) by (auto simp: stage_def sync_rep_def poll_target_def split: if_splits)
  moreover have "(pc, mt, Queued) \<in> phases \<Longrightarrow> (pc, mt, Done) \<in> phases" for pc mt by (auto simp: phases_def)
  ultimately have phase: "(sy_pc s b, sy_mtx s b, stage ?q (sy_poll s) b (task_of b)) \<in> phases" if "b \<in> A" for b
    using sync_repD(1) [OF rep that] that by auto
  have job: "job_task ((w_sys ?w)\<lparr>s_mem := m\<rparr>) ?q (n b) b (task_of b)" if "b \<in> A" for b
    using sync_repD(2) [OF rep that] by (simp add: job_task_def)
  have "\<exists>task. s_tasks (w_sys ?w) t = Some task \<and> vring_idx task = h" using head_task(2) [OF vr t(1)] t(3) by simp
  with logged have logged': "completions_logged ((w_sys ?w)\<lparr>s_mem := m\<rparr>) ((h, l) # sy_log s) ?q"
    by (fastforce simp: completions_logged_def)
  have result: "result_logged ((w_sys ?w)\<lparr>s_mem := m\<rparr>) ((h, l) # sy_log s) (task_of b)"
    if "b \<in> A" "b \<notin> unsubmitted A s" "task_of b \<notin> fst ` set (inflight q)" for b
  proof -
    have "result_logged (w_sys ?w) (sy_log s) (task_of b)" using rep that by (simp add: sync_rep_def)
    then show ?thesis by (auto simp: result_logged_def)
  qed
  have "sync_rep A task_of n s' ?q"
    using rep vr' phase job logged' result un pending_heads_complete [OF vr t(1), of l] t(3) pend
    by (simp add: sync_rep_def s'_def server_completes_def run_server_def queue_slots_def kick_room_def)
  moreover have "steps_left A s q = Suc (steps_left A s' ?q)"
  proof -
    have "length (removeAll h (sy_pending s)) = length (sy_pending s) - 1" "0 < length (sy_pending s)"
      using h pending_heads_distinct [OF vr] pend by (auto simp flip: distinct_remove1_removeAll simp: length_remove1)
    then have "length (sy_pending s) = Suc (length (removeAll h (sy_pending s)))" by simp
    then show ?thesis by (simp add: steps_left_def s'_def del: length_removeAll_less_eq)
  qed
  ultimately show ?thesis by blast
qed


text \<open>The poller fetches a completion.\<close>

lemma fetch_ok:
  assumes rep: "sync_rep A task_of n s q" and q: "completed q = (t, l) # dn"
  obtains a task vr where "a \<in> A" "t = task_of a" "t \<noteq> NULL" "s_tasks (w_sys (sy_world s)) t = Some task"
    "task_wf task" "count task = n a" "cb task = Some vring_submit_sync_callback" "arg task = a"
    "(vring_idx task, l) \<in> set (sy_log s)" "t \<notin> fst ` set dn" "t \<in> fst ` set (inflight q)"
    "vring_get_task (w_ring (sy_world s)) (w_sys (sy_world s)) =
      Some (t, vr, (w_sys (sy_world s))\<lparr>s_tasks := (s_tasks (w_sys (sy_world s)))(t \<mapsto> task\<lparr>used_bytes := l\<rparr>)\<rparr>)"
    "vring_rep vr ((w_sys (sy_world s))\<lparr>s_tasks := (s_tasks (w_sys (sy_world s)))(t \<mapsto> task\<lparr>used_bytes := l\<rparr>)\<rparr>)
      \<lparr>inflight = drop_task t (inflight q), completed = dn\<rparr>"
proof -
  have vr: "vring_rep (w_ring (sy_world s)) (w_sys (sy_world s)) q" using rep by (simp add: sync_rep_def)
  have fl: "t \<in> fst ` set (inflight q)" by (rule completed_inflight [OF vr, of t l]) (simp add: q)
  then obtain a where a: "a \<in> A" "t = task_of a" using rep by (auto simp: sync_rep_def)
  obtain task where task: "s_tasks (w_sys (sy_world s)) t = Some task" "task_wf task" "count task = n a"
    "cb task = Some vring_submit_sync_callback" "arg task = a"
    using sync_repD(2) [OF rep a(1)] fl a(2) by (auto simp: job_task_def)
  have "completions_logged (w_sys (sy_world s)) (sy_log s) q" using rep by (simp add: sync_rep_def)
  then have "(vring_idx task, l) \<in> set (sy_log s)" using task(1) q by (simp add: completions_logged_def)
  moreover have "t \<notin> fst ` set dn" using vr q by (auto simp: vring_rep_def used_rep_def)
  moreover obtain vr' where "vring_get_task (w_ring (sy_world s)) (w_sys (sy_world s)) =
      Some (t, vr', (w_sys (sy_world s))\<lparr>s_tasks := (s_tasks (w_sys (sy_world s)))(t \<mapsto> task\<lparr>used_bytes := l\<rparr>)\<rparr>)"
    "vring_rep vr' ((w_sys (sy_world s))\<lparr>s_tasks := (s_tasks (w_sys (sy_world s)))(t \<mapsto> task\<lparr>used_bytes := l\<rparr>)\<rparr>)
      \<lparr>inflight = drop_task t (inflight q), completed = dn\<rparr>"
    using vring_get_completed(2) [OF vr q] task(1) by auto
  ultimately show ?thesis using that [OF a vring_get_completed(1) [OF vr q] task] fl by simp
qed

lemma fetch_enabled:
  assumes rep: "sync_rep A task_of n s q" and q: "completed q = (t, l) # dn" and idle: "sy_poll s = PPoll"
  shows "\<exists>s'. sync_step sp A task_of s s'"
proof (rule fetch_ok [OF rep q])
  fix task vr
  let ?sys = "(w_sys (sy_world s))\<lparr>s_tasks := (s_tasks (w_sys (sy_world s)))(t \<mapsto> task\<lparr>used_bytes := l\<rparr>)\<rparr>"
  assume "vring_get_task (w_ring (sy_world s)) (w_sys (sy_world s)) = Some (t, vr, ?sys)" "t \<noteq> NULL"
    "cb task = Some vring_submit_sync_callback"
  then show ?thesis
    using poll [of s t vr ?sys "task\<lparr>used_bytes := l\<rparr>" sp A task_of] idle by auto
qed

lemma fetch_phase:
  assumes ok: "jobs_ok A task_of n" and rep: "sync_rep A task_of n s q" and idle: "sy_poll s = PPoll"
    and q: "completed q = (task_of a, l) # dn" and a: "a \<in> A" and b: "b \<in> A"
  shows "(sy_pc s b, sy_mtx s b, stage \<lparr>inflight = drop_task (task_of a) (inflight q), completed = dn\<rparr> (PLock a) b (task_of b)) \<in> phases"
proof (cases "b = a")
  case True
  then have "stage q (sy_poll s) b (task_of b) = Done" using q by (simp add: stage_def idle)
  then show ?thesis using sync_repD(1) [OF rep b] True by (auto simp: stage_def phases_def)
next
  case False
  then show ?thesis using sync_repD(1) [OF rep b] other_task [OF ok a b] q by (simp add: stage_def idle split: if_splits)
qed

lemma fetch_step:
  assumes ok: "jobs_ok A task_of n" and rep: "sync_rep A task_of n s q" and idle: "sy_poll s = PPoll"
    and get: "vring_get_task (w_ring (sy_world s)) (w_sys (sy_world s)) = Some (t, vr, sys)" "t \<noteq> NULL" "s_tasks sys t = Some task"
  shows "\<exists>q'. sync_rep A task_of n (s\<lparr>sy_world := (sy_world s)\<lparr>w_ring := vr, w_sys := sys\<rparr>, sy_poll := PLock (arg task)\<rparr>) q' \<and>
    steps_left A s q = Suc (steps_left A (s\<lparr>sy_world := (sy_world s)\<lparr>w_ring := vr, w_sys := sys\<rparr>, sy_poll := PLock (arg task)\<rparr>) q')"
proof -
  let ?w = "sy_world s"
  have vr0: "vring_rep (w_ring ?w) (w_sys ?w) q" using rep by (simp add: sync_rep_def)
  obtain l dn where q: "completed q = (t, l) # dn"
    using vring_get_empty [OF vr0] vring_get_completed(2) [OF vr0] get(1,2) by (cases "completed q") fastforce+
  obtain a task0 vr1 where a: "a \<in> A" "t = task_of a" and task0: "s_tasks (w_sys ?w) t = Some task0" "task_wf task0" "count task0 = n a"
    "cb task0 = Some vring_submit_sync_callback" "arg task0 = a" "(vring_idx task0, l) \<in> set (sy_log s)"
    and t: "t \<notin> fst ` set dn" "t \<in> fst ` set (inflight q)"
    and get': "vring_get_task (w_ring ?w) (w_sys ?w) = Some (t, vr1, (w_sys ?w)\<lparr>s_tasks := (s_tasks (w_sys ?w))(t \<mapsto> task0\<lparr>used_bytes := l\<rparr>)\<rparr>)"
    and vr1: "vring_rep vr1 ((w_sys ?w)\<lparr>s_tasks := (s_tasks (w_sys ?w))(t \<mapsto> task0\<lparr>used_bytes := l\<rparr>)\<rparr>)
      \<lparr>inflight = drop_task t (inflight q), completed = dn\<rparr>"
    by (rule fetch_ok [OF rep q])
  let ?q = "\<lparr>inflight = drop_task t (inflight q), completed = dn\<rparr>"
  have sys: "sys = (w_sys ?w)\<lparr>s_tasks := (s_tasks (w_sys ?w))(t \<mapsto> task0\<lparr>used_bytes := l\<rparr>)\<rparr>" and vr: "vring_rep vr sys ?q"
    and arg: "arg task = a" using get(1,3) get' vr1 task0(5) by auto
  define s' where "s' = s\<lparr>sy_world := ?w\<lparr>w_ring := vr, w_sys := sys\<rparr>, sy_poll := PLock a\<rparr>"
  note other = other_task [OF ok a(1), folded a(2)] and phase = fetch_phase [OF ok rep idle q [unfolded a(2)] a(1), folded a(2)]
  have un: "unsubmitted A s' = unsubmitted A s" by (simp add: unsubmitted_def s'_def)
  have job: "job_task sys ?q (n b) b (task_of b)" if "b \<in> A" for b
    by (cases "b = a", use task0 a(2) in \<open>simp add: job_task_def sys task_wf_def\<close>, rule job_task_other [OF sync_repD(2) [OF rep that]])
      (use other [OF that] in \<open>simp_all add: sys\<close>)
  have "completions_logged (w_sys ?w) (sy_log s) q" using rep by (simp add: sync_rep_def)
  then have logged: "completions_logged sys (sy_log s) ?q"
    by (rule completions_logged_mono) (use t(1) q in \<open>simp_all add: sys, blast+\<close>)
  have result: "result_logged sys (sy_log s) (task_of b)"
    if "b \<in> A" "b \<notin> unsubmitted A s" "task_of b \<notin> fst ` set (inflight q) \<or> task_of b = t" for b
  proof (cases "b = a")
    case True
    then show ?thesis using task0(6) a(2) by (simp add: result_logged_def sys)
  next
    case False
    then have "result_logged (w_sys ?w) (sy_log s) (task_of b)" using rep that other by (simp add: sync_rep_def)
    then show ?thesis by (rule result_logged_other) (use other [OF that(1) False] in \<open>simp_all add: sys\<close>)
  qed
  have "fst ` set (drop_task t (inflight q)) \<subseteq> task_of ` A" using rep by (auto simp: sync_rep_def drop_task_def)
  then have "sync_rep A task_of n s' ?q"
    using rep vr phase job logged result un pending_heads_get [OF q t(1)] queue_slots_drop [of t q dn] a vring_get_fds [OF get(1)]
    by (simp add: sync_rep_def s'_def poll_target_def kick_room_def)
  moreover have "steps_left A s q = Suc (steps_left A s' ?q)" by (simp add: steps_left_def s'_def idle q)
  ultimately show ?thesis unfolding s'_def arg by blast
qed


section \<open>All steps\<close>

lemma sync_step_ok:
  assumes ok: "jobs_ok A task_of n" and rep: "sync_rep A task_of n s q" and step: "sync_step False A task_of s s'"
  shows "\<exists>q'. sync_rep A task_of n s' q' \<and> steps_left A s q = Suc (steps_left A s' q')"
  using step
proof (cases rule: sync_step.cases)
  case (lock a)
  with phase_cases [OF rep \<open>a \<in> A\<close>] show ?thesis by (intro local_step [OF ok rep, of a _ SSubmit "Some Submitter"]) (auto simp: phases_def)
next
  case (submit a w)
  with submit_step(2) [OF ok rep] show ?thesis by simp
next
  case (submit_fails a rc w)
  with submit_step(1) [OF ok rep] show ?thesis by simp
next
  case (fail_unlock a)
  with phase_cases [OF rep \<open>a \<in> A\<close>] show ?thesis by simp
next
  case (wait a)
  with phase_cases [OF rep \<open>a \<in> A\<close>] show ?thesis by (intro local_step [OF ok rep, of a _ SBlocked None]) (auto simp: phases_def)
next
  case (wake_up a)
  then show ?thesis by simp
next
  case (relock a)
  with phase_cases [OF rep \<open>a \<in> A\<close>] show ?thesis by (intro local_step [OF ok rep, of a _ SUnlock "Some Submitter"]) (auto simp: phases_def)
next
  case (unlock a)
  with phase_cases [OF rep \<open>a \<in> A\<close>] show ?thesis by (intro local_step [OF ok rep, of a _ "SReturned 0" None]) (auto simp: phases_def)
next
  case (serve h l m d)
  with serve_step [OF ok rep] show ?thesis by simp
next
  case (poll t vr sys task)
  with fetch_step [OF ok rep] show ?thesis by simp
next
  case (poll_lock a)
  then have "a \<in> A" "stage q (sy_poll s) a (task_of a) = Calling" using rep by (auto simp: sync_rep_def poll_target_def stage_def)
  with poll_lock phase_cases [OF rep \<open>a \<in> A\<close>] show ?thesis
    by (intro local_step [OF ok rep, of a _ SBlocked "Some Poller"]) (auto simp: phases_def stage_def poll_target_def fun_upd_idem)
next
  case (poll_signal a)
  then have "a \<in> A" "stage q (sy_poll s) a (task_of a) = Signalling" using rep by (auto simp: sync_rep_def poll_target_def stage_def)
  with poll_signal phase_cases [OF rep \<open>a \<in> A\<close>] show ?thesis
    by (intro local_step [OF ok rep, of a _ SWoken "Some Poller"]) (auto simp: phases_def stage_def poll_target_def cond_signal_def fun_upd_idem)
next
  case (poll_unlock a)
  then have "a \<in> A" "stage q (sy_poll s) a (task_of a) = Releasing" "task_of a \<notin> fst ` set (inflight q)"
    using rep by (auto simp: sync_rep_def poll_target_def stage_def)
  moreover have "task_of a \<notin> fst ` set (completed q)" 
    using \<open>task_of a \<notin> fst ` set (inflight q)\<close> completed_inflight [of _ _ q] rep by (auto simp: sync_rep_def)
  ultimately show ?thesis using poll_unlock phase_cases [OF rep \<open>a \<in> A\<close>]
    by (intro local_step [OF ok rep, of a _ SWoken None]) (auto simp: phases_def poll_target_def fun_upd_idem)
qed


definition sync_start :: "'d pworld \<Rightarrow> 'd sync_state" where
  "sync_start w = \<lparr>sy_world = w, sy_pc = (\<lambda>_. SLock), sy_mtx = (\<lambda>_. None), sy_poll = PPoll, sy_pending = [], sy_log = []\<rparr>"

definition task_count :: "sys \<Rightarrow> ptr \<Rightarrow> nat" where
  "task_count s t = (case s_tasks s t of None \<Rightarrow> 0 | Some task \<Rightarrow> count task)"

text \<open>An idle ring with room for all tasks, each of them built and not yet submitted.\<close>

definition submitters_ready :: "ptr set \<Rightarrow> (ptr \<Rightarrow> ptr) \<Rightarrow> 'd pworld \<Rightarrow> bool" where
  "submitters_ready A task_of w \<longleftrightarrow> jobs_ok A task_of (task_count (w_sys w) \<circ> task_of) \<and>
     vring_rep (w_ring w) (w_sys w) empty_queue \<and>
     (\<forall>a \<in> A. \<exists>task. s_tasks (w_sys w) (task_of a) = Some task \<and> task_wf task) \<and>
     (\<Sum>a \<in> A. task_count (w_sys w) (task_of a)) \<le> 1024 \<and> kick_room (card A) (w_ring w) (w_sys w)"

lemma sync_rep_start:
  assumes "submitters_ready A task_of w"
  shows "sync_rep A task_of (task_count (w_sys w) \<circ> task_of) (sync_start w) empty_queue"
    "steps_left A (sync_start w) empty_queue = 10 * card A"
proof -
  have un: "unsubmitted A (sync_start w) = A" by (simp add: unsubmitted_def sync_start_def)
  have "job_task (w_sys w) empty_queue ((task_count (w_sys w) \<circ> task_of) a) a (task_of a)" if "a \<in> A" for a
  proof -
    have "\<forall>a \<in> A. \<exists>task. s_tasks (w_sys w) (task_of a) = Some task \<and> task_wf task" using assms by (simp add: submitters_ready_def)
    then obtain task where "s_tasks (w_sys w) (task_of a) = Some task" "task_wf task" using \<open>a \<in> A\<close> by metis
    then show ?thesis by (simp add: job_task_def task_count_def empty_queue_def)
  qed
  with assms un show "sync_rep A task_of (task_count (w_sys w) \<circ> task_of) (sync_start w) empty_queue"
    by (simp add: sync_rep_def submitters_ready_def sync_start_def phases_def empty_queue_def poll_target_def pending_heads_def
        queue_slots_def completions_logged_def comp_def)
  show "steps_left A (sync_start w) empty_queue = 10 * card A"
    by (simp add: steps_left_def sync_start_def empty_queue_def)
qed

interpretation sync_wait: inductive_invariant "\<lambda>s. submitters_ready A task_of w \<and> s = sync_start w" "sync_step False A task_of"
  "\<lambda>s. submitters_ready A task_of w \<and> (\<exists>q. sync_rep A task_of (task_count (w_sys w) \<circ> task_of) s q)"
proof
  fix s assume "submitters_ready A task_of w \<and> s = sync_start w"
  then show "submitters_ready A task_of w \<and> (\<exists>q. sync_rep A task_of (task_count (w_sys w) \<circ> task_of) s q)"
    using sync_rep_start(1) by blast
next
  fix s t
  assume s: "submitters_ready A task_of w \<and> (\<exists>q. sync_rep A task_of (task_count (w_sys w) \<circ> task_of) s q)" "sync_step False A task_of s t"
  then have "jobs_ok A task_of (task_count (w_sys w) \<circ> task_of)" by (simp add: submitters_ready_def)
  from sync_step_ok [OF this _ s(2)] s(1)
  show "submitters_ready A task_of w \<and> (\<exists>q. sync_rep A task_of (task_count (w_sys w) \<circ> task_of) t q)" by blast
qed

lemma sync_run_length:
  assumes ok: "jobs_ok A task_of n" and rep: "sync_rep A task_of n s q" and run: "(sync_step False A task_of ^^ k) s s'"
  shows "\<exists>q'. sync_rep A task_of n s' q' \<and> steps_left A s q = k + steps_left A s' q'"
  using run
proof (induction k arbitrary: s')
  case 0
  with rep show ?case by auto
next
  case (Suc k)
  then obtain s1 where s1: "(sync_step False A task_of ^^ k) s s1" "sync_step False A task_of s1 s'" by auto
  from Suc.IH [OF s1(1)] sync_step_ok [OF ok _ s1(2)] show ?case by fastforce
qed

text \<open>While a submission has not returned some thread can take a step.\<close>

lemma stuck_idle:
  assumes rep: "sync_rep A task_of n s q" and stuck: "\<And>s'. \<not> sync_step sp A task_of s s'"
  shows "sy_poll s = PPoll" "completed q = []" "sy_pending s = []"
proof -
  show idle: "sy_poll s = PPoll"
  proof (cases "sy_poll s")
    case (PLock b)
    then have "b \<in> A" "stage q (sy_poll s) b (task_of b) = Calling" using rep by (auto simp: sync_rep_def poll_target_def stage_def)
    then show ?thesis using phase_cases [OF rep \<open>b \<in> A\<close>] stuck poll_lock [OF PLock] wait by fastforce
  qed (use stuck poll_signal poll_unlock in blast)+
  show "completed q = []"
  proof (cases "completed q")
    case (Cons x dn)
    then obtain t l where "completed q = (t, l) # dn" by (cases x) auto
    from fetch_enabled [OF rep this idle] stuck show ?thesis by blast
  qed simp
  show "sy_pending s = []" using stuck serve [of _ s] by (cases "sy_pending s") (auto, metis list.set_intros(1))
qed

lemma sync_progress:
  assumes ok: "jobs_ok A task_of n" and rep: "sync_rep A task_of n s q" and stuck: "\<And>s'. \<not> sync_step sp A task_of s s'"
    and a: "a \<in> A"
  shows "sy_pc s a = SReturned 0"
proof -
  note idle = stuck_idle [OF rep stuck]
  with idle(2,3) rep have "inflight q = []" by (simp add: sync_rep_def pending_heads_def)
  then have "stage q (sy_poll s) a (task_of a) = Away" using idle(2) by (simp add: idle(1))
  moreover have "sy_pc s a \<noteq> SSubmit"
  proof
    assume pc: "sy_pc s a = SSubmit"
    show False by (rule submit_ok [OF ok rep a pc]) (use stuck submit [OF a pc] in blast)
  qed
  ultimately show ?thesis using phase_cases [OF rep a] stuck lock [OF a] relock [OF a] unlock [OF a] by fastforce
qed

lemma steps_left_end:
  assumes "sync_rep A task_of n s q" "\<nexists>s'. sync_step sp A task_of s s'" "\<And>a. a \<in> A \<Longrightarrow> sy_pc s a = SReturned 0"
  shows "steps_left A s q = 0"
proof -
  have "\<And>s'. \<not> sync_step sp A task_of s s'" using assms(2) by blast
  note stuck_idle [OF assms(1) this]
  then show ?thesis using assms(3) by (simp add: steps_left_def)
qed

lemma sync_run_exists:
  assumes "submitters_ready A task_of w" "k \<le> 10 * card A"
  shows "\<exists>s. (sync_step False A task_of ^^ k) (sync_start w) s"
  using assms(2)
proof (induction k)
  case (Suc k)
  then obtain s where s: "(sync_step False A task_of ^^ k) (sync_start w) s" by auto
  have ok: "jobs_ok A task_of (task_count (w_sys w) \<circ> task_of)" using assms(1) by (simp add: submitters_ready_def)
  from sync_run_length [OF ok sync_rep_start(1) [OF assms(1)] s] obtain q where
    rep: "sync_rep A task_of (task_count (w_sys w) \<circ> task_of) s q" and len: "10 * card A = k + steps_left A s q"
    unfolding sync_rep_start(2) [OF assms(1)] by blast
  have "\<exists>s'. sync_step False A task_of s s'"
  proof (rule ccontr)
    assume stuck: "\<nexists>s'. sync_step False A task_of s s'"
    then have "sy_pc s a = SReturned 0" if "a \<in> A" for a using that by (intro sync_progress [OF ok rep]) auto
    then have "steps_left A s q = 0" by (rule steps_left_end [OF rep stuck])
    with len Suc.prems show False by simp
  qed
  with s show ?case by (meson relpowp_Suc_I)
qed auto


section \<open>Spurious wake-ups\<close>

lemma sync_step_mono: "sync_step False A task_of s s' \<Longrightarrow> sync_step True A task_of s s'"
  by (induction rule: sync_step.induct) (auto intro: sync_step.intros)

lemma sync_run_mono: "(sync_step False A task_of)\<^sup>*\<^sup>* s s' \<Longrightarrow> (sync_step True A task_of)\<^sup>*\<^sup>* s s'"
  by (rule mono_rtranclp [rule_format, OF sync_step_mono])

text \<open>The thread that waits, alone, with its task at the server.\<close>

lemma run_to_wait:
  assumes ready: "submitters_ready {a} (\<lambda>_. t) w"
  obtains s h where "(sync_step False {a} (\<lambda>_. t))\<^sup>*\<^sup>* (sync_start w) s" "\<exists>q. sync_rep {a} (\<lambda>_. t) (\<lambda>_. task_count (w_sys w) t) s q"
    "sy_pc s a = SBlocked" "sy_mtx s a = None" "sy_poll s = PPoll" "sy_pending s = [h]" "sy_log s = []"
proof -
  let ?R = "sync_step False {a} (\<lambda>_. t)" and ?n = "\<lambda>_. task_count (w_sys w) t"
  have ok: "jobs_ok {a} (\<lambda>_. t) ?n" using ready by (simp add: submitters_ready_def comp_def)
  have rep0: "sync_rep {a} (\<lambda>_. t) ?n (sync_start w) empty_queue" using sync_rep_start(1) [OF ready] by (simp add: comp_def)
  let ?s1 = "(sync_start w)\<lparr>sy_pc := (sy_pc (sync_start w))(a := SSubmit), sy_mtx := (sy_mtx (sync_start w))(a := Some Submitter)\<rparr>"
  have step1: "?R (sync_start w) ?s1" by (rule lock) (simp_all add: sync_start_def)
  from sync_step_ok [OF ok rep0 step1] obtain q1 where rep1: "sync_rep {a} (\<lambda>_. t) ?n ?s1 q1" by blast
  obtain w2 where sub: "vring_submit_task t (Some vring_submit_sync_callback) a (sy_world ?s1) = Some (0, w2)"
    by (rule submit_ok [OF ok rep1, of a]) simp_all
  let ?s2 = "?s1\<lparr>sy_pc := (sy_pc ?s1)(a := SWait), sy_world := w2, sy_pending := sy_pending ?s1 @ [last_announced (w_ring w2)]\<rparr>"
  have step2: "?R ?s1 ?s2" by (rule submit [OF _ _ sub]) simp_all
  let ?s3 = "?s2\<lparr>sy_pc := (sy_pc ?s2)(a := SBlocked), sy_mtx := (sy_mtx ?s2)(a := None)\<rparr>"
  have step3: "?R ?s2 ?s3" by (rule wait) simp_all
  from sync_step_ok [OF ok rep1 step2] sync_step_ok [OF ok _ step3] have "\<exists>q. sync_rep {a} (\<lambda>_. t) ?n ?s3 q" by blast
  moreover have "?R\<^sup>*\<^sup>* (sync_start w) ?s3"
    using step1 step2 step3 by (meson rtranclp.rtrancl_refl rtranclp.rtrancl_into_rtrancl)
  ultimately show ?thesis by (intro that [where s = ?s3]) (simp_all add: sync_start_def)
qed

text \<open>The thread wakes up without a signal and returns 0.\<close>

lemma run_spurious:
  assumes "a \<in> A" "sy_pc s a = SBlocked" "sy_mtx s a = None"
  obtains s' where "(sync_step True A task_of)\<^sup>*\<^sup>* s s'" "sy_pc s' a = SReturned 0" "sy_poll s' = sy_poll s" "sy_log s' = sy_log s"
proof -
  let ?s1 = "s\<lparr>sy_pc := (sy_pc s)(a := SWoken)\<rparr>"
  let ?s2 = "?s1\<lparr>sy_pc := (sy_pc ?s1)(a := SUnlock), sy_mtx := (sy_mtx ?s1)(a := Some Submitter)\<rparr>"
  let ?s3 = "?s2\<lparr>sy_pc := (sy_pc ?s2)(a := SReturned 0), sy_mtx := (sy_mtx ?s2)(a := None)\<rparr>"
  have "sync_step True A task_of s ?s1" by (rule wake_up [OF assms(1,2) TrueI])
  moreover have "sync_step True A task_of ?s1 ?s2" by (rule relock) (use assms in simp_all)
  moreover have "sync_step True A task_of ?s2 ?s3" by (rule unlock) (use assms in simp_all)
  ultimately have "(sync_step True A task_of)\<^sup>*\<^sup>* s ?s3"
    by (meson rtranclp.rtrancl_refl rtranclp.rtrancl_into_rtrancl)
  then show ?thesis by (rule that) simp_all
qed

text \<open>The server completes the task and the poller fetches it.\<close>

lemma run_to_callback:
  assumes ok: "jobs_ok {a} (\<lambda>_. t) n" and rep: "sync_rep {a} (\<lambda>_. t) n s q"
    and s: "sy_pc s a = SBlocked" "sy_mtx s a = None" "sy_poll s = PPoll" "sy_pending s = [h]"
  obtains s' where "(sync_step False {a} (\<lambda>_. t))\<^sup>*\<^sup>* s s'" "sy_pc s' a = SBlocked" "sy_mtx s' a = None" "sy_poll s' = PLock a"
proof -
  let ?s1 = "s\<lparr>sy_world := server_completes h 0 (s_mem (w_sys (sy_world s))) (w_srv (sy_world s)) (sy_world s),
    sy_pending := removeAll h (sy_pending s), sy_log := (h, 0) # sy_log s\<rparr>"
  have step1: "sync_step False {a} (\<lambda>_. t) s ?s1" by (rule serve) (simp add: s(4))
  from sync_step_ok [OF ok rep step1] obtain q1 where rep1: "sync_rep {a} (\<lambda>_. t) n ?s1 q1" by blast
  have "pending_heads q1 = []" using rep1 s(4) by (simp add: sync_rep_def)
  moreover have "stage q1 PPoll a t \<noteq> Away" using phase_cases [OF rep1, of a] s by (auto split: if_splits)
  ultimately have "completed q1 \<noteq> []" by (auto simp: pending_heads_def filter_empty_conv split: if_splits)
  then obtain l dn t' where q1: "completed q1 = (t', l) # dn" by (cases "completed q1") auto
  obtain vr sys task where
    get: "vring_get_task (w_ring (sy_world ?s1)) (w_sys (sy_world ?s1)) = Some (t', vr, sys)" "t' \<noteq> NULL" "s_tasks sys t' = Some task"
      "cb task = Some vring_submit_sync_callback" "arg task = a"
    by (rule fetch_ok [OF rep1 q1]) auto
  let ?s2 = "?s1\<lparr>sy_world := (sy_world ?s1)\<lparr>w_ring := vr, w_sys := sys\<rparr>, sy_poll := PLock (arg task)\<rparr>"
  have "sync_step False {a} (\<lambda>_. t) ?s1 ?s2" by (rule poll [OF _ get(1-4)]) (simp add: s(3))
  with step1 have "(sync_step False {a} (\<lambda>_. t))\<^sup>*\<^sup>* s ?s2"
    by (meson rtranclp.rtrancl_refl rtranclp.rtrancl_into_rtrancl)
  then show ?thesis by (rule that) (simp_all add: s get(5))
qed


section \<open>Theorems\<close>

lemma sync_run_ends:
  assumes "submitters_ready A task_of w" "(sync_step False A task_of ^^ k) (sync_start w) s"
  shows "k \<le> 10 * card A \<and> ((\<exists>s'. sync_step False A task_of s s') \<or>
    k = 10 * card A \<and> (\<forall>a \<in> A. sy_pc s a = SReturned 0 \<and> result_logged (w_sys (sy_world s)) (sy_log s) (task_of a)))"
proof -
  have ok: "jobs_ok A task_of (task_count (w_sys w) \<circ> task_of)" using assms(1) by (simp add: submitters_ready_def)
  from sync_run_length [OF ok sync_rep_start(1) [OF assms(1)] assms(2)] obtain q where
    rep: "sync_rep A task_of (task_count (w_sys w) \<circ> task_of) s q" and len: "10 * card A = k + steps_left A s q"
    unfolding sync_rep_start(2) [OF assms(1)] by blast
  show ?thesis
  proof (cases "\<exists>s'. sync_step False A task_of s s'")
    case False
    then have ret: "sy_pc s a = SReturned 0" if "a \<in> A" for a using sync_progress [OF ok rep _ that] by blast
    moreover have "result_logged (w_sys (sy_world s)) (sy_log s) (task_of a)" if "a \<in> A" for a
      using rep ret [OF that] that sync_repD(1) [OF rep that]
      by (auto simp: sync_rep_def unsubmitted_def phases_def stage_def split: if_splits)
    moreover have "steps_left A s q = 0" by (rule steps_left_end [OF rep False ret])
    ultimately show ?thesis using len by simp
  qed (use len in simp)
qed

text \<open>
  C10. Synchronous submissions return, for any number of callers whose calls into the ring do not overlap: as long as the ring has room for all
  tasks and condition variables wake up on signals only, every interleaving of the steps of the submitting threads, the poller and
  the server (a submission to the ring and a fetch from it are one step each) ends after exactly ten steps per submission, no state on the way is a
  deadlock (no wake-up is lost), and at the end every call has returned 0 with the byte count that the server gave its task.
\<close>

theorem sync_submissions_return:
  assumes "submitters_ready A task_of w" "(sync_step False A task_of ^^ k) (sync_start w) s"
  shows "k \<le> 10 * card A \<and> ((\<exists>s'. sync_step False A task_of s s') \<or>
    k = 10 * card A \<and> (\<forall>a \<in> A. sy_pc s a = SReturned 0 \<and> result_logged (w_sys (sy_world s)) (sy_log s) (task_of a)))"
  by (rule sync_run_ends [OF assms])

lemma submitters_ready_example: "submitters_ready {500} (\<lambda>_. 100) example_idle_world"
  using example_rep example_task_facts
  by (simp add: submitters_ready_def jobs_ok_def task_count_def example_idle_world_def kick_room_def example_sys_def example_ring_def)

theorem sync_submissions_return_witness:
  "\<exists>s. (sync_step False {500} (\<lambda>_. 100) ^^ 10) (sync_start example_idle_world) s \<and> sy_pc s 500 = SReturned 0 \<and>
    result_logged (w_sys (sy_world s)) (sy_log s) 100"
proof -
  let ?R = "sync_step False {500} (\<lambda>_. 100) :: unit sync_state \<Rightarrow> _"
  obtain s where s: "(?R ^^ 10) (sync_start example_idle_world) s" using sync_run_exists [OF submitters_ready_example, of 10] by auto
  have "\<not> ?R s s'" for s'
  proof
    assume "?R s s'"
    with s have "(?R ^^ Suc 10) (sync_start example_idle_world) s'" by (rule relpowp_Suc_I)
    from sync_submissions_return [OF submitters_ready_example this] show False by simp
  qed
  then show ?thesis using sync_submissions_return [OF submitters_ready_example s] s by auto
qed

text \<open>
  C11. Under the same conditions, in particular without spurious wake-ups, the poller never touches the mutex or the condition variable of a call that has
  returned (both are on the stack of the caller), at most one side holds the mutex, and a call returns only after
  the server completed its task, with the result of that completion.
\<close>

theorem sync_frame_alive:
  assumes "reachable (\<lambda>s. submitters_ready A task_of w \<and> s = sync_start w) (sync_step False A task_of) s"
  shows "(\<forall>a r. sy_poll s \<in> {PLock a, PSignal a, PUnlock a} \<longrightarrow> a \<in> A \<and> sy_pc s a \<noteq> SReturned r) \<and>
    (\<forall>a \<in> A. sy_pc s a = SUnlock \<longrightarrow> sy_mtx s a = Some Submitter) \<and>
    (\<forall>a \<in> A. \<forall>r. sy_pc s a = SReturned r \<longrightarrow> r = 0 \<and> result_logged (w_sys (sy_world s)) (sy_log s) (task_of a))"
proof -
  obtain q where rep: "sync_rep A task_of (task_count (w_sys w) \<circ> task_of) s q" using sync_wait.reachable_inv [OF assms] by blast
  have "a \<in> A \<and> sy_pc s a \<noteq> SReturned r" if "sy_poll s \<in> {PLock a, PSignal a, PUnlock a}" for a r
  proof -
    have a: "a \<in> A" using rep that by (auto simp: sync_rep_def poll_target_def)
    then show ?thesis using phase_cases [OF rep a] that by (auto simp: stage_def)
  qed
  moreover have "sy_mtx s a = Some Submitter" if "a \<in> A" "sy_pc s a = SUnlock" for a using phase_cases [OF rep that(1)] that by auto
  moreover have "r = 0 \<and> result_logged (w_sys (sy_world s)) (sy_log s) (task_of a)" if a: "a \<in> A" "sy_pc s a = SReturned r" for a r
    using rep a phase_cases [OF rep a(1)] by (auto simp: sync_rep_def unsubmitted_def stage_def split: if_splits)
  ultimately show ?thesis by blast
qed

text \<open>The instance: a state in which the poller is about to lock the mutex of a call that waits, and one in which the call has returned.\<close>

lemma example_run_ended:
  obtains s where "(sync_step False {500} (\<lambda>_. 100) ^^ 10) (sync_start example_idle_world) s" "sy_pc s 500 = SReturned 0"
proof -
  let ?R = "sync_step False {500} (\<lambda>_. 100) :: unit sync_state \<Rightarrow> _"
  obtain s where s: "(?R ^^ 10) (sync_start example_idle_world) s" using sync_run_exists [OF submitters_ready_example, of 10] by auto
  have "\<not> ?R s s'" for s' using sync_run_ends [OF submitters_ready_example relpowp_Suc_I [OF s]] by auto
  with sync_run_ends [OF submitters_ready_example s] s show ?thesis by (intro that) auto
qed

theorem sync_frame_alive_witness:
  "\<exists>s s'. (sync_step False {500} (\<lambda>_. 100))\<^sup>*\<^sup>* (sync_start example_idle_world) s \<and> sy_poll s = PLock 500 \<and> sy_pc s 500 \<noteq> SReturned 0 \<and>
    (sync_step False {500} (\<lambda>_. 100))\<^sup>*\<^sup>* (sync_start example_idle_world) s' \<and> sy_pc s' 500 = SReturned 0 \<and>
    sy_poll s' \<notin> {PLock 500, PSignal 500, PUnlock 500} \<and> result_logged (w_sys (sy_world s')) (sy_log s') 100"
proof -
  let ?R = "sync_step False {500} (\<lambda>_. 100) :: unit sync_state \<Rightarrow> _" and ?n = "\<lambda>_. task_count (w_sys example_idle_world) 100"
  have reach: "reachable (\<lambda>s. submitters_ready {500} (\<lambda>_. 100) example_idle_world \<and> s = sync_start example_idle_world) ?R s"
    if "?R\<^sup>*\<^sup>* (sync_start example_idle_world) s" for s
    using reachable_run [OF reach_init that] submitters_ready_example by simp
  have ok: "jobs_ok {500} (\<lambda>_. 100) ?n" using submitters_ready_example by (simp add: submitters_ready_def comp_def)
  obtain s1 h where s1: "?R\<^sup>*\<^sup>* (sync_start example_idle_world) s1" "\<exists>q. sync_rep {500} (\<lambda>_. 100) ?n s1 q"
    "sy_pc s1 500 = SBlocked" "sy_mtx s1 500 = None" "sy_poll s1 = PPoll" "sy_pending s1 = [h]" "sy_log s1 = []"
    by (rule run_to_wait [OF submitters_ready_example])
  from s1(2) obtain q where q: "sync_rep {500} (\<lambda>_. 100) ?n s1 q" by blast
  obtain s where s: "?R\<^sup>*\<^sup>* s1 s" "sy_poll s = PLock 500" by (rule run_to_callback [OF ok q s1(3-6)])
  have run: "?R\<^sup>*\<^sup>* (sync_start example_idle_world) s" using s1(1) s(1) by (rule rtranclp_trans)
  have "sy_pc s 500 \<noteq> SReturned 0" using sync_frame_alive [OF reach [OF run]] s(2) by blast
  moreover obtain s' where s': "?R\<^sup>*\<^sup>* (sync_start example_idle_world) s'" "sy_pc s' 500 = SReturned 0"
    by (rule example_run_ended) (auto dest: relpowp_imp_rtranclp)
  moreover have "sy_poll s' \<notin> {PLock 500, PSignal 500, PUnlock 500}" "result_logged (w_sys (sy_world s')) (sy_log s') 100"
    using sync_frame_alive [OF reach [OF s'(1)]] s'(2) by blast+
  ultimately show ?thesis using run s(2) by blast
qed

text \<open>
  C12. \<open>vring_submit_task_sync\<close> waits without a loop around \<open>pthread_cond_wait\<close>. With one spurious wake-up, which POSIX
  allows, the call can return 0 before the server has completed anything, and it can return while the poller is about to
  lock the mutex in its dead stack frame.
\<close>

theorem sync_spurious_wakeup:
  assumes "submitters_ready {a} (\<lambda>_. t) w"
  shows "(\<exists>s. (sync_step True {a} (\<lambda>_. t))\<^sup>*\<^sup>* (sync_start w) s \<and> sy_pc s a = SReturned 0 \<and> sy_log s = []) \<and>
    (\<exists>s. (sync_step True {a} (\<lambda>_. t))\<^sup>*\<^sup>* (sync_start w) s \<and> sy_pc s a = SReturned 0 \<and> sy_poll s = PLock a)"
proof -
  have ok: "jobs_ok {a} (\<lambda>_. t) (\<lambda>_. task_count (w_sys w) t)" using assms by (simp add: submitters_ready_def comp_def)
  obtain s h where run: "(sync_step False {a} (\<lambda>_. t))\<^sup>*\<^sup>* (sync_start w) s"
    and rep: "\<exists>q. sync_rep {a} (\<lambda>_. t) (\<lambda>_. task_count (w_sys w) t) s q"
    and s: "sy_pc s a = SBlocked" "sy_mtx s a = None" "sy_poll s = PPoll" "sy_pending s = [h]" "sy_log s = []"
    by (rule run_to_wait [OF assms])
  obtain s1 where s1: "(sync_step True {a} (\<lambda>_. t))\<^sup>*\<^sup>* s s1" "sy_pc s1 a = SReturned 0" "sy_log s1 = []"
    by (rule run_spurious [of a "{a}" s, OF _ s(1,2)]) (use s(5) in simp_all)
  from rep obtain q where q: "sync_rep {a} (\<lambda>_. t) (\<lambda>_. task_count (w_sys w) t) s q" by blast
  obtain s2 where s2: "(sync_step False {a} (\<lambda>_. t))\<^sup>*\<^sup>* s s2" "sy_pc s2 a = SBlocked" "sy_mtx s2 a = None" "sy_poll s2 = PLock a"
    by (rule run_to_callback [OF ok q s(1-4)])
  obtain s3 where s3: "(sync_step True {a} (\<lambda>_. t))\<^sup>*\<^sup>* s2 s3" "sy_pc s3 a = SReturned 0" "sy_poll s3 = PLock a"
    by (rule run_spurious [of a "{a}" s2, OF _ s2(2,3)]) (use s2(4) in simp_all)
  from sync_run_mono [OF run] s1 sync_run_mono [OF s2(1)] s3 show ?thesis by (meson rtranclp_trans)
qed

theorem sync_spurious_wakeup_witness:
  "(\<exists>s. (sync_step True {500} (\<lambda>_. 100))\<^sup>*\<^sup>* (sync_start example_idle_world) s \<and> sy_pc s 500 = SReturned 0 \<and> sy_log s = []) \<and>
    (\<exists>s. (sync_step True {500} (\<lambda>_. 100))\<^sup>*\<^sup>* (sync_start example_idle_world) s \<and> sy_pc s 500 = SReturned 0 \<and> sy_poll s = PLock 500)"
  by (rule sync_spurious_wakeup [OF submitters_ready_example])

end
