(* ===== verification/Endian.thy ===== *)
theory Endian
  imports Prelude
begin

text \<open>
  \<open>src/endian.h\<close>: the big- and little-endian stores and loads of 16, 32 and 64 bit words.
  A store writes the bytes of its argument at \<open>out\<close>, a load composes them by shifts and
  \<open>|\<close>. The contract of a fixed-width codec is the locale \<open>byte_codec\<close>; all six pairs of
  functions are interpretations of it.
\<close>

definition from_be16 :: "mem \<Rightarrow> ptr \<Rightarrow> u16" where
  "from_be16 m p = push_bit 8 (ucast (m p)) OR ucast (m (p + 1))"

definition to_be16 :: "ptr \<Rightarrow> u16 \<Rightarrow> mem \<Rightarrow> mem" where
  "to_be16 out v m = m(out := byte_at v 8, out + 1 := byte_at v 0)"

definition from_be32 :: "mem \<Rightarrow> ptr \<Rightarrow> u32" where
  "from_be32 m p = push_bit 24 (ucast (m p)) OR push_bit 16 (ucast (m (p + 1))) OR
     push_bit 8 (ucast (m (p + 2))) OR ucast (m (p + 3))"

definition to_be32 :: "ptr \<Rightarrow> u32 \<Rightarrow> mem \<Rightarrow> mem" where
  "to_be32 out v m = m(out := byte_at v 24, out + 1 := byte_at v 16,
     out + 2 := byte_at v 8, out + 3 := byte_at v 0)"

definition from_be64 :: "mem \<Rightarrow> ptr \<Rightarrow> u64" where
  "from_be64 m p = push_bit 56 (ucast (m p)) OR push_bit 48 (ucast (m (p + 1))) OR
     push_bit 40 (ucast (m (p + 2))) OR push_bit 32 (ucast (m (p + 3))) OR
     push_bit 24 (ucast (m (p + 4))) OR push_bit 16 (ucast (m (p + 5))) OR
     push_bit 8 (ucast (m (p + 6))) OR ucast (m (p + 7))"

definition to_be64 :: "ptr \<Rightarrow> u64 \<Rightarrow> mem \<Rightarrow> mem" where
  "to_be64 out v m = m(out := byte_at v 56, out + 1 := byte_at v 48,
     out + 2 := byte_at v 40, out + 3 := byte_at v 32,
     out + 4 := byte_at v 24, out + 5 := byte_at v 16,
     out + 6 := byte_at v 8, out + 7 := byte_at v 0)"

definition from_le16 :: "mem \<Rightarrow> ptr \<Rightarrow> u16" where
  "from_le16 m p = push_bit 8 (ucast (m (p + 1))) OR ucast (m p)"

definition to_le16 :: "ptr \<Rightarrow> u16 \<Rightarrow> mem \<Rightarrow> mem" where
  "to_le16 out v m = m(out + 1 := byte_at v 8, out := byte_at v 0)"

definition from_le32 :: "mem \<Rightarrow> ptr \<Rightarrow> u32" where
  "from_le32 m p = push_bit 24 (ucast (m (p + 3))) OR push_bit 16 (ucast (m (p + 2))) OR
     push_bit 8 (ucast (m (p + 1))) OR ucast (m p)"

definition to_le32 :: "ptr \<Rightarrow> u32 \<Rightarrow> mem \<Rightarrow> mem" where
  "to_le32 out v m = m(out + 3 := byte_at v 24, out + 2 := byte_at v 16,
     out + 1 := byte_at v 8, out := byte_at v 0)"

definition from_le64 :: "mem \<Rightarrow> ptr \<Rightarrow> u64" where
  "from_le64 m p = push_bit 56 (ucast (m (p + 7))) OR push_bit 48 (ucast (m (p + 6))) OR
     push_bit 40 (ucast (m (p + 5))) OR push_bit 32 (ucast (m (p + 4))) OR
     push_bit 24 (ucast (m (p + 3))) OR push_bit 16 (ucast (m (p + 2))) OR
     push_bit 8 (ucast (m (p + 1))) OR ucast (m p)"

definition to_le64 :: "ptr \<Rightarrow> u64 \<Rightarrow> mem \<Rightarrow> mem" where
  "to_le64 out v m = m(out + 7 := byte_at v 56, out + 6 := byte_at v 48,
     out + 5 := byte_at v 40, out + 4 := byte_at v 32,
     out + 3 := byte_at v 24, out + 2 := byte_at v 16,
     out + 1 := byte_at v 8, out := byte_at v 0)"

lemmas be_defs = to_be16_def from_be16_def to_be32_def from_be32_def to_be64_def from_be64_def
lemmas le_defs = to_le16_def from_le16_def to_le32_def from_le32_def to_le64_def from_le64_def


section \<open>The contract of a fixed-width codec\<close>

locale byte_codec =
  fixes store :: "ptr \<Rightarrow> 'w \<Rightarrow> mem \<Rightarrow> mem"
    and load :: "mem \<Rightarrow> ptr \<Rightarrow> 'w"
    and width :: nat
  assumes load_store: "load (store p v m) p = v"
    and store_load: "store p (load m p) m = m"
    and store_frame: "a < p \<or> p + width \<le> a \<Longrightarrow> store p v m a = m a"
    and store_local: "p \<le> a \<Longrightarrow> a < p + width \<Longrightarrow> store p v m a = store p v m' a"
    and load_local: "(\<And>a. p \<le> a \<Longrightarrow> a < p + width \<Longrightarrow> m a = m' a) \<Longrightarrow> load m p = load m' p"
begin

lemma load_store_disjoint:
  "disjoint_range p width q width \<Longrightarrow> load (store q v m) p = load m p"
  by (rule load_local) (auto simp: disjoint_range_def intro: store_frame)

lemma store_store: "store p v (store p v' m) = store p v m"
proof
  fix a
  show "store p v (store p v' m) a = store p v m a"
    by (cases "a < p \<or> p + width \<le> a") (auto simp: store_frame intro: store_local)
qed

lemma store_commute:
  assumes "disjoint_range p width q width"
  shows "store p v (store q v' m) = store q v' (store p v m)"
proof
  fix a
  consider "p \<le> a \<and> a < p + width" | "q \<le> a \<and> a < q + width"
    | "(a < p \<or> p + width \<le> a) \<and> (a < q \<or> q + width \<le> a)"
    by linarith
  then show "store p v (store q v' m) a = store q v' (store p v m) a"
  proof cases
    case 1
    with assms have "a < q \<or> q + width \<le> a" by (auto simp: disjoint_range_def)
    with 1 show ?thesis by (auto simp: store_frame intro: store_local)
  next
    case 2
    with assms have "a < p \<or> p + width \<le> a" by (auto simp: disjoint_range_def)
    with 2 show ?thesis by (auto simp: store_frame intro: store_local)
  next
    case 3
    then show ?thesis by (simp add: store_frame)
  qed
qed

lemma store_inj: "store p v m = store p v' m \<Longrightarrow> v = v'"
  by (metis load_store)

lemma mem_read_store_disjoint:
  "disjoint_range q n p width \<Longrightarrow> mem_read (store p v m) q n = mem_read m q n"
  by (rule mem_read_eqI) (auto simp: disjoint_range_def intro: store_frame)

end


section \<open>The six codecs meet the contract\<close>

lemma load_bytes_16:
  "push_bit 8 (ucast (byte_at v 8)) OR ucast (byte_at v 0) = v" for v :: u16
  by (rule bit_word_eqI) (auto simp: byte_bits)

lemma load_bytes_32:
  "push_bit 24 (ucast (byte_at v 24)) OR push_bit 16 (ucast (byte_at v 16)) OR
   push_bit 8 (ucast (byte_at v 8)) OR ucast (byte_at v 0) = v" for v :: u32
  by (rule bit_word_eqI) (auto simp: byte_bits)

lemma load_bytes_64:
  "push_bit 56 (ucast (byte_at v 56)) OR push_bit 48 (ucast (byte_at v 48)) OR
   push_bit 40 (ucast (byte_at v 40)) OR push_bit 32 (ucast (byte_at v 32)) OR
   push_bit 24 (ucast (byte_at v 24)) OR push_bit 16 (ucast (byte_at v 16)) OR
   push_bit 8 (ucast (byte_at v 8)) OR ucast (byte_at v 0) = v" for v :: u64
  by (rule bit_word_eqI) (auto simp: byte_bits)

lemma byte_at_or [simp]: "byte_at (v OR w) k = byte_at v k OR byte_at w k"
  by (rule bit_word_eqI) (auto simp: bit_byte_at bit_or_iff)

lemma byte_at_shifted:
  fixes b :: u8
  assumes "j mod 8 = 0" "k mod 8 = 0" "k + 8 \<le> LENGTH('a)"
  shows "byte_at (push_bit k (ucast b) :: 'a::len word) j = (if j = k then b else 0)"
proof (rule bit_word_eqI)
  fix n assume n: "n < LENGTH(8)"
  have "bit b (j + n - k) \<Longrightarrow> j + n - k < 8"
    using bit_imp_le_length [of b "j + n - k"] by simp
  moreover have "j = k" if "k \<le> j + n" "j + n - k < 8"
    using that n assms(1,2) by (auto elim!: dvdE simp: mod_0_imp_dvd dest!: mod_0_imp_dvd)
  ultimately show "bit (byte_at (push_bit k (ucast b) :: 'a word) j) n = bit (if j = k then b else 0) n"
    using n assms(3) by (auto simp: bit_byte_at bit_simps)
qed

lemma byte_at_low:
  fixes b :: u8
  assumes "j mod 8 = 0" "8 \<le> LENGTH('a)"
  shows "byte_at (ucast b :: 'a::len word) j = (if j = 0 then b else 0)"
  using byte_at_shifted [of j 0 b, where 'a = 'a] assms by simp

interpretation be16: byte_codec to_be16 from_be16 2
proof
  show "to_be16 p (from_be16 m p) m = m" for p m
    by (auto simp: be_defs byte_at_shifted byte_at_low)
qed (auto simp: be_defs load_bytes_16)

interpretation be32: byte_codec to_be32 from_be32 4
proof
  show "to_be32 p (from_be32 m p) m = m" for p m
    by (auto simp: be_defs byte_at_shifted byte_at_low)
qed (auto simp: be_defs load_bytes_32)

interpretation be64: byte_codec to_be64 from_be64 8
proof
  show "to_be64 p (from_be64 m p) m = m" for p m
    by (auto simp: be_defs byte_at_shifted byte_at_low)
qed (auto simp: be_defs load_bytes_64)

interpretation le16: byte_codec to_le16 from_le16 2
proof
  show "to_le16 p (from_le16 m p) m = m" for p m
    by (auto simp: le_defs byte_at_shifted byte_at_low)
qed (auto simp: le_defs load_bytes_16)

interpretation le32: byte_codec to_le32 from_le32 4
proof
  show "to_le32 p (from_le32 m p) m = m" for p m
    by (auto simp: le_defs byte_at_shifted byte_at_low)
qed (auto simp: le_defs load_bytes_32)

interpretation le64: byte_codec to_le64 from_le64 8
proof
  show "to_le64 p (from_le64 m p) m = m" for p m
    by (auto simp: le_defs byte_at_shifted byte_at_low)
qed (auto simp: le_defs load_bytes_64)

end
