(* ===== verification/Vhost_Proto.thy ===== *)
theory Vhost_Proto
  imports Endian
begin

text \<open>
  \<open>src/vhost_user.h\<close>: the requests, the argument structures and the wire format of the
  vhost-user protocol. A \<open>VhostUserMsg\<close> is the packed C structure as it lies in memory on the
  little-endian target: a \<open>mem\<close> whose address 0 is the start of the structure, with
  \<open>request\<close>, \<open>flags\<close> and \<open>size\<close> at offsets 0, 4 and 8 and the union at offset 12. The
  store functions write an argument into the union, the load functions are how the peer
  reads it; \<open>proto_roundtrips\<close> relates them.
\<close>

definition VHOST_MEMORY_MAX_NREGIONS :: nat where "VHOST_MEMORY_MAX_NREGIONS = 8"
definition VHOST_USER_VERSION_MASK :: u32 where "VHOST_USER_VERSION_MASK = 3"
definition VHOST_USER_VERSION :: u32 where "VHOST_USER_VERSION = 1"
definition VHOST_USER_HDR_SIZE :: nat where "VHOST_USER_HDR_SIZE = 12"

text \<open>\<open>sizeof (VhostUserMsg)\<close>: the header and the largest member of the union, \<open>memory\<close>.\<close>

definition sizeof_VhostUserMsg :: nat where "sizeof_VhostUserMsg = 276"

datatype VhostUserRequest =
    VHOST_USER_NONE
  | VHOST_USER_GET_FEATURES
  | VHOST_USER_SET_FEATURES
  | VHOST_USER_SET_OWNER
  | VHOST_USER_RESET_OWNER
  | VHOST_USER_SET_MEM_TABLE
  | VHOST_USER_SET_LOG_BASE
  | VHOST_USER_SET_LOG_FD
  | VHOST_USER_SET_VRING_NUM
  | VHOST_USER_SET_VRING_ADDR
  | VHOST_USER_SET_VRING_BASE
  | VHOST_USER_GET_VRING_BASE
  | VHOST_USER_SET_VRING_KICK
  | VHOST_USER_SET_VRING_CALL
  | VHOST_USER_SET_VRING_ERR
  | VHOST_USER_MAX

fun request_code :: "VhostUserRequest \<Rightarrow> u32" where
  "request_code VHOST_USER_NONE = 0"
| "request_code VHOST_USER_GET_FEATURES = 1"
| "request_code VHOST_USER_SET_FEATURES = 2"
| "request_code VHOST_USER_SET_OWNER = 3"
| "request_code VHOST_USER_RESET_OWNER = 4"
| "request_code VHOST_USER_SET_MEM_TABLE = 5"
| "request_code VHOST_USER_SET_LOG_BASE = 6"
| "request_code VHOST_USER_SET_LOG_FD = 7"
| "request_code VHOST_USER_SET_VRING_NUM = 8"
| "request_code VHOST_USER_SET_VRING_ADDR = 9"
| "request_code VHOST_USER_SET_VRING_BASE = 10"
| "request_code VHOST_USER_GET_VRING_BASE = 11"
| "request_code VHOST_USER_SET_VRING_KICK = 12"
| "request_code VHOST_USER_SET_VRING_CALL = 13"
| "request_code VHOST_USER_SET_VRING_ERR = 14"
| "request_code VHOST_USER_MAX = 15"

lemma request_code_inj: "request_code a = request_code b \<longleftrightarrow> a = b"
  by (cases a; cases b; simp)

record vhost_vring_state =
  st_index :: u32
  st_num :: u32

record vhost_vring_file =
  file_index :: u32
  file_fd :: int

record vhost_vring_addr =
  ad_index :: u32
  ad_flags :: u32
  desc_user_addr :: u64
  used_user_addr :: u64
  avail_user_addr :: u64
  log_guest_addr :: u64

record VhostUserMemoryRegion =
  guest_phys_addr :: u64
  memory_size :: u64
  userspace_addr :: u64
  mmap_offset :: u64

text \<open>The array \<open>regions\<close> has \<open>VHOST_MEMORY_MAX_NREGIONS\<close> entries; the list holds those that are filled.\<close>

record VhostUserMemory =
  nregions_of :: u32
  padding :: u32
  regions :: "VhostUserMemoryRegion list"

definition memory_wf :: "VhostUserMemory \<Rightarrow> bool" where
  "memory_wf memory \<longleftrightarrow> length (regions memory) \<le> VHOST_MEMORY_MAX_NREGIONS \<and>
     nregions_of memory = of_nat (length (regions memory))"


section \<open>The fields of a message\<close>

definition msg_request :: "mem \<Rightarrow> u32" where "msg_request msg = from_le32 msg 0"
definition msg_flags :: "mem \<Rightarrow> u32" where "msg_flags msg = from_le32 msg 4"
definition msg_size :: "mem \<Rightarrow> u32" where "msg_size msg = from_le32 msg 8"

definition set_header :: "u32 \<Rightarrow> u32 \<Rightarrow> u32 \<Rightarrow> mem \<Rightarrow> mem" where
  "set_header req fl sz msg = to_le32 8 sz (to_le32 4 fl (to_le32 0 req msg))"

text \<open>Stores into and loads from the union, which starts at offset 12.\<close>

definition store_u64 :: "u64 \<Rightarrow> mem \<Rightarrow> mem" where "store_u64 v msg = to_le64 12 v msg"
definition load_u64 :: "mem \<Rightarrow> u64" where "load_u64 msg = from_le64 msg 12"

definition store_state :: "vhost_vring_state \<Rightarrow> mem \<Rightarrow> mem" where
  "store_state st msg = to_le32 16 (st_num st) (to_le32 12 (st_index st) msg)"

definition load_state :: "mem \<Rightarrow> vhost_vring_state" where
  "load_state msg = \<lparr>st_index = from_le32 msg 12, st_num = from_le32 msg 16\<rparr>"

definition store_addr :: "vhost_vring_addr \<Rightarrow> mem \<Rightarrow> mem" where
  "store_addr a msg = to_le64 44 (log_guest_addr a) (to_le64 36 (avail_user_addr a)
     (to_le64 28 (used_user_addr a) (to_le64 20 (desc_user_addr a)
     (to_le32 16 (ad_flags a) (to_le32 12 (ad_index a) msg)))))"

definition load_addr :: "mem \<Rightarrow> vhost_vring_addr" where
  "load_addr msg = \<lparr>ad_index = from_le32 msg 12, ad_flags = from_le32 msg 16,
     desc_user_addr = from_le64 msg 20, used_user_addr = from_le64 msg 28,
     avail_user_addr = from_le64 msg 36, log_guest_addr = from_le64 msg 44\<rparr>"

definition store_region :: "nat \<Rightarrow> VhostUserMemoryRegion \<Rightarrow> mem \<Rightarrow> mem" where
  "store_region off r msg = to_le64 (off + 24) (mmap_offset r) (to_le64 (off + 16) (userspace_addr r)
     (to_le64 (off + 8) (memory_size r) (to_le64 off (guest_phys_addr r) msg)))"

definition load_region :: "mem \<Rightarrow> nat \<Rightarrow> VhostUserMemoryRegion" where
  "load_region msg off = \<lparr>guest_phys_addr = from_le64 msg off, memory_size = from_le64 msg (off + 8),
     userspace_addr = from_le64 msg (off + 16), mmap_offset = from_le64 msg (off + 24)\<rparr>"

fun store_regions :: "nat \<Rightarrow> VhostUserMemoryRegion list \<Rightarrow> mem \<Rightarrow> mem" where
  "store_regions off [] msg = msg"
| "store_regions off (r # rs) msg = store_regions (off + 32) rs (store_region off r msg)"

definition store_memory :: "VhostUserMemory \<Rightarrow> mem \<Rightarrow> mem" where
  "store_memory memory msg =
     store_regions 20 (regions memory) (to_le32 16 (padding memory) (to_le32 12 (nregions_of memory) msg))"

definition load_memory :: "mem \<Rightarrow> VhostUserMemory" where
  "load_memory msg = \<lparr>nregions_of = from_le32 msg 12, padding = from_le32 msg 16,
     regions = map (\<lambda>i. load_region msg (20 + 32 * i)) [0..<unat (from_le32 msg 12)]\<rparr>"


section \<open>Round trips\<close>

lemma le32_frame: "a < p \<or> p + 4 \<le> a \<Longrightarrow> to_le32 p v m a = m a"
  by (rule le32.store_frame)

lemma le64_frame: "a < p \<or> p + 8 \<le> a \<Longrightarrow> to_le64 p v m a = m a"
  by (rule le64.store_frame)

lemma le32_over_le64: "disjoint_range p 4 q 8 \<Longrightarrow> from_le32 (to_le64 q v m) p = from_le32 m p"
  by (rule le32.load_local) (auto simp: disjoint_range_def intro!: le64_frame)

lemma le64_over_le32: "disjoint_range p 8 q 4 \<Longrightarrow> from_le64 (to_le32 q v m) p = from_le64 m p"
  by (rule le64.load_local) (auto simp: disjoint_range_def intro!: le32_frame)

lemmas le_loads = le32.load_store le64.load_store le32.load_store_disjoint le64.load_store_disjoint
  le32_over_le64 le64_over_le32 disjoint_range_def

lemma load_u64_store [simp]: "load_u64 (store_u64 v msg) = v"
  by (simp add: load_u64_def store_u64_def le_loads)

lemma load_state_store [simp]: "load_state (store_state st msg) = st"
  by (simp add: load_state_def store_state_def le_loads)

lemma load_addr_store [simp]: "load_addr (store_addr a msg) = a"
  by (simp add: load_addr_def store_addr_def le_loads)

lemma load_region_store: "load_region (store_region off r msg) off = r"
  by (simp add: load_region_def store_region_def le_loads)

lemma load_region_store_other:
  "disjoint_range off 32 off' 32 \<Longrightarrow> load_region (store_region off' r msg) off = load_region msg off"
  by (auto simp: load_region_def store_region_def le_loads)

lemma load_region_stores_before:
  "off + 32 \<le> off' \<Longrightarrow> load_region (store_regions off' rs msg) off = load_region msg off"
  by (induction rs arbitrary: off' msg) (auto simp: load_region_store_other disjoint_range_def)

lemma le32_store_regions: "p + 4 \<le> off \<Longrightarrow> from_le32 (store_regions off rs msg) p = from_le32 msg p"
  by (induction rs arbitrary: off msg) (auto simp: store_region_def le_loads)

lemma load_region_stores: "i < length rs \<Longrightarrow> load_region (store_regions off rs msg) (off + 32 * i) = rs ! i"
proof (induction rs arbitrary: off msg i)
  case Nil
  then show ?case by simp
next
  case (Cons r rs)
  show ?case
  proof (cases i)
    case 0
    then show ?thesis by (simp add: load_region_stores_before load_region_store)
  next
    case (Suc k)
    with Cons.prems Cons.IH [of k "off + 32" "store_region off r msg"] show ?thesis by (simp add: ac_simps)
  qed
qed

lemma load_memory_store:
  assumes "memory_wf memory"
  shows "load_memory (store_memory memory msg) = memory"
proof -
  have n: "unat (nregions_of memory) = length (regions memory)"
    using assms by (simp add: memory_wf_def VHOST_MEMORY_MAX_NREGIONS_def unat_of_nat)
  let ?m = "store_memory memory msg"
  have "from_le32 ?m 12 = nregions_of memory" "from_le32 ?m 16 = padding memory"
    by (simp_all add: store_memory_def le32_store_regions le_loads)
  moreover have "map (\<lambda>i. load_region ?m (20 + 32 * i)) [0..<length (regions memory)] = regions memory"
    by (rule nth_equalityI) (simp_all add: store_memory_def load_region_stores)
  ultimately show ?thesis using n by (simp add: load_memory_def)
qed

lemmas proto_roundtrips = load_u64_store load_state_store load_addr_store load_memory_store

text \<open>The header is not disturbed by the payload.\<close>

lemma msg_header_set [simp]:
  "msg_request (set_header r f n msg) = r" "msg_flags (set_header r f n msg) = f" "msg_size (set_header r f n msg) = n"
  by (simp_all add: msg_request_def msg_flags_def msg_size_def set_header_def le_loads)

text \<open>Bytes from offset 12 on are the payload, whatever the header.\<close>

lemma set_header_payload: "12 \<le> a \<Longrightarrow> set_header r f n msg a = msg a"
  by (simp add: set_header_def le32_frame)

lemma load_cong:
  assumes "\<And>a. 12 \<le> a \<Longrightarrow> m a = m' a"
  shows "load_u64 m = load_u64 m'" "load_state m = load_state m'" "load_addr m = load_addr m'"
    "load_memory m = load_memory m'"
proof -
  have *: "from_le32 m p = from_le32 m' p" "from_le64 m p = from_le64 m' p" if "12 \<le> p" for p
    using that assms by (auto intro!: le32.load_local le64.load_local)
  then show "load_u64 m = load_u64 m'" "load_state m = load_state m'" "load_addr m = load_addr m'"
    "load_memory m = load_memory m'"
    by (simp_all add: load_u64_def load_state_def load_addr_def load_memory_def load_region_def)
qed

lemma load_set_header [simp]:
  "load_u64 (set_header r f n m) = load_u64 m" "load_state (set_header r f n m) = load_state m"
  "load_addr (set_header r f n m) = load_addr m" "load_memory (set_header r f n m) = load_memory m"
  by (rule load_cong; simp add: set_header_payload)+

end
