(* ===== verification/Shm_Maps.thy ===== *)
theory Shm_Maps
  imports Vhost_Proto Shm
begin

text \<open>
  The rest of \<open>src/shm.c\<close>: finding the huge page files of the process in the text of
  \<open>/proc/self/maps\<close> and describing them to the vhost server. The text is given line by line as
  \<open>fgets\<close> returns it; the C library's \<open>sscanf\<close>, \<open>strchr\<close> and \<open>strrchr\<close> are modelled as far
  as the source uses them. \<open>None\<close> as the outcome of a line is the dereference of a
  null pointer that a line with fewer than five blanks causes.

  The operating system's \<open>open\<close> is an oracle: the list \<open>o_opens\<close> holds the results of the next
  calls, a negative one being a failure; \<open>o_open\<close> are the descriptors open now.
\<close>

record os =
  o_opens :: "int list"
  o_open :: "int list"

definition os_open :: "string \<Rightarrow> 'z os_scheme \<Rightarrow> int \<times> 'z os_scheme" where
  "os_open path os = (case o_opens os of
      [] \<Rightarrow> (-1, os)
    | fd # fds \<Rightarrow> if fd < 0 then (fd, os\<lparr>o_opens := fds\<rparr>) else (fd, os\<lparr>o_opens := fds, o_open := fd # o_open os\<rparr>))"

definition os_close :: "int \<Rightarrow> 'z os_scheme \<Rightarrow> 'z os_scheme" where
  "os_close fd os = os\<lparr>o_open := remove1 fd (o_open os)\<rparr>"


section \<open>C string functions\<close>

definition is_space :: "char \<Rightarrow> bool" where
  "is_space c \<longleftrightarrow> c \<in> {CHR '' '', CHR 0x09, CHR 0x0A, CHR 0x0B, CHR 0x0C, CHR 0x0D}"

definition digit_value :: "char \<Rightarrow> nat option" where
  "digit_value c =
     (let n = of_char c :: nat
      in if 48 \<le> n \<and> n \<le> 57 then Some (n - 48)
         else if 97 \<le> n \<and> n \<le> 102 then Some (n - 87)
         else if 65 \<le> n \<and> n \<le> 70 then Some (n - 55)
         else None)"

definition is_digit :: "nat \<Rightarrow> char \<Rightarrow> bool" where
  "is_digit base c = (case digit_value c of None \<Rightarrow> False | Some d \<Rightarrow> d < base)"

definition digits_value :: "nat \<Rightarrow> string \<Rightarrow> nat" where
  "digits_value base ds = foldl (\<lambda>acc c. base * acc + (case digit_value c of None \<Rightarrow> 0 | Some d \<Rightarrow> d)) 0 ds"

text \<open>An optional sign and an optional \<open>0x\<close>, as the conversions \<open>%lx\<close> and \<open>%d\<close> skip them.\<close>

definition skip_sign :: "string \<Rightarrow> bool \<times> string" where
  "skip_sign s = (case s of
      c # r \<Rightarrow> if c = CHR ''-'' then (True, r) else if c = CHR ''+'' then (False, r) else (False, s)
    | [] \<Rightarrow> (False, s))"

definition skip_0x :: "string \<Rightarrow> string" where
  "skip_0x s = (case s of
      a # b # c # r \<Rightarrow> if a = CHR ''0'' \<and> (b = CHR ''x'' \<or> b = CHR ''X'') \<and> is_digit 16 c then c # r else s
    | _ \<Rightarrow> s)"

text \<open>\<open>%lx\<close>: the value (saturated at \<open>ULONG_MAX\<close>, negated modulo \<open>2 ^ 64\<close> after a minus) and the rest.\<close>

definition scan_lx :: "string \<Rightarrow> (u64 \<times> string) option" where
  "scan_lx s =
     (let (neg, s1) = skip_sign (dropWhile is_space s);
          s2 = skip_0x s1;
          ds = takeWhile (is_digit 16) s2
      in if ds = [] then None
         else let v = of_nat (min (digits_value 16 ds) (2 ^ 64 - 1)) :: u64
              in Some (if neg then - v else v, dropWhile (is_digit 16) s2))"

text \<open>\<open>sscanf (buf, "%lx-%lx", ...)\<close> with both conversions done.\<close>

definition scan_range :: "string \<Rightarrow> (u64 \<times> u64) option" where
  "scan_range s = (case scan_lx s of
      None \<Rightarrow> None
    | Some (a, r) \<Rightarrow> (case r of
          [] \<Rightarrow> None
        | c # r' \<Rightarrow> if c = CHR ''-'' then map_option (\<lambda>(b, _). (a, b)) (scan_lx r') else None))"

text \<open>\<open>sscanf (str_start, "map_%d", ...) == 1\<close>.\<close>

definition scan_map :: "string \<Rightarrow> bool" where
  "scan_map s \<longleftrightarrow> take 4 s = ''map_'' \<and>
     (case snd (skip_sign (dropWhile is_space (drop 4 s))) of [] \<Rightarrow> False | c # _ \<Rightarrow> is_digit 10 c)"

text \<open>\<open>strchr (s, c) + 1\<close>; \<open>None\<close> when the character does not occur.\<close>

definition after_chr :: "char \<Rightarrow> string \<Rightarrow> string option" where
  "after_chr c s = (if c \<in> set s then Some (tl (dropWhile (\<lambda>x. x \<noteq> c) s)) else None)"

text \<open>The text before the last occurrence of a character, and from it on (\<open>strrchr\<close>).\<close>

definition split_last :: "char \<Rightarrow> string \<Rightarrow> (string \<times> string) option" where
  "split_last c s =
     (if c \<in> set s
      then Some (rev (tl (dropWhile (\<lambda>x. x \<noteq> c) (rev s))), c # rev (takeWhile (\<lambda>x. x \<noteq> c) (rev s)))
      else None)"


section \<open>Huge page files\<close>

record hugepage_file_info =
  hf_addr :: u64
  hf_size :: u64
  hf_path :: string

definition PATH_MAX :: nat where "PATH_MAX = 4096"

text \<open>
  One line: a parse error, a line that is not a huge page file, or a region. \<open>LineCrash\<close> is the
  null pointer dereference.
\<close>

datatype line_result = LineError | LineSkip | LineHuge hugepage_file_info | LineCrash

definition skip_fields :: "string \<Rightarrow> string option" where
  "skip_fields buf = do {
     t1 \<leftarrow> after_chr CHR '' '' buf;
     t2 \<leftarrow> after_chr CHR '' '' t1;
     t3 \<leftarrow> after_chr CHR '' '' t2;
     t4 \<leftarrow> after_chr CHR '' '' t3;
     t5 \<leftarrow> after_chr CHR '' '' t4;
     Some (dropWhile (\<lambda>c. c = CHR '' '') t5)
   }"

definition parse_maps_line :: "string \<Rightarrow> line_result" where
  "parse_maps_line buf = (case scan_range buf of
      None \<Rightarrow> LineError
    | Some (v_start, v_end) \<Rightarrow> (case skip_fields buf of
          None \<Rightarrow> LineCrash
        | Some tmp0 \<Rightarrow>
            let tmp = (case split_last CHR 0x0A tmp0 of None \<Rightarrow> tmp0 | Some (p, _) \<Rightarrow> p)
            in case split_last CHR ''_'' tmp of
                None \<Rightarrow> LineSkip
              | Some (pre, rest) \<Rightarrow>
                  if length pre < length ''map'' then LineSkip
                  else if \<not> scan_map (drop (length pre - length ''map'') tmp) then LineSkip
                  else LineHuge \<lparr>hf_addr = v_start, hf_size = v_end - v_start, hf_path = take (PATH_MAX - 1) tmp\<rparr>))"

text \<open>The loop over the lines; the result is the return value and the array filled so far.\<close>

fun scan_maps :: "nat \<Rightarrow> string list \<Rightarrow> hugepage_file_info list \<Rightarrow> (int \<times> hugepage_file_info list) option" where
  "scan_maps mx [] huges = Some (int (length huges), huges)"
| "scan_maps mx (buf # bufs) huges = (case parse_maps_line buf of
      LineError \<Rightarrow> Some (-1, huges)
    | LineCrash \<Rightarrow> None
    | LineSkip \<Rightarrow> scan_maps mx bufs huges
    | LineHuge h \<Rightarrow> if length huges \<ge> mx then Some (-1, huges) else scan_maps mx bufs (huges @ [h]))"

text \<open>\<open>lines\<close> is \<open>None\<close> when \<open>/proc/self/maps\<close> cannot be opened.\<close>

definition get_hugepage_file_info :: "string list option \<Rightarrow> nat \<Rightarrow> (int \<times> hugepage_file_info list) option" where
  "get_hugepage_file_info lines mx = (case lines of None \<Rightarrow> Some (-1, []) | Some ls \<Rightarrow> scan_maps mx ls [])"

text \<open>The static variables of the file.\<close>

record shm_state =
  nregions :: int
  huges :: "hugepage_file_info list"

text \<open>Entries of the static array that were never filled are zero.\<close>

definition huge_at :: "shm_state \<Rightarrow> nat \<Rightarrow> hugepage_file_info" where
  "huge_at st i = (if i < length (huges st) then huges st ! i else \<lparr>hf_addr = 0, hf_size = 0, hf_path = []\<rparr>)"

text \<open>
  The command line of DPDK: \<open>mem_opt\<close>, \<open>file_prefix\<close> and \<open>core_mask\<close> are cut at the sizes of
  their arrays. \<open>print_dec\<close> and \<open>print_hex\<close> are the conversions \<open>%d\<close> and \<open>%x\<close> of \<open>snprintf\<close>;
  \<open>eal_init\<close> is DPDK's \<open>rte_eal_init\<close>.
\<close>

function print_base :: "nat \<Rightarrow> nat \<Rightarrow> string" where
  "print_base b n =
     (if b < 2 \<or> n < b then [''0123456789abcdef'' ! n]
      else print_base b (n div b) @ [''0123456789abcdef'' ! (n mod b)])"
  by pat_completeness auto

termination by (relation "measure snd") auto

declare print_base.simps [simp del]

definition print_dec :: "int \<Rightarrow> string" where
  "print_dec i = (if i < 0 then CHR ''-'' # print_base 10 (nat (- i)) else print_base 10 (nat i))"

definition print_hex :: "int \<Rightarrow> string" where "print_hex i = print_base 16 (nat (to_uint i))"

definition dpdk_args :: "int \<Rightarrow> int \<Rightarrow> int \<Rightarrow> string list" where
  "dpdk_args pid mem_mb msk =
     [''vhost'', ''--no-pci'', ''--no-hpet'', take 19 (''-m'' @ print_dec mem_mb),
      take 29 (''--file-prefix=pid'' @ print_dec pid), take 19 (''-c '' @ print_hex msk)]"

definition init_shared_mem ::
  "(string list \<Rightarrow> int) \<Rightarrow> string list option \<Rightarrow> int \<Rightarrow> int \<Rightarrow> int
    \<Rightarrow> shm_state \<Rightarrow> (int \<times> shm_state) option" where
  "init_shared_mem eal_init maps pid mem_mb msk st =
     (if eal_init (dpdk_args pid mem_mb msk) < 0 then Some (-1, st)
      else do {
        (n, hs) \<leftarrow> get_hugepage_file_info maps VHOST_MEMORY_MAX_NREGIONS;
        let st1 = \<lparr>nregions = n, huges = hs\<rparr>;
        if n < 0 then Some (-1, st1) else Some (0, st1)
      })"

text \<open>\<open>pad\<close> is what the caller's uninitialised structure holds in \<open>padding\<close>.\<close>

definition get_memory_info :: "u32 \<Rightarrow> shm_state \<Rightarrow> VhostUserMemory" where
  "get_memory_info pad st = \<lparr>nregions_of = of_int (nregions st), padding = pad,
     regions = map (\<lambda>i. let h = huge_at st i in \<lparr>guest_phys_addr = hf_addr h, memory_size = hf_size h,
         userspace_addr = hf_addr h, mmap_offset = 0\<rparr>) [0..<nat (nregions st)]\<rparr>"

text \<open>The loop of \<open>get_memory_fds\<close>: \<open>fds\<close> are those opened so far.\<close>

fun open_regions :: "hugepage_file_info list \<Rightarrow> int list \<Rightarrow> 'z os_scheme \<Rightarrow> int \<times> int list \<times> 'z os_scheme" where
  "open_regions [] fds os = (0, fds, os)"
| "open_regions (h # hs) fds os =
     (let (fd, os1) = os_open (hf_path h) os
      in if fd < 0 then (-1, [], foldl (\<lambda>os fd. os_close fd os) os1 fds)
         else open_regions hs (fds @ [fd]) os1)"

text \<open>The comparison \<open>i < nregions\<close> is unsigned here.\<close>

definition get_memory_fds :: "nat \<Rightarrow> shm_state \<Rightarrow> 'z os_scheme \<Rightarrow> int \<times> int list \<times> 'z os_scheme" where
  "get_memory_fds sz st os =
     open_regions (map (huge_at st) [0..<min sz (nat (to_uint (nregions st)))]) [] os"


section \<open>Lemmas\<close>

text \<open>The number of huge page files found never exceeds the size of the array.\<close>

lemma scan_maps_bound:
  assumes "scan_maps mx ls hs = Some (n, hs')" "length hs \<le> mx"
  shows "length hs' \<le> mx \<and> n \<le> int mx \<and> (n = -1 \<or> n = int (length hs'))"
  using assms
proof (induction ls arbitrary: hs)
  case Nil
  then show ?case by auto
next
  case (Cons l ls)
  show ?case
  proof (cases "parse_maps_line l")
    case (LineHuge h)
    with Cons show ?thesis by (cases "mx \<le> length hs") auto
  qed (use Cons in auto)
qed

definition shm_wf :: "shm_state \<Rightarrow> bool" where
  "shm_wf st \<longleftrightarrow> nregions st = int (length (huges st)) \<and> length (huges st) \<le> VHOST_MEMORY_MAX_NREGIONS"

lemma init_shared_mem_wf:
  assumes "init_shared_mem eal maps pid mb msk st = Some (0, st')"
  shows "shm_wf st'"
proof -
  from assms obtain n hs where "get_hugepage_file_info maps VHOST_MEMORY_MAX_NREGIONS = Some (n, hs)"
    "st' = \<lparr>nregions = n, huges = hs\<rparr>" "0 \<le> n"
    by (auto simp: init_shared_mem_def Let_def bind_eq_Some_conv split: if_splits)
  then show ?thesis
    using scan_maps_bound [of VHOST_MEMORY_MAX_NREGIONS _ "[]" n hs]
    by (auto simp: get_hugepage_file_info_def shm_wf_def split: option.splits)
qed

lemma get_memory_info_wf: "shm_wf st \<Longrightarrow> memory_wf (get_memory_info pad st)"
  by (simp add: shm_wf_def memory_wf_def get_memory_info_def)

lemma close_all:
  assumes "distinct fds" "set fds \<inter> set fs = {}" "o_open os = rev fds @ fs"
  shows "o_open (foldl (\<lambda>os fd. os_close fd os) os fds) = fs"
  using assms
proof (induction fds arbitrary: os)
  case Nil
  then show ?case by simp
next
  case (Cons fd fds)
  have "o_open (os_close fd os) = rev fds @ fs"
    using Cons.prems by (simp add: remove1_append os_close_def)
  with Cons.IH [of "os_close fd os"] Cons.prems show ?case by simp
qed

text \<open>What the kernel promises about the descriptors it returns: each is new.\<close>

definition opens_fresh :: "'z os_scheme \<Rightarrow> bool" where
  "opens_fresh os \<longleftrightarrow> distinct (filter (\<lambda>fd. 0 \<le> fd) (o_opens os)) \<and> set (o_opens os) \<inter> set (o_open os) = {}"

lemma open_regions_cases:
  assumes "o_open os = rev fds @ fs" "distinct fds" "set fds \<inter> set fs = {}"
    "distinct (filter (\<lambda>fd. 0 \<le> fd) (o_opens os))" "set (o_opens os) \<inter> set (rev fds @ fs) = {}"
    "open_regions hs fds os = (rc, fds', os')"
  shows "rc = -1 \<and> fds' = [] \<and> o_open os' = fs \<or>
    rc = 0 \<and> length fds' = length fds + length hs \<and> distinct fds' \<and> set fds' \<inter> set fs = {} \<and> o_open os' = rev fds' @ fs"
  using assms
proof (induction hs arbitrary: fds os)
  case Nil
  then show ?case by auto
next
  case (Cons h hs)
  show ?case
  proof (cases "o_opens os")
    case Nil
    with Cons.prems close_all [of fds fs os] show ?thesis by (auto simp: os_open_def Let_def)
  next
    case opens: (Cons fd rest)
    show ?thesis
    proof (cases "fd < 0")
      case True
      with Cons.prems opens close_all [of fds fs "os\<lparr>o_opens := rest\<rparr>"] show ?thesis
        by (auto simp: os_open_def Let_def)
    next
      case False
      let ?os = "os\<lparr>o_opens := rest, o_open := fd # o_open os\<rparr>"
      have "open_regions hs (fds @ [fd]) ?os = (rc, fds', os')"
        using Cons.prems(6) opens False by (simp add: os_open_def)
      moreover have "o_open ?os = rev (fds @ [fd]) @ fs" "distinct (fds @ [fd])" "set (fds @ [fd]) \<inter> set fs = {}"
        "distinct (filter (\<lambda>fd. 0 \<le> fd) (o_opens ?os))" "set (o_opens ?os) \<inter> set (rev (fds @ [fd]) @ fs) = {}"
        using Cons.prems(1-5) opens False by auto
      ultimately show ?thesis using Cons.IH [of ?os "fds @ [fd]"] by auto
    qed
  qed
qed

lemma os_open_cong:
  assumes "o_opens os = o_opens os'" "o_open os = o_open os'" "os_open p os = (fd, os1)"
  shows "\<exists>os1'. os_open p os' = (fd, os1') \<and> o_opens os1 = o_opens os1' \<and> o_open os1 = o_open os1'"
  using assms by (auto simp: os_open_def split: list.splits if_splits)

lemma open_regions_cong:
  assumes "o_opens os' = o_opens os" "o_open os' = o_open os"
  shows "fst (open_regions hs fds os') = fst (open_regions hs fds os) \<and>
    fst (snd (open_regions hs fds os')) = fst (snd (open_regions hs fds os))"
  using assms
proof (induction hs arbitrary: fds os os')
  case Nil
  then show ?case by simp
next
  case (Cons h hs)
  obtain fd os1 where o1: "os_open (hf_path h) os = (fd, os1)" by fastforce
  from os_open_cong [OF Cons.prems(1,2) [symmetric] o1] obtain os1' where
    "os_open (hf_path h) os' = (fd, os1')" "o_opens os1' = o_opens os1" "o_open os1' = o_open os1" by auto
  with o1 Cons.IH [of os1' os1] show ?case by (simp add: Let_def)
qed

lemma get_memory_fds_cong:
  assumes "o_opens os' = o_opens os" "o_open os' = o_open os" "get_memory_fds sz st os = (rc, fds, os1)"
  shows "\<exists>os1'. get_memory_fds sz st os' = (rc, fds, os1')"
  using open_regions_cong [OF assms(1,2)] assms(3) unfolding get_memory_fds_def
  by (metis fst_conv snd_conv prod.collapse)

lemma get_memory_fds_cases:
  assumes "opens_fresh os" "get_memory_fds VHOST_MEMORY_MAX_NREGIONS st os = (rc, fds, os')" "shm_wf st"
  shows "rc = -1 \<and> fds = [] \<and> o_open os' = o_open os \<or>
    rc = 0 \<and> length fds = length (huges st) \<and> distinct fds \<and> o_open os' = rev fds @ o_open os \<and>
      set fds \<inter> set (o_open os) = {}"
proof -
  have "min VHOST_MEMORY_MAX_NREGIONS (nat (to_uint (nregions st))) = length (huges st)"
    using assms(3) by (simp add: shm_wf_def to_uint_def VHOST_MEMORY_MAX_NREGIONS_def)
  then show ?thesis
    using open_regions_cases [of os "[]" "o_open os"] assms(1,2)
    by (fastforce simp: get_memory_fds_def opens_fresh_def)
qed



section \<open>Lines in the format of the kernel\<close>

lemma hex_digit_chars:
  assumes "is_digit 16 c"
  shows "\<not> is_space c" "c \<noteq> CHR ''-''" "c \<noteq> CHR ''+''" "c \<noteq> CHR ''x''" "c \<noteq> CHR ''X''" "c \<noteq> CHR '' ''"
  using assms by (auto simp: is_digit_def digit_value_def is_space_def Let_def)

lemma dec_digit_chars:
  assumes "is_digit 10 c"
  shows "is_digit 16 c" "c \<noteq> CHR ''_''" "c \<noteq> CHR 0x0A"
  using assms by (auto simp: is_digit_def digit_value_def Let_def split: option.splits if_splits)

lemma not_hex: "\<not> is_digit 16 CHR ''-''" "\<not> is_digit 16 CHR '' ''"
  by (simp_all add: is_digit_def digit_value_def)

lemma skip_0x_digits:
  assumes "\<forall>c \<in> set ds. is_digit 16 c" "ds \<noteq> []" "sep = CHR ''-'' \<or> sep = CHR '' ''"
  shows "skip_0x (ds @ sep # rest) = ds @ sep # rest"
proof (cases ds)
  case (Cons a ds')
  then show ?thesis
    using assms hex_digit_chars
    by (cases ds') (auto simp: skip_0x_def split: list.splits)
qed (use assms in simp)

lemma scan_lx_digits:
  assumes "\<forall>c \<in> set ds. is_digit 16 c" "ds \<noteq> []" "digits_value 16 ds < 2 ^ 64" "sep = CHR ''-'' \<or> sep = CHR '' ''"
  shows "scan_lx (ds @ sep # rest) = Some (of_nat (digits_value 16 ds), sep # rest)"
proof -
  obtain a ds' where ds: "ds = a # ds'" using assms(2) by (cases ds) auto
  have a: "is_digit 16 a" using assms(1) ds by simp
  have "skip_sign (dropWhile is_space (ds @ sep # rest)) = (False, ds @ sep # rest)"
    using hex_digit_chars [OF a] by (simp add: ds skip_sign_def)
  moreover have "\<not> is_digit 16 sep" using assms(4) not_hex by auto
  then have "takeWhile (is_digit 16) (ds @ sep # rest) = ds" "dropWhile (is_digit 16) (ds @ sep # rest) = sep # rest"
    using assms(1) by simp_all
  moreover have "min (digits_value 16 ds) (2 ^ 64 - 1) = digits_value 16 ds" using assms(3) by simp
  ultimately show ?thesis
    using assms(2) skip_0x_digits [OF assms(1,2,4)] by (simp add: scan_lx_def)
qed

lemma after_chr_append: "c \<notin> set s1 \<Longrightarrow> after_chr c (s1 @ c # s2) = Some s2"
  by (induction s1) (auto simp: after_chr_def)

lemma split_last_append: "c \<notin> set s2 \<Longrightarrow> split_last c (s1 @ c # s2) = Some (s1, c # s2)"
proof -
  assume "c \<notin> set s2"
  then have *: "dropWhile (\<lambda>x. x \<noteq> c) (rev s2 @ c # rev s1) = c # rev s1"
    "takeWhile (\<lambda>x. x \<noteq> c) (rev s2 @ c # rev s1) = rev s2"
    by (subst dropWhile_append2 takeWhile_append2; auto)+
  then show ?thesis by (simp add: split_last_def)
qed

text \<open>A line of \<open>/proc/self/maps\<close>.\<close>

definition maps_line :: "string \<Rightarrow> string \<Rightarrow> string \<Rightarrow> string \<Rightarrow> string \<Rightarrow> string \<Rightarrow> nat \<Rightarrow> string \<Rightarrow> string" where
  "maps_line a b perm off dv inode n path =
     a @ ''-'' @ b @ '' '' @ perm @ '' '' @ off @ '' '' @ dv @ '' '' @ inode @ '' '' @ replicate n CHR '' '' @ path @ [CHR 0x0A]"

definition hex_field :: "string \<Rightarrow> bool" where
  "hex_field ds \<longleftrightarrow> ds \<noteq> [] \<and> (\<forall>c \<in> set ds. is_digit 16 c) \<and> digits_value 16 ds < 2 ^ 64"

definition maps_fields :: "string \<Rightarrow> string \<Rightarrow> string \<Rightarrow> string \<Rightarrow> string \<Rightarrow> string \<Rightarrow> string \<Rightarrow> bool" where
  "maps_fields a b perm off dv inode path \<longleftrightarrow> hex_field a \<and> hex_field b \<and>
     (\<forall>f \<in> {perm, off, dv, inode}. CHR '' '' \<notin> set f) \<and> path \<noteq> [] \<and> hd path \<noteq> CHR '' '' \<and> CHR 0x0A \<notin> set path"

lemma scan_range_line:
  assumes "maps_fields a b perm off dv inode path"
  shows "scan_range (maps_line a b perm off dv inode n path) =
    Some (of_nat (digits_value 16 a), of_nat (digits_value 16 b))"
  using assms scan_lx_digits [of a "CHR ''-''"] scan_lx_digits [of b "CHR '' ''"]
  by (simp add: scan_range_def maps_line_def maps_fields_def hex_field_def)

lemma dropWhile_blanks: "path \<noteq> [] \<Longrightarrow> hd path \<noteq> c \<Longrightarrow> dropWhile (\<lambda>x. x = c) (replicate n c @ path) = path"
  by (induction n) (auto simp: neq_Nil_conv)

lemma skip_fields_line:
  assumes "maps_fields a b perm off dv inode path"
  shows "skip_fields (maps_line a b perm off dv inode n path) = Some (path @ [CHR 0x0A])"
proof -
  have sp: "CHR '' '' \<notin> set (a @ ''-'' @ b)"
    using assms hex_digit_chars(6) by (auto simp: maps_fields_def hex_field_def)
  have "after_chr CHR '' '' ((a @ ''-'' @ b) @ CHR '' '' # r) = Some r" for r
    by (rule after_chr_append [OF sp])
  then have "after_chr CHR '' '' (a @ CHR ''-'' # b @ CHR '' '' # r) = Some r" for r by simp
  then show ?thesis
    using assms after_chr_append [of "CHR '' ''"] dropWhile_blanks [of "path @ [CHR 0x0A]" "CHR '' ''" n]
    by (simp add: skip_fields_def maps_line_def maps_fields_def)
qed

lemma parse_maps_line_path:
  assumes "maps_fields a b perm off dv inode path"
  shows "parse_maps_line (maps_line a b perm off dv inode n path) =
    (case split_last CHR ''_'' path of
       None \<Rightarrow> LineSkip
     | Some (pre, rest) \<Rightarrow>
         if length pre < 3 \<or> \<not> scan_map (drop (length pre - 3) path) then LineSkip
         else LineHuge \<lparr>hf_addr = of_nat (digits_value 16 a),
                hf_size = of_nat (digits_value 16 b) - of_nat (digits_value 16 a), hf_path = take 4095 path\<rparr>)"
proof -
  have "split_last CHR 0x0A (path @ [CHR 0x0A]) = Some (path, [CHR 0x0A])" by (rule split_last_append) simp
  then show ?thesis
    by (simp add: parse_maps_line_def scan_range_line [OF assms] skip_fields_line [OF assms] PATH_MAX_def numeral_3_eq_3
        split: option.splits)
qed

lemma scan_map_digits: "ds \<noteq> [] \<Longrightarrow> \<forall>c \<in> set ds. is_digit 10 c \<Longrightarrow> scan_map (''map_'' @ ds)"
  using dec_digit_chars(1) hex_digit_chars by (cases ds) (auto simp: scan_map_def skip_sign_def)

lemma parse_maps_line_huge:
  assumes "maps_fields a b perm off dv inode (dir @ ''map_'' @ ds)" "ds \<noteq> []" "\<forall>c \<in> set ds. is_digit 10 c"
  shows "parse_maps_line (maps_line a b perm off dv inode n (dir @ ''map_'' @ ds)) =
    LineHuge \<lparr>hf_addr = of_nat (digits_value 16 a),
      hf_size = of_nat (digits_value 16 b) - of_nat (digits_value 16 a), hf_path = take 4095 (dir @ ''map_'' @ ds)\<rparr>"
proof -
  have "CHR ''_'' \<notin> set ds" using assms(3) dec_digit_chars(2) by auto
  then have "split_last CHR ''_'' ((dir @ ''map'') @ CHR ''_'' # ds) = Some (dir @ ''map'', CHR ''_'' # ds)"
    by (rule split_last_append)
  with assms scan_map_digits [OF assms(2,3)] show ?thesis by (simp add: parse_maps_line_path)
qed

end
