(* ===== verification/Vhost_User.thy ===== *)
theory Vhost_User
  imports Shm_Maps
begin

text \<open>
  \<open>src/vhost_user.c\<close>: sending and receiving vhost-user messages with file descriptors over a
  Unix socket, and \<open>vhost_ioctl\<close>, which turns a request and its argument into a message and
  waits for the reply of the requests that have one.

  The socket is a list of outcomes of the next \<open>sendmsg\<close>, \<open>recvmsg\<close> and \<open>read\<close> calls (and of the
  \<open>socket\<close> and \<open>connect\<close> calls of the client that owns it) and the log
  \<open>n_sent\<close> of the bytes and descriptors the peer received. \<open>sendmsg\<close> may be interrupted any
  number of times and may accept only a part of the bytes. \<open>None\<close> is a call that
  blocks for ever (the list is empty), a failed assertion, or an access outside the message
  structure.
\<close>

datatype send_result = SendInterrupted | SendError | SendCount nat

text \<open>The bytes \<open>recvmsg\<close> delivered, whether a truncation flag is set, the descriptors passed along.\<close>

datatype recv_result = RecvError | RecvBytes "u8 list" bool "int list"

record netos = os +
  n_sends :: "send_result list"
  n_sent :: "(u8 list \<times> int list) list"
  n_recvs :: "recv_result list"
  n_reads :: "u8 list option list"
  n_sockets :: "int list"
  n_connects :: "bool list"

fun send_loop :: "nat \<Rightarrow> send_result list \<Rightarrow> (int \<times> send_result list) option" where
  "send_loop len [] = None"
| "send_loop len (SendInterrupted # rs) = send_loop len rs"
| "send_loop len (SendError # rs) = Some (-1, rs)"
| "send_loop len (SendCount k # rs) = Some (int (min k len), rs)"

definition vhost_user_send_fds :: "mem \<Rightarrow> int list \<Rightarrow> netos \<Rightarrow> (int \<times> netos) option" where
  "vhost_user_send_fds msg fds os = do {
     let len = VHOST_USER_HDR_SIZE + unat (msg_size msg);
     c_assert (len \<le> sizeof_VhostUserMsg);
     (ret, rs) \<leftarrow> send_loop len (n_sends os);
     let sent = (if ret < 0 then [] else [(take (nat ret) (mem_read msg 0 len), fds)]);
     Some (ret, os\<lparr>n_sends := rs, n_sent := n_sent os @ sent\<rparr>)
   }"

text \<open>\<open>read (fd, msg + ret, msg->size)\<close> and the comparison of its result with \<open>msg->size\<close>.\<close>

definition recv_payload :: "mem \<Rightarrow> nat \<Rightarrow> netos \<Rightarrow> (int \<times> mem \<times> netos) option" where
  "recv_payload msg ret os = (case n_reads os of
      [] \<Rightarrow> None
    | r # rs \<Rightarrow>
        let os1 = os\<lparr>n_reads := rs\<rparr>;
            (rc, data) = (case r of None \<Rightarrow> (-1, []) | Some bs \<Rightarrow>
               let d = take (unat (msg_size msg)) bs in (int (length d), d));
            msg1 = mem_write ret data msg
        in if ret + length data > sizeof_VhostUserMsg then None
           else if (of_int rc :: u32) \<noteq> msg_size msg1 then Some (-1, msg1, os1)
           else Some (int ret, msg1, os1))"

definition vhost_user_recv_fds :: "mem \<Rightarrow> nat \<Rightarrow> netos \<Rightarrow> (int \<times> mem \<times> int list \<times> netos) option" where
  "vhost_user_recv_fds msg max_fds os = (case n_recvs os of
      [] \<Rightarrow> None
    | RecvError # rs \<Rightarrow> Some (-1, msg, [], os\<lparr>n_recvs := rs\<rparr>)
    | RecvBytes bs trunc passed # rs \<Rightarrow>
        let hdr = take VHOST_USER_HDR_SIZE bs;
            msg1 = mem_write 0 hdr msg;
            os1 = os\<lparr>n_recvs := rs\<rparr>;
            fds = (if hdr \<noteq> [] \<and> \<not> trunc \<and> length passed \<le> max_fds then passed else [])
        in if hdr \<noteq> [] \<and> trunc then Some (-1, msg1, [], os1)
           else map_option (\<lambda>(ret, msg2, os2). (ret, msg2, fds, os2)) (recv_payload msg1 (length hdr) os1))"


section \<open>vhost_ioctl\<close>

text \<open>What \<open>arg\<close> points to, by request; \<open>ArgNull\<close> is a null pointer.\<close>

datatype ioctl_arg =
    ArgNull
  | ArgU64 u64
  | ArgMemory VhostUserMemory
  | ArgFd int
  | ArgState vhost_vring_state
  | ArgAddr vhost_vring_addr
  | ArgFile vhost_vring_file

text \<open>
  The \<open>switch\<close> that fills the message: the union, the payload size and the descriptors, or
  \<open>Inl\<close> when \<open>vhost_ioctl\<close> returns -1 before sending. \<open>None\<close> is an argument of another
  type than the one the request reads.
\<close>

definition ioctl_prepare :: "shm_state \<Rightarrow> VhostUserRequest \<Rightarrow> ioctl_arg \<Rightarrow> netos
    \<Rightarrow> (netos + mem \<times> nat \<times> int list \<times> netos) option" where
  "ioctl_prepare st request a os =
     (let msg = (\<lambda>_. 0) in case request of
        VHOST_USER_GET_FEATURES \<Rightarrow> Some (Inr (msg, 0, [], os))
      | VHOST_USER_GET_VRING_BASE \<Rightarrow> Some (Inr (msg, 0, [], os))
      | VHOST_USER_SET_FEATURES \<Rightarrow> (case a of ArgU64 v \<Rightarrow> Some (Inr (store_u64 v msg, 8, [], os)) | _ \<Rightarrow> None)
      | VHOST_USER_SET_LOG_BASE \<Rightarrow> (case a of ArgU64 v \<Rightarrow> Some (Inr (store_u64 v msg, 8, [], os)) | _ \<Rightarrow> None)
      | VHOST_USER_SET_OWNER \<Rightarrow> Some (Inr (msg, 0, [], os))
      | VHOST_USER_RESET_OWNER \<Rightarrow> Some (Inr (msg, 0, [], os))
      | VHOST_USER_SET_MEM_TABLE \<Rightarrow> (case a of
            ArgMemory memory \<Rightarrow>
              let (rc, fds, os1) = get_memory_fds VHOST_MEMORY_MAX_NREGIONS st os
              in if rc \<noteq> 0 then Some (Inl os1)
                 else Some (Inr (store_memory memory msg, 4 + 4 + unat (nregions_of memory) * 32, fds, os1))
          | _ \<Rightarrow> None)
      | VHOST_USER_SET_LOG_FD \<Rightarrow> (case a of ArgFd fd \<Rightarrow> Some (Inr (msg, 0, [fd], os)) | _ \<Rightarrow> None)
      | VHOST_USER_SET_VRING_NUM \<Rightarrow> (case a of ArgState x \<Rightarrow> Some (Inr (store_state x msg, 8, [], os)) | _ \<Rightarrow> None)
      | VHOST_USER_SET_VRING_BASE \<Rightarrow> (case a of ArgState x \<Rightarrow> Some (Inr (store_state x msg, 8, [], os)) | _ \<Rightarrow> None)
      | VHOST_USER_SET_VRING_ADDR \<Rightarrow> (case a of ArgAddr x \<Rightarrow> Some (Inr (store_addr x msg, 40, [], os)) | _ \<Rightarrow> None)
      | VHOST_USER_SET_VRING_KICK \<Rightarrow> (case a of ArgFile f \<Rightarrow>
            Some (Inr (store_u64 (ucast (file_index f)) msg, 8, if file_fd f > 0 then [file_fd f] else [], os)) | _ \<Rightarrow> None)
      | VHOST_USER_SET_VRING_CALL \<Rightarrow> (case a of ArgFile f \<Rightarrow>
            Some (Inr (store_u64 (ucast (file_index f)) msg, 8, if file_fd f > 0 then [file_fd f] else [], os)) | _ \<Rightarrow> None)
      | VHOST_USER_SET_VRING_ERR \<Rightarrow> (case a of ArgFile f \<Rightarrow>
            Some (Inr (store_u64 (ucast (file_index f)) msg, 8, if file_fd f > 0 then [file_fd f] else [], os)) | _ \<Rightarrow> None)
      | VHOST_USER_NONE \<Rightarrow> Some (Inr (msg, 0, [], os))
      | VHOST_USER_MAX \<Rightarrow> Some (Inl os))"

definition need_reply :: "VhostUserRequest \<Rightarrow> bool" where
  "need_reply request \<longleftrightarrow> request = VHOST_USER_GET_FEATURES \<or> request = VHOST_USER_GET_VRING_BASE"

text \<open>The part of \<open>vhost_ioctl\<close> after the message was sent; \<open>n\<close> is \<open>fd_num\<close>, the room for descriptors.\<close>

definition ioctl_reply :: "VhostUserRequest \<Rightarrow> mem \<Rightarrow> nat \<Rightarrow> ioctl_arg \<Rightarrow> netos \<Rightarrow> (int \<times> ioctl_arg \<times> netos) option" where
  "ioctl_reply request msg n a os =
     (if \<not> need_reply request then Some (0, a, os)
      else do {
        (ret, reply, _, os1) \<leftarrow> vhost_user_recv_fds (set_header (request_code VHOST_USER_NONE) 0 (msg_size msg) msg) n os;
        if ret < 0 then Some (-1, a, os1)
        else do {
          c_assert (msg_request reply = request_code request);
          c_assert (msg_flags reply AND VHOST_USER_VERSION_MASK = VHOST_USER_VERSION);
          (case request of
             VHOST_USER_GET_FEATURES \<Rightarrow> Some (0, ArgU64 (load_u64 reply), os1)
           | VHOST_USER_GET_VRING_BASE \<Rightarrow> Some (0, ArgState (load_state reply), os1)
           | _ \<Rightarrow> Some (-1, a, os1))
        }
      })"

definition vhost_ioctl :: "shm_state \<Rightarrow> VhostUserRequest \<Rightarrow> ioctl_arg \<Rightarrow> netos \<Rightarrow> (int \<times> ioctl_arg \<times> netos) option" where
  "vhost_ioctl st request a os = do {
     prep \<leftarrow> ioctl_prepare st request a os;
     (case prep of
        Inl os1 \<Rightarrow> Some (-1, a, os1)
      | Inr (payload, size_, fds, os1) \<Rightarrow> do {
          let flags = (0 AND NOT VHOST_USER_VERSION_MASK) OR VHOST_USER_VERSION;
          let msg = set_header (request_code request) flags (of_nat size_) payload;
          (ret, os2) \<leftarrow> vhost_user_send_fds msg fds os1;
          if ret < 0 then Some (-1, a, os2)
          else
            let os3 = (if request = VHOST_USER_SET_MEM_TABLE then foldl (\<lambda>os fd. os_close fd os) os2 fds else os2)
            in ioctl_reply request msg (length fds) a os3
        })
   }"



section \<open>What the peer reads\<close>

text \<open>The bytes of a message as the peer has them in its own structure.\<close>

definition received :: "u8 list \<Rightarrow> mem" where
  "received bs = mem_write 0 bs (\<lambda>_. 0)"

lemma received_le32: "p + 4 \<le> len \<Longrightarrow> from_le32 (received (mem_read msg 0 len)) p = from_le32 msg p"
  by (rule le32.load_local) (simp add: received_def mem_write_def)

lemma received_le64: "p + 8 \<le> len \<Longrightarrow> from_le64 (received (mem_read msg 0 len)) p = from_le64 msg p"
  by (rule le64.load_local) (simp add: received_def mem_write_def)

lemma received_header:
  assumes "12 \<le> len"
  shows "msg_request (received (mem_read msg 0 len)) = msg_request msg"
    "msg_flags (received (mem_read msg 0 len)) = msg_flags msg" "msg_size (received (mem_read msg 0 len)) = msg_size msg"
  using assms by (simp_all add: msg_request_def msg_flags_def msg_size_def received_le32)

lemma received_payload:
  "20 \<le> len \<Longrightarrow> load_u64 (received (mem_read msg 0 len)) = load_u64 msg"
  "20 \<le> len \<Longrightarrow> load_state (received (mem_read msg 0 len)) = load_state msg"
  "52 \<le> len \<Longrightarrow> load_addr (received (mem_read msg 0 len)) = load_addr msg"
  by (simp_all add: load_u64_def load_state_def load_addr_def received_le32 received_le64)

lemma received_memory:
  assumes "unat (from_le32 msg 12) = n" "20 + 32 * n \<le> len"
  shows "load_memory (received (mem_read msg 0 len)) = load_memory msg"
proof -
  have "load_region (received (mem_read msg 0 len)) (20 + 32 * i) = load_region msg (20 + 32 * i)" if "i < n" for i
  proof -
    have "20 + 32 * i + 32 \<le> len" using that assms(2) by linarith
    then show ?thesis by (simp add: load_region_def received_le64)
  qed
  moreover have "from_le32 (received (mem_read msg 0 len)) 12 = from_le32 msg 12"
    "from_le32 (received (mem_read msg 0 len)) 16 = from_le32 msg 16"
    using assms(2) by (simp_all add: received_le32)
  ultimately show ?thesis using assms(1) by (simp add: load_memory_def)
qed

text \<open>The argument the peer recovers from the payload and the descriptors of a request.\<close>

definition peer_arg :: "VhostUserRequest \<Rightarrow> u8 list \<Rightarrow> int list \<Rightarrow> ioctl_arg" where
  "peer_arg request bs fds =
     (let msg = received bs in
      if request \<in> {VHOST_USER_SET_FEATURES, VHOST_USER_SET_LOG_BASE} then ArgU64 (load_u64 msg)
      else if request \<in> {VHOST_USER_SET_VRING_NUM, VHOST_USER_SET_VRING_BASE} then ArgState (load_state msg)
      else if request = VHOST_USER_SET_VRING_ADDR then ArgAddr (load_addr msg)
      else if request = VHOST_USER_SET_MEM_TABLE then ArgMemory (load_memory msg)
      else if request = VHOST_USER_SET_LOG_FD then ArgFd (hd fds)
      else if request \<in> {VHOST_USER_SET_VRING_KICK, VHOST_USER_SET_VRING_CALL, VHOST_USER_SET_VRING_ERR}
        then ArgFile \<lparr>file_index = ucast (load_u64 msg), file_fd = (if fds = [] then 0 else hd fds)\<rparr>
      else ArgNull)"

text \<open>Arguments of the type the request reads (descriptors positive, as open files are here).\<close>

definition arg_ok :: "VhostUserRequest \<Rightarrow> ioctl_arg \<Rightarrow> bool" where
  "arg_ok request a = (case a of
      ArgU64 v \<Rightarrow> request \<in> {VHOST_USER_SET_FEATURES, VHOST_USER_SET_LOG_BASE}
    | ArgState x \<Rightarrow> request \<in> {VHOST_USER_SET_VRING_NUM, VHOST_USER_SET_VRING_BASE}
    | ArgAddr x \<Rightarrow> request = VHOST_USER_SET_VRING_ADDR
    | ArgFd fd \<Rightarrow> request = VHOST_USER_SET_LOG_FD
    | ArgFile f \<Rightarrow> request \<in> {VHOST_USER_SET_VRING_KICK, VHOST_USER_SET_VRING_CALL, VHOST_USER_SET_VRING_ERR} \<and> file_fd f > 0
    | ArgNull \<Rightarrow> request \<in> {VHOST_USER_NONE, VHOST_USER_SET_OWNER, VHOST_USER_RESET_OWNER}
    | ArgMemory memory \<Rightarrow> False)"

text \<open>\<open>sendmsg\<close> is interrupted some number of times and then takes the whole message.\<close>

definition sends_all :: "send_result list \<Rightarrow> send_result list \<Rightarrow> bool" where
  "sends_all rs rest \<longleftrightarrow> (\<exists>k n. sizeof_VhostUserMsg \<le> n \<and> rs = replicate k SendInterrupted @ SendCount n # rest)"

lemma send_loop_interrupted: "send_loop len (replicate k SendInterrupted @ rs) = send_loop len rs"
  by (induction k) simp_all

lemma vhost_user_send_ok:
  assumes "sends_all (n_sends os) rest" "12 + unat (msg_size msg) \<le> sizeof_VhostUserMsg"
  shows "vhost_user_send_fds msg fds os = Some (int (12 + unat (msg_size msg)),
    os\<lparr>n_sends := rest, n_sent := n_sent os @ [(mem_read msg 0 (12 + unat (msg_size msg)), fds)]\<rparr>)"
proof -
  from assms(1) obtain k n where n: "sizeof_VhostUserMsg \<le> n" "n_sends os = replicate k SendInterrupted @ SendCount n # rest"
    by (auto simp: sends_all_def)
  with assms(2) show ?thesis
    by (simp add: vhost_user_send_fds_def send_loop_interrupted VHOST_USER_HDR_SIZE_def Let_def min_absorb2)
qed

text \<open>The message that \<open>vhost_ioctl\<close> builds.\<close>

definition ioctl_msg :: "VhostUserRequest \<Rightarrow> nat \<Rightarrow> mem \<Rightarrow> mem" where
  "ioctl_msg request n payload = set_header (request_code request) 1 (of_nat n) payload"

lemma ioctl_msg_sel [simp]:
  "n < 2 ^ 32 \<Longrightarrow> unat (msg_size (ioctl_msg r n m)) = n" "msg_request (ioctl_msg r n m) = request_code r"
  "msg_flags (ioctl_msg r n m) = 1"
  "load_u64 (ioctl_msg r n m) = load_u64 m" "load_state (ioctl_msg r n m) = load_state m"
  "load_addr (ioctl_msg r n m) = load_addr m" "load_memory (ioctl_msg r n m) = load_memory m"
  by (simp_all add: ioctl_msg_def unat_of_nat)

lemma vhost_ioctl_no_reply:
  assumes "ioctl_prepare st request a os = Some (Inr (payload, n, fds, os1))" "\<not> need_reply request" "n \<le> 264"
    "sends_all (n_sends os1) rest"
  shows "vhost_ioctl st request a os = Some (0, a,
    (let os2 = os1\<lparr>n_sends := rest, n_sent := n_sent os1 @ [(mem_read (ioctl_msg request n payload) 0 (12 + n), fds)]\<rparr>
     in if request = VHOST_USER_SET_MEM_TABLE then foldl (\<lambda>os fd. os_close fd os) os2 fds else os2))"
proof -
  have flags: "(0 AND NOT VHOST_USER_VERSION_MASK) OR VHOST_USER_VERSION = (1 :: u32)"
    by (simp add: VHOST_USER_VERSION_def)
  have size: "unat (msg_size (ioctl_msg request n payload)) = n" using assms(3) by simp
  have "vhost_user_send_fds (ioctl_msg request n payload) fds os1 = Some (int (12 + n),
      os1\<lparr>n_sends := rest, n_sent := n_sent os1 @ [(mem_read (ioctl_msg request n payload) 0 (12 + n), fds)]\<rparr>)"
    using vhost_user_send_ok [OF assms(4), of "ioctl_msg request n payload" fds] assms(3) size
    by (simp add: sizeof_VhostUserMsg_def)
  then show ?thesis
    using assms(1,2) flags by (simp add: vhost_ioctl_def ioctl_reply_def ioctl_msg_def Let_def)
qed

lemma file_roundtrip: "\<lparr>file_index = ucast (ucast (file_index f) :: u64), file_fd = file_fd f\<rparr> = f"
  by (cases f) (auto intro!: bit_word_eqI simp: bit_simps)

lemma ioctl_prepare_arg:
  assumes "arg_ok request a"
  shows "\<exists>payload n fds. ioctl_prepare st request a os = Some (Inr (payload, n, fds, os)) \<and> n \<le> 264 \<and>
    peer_arg request (mem_read (ioctl_msg request n payload) 0 (12 + n)) fds = a"
  using assms
  by (cases a; cases request; simp add: arg_ok_def ioctl_prepare_def peer_arg_def received_payload file_roundtrip Let_def)



section \<open>The memory table\<close>

lemma foldl_close_sel:
  "n_sent (foldl (\<lambda>os fd. os_close fd os) os fds) = n_sent os" "n_recvs (foldl (\<lambda>os fd. os_close fd os) os fds) = n_recvs os"
  "n_reads (foldl (\<lambda>os fd. os_close fd os) os fds) = n_reads os" "n_sends (foldl (\<lambda>os fd. os_close fd os) os fds) = n_sends os"
  "o_opens (foldl (\<lambda>os fd. os_close fd os) os fds) = o_opens os"
  by (induction fds arbitrary: os) (simp_all add: os_close_def)

lemma get_memory_fds_os:
  assumes "get_memory_fds sz st os = (rc, fds, os')"
  shows "n_sends os' = n_sends os" "n_sent os' = n_sent os" "n_recvs os' = n_recvs os" "n_reads os' = n_reads os"
proof -
  have "open_regions hs fds os = (rc, fds', os') \<Longrightarrow> n_sends os' = n_sends os \<and> n_sent os' = n_sent os \<and>
      n_recvs os' = n_recvs os \<and> n_reads os' = n_reads os" for hs fds fds' os
    by (induction hs arbitrary: fds os)
      (auto simp: os_open_def Let_def foldl_close_sel split: list.splits if_splits)
  with assms show "n_sends os' = n_sends os" "n_sent os' = n_sent os" "n_recvs os' = n_recvs os" "n_reads os' = n_reads os"
    by (auto simp: get_memory_fds_def)
qed

lemma vhost_ioctl_mem_table:
  assumes "shm_wf st" "opens_fresh os" "memory_wf memory" "nregions_of memory = of_int (nregions st)"
    "get_memory_fds VHOST_MEMORY_MAX_NREGIONS st os = (0, fds, os1)" "sends_all (n_sends os) rest"
  shows "\<exists>bs os'. vhost_ioctl st VHOST_USER_SET_MEM_TABLE (ArgMemory memory) os = Some (0, ArgMemory memory, os') \<and>
    n_sent os' = n_sent os @ [(bs, fds)] \<and> msg_request (received bs) = request_code VHOST_USER_SET_MEM_TABLE \<and>
    peer_arg VHOST_USER_SET_MEM_TABLE bs fds = ArgMemory memory \<and>
    length fds = length (regions memory) \<and> o_open os' = o_open os \<and> n_sends os' = rest"
proof -
  note fds = get_memory_fds_cases [OF assms(2,5,1)]
  have n: "nregions_of memory = of_nat (length (regions memory))" "length (regions memory) \<le> 8"
    using assms(3) by (simp_all add: memory_wf_def VHOST_MEMORY_MAX_NREGIONS_def)
  have "length (huges st) \<le> 8" "nregions st = int (length (huges st))"
    using assms(1) by (simp_all add: shm_wf_def VHOST_MEMORY_MAX_NREGIONS_def)
  with n assms(4) have "unat (of_nat (length (regions memory)) :: u32) = unat (of_nat (length (huges st)) :: u32)"
    by simp
  with n(2) \<open>length (huges st) \<le> 8\<close> have len: "length (regions memory) = length (huges st)"
    by (simp add: unat_of_nat)
  let ?n = "4 + 4 + unat (nregions_of memory) * 32"
  have un: "unat (nregions_of memory) = length (regions memory)" using n by (simp add: unat_of_nat)
  have size: "?n \<le> 264" using n un by simp
  let ?p = "store_memory memory (\<lambda>_. 0)"
  let ?bs = "mem_read (ioctl_msg VHOST_USER_SET_MEM_TABLE ?n ?p) 0 (12 + ?n)"
  have "ioctl_prepare st VHOST_USER_SET_MEM_TABLE (ArgMemory memory) os = Some (Inr (?p, ?n, fds, os1))"
    using assms(5) by (simp add: ioctl_prepare_def)
  from vhost_ioctl_no_reply [OF this _ size, of rest] assms(6) get_memory_fds_os(1) [OF assms(5)]
  have run: "vhost_ioctl st VHOST_USER_SET_MEM_TABLE (ArgMemory memory) os = Some (0, ArgMemory memory,
      foldl (\<lambda>os fd. os_close fd os) (os1\<lparr>n_sends := rest, n_sent := n_sent os1 @ [(?bs, fds)]\<rparr>) fds)"
    by (simp add: need_reply_def)
  have "from_le32 (ioctl_msg VHOST_USER_SET_MEM_TABLE ?n ?p) 12 = nregions_of memory"
    by (simp add: ioctl_msg_def set_header_def store_memory_def le_loads le32_store_regions)
  then have "load_memory (received ?bs) = load_memory (ioctl_msg VHOST_USER_SET_MEM_TABLE ?n ?p)"
    by (intro received_memory [OF refl]) simp
  then have "peer_arg VHOST_USER_SET_MEM_TABLE ?bs fds = ArgMemory memory"
    using load_memory_store [OF assms(3)] by (simp add: peer_arg_def)
  moreover have "msg_request (received ?bs) = request_code VHOST_USER_SET_MEM_TABLE"
    by (simp add: received_header del: request_code.simps)
  moreover have "o_open (foldl (\<lambda>os fd. os_close fd os) (os1\<lparr>n_sends := rest, n_sent := n_sent os1 @ [(?bs, fds)]\<rparr>) fds) = o_open os"
    using fds by (intro close_all) auto
  ultimately show ?thesis
    using run fds len get_memory_fds_os(2) [OF assms(5)] by (auto simp: foldl_close_sel)
qed


section \<open>Replies\<close>

text \<open>A complete reply: the header in one piece and then a payload of eight bytes.\<close>

definition reply_u64 :: "VhostUserRequest \<Rightarrow> u64 \<Rightarrow> mem" where
  "reply_u64 request v = set_header (request_code request) 5 8 (store_u64 v (\<lambda>_. 0))"

lemma mem_write_two: "mem_write (length bs) cs (mem_write 0 bs m) = mem_write 0 (bs @ cs) m"
  by (rule ext) (auto simp: mem_write_def nth_append)

lemma vhost_user_recv_ok:
  assumes "n_recvs os = RecvBytes (mem_read reply 0 12) False [] # rs" "n_reads os = Some (mem_read reply 12 8) # ds"
    "msg_size reply = 8"
  shows "\<exists>msg'. vhost_user_recv_fds msg k os = Some (12, msg', [], os\<lparr>n_recvs := rs, n_reads := ds\<rparr>) \<and>
    (\<forall>a < 20. msg' a = reply a)"
proof -
  let ?m1 = "mem_write 0 (mem_read reply 0 12) msg"
  let ?m2 = "mem_write 12 (mem_read reply 12 8) ?m1"
  have s1: "msg_size ?m1 = 8" and s2: "msg_size ?m2 = 8"
    unfolding assms(3) [symmetric] msg_size_def
    by (rule le32.load_local; simp add: mem_write_def)+
  have "take 12 (mem_read reply 0 12) = mem_read reply 0 12" "mem_read reply 0 12 \<noteq> []"
    by (simp_all flip: length_greater_0_conv)
  then have "vhost_user_recv_fds msg k os = Some (12, ?m2, [], os\<lparr>n_recvs := rs, n_reads := ds\<rparr>)"
    using assms s1 s2
    by (simp add: vhost_user_recv_fds_def recv_payload_def VHOST_USER_HDR_SIZE_def sizeof_VhostUserMsg_def Let_def)
  moreover have "\<forall>a < 20. ?m2 a = reply a" by (simp add: mem_write_def)
  ultimately show ?thesis by blast
qed

lemma vhost_ioctl_get_features:
  assumes "sends_all (n_sends os) rest"
    "n_recvs os = RecvBytes (mem_read (reply_u64 VHOST_USER_GET_FEATURES v) 0 12) False [] # rs"
    "n_reads os = Some (mem_read (reply_u64 VHOST_USER_GET_FEATURES v) 12 8) # ds"
  shows "\<exists>bs. vhost_ioctl st VHOST_USER_GET_FEATURES a os = Some (0, ArgU64 v,
    os\<lparr>n_sends := rest, n_sent := n_sent os @ [(bs, [])], n_recvs := rs, n_reads := ds\<rparr>) \<and>
    msg_request (received bs) = 1 \<and> msg_size (received bs) = 0"
proof -
  let ?r = "reply_u64 VHOST_USER_GET_FEATURES v"
  let ?msg = "ioctl_msg VHOST_USER_GET_FEATURES 0 (\<lambda>_. 0)"
  let ?bs = "mem_read ?msg 0 12"
  let ?os = "os\<lparr>n_sends := rest, n_sent := n_sent os @ [(?bs, [])]\<rparr>"
  have flags: "(0 AND NOT VHOST_USER_VERSION_MASK) OR VHOST_USER_VERSION = (1 :: u32)"
    by (simp add: VHOST_USER_VERSION_def)
  have sz: "unat (msg_size ?msg) = 0" by simp
  have send: "vhost_user_send_fds ?msg [] os = Some (12, ?os)"
    using vhost_user_send_ok [OF assms(1), of ?msg "[]"] sz by (simp add: sizeof_VhostUserMsg_def)
  have "msg_size ?r = 8" by (simp add: reply_u64_def)
  from vhost_user_recv_ok [of ?os ?r rs ds "set_header 0 0 (msg_size ?msg) ?msg" 0, OF _ _ this] assms(2,3)
  obtain m where m: "vhost_user_recv_fds (set_header 0 0 (msg_size ?msg) ?msg) 0 ?os =
      Some (12, m, [], ?os\<lparr>n_recvs := rs, n_reads := ds\<rparr>)" "\<forall>a < 20. m a = ?r a" by auto
  have le32: "from_le32 m p = from_le32 ?r p" if "p + 4 \<le> 20" for p
    using that m(2) by (intro le32.load_local) simp
  have "msg_request m = msg_request ?r" "msg_flags m = msg_flags ?r"
    unfolding msg_request_def msg_flags_def by (rule le32; simp)+
  moreover have "load_u64 m = load_u64 ?r"
    unfolding load_u64_def using m(2) by (intro le64.load_local) simp
  ultimately have "msg_request m = 1" "msg_flags m = 5" "load_u64 m = v"
    by (simp_all add: reply_u64_def)
  then have "vhost_ioctl st VHOST_USER_GET_FEATURES a os = Some (0, ArgU64 v, ?os\<lparr>n_recvs := rs, n_reads := ds\<rparr>)"
    using send m(1) flags
    by (simp add: vhost_ioctl_def ioctl_prepare_def ioctl_reply_def need_reply_def Let_def
        VHOST_USER_VERSION_MASK_def VHOST_USER_VERSION_def ioctl_msg_def)
  moreover have "msg_request (received ?bs) = 1" "msg_size (received ?bs) = 0"
    by (simp_all add: received_header) (simp add: ioctl_msg_def)
  ultimately show ?thesis by (intro exI [of _ ?bs]) simp
qed



section \<open>Requests without a reply\<close>

lemma vhost_ioctl_simple:
  assumes "arg_ok request a" "sends_all (n_sends os) rest"
  shows "\<exists>bs fds. vhost_ioctl st request a os = Some (0, a, os\<lparr>n_sends := rest, n_sent := n_sent os @ [(bs, fds)]\<rparr>) \<and>
    msg_request (received bs) = request_code request \<and> msg_flags (received bs) = VHOST_USER_VERSION \<and>
    length bs = 12 + unat (msg_size (received bs)) \<and> peer_arg request bs fds = a"
proof -
  from ioctl_prepare_arg [OF assms(1)] obtain payload n fds where
    p: "ioctl_prepare st request a os = Some (Inr (payload, n, fds, os))" "n \<le> 264"
    "peer_arg request (mem_read (ioctl_msg request n payload) 0 (12 + n)) fds = a" by blast
  have "\<not> need_reply request" "request \<noteq> VHOST_USER_SET_MEM_TABLE"
    using assms(1) by (auto simp: arg_ok_def need_reply_def split: ioctl_arg.splits)
  with vhost_ioctl_no_reply [OF p(1) _ p(2) assms(2)]
  have "vhost_ioctl st request a os = Some (0, a, os\<lparr>n_sends := rest,
      n_sent := n_sent os @ [(mem_read (ioctl_msg request n payload) 0 (12 + n), fds)]\<rparr>)" by (simp add: Let_def)
  moreover have "unat (msg_size (ioctl_msg request n payload)) = n" using p(2) by simp
  ultimately show ?thesis using p(3)
    by (intro exI [of _ "mem_read (ioctl_msg request n payload) 0 (12 + n)"] exI [of _ fds])
      (simp add: received_header VHOST_USER_VERSION_def)
qed

lemma vhost_user_send_frame:
  assumes "vhost_user_send_fds msg fds os = Some (ret, os')"
  shows "o_open os' = o_open os \<and> o_opens os' = o_opens os"
  using assms by (auto simp: vhost_user_send_fds_def bind_eq_Some_conv Let_def)

lemma ioctl_reply_frame:
  assumes "ioctl_reply request msg n a os = Some (rc, a', os')"
  shows "o_open os' = o_open os \<and> o_opens os' = o_opens os"
proof -
  have "vhost_user_recv_fds m k os = Some (ret, m', fs, os1) \<Longrightarrow> o_open os1 = o_open os \<and> o_opens os1 = o_opens os"
    for m k ret m' fs os1
    by (auto simp: vhost_user_recv_fds_def recv_payload_def Let_def split: list.splits recv_result.splits if_splits prod.splits)
  with assms show ?thesis
    by (fastforce simp: ioctl_reply_def bind_eq_Some_conv split: if_splits VhostUserRequest.splits)
qed

text \<open>Requests other than the memory table leave the open descriptors alone, whatever the peer does.\<close>

lemma vhost_ioctl_frame:
  assumes "vhost_ioctl st request a os = Some (rc, a', os')" "request \<noteq> VHOST_USER_SET_MEM_TABLE"
  shows "o_open os' = o_open os \<and> o_opens os' = o_opens os"
proof -
  from assms(1) obtain prep where prep: "ioctl_prepare st request a os = Some prep"
    by (auto simp: vhost_ioctl_def bind_eq_Some_conv)
  show ?thesis
  proof (cases prep)
    case (Inl os1)
    then have "os1 = os" using prep assms(2)
      by (auto simp: ioctl_prepare_def Let_def split: VhostUserRequest.splits ioctl_arg.splits)
    with Inl prep assms(1) show ?thesis by (simp add: vhost_ioctl_def)
  next
    case (Inr x)
    obtain payload n fds os1 where x: "x = (payload, n, fds, os1)" by (cases x) auto
    have os1: "os1 = os" using prep assms(2) unfolding Inr x
      by (auto simp: ioctl_prepare_def Let_def split: VhostUserRequest.splits ioctl_arg.splits)
    from prep assms show ?thesis unfolding Inr x os1
      by (auto simp: vhost_ioctl_def Let_def bind_eq_Some_conv split: if_splits
          dest!: vhost_user_send_frame ioctl_reply_frame)
  qed
qed

end
