(* ===== verification/Vhost_Client.thy ===== *)
theory Vhost_Client
  imports Vhost_User Vring_Refine
begin

text \<open>
  \<open>src/vhost_client.c\<close>: the connection to the vhost server. \<open>init_vhost_client\<close> takes a client
  from \<open>INSTANCE_CREATED\<close> to \<open>INSTANCE_INITIALIZED\<close>, \<open>set_vhost_vring\<close> announces a ring,
  \<open>end_vhost_client\<close> ends the session. A client is \<open>None\<close> once it has been freed.
\<close>

definition INSTANCE_CREATED :: int where "INSTANCE_CREATED = 1"
definition INSTANCE_INITIALIZED :: int where "INSTANCE_INITIALIZED = 2"
definition INSTANCE_END :: int where "INSTANCE_END = 3"

text \<open>\<open>sizeof (un.sun_path)\<close>\<close>

definition SUN_PATH_SIZE :: nat where "SUN_PATH_SIZE = 108"

record vhost_client =
  sock_path :: string
  status :: int
  sock :: int
  features :: u64

definition new_vhost_client :: "string \<Rightarrow> sys \<Rightarrow> vhost_client option \<times> sys" where
  "new_vhost_client path s =
     (let (ok, s1) = c_alloc s
      in if \<not> ok then (None, s1)
         else (Some \<lparr>sock_path = take PATH_MAX path, status = INSTANCE_CREATED, sock = 0, features = 0\<rparr>, s1))"

definition negotiate_features :: "shm_state \<Rightarrow> vhost_client \<Rightarrow> netos \<Rightarrow> (int \<times> vhost_client \<times> netos) option" where
  "negotiate_features st c os = do {
     (rc, a, os1) \<leftarrow> vhost_ioctl st VHOST_USER_GET_FEATURES (ArgU64 0) os;
     if rc \<noteq> 0 then Some (-1, c, os1)
     else case a of
         ArgU64 fs \<Rightarrow>
           let c1 = c\<lparr>features := features c AND fs\<rparr>
           in do {
             (rc, _, os2) \<leftarrow> vhost_ioctl st VHOST_USER_SET_FEATURES (ArgU64 (features c1)) os1;
             Some (if rc \<noteq> 0 then -1 else 0, c1, os2)
           }
       | _ \<Rightarrow> None
   }"

definition os_socket :: "netos \<Rightarrow> int \<times> netos" where
  "os_socket os = (case n_sockets os of
      [] \<Rightarrow> (-1, os)
    | fd # fds \<Rightarrow> if fd < 0 then (-1, os\<lparr>n_sockets := fds\<rparr>) else (fd, os\<lparr>n_sockets := fds, o_open := fd # o_open os\<rparr>))"

definition os_connect :: "netos \<Rightarrow> bool \<times> netos" where
  "os_connect os = (case n_connects os of [] \<Rightarrow> (False, os) | b # bs \<Rightarrow> (b, os\<lparr>n_connects := bs\<rparr>))"

text \<open>
  The three requests after the connection is up. \<open>pad\<close> is the content of the uninitialised
  \<open>memory.padding\<close>.
\<close>

definition vhost_handshake :: "shm_state \<Rightarrow> u32 \<Rightarrow> vhost_client \<Rightarrow> netos \<Rightarrow> (int \<times> vhost_client \<times> netos) option" where
  "vhost_handshake st pad c os = do {
     (rc1, _, os1) \<leftarrow> vhost_ioctl st VHOST_USER_SET_OWNER ArgNull os;
     if rc1 \<noteq> 0 then Some (-1, c, os_close (sock c) os1)
     else do {
       (rc2, c2, os2) \<leftarrow> negotiate_features st c os1;
       if rc2 \<noteq> 0 then Some (-1, c2, os_close (sock c2) os2)
       else do {
         (rc3, _, os3) \<leftarrow> vhost_ioctl st VHOST_USER_SET_MEM_TABLE (ArgMemory (get_memory_info pad st)) os2;
         if rc3 \<noteq> 0 then Some (-1, c2, os_close (sock c2) os3)
         else Some (0, c2\<lparr>status := INSTANCE_INITIALIZED\<rparr>, os3)
       }
     }
   }"

text \<open>\<open>None\<close> stands also for the overflow of \<open>sun_path\<close> by \<open>strcpy\<close>.\<close>

definition init_vhost_client :: "shm_state \<Rightarrow> u32 \<Rightarrow> vhost_client \<Rightarrow> netos \<Rightarrow> (int \<times> vhost_client \<times> netos) option" where
  "init_vhost_client st pad c os =
     (if status c \<noteq> INSTANCE_CREATED then Some (-1, c, os)
      else let (fd, os1) = os_socket os; c1 = c\<lparr>sock := fd\<rparr>
      in if fd = -1 then Some (-1, c1, os1)
         else if length (sock_path c) \<ge> SUN_PATH_SIZE then None
         else let (ok, os2) = os_connect os1
              in if \<not> ok then Some (-1, c1, os_close fd os2)
                 else vhost_handshake st pad c1 os2)"

text \<open>The offsets of the members of \<open>struct vhost_vring\<close>.\<close>

definition AVAIL_OFFSET :: nat where "AVAIL_OFFSET = 16384"
definition USED_OFFSET :: nat where "USED_OFFSET = 20480"

definition vring_requests :: "vring \<Rightarrow> u32 \<Rightarrow> (VhostUserRequest \<times> ioctl_arg) list" where
  "vring_requests vr idx =
     [(VHOST_USER_SET_VRING_NUM, ArgState \<lparr>st_index = idx, st_num = ucast (num vr)\<rparr>),
      (VHOST_USER_SET_VRING_BASE, ArgState \<lparr>st_index = idx, st_num = 0\<rparr>),
      (VHOST_USER_SET_VRING_KICK, ArgFile \<lparr>file_index = idx, file_fd = kickfd vr\<rparr>),
      (VHOST_USER_SET_VRING_CALL, ArgFile \<lparr>file_index = idx, file_fd = callfd vr\<rparr>),
      (VHOST_USER_SET_VRING_ADDR, ArgAddr \<lparr>ad_index = idx, ad_flags = 0,
         desc_user_addr = of_nat (vring_shm vr), used_user_addr = of_nat (vring_shm vr + USED_OFFSET),
         avail_user_addr = of_nat (vring_shm vr + AVAIL_OFFSET), log_guest_addr = 0\<rparr>)]"

text \<open>The chain of calls joined by \<open>||\<close>: it stops at the first that fails.\<close>

fun ioctl_seq :: "shm_state \<Rightarrow> (VhostUserRequest \<times> ioctl_arg) list \<Rightarrow> netos \<Rightarrow> (int \<times> netos) option" where
  "ioctl_seq st [] os = Some (0, os)"
| "ioctl_seq st ((r, a) # ras) os = do {
     (rc, _, os1) \<leftarrow> vhost_ioctl st r a os;
     if rc \<noteq> 0 then Some (-1, os1) else ioctl_seq st ras os1
   }"

definition set_vhost_vring :: "shm_state \<Rightarrow> vring \<Rightarrow> u32 \<Rightarrow> netos \<Rightarrow> (int \<times> netos) option" where
  "set_vhost_vring st vr idx os = ioctl_seq st (vring_requests vr idx) os"

definition end_vhost_client :: "shm_state \<Rightarrow> vhost_client \<Rightarrow> netos \<Rightarrow> (vhost_client option \<times> netos) option" where
  "end_vhost_client st c os =
     (if status c \<noteq> INSTANCE_INITIALIZED then Some (Some c, os)
      else do {
        (_, _, os1) \<leftarrow> vhost_ioctl st VHOST_USER_RESET_OWNER ArgNull os;
        Some (None, os_close (sock c) os1)
      })"

end
