(* ===== verification/Vhost_Theorems.thy ===== *)
theory Vhost_Theorems
  imports Vhost_Client Vring_Theorems
begin

text \<open>What the protocol layer and the client guarantee, with concrete instances.\<close>

fun peer_takes :: "nat \<Rightarrow> send_result list \<Rightarrow> bool" where
  "peer_takes 0 rs = True"
| "peer_takes (Suc n) rs = (\<exists>rest. sends_all rs rest \<and> peer_takes n rest)"

text \<open>What the peer makes of the messages sent.\<close>

definition peer_view :: "VhostUserRequest \<times> ioctl_arg \<Rightarrow> u8 list \<times> int list \<Rightarrow> bool" where
  "peer_view = (\<lambda>(r, a) (bs, fds). msg_request (received bs) = request_code r \<and> peer_arg r bs fds = a)"

lemma ioctl_seq_ok:
  assumes "\<forall>(r, a) \<in> set ras. arg_ok r a" "peer_takes (length ras + k) (n_sends os)"
  shows "\<exists>ms os'. ioctl_seq st ras os = Some (0, os') \<and> n_sent os' = n_sent os @ ms \<and> list_all2 peer_view ras ms \<and>
    o_open os' = o_open os \<and> peer_takes k (n_sends os')"
  using assms
proof (induction ras arbitrary: os)
  case Nil
  then show ?case by simp
next
  case (Cons ra ras)
  obtain r a where ra: "ra = (r, a)" by fastforce
  from Cons.prems(2) obtain rest where rest: "sends_all (n_sends os) rest" "peer_takes (length ras + k) rest" by auto
  have "arg_ok r a" using Cons.prems(1) ra by simp
  from vhost_ioctl_simple [OF this rest(1), of st] obtain bs fds where
    one: "vhost_ioctl st r a os = Some (0, a, os\<lparr>n_sends := rest, n_sent := n_sent os @ [(bs, fds)]\<rparr>)"
    "peer_view (r, a) (bs, fds)" by (auto simp: peer_view_def)
  let ?os = "os\<lparr>n_sends := rest, n_sent := n_sent os @ [(bs, fds)]\<rparr>"
  from Cons.IH [of ?os] Cons.prems(1) rest(2) obtain ms os' where
    "ioctl_seq st ras ?os = Some (0, os')" "n_sent os' = n_sent ?os @ ms" "list_all2 peer_view ras ms" "o_open os' = o_open ?os"
    "peer_takes k (n_sends os')"
    by auto
  with one ra show ?case by (intro exI [of _ "(bs, fds) # ms"] exI [of _ os']) simp
qed

lemma vring_requests_ok: "0 < kickfd vr \<Longrightarrow> 0 < callfd vr \<Longrightarrow> \<forall>(r, a) \<in> set (vring_requests vr idx). arg_ok r a"
  by (simp add: vring_requests_def arg_ok_def)

text \<open>
  What a server knows of a ring, and how it learns it from the messages by the vhost-user protocol: the request is the word at 0, the payload
  starts at 12. NUM (8), BASE (10) and ADDR (9) carry the index in the first word of the payload, KICK (12) and CALL (13) in its lowest byte,
  with the descriptor beside the message.
\<close>

record ring_config =
  rc_num :: u32
  rc_base :: u32
  rc_kick :: int
  rc_call :: int
  rc_desc :: u64
  rc_avail :: u64
  rc_used :: u64

definition server_learns :: "u8 list \<times> int list \<Rightarrow> (u32 \<Rightarrow> ring_config) \<Rightarrow> u32 \<Rightarrow> ring_config" where
  "server_learns = (\<lambda>(bs, fds) known.
     let m = received bs; code = from_le32 m 0; i = from_le32 m 12; j = ucast (from_le64 m 12 AND 255); fd = (if fds = [] then -1 else hd fds) in
     if code = 8 then known(i := (known i)\<lparr>rc_num := from_le32 m 16\<rparr>)
     else if code = 10 then known(i := (known i)\<lparr>rc_base := from_le32 m 16\<rparr>)
     else if code = 12 then known(j := (known j)\<lparr>rc_kick := fd\<rparr>)
     else if code = 13 then known(j := (known j)\<lparr>rc_call := fd\<rparr>)
     else if code = 9 then known(i := (known i)\<lparr>rc_desc := from_le64 m 20, rc_used := from_le64 m 28, rc_avail := from_le64 m 36\<rparr>)
     else known)"

text \<open>
  What it should know of the ring \<open>vr\<close>: the number of descriptors, that none is used yet, the descriptor it waits on for new requests
  and the one it signals completions on, and where the three parts of the ring lie in shared memory: 1024 descriptors of 16 bytes,
  the avail ring behind them and the used ring on the next page.
\<close>

definition ring_config_of :: "vring \<Rightarrow> ring_config" where
  "ring_config_of vr = \<lparr>rc_num = ucast (num vr), rc_base = 0, rc_kick = kickfd vr, rc_call = callfd vr, rc_desc = of_nat (vring_shm vr),
     rc_avail = of_nat (vring_shm vr + 1024 * 16), rc_used = of_nat (vring_shm vr + 5 * 4096)\<rparr>"

lemma low_byte: "ucast (x AND 255 :: u64) = (ucast x :: u32) AND 255"
  by (rule bit_eqI) (auto simp: bit_simps)

lemma index_byte: "(idx :: u32) < 256 \<Longrightarrow> idx AND 255 = idx"
  using less_mask_eq [of idx 8] by (simp add: mask_eq_decr_exp)

lemma server_learns_ring:
  assumes "list_all2 peer_view (vring_requests vr idx) ms" "0 < kickfd vr" "0 < callfd vr" "idx < 256"
  shows "fold server_learns ms known = known(idx := ring_config_of vr)"
    and "map (\<lambda>(bs, _). from_le32 (received bs) 0) ms = [8, 10, 12, 13, 9]"
proof -
  note view = peer_view_def peer_arg_def Let_def load_state_def load_addr_def load_u64_def msg_request_def
  obtain a b c d e where ms: "ms = [a, b, c, d, e]"
    "peer_view (VHOST_USER_SET_VRING_NUM, ArgState \<lparr>st_index = idx, st_num = ucast (num vr)\<rparr>) a"
    "peer_view (VHOST_USER_SET_VRING_BASE, ArgState \<lparr>st_index = idx, st_num = 0\<rparr>) b"
    "peer_view (VHOST_USER_SET_VRING_KICK, ArgFile \<lparr>file_index = idx, file_fd = kickfd vr\<rparr>) c"
    "peer_view (VHOST_USER_SET_VRING_CALL, ArgFile \<lparr>file_index = idx, file_fd = callfd vr\<rparr>) d"
    "peer_view (VHOST_USER_SET_VRING_ADDR, ArgAddr \<lparr>ad_index = idx, ad_flags = 0,
         desc_user_addr = of_nat (vring_shm vr), used_user_addr = of_nat (vring_shm vr + USED_OFFSET),
         avail_user_addr = of_nat (vring_shm vr + AVAIL_OFFSET), log_guest_addr = 0\<rparr>) e"
    using assms(1) unfolding vring_requests_def list_all2_Cons1 list_all2_Nil by auto
  show "map (\<lambda>(bs, _). from_le32 (received bs) 0) ms = [8, 10, 12, 13, 9]" using ms by (auto simp: view)
  have "server_learns a known = known(idx := (known idx)\<lparr>rc_num := ucast (num vr)\<rparr>)" for known
    using ms(2) by (auto simp: view server_learns_def)
  moreover have "server_learns b known = known(idx := (known idx)\<lparr>rc_base := 0\<rparr>)" for known
    using ms(3) by (auto simp: view server_learns_def)
  moreover have "server_learns c known = known(idx := (known idx)\<lparr>rc_kick := kickfd vr\<rparr>)" for known
    using ms(4) assms(2,4) by (auto simp: view server_learns_def low_byte index_byte split: if_splits)
  moreover have "server_learns d known = known(idx := (known idx)\<lparr>rc_call := callfd vr\<rparr>)" for known
    using ms(5) assms(3,4) by (auto simp: view server_learns_def low_byte index_byte split: if_splits)
  moreover have "server_learns e known = known(idx := (known idx)\<lparr>rc_desc := of_nat (vring_shm vr), rc_used := of_nat (vring_shm vr + 20480),
      rc_avail := of_nat (vring_shm vr + 16384)\<rparr>)" for known
    using ms(6) by (auto simp: view server_learns_def USED_OFFSET_def AVAIL_OFFSET_def)
  ultimately show "fold server_learns ms known = known(idx := ring_config_of vr)"
    by (cases "known idx") (simp add: ms(1) ring_config_of_def)
qed

lemma negotiate_features_zero:
  assumes "negotiate_features st c os = Some (rc, c', os')" "features c = 0"
  shows "features c' = 0" "sock c' = sock c" "status c' = status c"
  using assms
  by (auto simp: negotiate_features_def bind_eq_Some_conv Let_def split: if_splits ioctl_arg.splits)

lemma negotiate_features_sel:
  assumes "negotiate_features st c os = Some (rc, c', os')"
  shows "sock c' = sock c \<and> status c' = status c \<and> o_open os' = o_open os \<and> o_opens os' = o_opens os"
proof -
  from assms obtain rc1 a os1 where g: "vhost_ioctl st VHOST_USER_GET_FEATURES (ArgU64 0) os = Some (rc1, a, os1)"
    by (auto simp: negotiate_features_def bind_eq_Some_conv)
  note vhost_ioctl_frame [OF g]
  then show ?thesis
    using assms g
    by (auto simp: negotiate_features_def bind_eq_Some_conv Let_def split: if_splits ioctl_arg.splits
        dest!: vhost_ioctl_frame)
qed

lemma init_vhost_client_cases:
  assumes "init_vhost_client st pad c os = Some (rc, c', os')" "status c = INSTANCE_CREATED"
  obtains (early) "rc = -1" "status c' = INSTANCE_CREATED" "features c' = features c"
    | (handshake) fd os2 where "vhost_handshake st pad (c\<lparr>sock := fd\<rparr>) os2 = Some (rc, c', os')"
  using assms by (auto simp: init_vhost_client_def Let_def split: if_splits prod.splits)

lemma vhost_handshake_status:
  assumes "vhost_handshake st pad c os = Some (rc, c', os')"
  shows "rc = 0 \<and> status c' = INSTANCE_INITIALIZED \<or> rc = -1 \<and> status c' = status c"
  using assms
  by (auto simp: vhost_handshake_def bind_eq_Some_conv Let_def split: if_splits dest!: negotiate_features_sel)

lemma vhost_handshake_features:
  assumes "vhost_handshake st pad c os = Some (rc, c', os')" "features c = 0"
  shows "features c' = 0"
  using assms
  by (auto simp: vhost_handshake_def bind_eq_Some_conv Let_def split: if_splits dest!: negotiate_features_zero(1))

lemma handshake_ok:
  assumes st: "shm_wf st" "opens_fresh os" "get_memory_fds VHOST_MEMORY_MAX_NREGIONS st os = (0, fds, os1)"
    and takes: "peer_takes (4 + k) (n_sends os)" and c: "features c = 0"
    and reply: "n_recvs os = RecvBytes (mem_read (reply_u64 VHOST_USER_GET_FEATURES v) 0 12) False [] # rs"
      "n_reads os = Some (mem_read (reply_u64 VHOST_USER_GET_FEATURES v) 12 8) # ds"
  shows "\<exists>ms os'. vhost_handshake st pad c os = Some (0, c\<lparr>status := INSTANCE_INITIALIZED\<rparr>, os') \<and>
    n_sent os' = n_sent os @ ms \<and>
    map (\<lambda>(bs, _). msg_request (received bs)) ms = map request_code
      [VHOST_USER_SET_OWNER, VHOST_USER_GET_FEATURES, VHOST_USER_SET_FEATURES, VHOST_USER_SET_MEM_TABLE] \<and>
    peer_arg VHOST_USER_SET_FEATURES (fst (ms ! 2)) [] = ArgU64 0 \<and>
    peer_arg VHOST_USER_SET_MEM_TABLE (fst (ms ! 3)) fds = ArgMemory (get_memory_info pad st) \<and>
    length (snd (ms ! 3)) = length (huges st) \<and> o_open os' = o_open os \<and> peer_takes k (n_sends os')"
proof -
  from takes obtain r1 r2 r3 r4 where r: "sends_all (n_sends os) r1" "sends_all r1 r2" "sends_all r2 r3" "sends_all r3 r4" "peer_takes k r4"
    by (auto simp: numeral_eq_Suc)
  from vhost_ioctl_simple [OF _ r(1), of VHOST_USER_SET_OWNER ArgNull st] obtain b1 f1 where
    m1: "vhost_ioctl st VHOST_USER_SET_OWNER ArgNull os = Some (0, ArgNull, os\<lparr>n_sends := r1, n_sent := n_sent os @ [(b1, f1)]\<rparr>)"
    "msg_request (received b1) = request_code VHOST_USER_SET_OWNER" by (auto simp: arg_ok_def)
  let ?o1 = "os\<lparr>n_sends := r1, n_sent := n_sent os @ [(b1, f1)]\<rparr>"
  from vhost_ioctl_get_features [of ?o1 r2 v rs ds st "ArgU64 0"] r(2) reply obtain b2 where
    m2: "vhost_ioctl st VHOST_USER_GET_FEATURES (ArgU64 0) ?o1 = Some (0, ArgU64 v,
      ?o1\<lparr>n_sends := r2, n_sent := n_sent ?o1 @ [(b2, [])], n_recvs := rs, n_reads := ds\<rparr>)" "msg_request (received b2) = 1" by auto
  let ?o2 = "?o1\<lparr>n_sends := r2, n_sent := n_sent ?o1 @ [(b2, [])], n_recvs := rs, n_reads := ds\<rparr>"
  from vhost_ioctl_simple [of VHOST_USER_SET_FEATURES "ArgU64 0" ?o2 r3 st] r(3) obtain b3 f3 where
    m3: "vhost_ioctl st VHOST_USER_SET_FEATURES (ArgU64 0) ?o2 = Some (0, ArgU64 0, ?o2\<lparr>n_sends := r3, n_sent := n_sent ?o2 @ [(b3, f3)]\<rparr>)"
    "msg_request (received b3) = request_code VHOST_USER_SET_FEATURES" "peer_arg VHOST_USER_SET_FEATURES b3 f3 = ArgU64 0"
    by (auto simp: arg_ok_def)
  let ?o3 = "?o2\<lparr>n_sends := r3, n_sent := n_sent ?o2 @ [(b3, f3)]\<rparr>"
  have neg: "negotiate_features st c ?o1 = Some (0, c, ?o3)"
    using m2(1) m3(1) c by (simp add: negotiate_features_def)
  have same: "o_opens ?o3 = o_opens os" "o_open ?o3 = o_open os" by simp_all
  obtain os3 where fds: "get_memory_fds VHOST_MEMORY_MAX_NREGIONS st ?o3 = (0, fds, os3)"
    using get_memory_fds_cong [OF same st(3)] by blast
  from vhost_ioctl_mem_table [OF st(1) _ get_memory_info_wf [OF st(1), of pad] _ fds, of r4] r(4) st(2) obtain b4 os4 where
    m4: "vhost_ioctl st VHOST_USER_SET_MEM_TABLE (ArgMemory (get_memory_info pad st)) ?o3 = Some (0, ArgMemory (get_memory_info pad st), os4)"
    "n_sent os4 = n_sent ?o3 @ [(b4, fds)]" "msg_request (received b4) = request_code VHOST_USER_SET_MEM_TABLE"
    "peer_arg VHOST_USER_SET_MEM_TABLE b4 fds = ArgMemory (get_memory_info pad st)"
    "length fds = length (regions (get_memory_info pad st))" "o_open os4 = o_open ?o3" "n_sends os4 = r4"
    by (auto simp: opens_fresh_def get_memory_info_def)
  have "peer_arg VHOST_USER_SET_FEATURES b3 [] = ArgU64 0" using m3(3) by (simp add: peer_arg_def)
  then show ?thesis
    using m1 m2(2) m3(2) m4 neg st(1) r(5)
    by (intro exI [of _ "[(b1, f1), (b2, []), (b3, f3), (b4, fds)]"] exI [of _ os4])
      (simp add: vhost_handshake_def get_memory_info_def shm_wf_def)
qed



section \<open>A concrete peer\<close>

definition example_shm :: shm_state where
  "example_shm = \<lparr>nregions = 1, huges = [\<lparr>hf_addr = 0x100000, hf_size = 0x200000, hf_path = ''/dev/hugepages/map_0''\<rparr>]\<rparr>"

definition example_reply :: mem where
  "example_reply = reply_u64 VHOST_USER_GET_FEATURES 0x140000000"

definition example_net :: netos where
  "example_net = \<lparr>o_opens = [10], o_open = [3, 4],
     n_sends = SendInterrupted # replicate 9 (SendCount 276), n_sent = [],
     n_recvs = [RecvBytes (mem_read example_reply 0 12) False []], n_reads = [Some (mem_read example_reply 12 8)],
     n_sockets = [9], n_connects = [True]\<rparr>"

definition example_client :: vhost_client where
  "example_client = \<lparr>sock_path = ''/tmp/vhost.0'', status = INSTANCE_CREATED, sock = 9, features = 0\<rparr>"

lemma sends_all_now: "sizeof_VhostUserMsg \<le> n \<Longrightarrow> sends_all (SendCount n # rest) rest"
  unfolding sends_all_def by (intro exI [of _ 0] exI [of _ n]) simp

lemma peer_takes_replicate: "m \<le> k \<Longrightarrow> peer_takes m (replicate k (SendCount 276))"
proof (induction m arbitrary: k)
  case (Suc m)
  then obtain k' where k: "k = Suc k'" "m \<le> k'" by (cases k) auto
  have "sends_all (replicate k (SendCount 276)) (replicate k' (SendCount 276))"
    unfolding k(1) replicate_Suc by (rule sends_all_now) (simp add: sizeof_VhostUserMsg_def)
  with Suc.IH [OF k(2)] show ?case by auto
qed simp

lemma example_takes:
  "sends_all (n_sends example_net) (replicate 8 (SendCount 276))" "peer_takes 4 (n_sends example_net)"
  "peer_takes 5 (n_sends example_net)"
proof -
  have "replicate 9 x = x # replicate 8 x" for x :: send_result by (simp add: numeral_eq_Suc)
  then show *: "sends_all (n_sends example_net) (replicate 8 (SendCount 276))"
    unfolding sends_all_def
    by (intro exI [of _ 1] exI [of _ 276]) (simp add: example_net_def sizeof_VhostUserMsg_def)
  have "peer_takes (Suc 3) (n_sends example_net)" "peer_takes (Suc 4) (n_sends example_net)"
    using * peer_takes_replicate [of 3 8] peer_takes_replicate [of 4 8] by (auto simp only: peer_takes.simps)
  then show "peer_takes 4 (n_sends example_net)" "peer_takes 5 (n_sends example_net)" by simp_all
qed

lemma example_shm_facts:
  "shm_wf example_shm" "opens_fresh example_net"
  "\<exists>os1. get_memory_fds VHOST_MEMORY_MAX_NREGIONS example_shm example_net = (0, [10], os1)"
  by (simp_all add: shm_wf_def example_shm_def VHOST_MEMORY_MAX_NREGIONS_def opens_fresh_def example_net_def
      get_memory_fds_def to_uint_def os_open_def upt_rec)


section \<open>Theorems\<close>

text \<open>
  C15. Every request without a reply reaches the peer intact: however often \<open>sendmsg\<close> is
  interrupted, exactly one message is sent, its header holds the request, protocol version 1
  and the length of the payload, and the peer recovers the argument (and the descriptor passed
  with it) from the bytes.
\<close>

theorem vhost_ioctl_roundtrip:
  assumes "arg_ok request a" "sends_all (n_sends os) rest"
  shows "\<exists>bs fds os'. vhost_ioctl st request a os = Some (0, a, os') \<and> n_sent os' = n_sent os @ [(bs, fds)] \<and>
    msg_request (received bs) = request_code request \<and> msg_flags (received bs) = VHOST_USER_VERSION \<and>
    length bs = 12 + unat (msg_size (received bs)) \<and> peer_arg request bs fds = a \<and> o_open os' = o_open os"
proof -
  from vhost_ioctl_simple [OF assms, of st] obtain bs fds where
    "vhost_ioctl st request a os = Some (0, a, os\<lparr>n_sends := rest, n_sent := n_sent os @ [(bs, fds)]\<rparr>)"
    "msg_request (received bs) = request_code request" "msg_flags (received bs) = VHOST_USER_VERSION"
    "length bs = 12 + unat (msg_size (received bs))" "peer_arg request bs fds = a" by blast
  then show ?thesis
    by (intro exI [of _ bs] exI [of _ fds] exI [of _ "os\<lparr>n_sends := rest, n_sent := n_sent os @ [(bs, fds)]\<rparr>"]) simp
qed

theorem vhost_ioctl_roundtrip_witness:
  "\<exists>bs fds os'. vhost_ioctl example_shm VHOST_USER_SET_VRING_KICK (ArgFile \<lparr>file_index = 2, file_fd = 7\<rparr>) example_net =
      Some (0, ArgFile \<lparr>file_index = 2, file_fd = 7\<rparr>, os') \<and> n_sent os' = n_sent example_net @ [(bs, fds)] \<and>
    msg_request (received bs) = request_code VHOST_USER_SET_VRING_KICK \<and> msg_flags (received bs) = VHOST_USER_VERSION \<and>
    length bs = 12 + unat (msg_size (received bs)) \<and>
    peer_arg VHOST_USER_SET_VRING_KICK bs fds = ArgFile \<lparr>file_index = 2, file_fd = 7\<rparr> \<and> o_open os' = o_open example_net"
  by (rule vhost_ioctl_roundtrip [OF _ example_takes(1)]) (simp add: arg_ok_def)

text \<open>
  C16. The memory table: one message carries the table, the peer reads back the same regions,
  there is one descriptor per region, and all of them are closed again afterwards.
\<close>

theorem vhost_ioctl_sends_mem_table:
  assumes "shm_wf st" "opens_fresh os" "get_memory_fds VHOST_MEMORY_MAX_NREGIONS st os = (0, fds, os1)"
    "sends_all (n_sends os) rest"
  shows "\<exists>bs os'. vhost_ioctl st VHOST_USER_SET_MEM_TABLE (ArgMemory (get_memory_info pad st)) os =
      Some (0, ArgMemory (get_memory_info pad st), os') \<and> n_sent os' = n_sent os @ [(bs, fds)] \<and>
    peer_arg VHOST_USER_SET_MEM_TABLE bs fds = ArgMemory (get_memory_info pad st) \<and>
    length fds = length (huges st) \<and> o_open os' = o_open os"
  using vhost_ioctl_mem_table [OF assms(1,2) get_memory_info_wf [OF assms(1), of pad] _ assms(3,4)] assms(1)
  by (fastforce simp: get_memory_info_def shm_wf_def)

theorem vhost_ioctl_sends_mem_table_witness:
  "\<exists>bs os'. vhost_ioctl example_shm VHOST_USER_SET_MEM_TABLE (ArgMemory (get_memory_info 0 example_shm)) example_net =
      Some (0, ArgMemory (get_memory_info 0 example_shm), os') \<and> n_sent os' = n_sent example_net @ [(bs, [10])] \<and>
    peer_arg VHOST_USER_SET_MEM_TABLE bs [10] = ArgMemory (get_memory_info 0 example_shm) \<and>
    length [10 :: int] = length (huges example_shm) \<and> o_open os' = o_open example_net"
  using example_shm_facts(3) vhost_ioctl_sends_mem_table [OF example_shm_facts(1,2) _ example_takes(1), of "[10]" _ 0] by blast

text \<open>
  C21. When \<open>sendmsg\<close> fails for the memory table, \<open>vhost_ioctl\<close> returns -1 and the
  descriptors of the huge page files stay open.
\<close>

theorem vhost_ioctl_leaks_on_send_error:
  assumes "shm_wf st" "opens_fresh os" "get_memory_fds VHOST_MEMORY_MAX_NREGIONS st os = (0, fds, os1)"
    "n_sends os = SendError # rest"
  shows "\<exists>os'. vhost_ioctl st VHOST_USER_SET_MEM_TABLE (ArgMemory (get_memory_info pad st)) os =
      Some (-1, ArgMemory (get_memory_info pad st), os') \<and> o_open os' = rev fds @ o_open os"
proof -
  have n: "unat (nregions_of (get_memory_info pad st)) \<le> 8"
    using assms(1) by (simp add: get_memory_info_def shm_wf_def VHOST_MEMORY_MAX_NREGIONS_def unat_of_nat)
  have "unat (of_nat (4 + 4 + unat (nregions_of (get_memory_info pad st)) * 32) :: u32) \<le>
      4 + 4 + unat (nregions_of (get_memory_info pad st)) * 32"
    by (simp only: unat_of_nat mod_less_eq_dividend)
  with n have "unat (of_nat (4 + 4 + unat (nregions_of (get_memory_info pad st)) * 32) :: u32) \<le> 264" by linarith
  moreover have "n_sends os1 = SendError # rest" using get_memory_fds_os(1) [OF assms(3)] assms(4) by simp
  moreover have "o_open os1 = rev fds @ o_open os" using get_memory_fds_cases [OF assms(2,3,1)] by auto
  ultimately show ?thesis
    using assms(3)
    by (simp add: vhost_ioctl_def ioctl_prepare_def vhost_user_send_fds_def Let_def VHOST_USER_HDR_SIZE_def sizeof_VhostUserMsg_def)
qed

theorem vhost_ioctl_leaks_on_send_error_witness:
  "\<exists>os'. vhost_ioctl example_shm VHOST_USER_SET_MEM_TABLE (ArgMemory (get_memory_info 0 example_shm)) (example_net\<lparr>n_sends := [SendError]\<rparr>) =
      Some (-1, ArgMemory (get_memory_info 0 example_shm), os') \<and> o_open os' = rev [10] @ o_open (example_net\<lparr>n_sends := [SendError]\<rparr>)"
proof -
  obtain os1 where "get_memory_fds VHOST_MEMORY_MAX_NREGIONS example_shm (example_net\<lparr>n_sends := [SendError]\<rparr>) = (0, [10], os1)"
    using example_shm_facts(3) get_memory_fds_cong [where os' = "example_net\<lparr>n_sends := [SendError]\<rparr>" and os = example_net
      and sz = VHOST_MEMORY_MAX_NREGIONS and st = example_shm] by fastforce
  moreover have "opens_fresh (example_net\<lparr>n_sends := [SendError]\<rparr>)" using example_shm_facts(2) by (simp add: opens_fresh_def)
  ultimately show ?thesis by (intro vhost_ioctl_leaks_on_send_error [OF example_shm_facts(1)]) simp_all
qed

text \<open>
  C20. A reply whose header announces more payload than the message structure holds is read over
  its end: the client does not check the length the peer sends.
\<close>

theorem vhost_user_recv_overflows:
  assumes "n_recvs os = RecvBytes hdr False [] # rs" "length hdr = 12" "n_reads os = Some data # ds"
    "264 < unat (msg_size (received hdr))" "264 < length data"
  shows "vhost_user_recv_fds msg k os = None"
proof -
  have "msg_size (mem_write 0 hdr msg) = msg_size (received hdr)"
    unfolding msg_size_def received_def using assms(2) by (intro le32.load_local) (simp add: mem_write_def)
  moreover have "hdr \<noteq> []" using assms(2) by auto
  ultimately show ?thesis
    using assms by (simp add: vhost_user_recv_fds_def recv_payload_def VHOST_USER_HDR_SIZE_def sizeof_VhostUserMsg_def Let_def)
qed

theorem vhost_user_recv_overflows_witness:
  "vhost_user_recv_fds (\<lambda>_. 0) 8 (example_net\<lparr>n_recvs := [RecvBytes (mem_read (set_header 1 5 300 (\<lambda>_. 0)) 0 12) False []],
     n_reads := [Some (replicate 300 0)]\<rparr>) = None"
  by (rule vhost_user_recv_overflows [where hdr = "mem_read (set_header 1 5 300 (\<lambda>_. 0)) 0 12" and rs = "[]" and
        data = "replicate 300 0" and ds = "[]"]) (simp_all add: received_header)

text \<open>
  C17. The session set-up: with a peer that takes the messages and answers, a client with a
  connected socket gets initialised; the requests are SET_OWNER, GET_FEATURES, SET_FEATURES and
  SET_MEM_TABLE in this order, the features set are 0 whatever the server offered, and the
  server gets a descriptor for every region of the table.
\<close>

theorem vhost_handshake_completes:
  assumes "shm_wf st" "opens_fresh os" "get_memory_fds VHOST_MEMORY_MAX_NREGIONS st os = (0, fds, os1)"
    "peer_takes 4 (n_sends os)" "features c = 0"
    "n_recvs os = RecvBytes (mem_read (reply_u64 VHOST_USER_GET_FEATURES v) 0 12) False [] # rs"
    "n_reads os = Some (mem_read (reply_u64 VHOST_USER_GET_FEATURES v) 12 8) # ds"
  shows "\<exists>ms os'. vhost_handshake st pad c os = Some (0, c\<lparr>status := INSTANCE_INITIALIZED\<rparr>, os') \<and>
    n_sent os' = n_sent os @ ms \<and>
    map (\<lambda>(bs, _). msg_request (received bs)) ms = map request_code
      [VHOST_USER_SET_OWNER, VHOST_USER_GET_FEATURES, VHOST_USER_SET_FEATURES, VHOST_USER_SET_MEM_TABLE] \<and>
    peer_arg VHOST_USER_SET_FEATURES (fst (ms ! 2)) [] = ArgU64 0 \<and>
    length (snd (ms ! 3)) = length (huges st) \<and> o_open os' = o_open os"
  using handshake_ok [OF assms(1-3) _ assms(5-7), of 0 pad] assms(4) by auto

theorem vhost_handshake_completes_witness:
  "\<exists>ms os'. vhost_handshake example_shm 0 example_client example_net = Some (0, example_client\<lparr>status := INSTANCE_INITIALIZED\<rparr>, os') \<and>
    n_sent os' = n_sent example_net @ ms \<and>
    map (\<lambda>(bs, _). msg_request (received bs)) ms = map request_code
      [VHOST_USER_SET_OWNER, VHOST_USER_GET_FEATURES, VHOST_USER_SET_FEATURES, VHOST_USER_SET_MEM_TABLE] \<and>
    peer_arg VHOST_USER_SET_FEATURES (fst (ms ! 2)) [] = ArgU64 0 \<and>
    length (snd (ms ! 3)) = length (huges example_shm) \<and> o_open os' = o_open example_net"
proof -
  obtain os1 where "get_memory_fds VHOST_MEMORY_MAX_NREGIONS example_shm example_net = (0, [10], os1)"
    using example_shm_facts(3) by blast
  then show ?thesis
    by (rule vhost_handshake_completes [where v = "0x140000000" and rs = "[]" and ds = "[]",
        OF example_shm_facts(1,2) _ example_takes(2)])
      (simp_all add: example_client_def example_net_def example_reply_def)
qed

text \<open>
  No feature is ever negotiated: whatever the server offers and however the session set-up
  ends, a client that starts with no features (as \<open>new_vhost_client\<close> leaves it) has none.
\<close>

lemma init_vhost_client_no_features:
  assumes "init_vhost_client st pad c os = Some (rc, c', os')" "status c = INSTANCE_CREATED" "features c = 0"
  shows "features c' = 0"
  using assms(1,2)
proof (cases rule: init_vhost_client_cases)
  case early
  then show ?thesis using assms(3) by simp
next
  case (handshake fd os2)
  then show ?thesis using vhost_handshake_features [OF handshake] assms(3) by simp
qed

text \<open>
  C19. The life cycle: \<open>init_vhost_client\<close> on a new client returns 0 exactly when it ends in
  \<open>INSTANCE_INITIALIZED\<close>; after a failure the client is still \<open>INSTANCE_CREATED\<close> and
  \<open>end_vhost_client\<close> does not free it.
\<close>

theorem init_vhost_client_status:
  assumes "init_vhost_client st pad c os = Some (rc, c', os')" "status c = INSTANCE_CREATED"
  shows "(rc = 0 \<longleftrightarrow> status c' = INSTANCE_INITIALIZED) \<and>
    (rc \<noteq> 0 \<longrightarrow> status c' = INSTANCE_CREATED \<and> end_vhost_client st c' os' = Some (Some c', os'))"
  using assms(1,2)
proof (cases rule: init_vhost_client_cases)
  case early
  then show ?thesis by (simp add: INSTANCE_CREATED_def INSTANCE_INITIALIZED_def end_vhost_client_def)
next
  case (handshake fd os2)
  from vhost_handshake_status [OF handshake] assms(2) show ?thesis
    by (auto simp: INSTANCE_CREATED_def INSTANCE_INITIALIZED_def end_vhost_client_def)
qed

theorem init_vhost_client_status_witness:
  "end_vhost_client example_shm example_client (os_close 9 (example_net\<lparr>n_sockets := [], n_connects := [], o_open := [9, 3, 4]\<rparr>)) =
     Some (Some example_client, os_close 9 (example_net\<lparr>n_sockets := [], n_connects := [], o_open := [9, 3, 4]\<rparr>))"
proof -
  have "init_vhost_client example_shm 0 example_client (example_net\<lparr>n_connects := [False]\<rparr>) =
      Some (-1, example_client, os_close 9 (example_net\<lparr>n_sockets := [], n_connects := [], o_open := [9, 3, 4]\<rparr>))"
    by (simp add: init_vhost_client_def os_socket_def os_connect_def example_net_def example_client_def SUN_PATH_SIZE_def os_close_def)
  from init_vhost_client_status [OF this] show ?thesis by (simp add: example_client_def)
qed

text \<open>
  C18. Announcing a ring: \<open>set_vhost_vring\<close> sends NUM, BASE, KICK, CALL and ADDR in this order, and a server that reads them
  by the protocol then knows of the ring with this index exactly its size, that it starts at 0, the descriptor to wait on, the one to
  signal, and the addresses of the descriptors, the avail ring and the used ring. What it knows of other rings is not changed.
\<close>

theorem set_vhost_vring_announces:
  assumes "0 < kickfd vr" "0 < callfd vr" "peer_takes 5 (n_sends os)" "idx < 256"
  shows "\<exists>ms os'. set_vhost_vring st vr idx os = Some (0, os') \<and> n_sent os' = n_sent os @ ms \<and>
    map (\<lambda>(bs, _). from_le32 (received bs) 0) ms = [8, 10, 12, 13, 9] \<and>
    fold server_learns ms known = known(idx := \<lparr>rc_num = ucast (num vr), rc_base = 0, rc_kick = kickfd vr, rc_call = callfd vr,
      rc_desc = of_nat (vring_shm vr), rc_avail = of_nat (vring_shm vr + 16384), rc_used = of_nat (vring_shm vr + 20480)\<rparr>) \<and>
    o_open os' = o_open os"
proof -
  have "peer_takes (length (vring_requests vr idx) + 0) (n_sends os)"
    using assms(3) by (simp add: vring_requests_def numeral_eq_Suc)
  from ioctl_seq_ok [OF vring_requests_ok [OF assms(1,2)] this, of st] obtain ms os' where
    "set_vhost_vring st vr idx os = Some (0, os')" "n_sent os' = n_sent os @ ms" "list_all2 peer_view (vring_requests vr idx) ms" "o_open os' = o_open os"
    by (auto simp: set_vhost_vring_def)
  with server_learns_ring [OF this(3) assms(1,2,4)] show ?thesis
    by (intro exI [of _ ms] exI [of _ os']) (simp add: ring_config_of_def)
qed

theorem set_vhost_vring_announces_witness:
  "\<exists>ms os'. set_vhost_vring example_shm example_ring 2 example_net = Some (0, os') \<and> n_sent os' = n_sent example_net @ ms \<and>
    map (\<lambda>(bs, _). from_le32 (received bs) 0) ms = [8, 10, 12, 13, 9] \<and>
    fold server_learns ms (\<lambda>_. ring_config_of example_ring) = (\<lambda>_. ring_config_of example_ring)(2 := \<lparr>rc_num = ucast (num example_ring), rc_base = 0, rc_kick = kickfd example_ring, rc_call = callfd example_ring,
      rc_desc = of_nat (vring_shm example_ring), rc_avail = of_nat (vring_shm example_ring + 16384), rc_used = of_nat (vring_shm example_ring + 20480)\<rparr>) \<and>
    o_open os' = o_open example_net"
  by (rule set_vhost_vring_announces [OF _ _ example_takes(3)]) (simp_all add: example_ring_def)

text \<open>
  C22. A line of \<open>/proc/self/maps\<close> for a huge page file (its path ends in \<open>map_\<close> and a number) gives
  the region with the address range of the line and its path.
\<close>

theorem parse_maps_line_finds_huge:
  assumes "maps_fields a b perm off dv inode (dir @ ''map_'' @ ds)" "ds \<noteq> []" "\<forall>c \<in> set ds. is_digit 10 c"
    "length (dir @ ''map_'' @ ds) < PATH_MAX"
  shows "parse_maps_line (maps_line a b perm off dv inode n (dir @ ''map_'' @ ds)) =
    LineHuge \<lparr>hf_addr = of_nat (digits_value 16 a),
      hf_size = of_nat (digits_value 16 b) - of_nat (digits_value 16 a), hf_path = dir @ ''map_'' @ ds\<rparr>"
  using parse_maps_line_huge [OF assms(1-3)] assms(4) by (simp add: PATH_MAX_def)

theorem parse_maps_line_finds_huge_witness:
  "parse_maps_line (maps_line ''100000'' ''300000'' ''rw-s'' ''00000000'' ''00:1a'' ''9'' 20 (''/dev/hugepages/'' @ ''map_'' @ ''3'')) =
    LineHuge \<lparr>hf_addr = of_nat (digits_value 16 ''100000''),
      hf_size = of_nat (digits_value 16 ''300000'') - of_nat (digits_value 16 ''100000''), hf_path = ''/dev/hugepages/'' @ ''map_'' @ ''3''\<rparr>"
  by (rule parse_maps_line_finds_huge)
    (simp_all add: maps_fields_def hex_field_def is_digit_def digit_value_def digits_value_def PATH_MAX_def)

text \<open>
  At most eight regions are recorded, so the memory table that is built from them fits its message.
\<close>

lemma init_shared_mem_bounded:
  assumes "init_shared_mem eal_init maps pid mem_mb msk st = Some (rc, st')" "rc = 0"
  shows "nregions st' = int (length (huges st')) \<and> length (huges st') \<le> VHOST_MEMORY_MAX_NREGIONS \<and>
    memory_wf (get_memory_info pad st')"
proof -
  have "shm_wf st'" using init_shared_mem_wf assms by blast
  then show ?thesis using get_memory_info_wf [of st' pad] by (simp add: shm_wf_def)
qed

end
