(* ===== verification/Virtio_Dev.thy ===== *)
theory Virtio_Dev
  imports Vring_Poller Endian
begin

text \<open>
  \<open>src/virtio_dev.c\<close>, first part, with the constants and structure layouts of
  \<open>src/virtio_scsi.h\<close> and \<open>src/scsi_spec.h\<close>: the SCSI commands sent when a device is opened, the
  construction of READ and WRITE commands, and the synchronous byte-granular read and write.

  Structures in shared memory are bytes: \<open>virtio_scsi_cmd_req\<close> has 51 of them (\<open>lun\<close> at 0,
  \<open>cdb\<close> at 19), \<open>virtio_scsi_cmd_resp\<close> 108 (\<open>status\<close> at 10, \<open>response\<close> at 11). The ring and the
  poller of the device are those of the world; \<open>virtio_dev\<close> holds the geometry. The
  environment \<open>env\<close> bundles what is not part of the sources: DPDK's allocator, the server and
  its scheduling (the fuel of the poller's drain and the address of the waiter's
  condition variable), and the dispatch of callbacks. \<open>None\<close> is a failed assertion, a
  null pointer that is dereferenced, a division by zero or a wait that never ends.
\<close>

definition TARGET_ID :: u8 where "TARGET_ID = 1"
definition LUN_ID :: u8 where "LUN_ID = 0"
definition VIRTIO_SCAN_PAYLOAD_SIZE :: nat where "VIRTIO_SCAN_PAYLOAD_SIZE = 256"

definition SPDK_SPC_TEST_UNIT_READY :: u8 where "SPDK_SPC_TEST_UNIT_READY = 0x00"
definition SPDK_SPC_INQUIRY :: u8 where "SPDK_SPC_INQUIRY = 0x12"
definition SPDK_SPC_SERVICE_ACTION_IN_16 :: u8 where "SPDK_SPC_SERVICE_ACTION_IN_16 = 0x9E"
definition SPDK_SBC_SAI_READ_CAPACITY_16 :: u8 where "SPDK_SBC_SAI_READ_CAPACITY_16 = 0x10"
definition SPDK_SBC_READ_10 :: u8 where "SPDK_SBC_READ_10 = 0x28"
definition SPDK_SBC_WRITE_10 :: u8 where "SPDK_SBC_WRITE_10 = 0x2A"
definition SPDK_SBC_READ_16 :: u8 where "SPDK_SBC_READ_16 = 0x88"
definition SPDK_SBC_WRITE_16 :: u8 where "SPDK_SBC_WRITE_16 = 0x8A"
definition SPDK_SCSI_STATUS_GOOD :: u8 where "SPDK_SCSI_STATUS_GOOD = 0"
definition VIRTIO_SCSI_S_OK :: u8 where "VIRTIO_SCSI_S_OK = 0"
definition SPDK_SPC_PERIPHERAL_DEVICE_TYPE_DISK :: u8 where "SPDK_SPC_PERIPHERAL_DEVICE_TYPE_DISK = 0"
definition SPDK_SPC_PERIPHERAL_QUALIFIER_CONNECTED :: u8 where "SPDK_SPC_PERIPHERAL_QUALIFIER_CONNECTED = 0"

lemmas opcode_defs = SPDK_SBC_READ_10_def SPDK_SBC_WRITE_10_def SPDK_SBC_READ_16_def SPDK_SBC_WRITE_16_def

definition sizeof_req :: nat where "sizeof_req = 51"
definition sizeof_resp :: nat where "sizeof_resp = 108"

definition req_cdb :: "ptr \<Rightarrow> nat \<Rightarrow> ptr" where "req_cdb req i = req + 19 + i"

definition resp_status :: "mem \<Rightarrow> ptr \<Rightarrow> u8" where "resp_status m resp = m (resp + 10)"
definition resp_response :: "mem \<Rightarrow> ptr \<Rightarrow> u8" where "resp_response m resp = m (resp + 11)"

text \<open>The test after each command: \<open>response\<close> is \<open>VIRTIO_SCSI_S_OK\<close> and \<open>status\<close> is good.\<close>

definition resp_good :: "mem \<Rightarrow> ptr \<Rightarrow> bool" where
  "resp_good m resp \<longleftrightarrow> resp_response m resp = VIRTIO_SCSI_S_OK \<and> resp_status m resp = SPDK_SCSI_STATUS_GOOD"

record virtio_dev =
  block_size :: int
  num_blocks :: nat
  cap :: nat

record ('d, 'z) env =
  e_rm :: rte_malloc
  e_cbs :: "('d, 'z) callbacks"
  e_serve :: "'d server"
  e_fuel :: nat
  e_sarg :: ptr


section \<open>The operations of the lower layers on the world\<close>

definition w_create :: "nat \<Rightarrow> ('d, 'z) pworld_scheme \<Rightarrow> ptr \<times> ('d, 'z) pworld_scheme" where
  "w_create n w = (let (t, s) = virtio_task_create n (w_sys w) in (t, w\<lparr>w_sys := s\<rparr>))"

definition w_alloc_part :: "rte_malloc \<Rightarrow> ptr \<Rightarrow> nat \<Rightarrow> bool \<Rightarrow> bool \<Rightarrow> nat \<Rightarrow> nat \<Rightarrow> ('d, 'z) pworld_scheme
    \<Rightarrow> (ptr \<times> ('d, 'z) pworld_scheme) option" where
  "w_alloc_part rm t sz response zero off_from off_to w =
     map_option (\<lambda>(p, s). (p, w\<lparr>w_sys := s\<rparr>)) (virtio_task_alloc_buf_part rm t sz response zero off_from off_to (w_sys w))"

definition w_alloc :: "rte_malloc \<Rightarrow> ptr \<Rightarrow> nat \<Rightarrow> bool \<Rightarrow> bool \<Rightarrow> ('d, 'z) pworld_scheme
    \<Rightarrow> (ptr \<times> ('d, 'z) pworld_scheme) option" where
  "w_alloc rm t sz response zero w =
     map_option (\<lambda>(p, s). (p, w\<lparr>w_sys := s\<rparr>)) (virtio_task_alloc_buf rm t sz response zero (w_sys w))"

definition w_add :: "ptr \<Rightarrow> ptr \<Rightarrow> nat \<Rightarrow> bool \<Rightarrow> ('d, 'z) pworld_scheme \<Rightarrow> ('d, 'z) pworld_scheme option" where
  "w_add t buf sz response w = map_option (\<lambda>s. w\<lparr>w_sys := s\<rparr>) (virtio_task_add_buf t buf sz response (w_sys w))"

definition w_destroy :: "ptr \<Rightarrow> ('d, 'z) pworld_scheme \<Rightarrow> ('d, 'z) pworld_scheme option" where
  "w_destroy t w = map_option (\<lambda>s. w\<lparr>w_sys := s\<rparr>) (virtio_task_destroy t (w_sys w))"

definition w_mem :: "(mem \<Rightarrow> mem) \<Rightarrow> ('d, 'z) pworld_scheme \<Rightarrow> ('d, 'z) pworld_scheme" where
  "w_mem f w = w\<lparr>w_sys := (w_sys w)\<lparr>s_mem := f (s_mem (w_sys w))\<rparr>\<rparr>"

abbreviation m_of :: "('d, 'z) pworld_scheme \<Rightarrow> mem" where
  "m_of w \<equiv> s_mem (w_sys w)"

definition w_submit_sync :: "('d, 'z) env \<Rightarrow> ptr \<Rightarrow> ('d, 'z) pworld_scheme \<Rightarrow> (int \<times> ('d, 'z) pworld_scheme) option" where
  "w_submit_sync e t w = vring_submit_task_sync (e_cbs e) (e_serve e) (e_fuel e) (e_sarg e) t w"

text \<open>\<open>virtio_task_destroy (task); return (rc);\<close>\<close>

definition w_destroy_return :: "ptr \<Rightarrow> int \<Rightarrow> ('d, 'z) pworld_scheme \<Rightarrow> (int \<times> ('d, 'z) pworld_scheme) option" where
  "w_destroy_return t rc w = map_option (\<lambda>w1. (rc, w1)) (w_destroy t w)"

definition set_lun :: "ptr \<Rightarrow> mem \<Rightarrow> mem" where
  "set_lun req m = m(req := TARGET_ID, req + 1 := LUN_ID)"


section \<open>Commands sent when a device is opened\<close>

definition send_inquiry :: "('d, 'z) env \<Rightarrow> ('d, 'z) pworld_scheme \<Rightarrow> (int \<times> ('d, 'z) pworld_scheme) option" where
  "send_inquiry e w =
     (let (t, w0) = w_create 3 w
      in if t = NULL then Some (-1, w0)
         else do {
           (req, w1) \<leftarrow> w_alloc (e_rm e) t sizeof_req False True w0;
           (resp, w2) \<leftarrow> w_alloc (e_rm e) t sizeof_resp True True w1;
           (inquiry_data, w3) \<leftarrow> w_alloc (e_rm e) t VIRTIO_SCAN_PAYLOAD_SIZE True False w2;
           c_assert (req \<noteq> NULL);
           let cdb = req_cdb req 0;
           let w4 = w_mem (\<lambda>m. to_be16 (cdb + 3) (of_nat VIRTIO_SCAN_PAYLOAD_SIZE)
                     ((set_lun req m)(cdb := SPDK_SPC_INQUIRY, cdb + 1 := 0, cdb + 2 := 0))) w3;
           (rc, w5) \<leftarrow> w_submit_sync e t w4;
           if rc \<noteq> 0 then w_destroy_return t (-1) w5
           else do {
             c_assert (resp \<noteq> NULL);
             if \<not> resp_good (m_of w5) resp then w_destroy_return t (-1) w5
             else do {
               c_assert (inquiry_data \<noteq> NULL);
               let b = m_of w5 inquiry_data;
               if b AND 0x1F \<noteq> SPDK_SPC_PERIPHERAL_DEVICE_TYPE_DISK \<or>
                  drop_bit 5 b \<noteq> SPDK_SPC_PERIPHERAL_QUALIFIER_CONNECTED
               then Some (-1, w5)
               else Some (0, w_mem (\<lambda>m. m(inquiry_data + 31 := 0, inquiry_data + 15 := 0)) w5)
             }
           }
         })"

definition send_test_unit_ready :: "('d, 'z) env \<Rightarrow> ('d, 'z) pworld_scheme \<Rightarrow> (int \<times> ('d, 'z) pworld_scheme) option" where
  "send_test_unit_ready e w =
     (let (t, w0) = w_create 2 w
      in if t = NULL then Some (-1, w0)
         else do {
           (req, w1) \<leftarrow> w_alloc (e_rm e) t sizeof_req False True w0;
           (resp, w2) \<leftarrow> w_alloc (e_rm e) t sizeof_resp True True w1;
           c_assert (req \<noteq> NULL);
           let w3 = w_mem (\<lambda>m. (set_lun req m)(req_cdb req 0 := SPDK_SPC_TEST_UNIT_READY)) w2;
           (rc, w4) \<leftarrow> w_submit_sync e t w3;
           if rc \<noteq> 0 then w_destroy_return t (-1) w4
           else do {
             c_assert (resp \<noteq> NULL);
             if \<not> resp_good (m_of w4) resp then w_destroy_return t (-1) w4
             else Some (0, w4)
           }
         })"

definition send_read_cap :: "('d, 'z) env \<Rightarrow> virtio_dev \<Rightarrow> ('d, 'z) pworld_scheme
    \<Rightarrow> (int \<times> virtio_dev \<times> ('d, 'z) pworld_scheme) option" where
  "send_read_cap e dev w =
     (let (t, w0) = w_create 3 w
      in if t = NULL then Some (-1, dev, w0)
         else do {
           (req, w1) \<leftarrow> w_alloc (e_rm e) t sizeof_req False True w0;
           (resp, w2) \<leftarrow> w_alloc (e_rm e) t sizeof_resp True True w1;
           (payload, w3) \<leftarrow> w_alloc (e_rm e) t 32 True True w2;
           c_assert (req \<noteq> NULL);
           let w4 = w_mem (\<lambda>m. to_be32 (req_cdb req 10) 32 ((set_lun req m)
             (req_cdb req 0 := SPDK_SPC_SERVICE_ACTION_IN_16, req_cdb req 1 := SPDK_SBC_SAI_READ_CAPACITY_16))) w3;
           (rc, w5) \<leftarrow> w_submit_sync e t w4;
           if rc \<noteq> 0 then map_option (\<lambda>(rc, w6). (rc, dev, w6)) (w_destroy_return t (-1) w5)
           else do {
             c_assert (resp \<noteq> NULL);
             if \<not> resp_good (m_of w5) resp then map_option (\<lambda>(rc, w6). (rc, dev, w6)) (w_destroy_return t (-1) w5)
             else do {
               c_assert (payload \<noteq> NULL);
               let nb = unat (from_be64 (m_of w5) payload + 1);
               let bs = to_int (uint (from_be32 (m_of w5) (payload + 8)));
               Some (0, dev\<lparr>num_blocks := nb, block_size := bs, cap := size_mul (to_size bs) nb\<rparr>, w5)
             }
           }
         })"

definition virtio_dev_block_size :: "virtio_dev \<Rightarrow> nat" where
  "virtio_dev_block_size dev = to_size (block_size dev)"

definition virtio_dev_blocks_num :: "virtio_dev \<Rightarrow> nat" where
  "virtio_dev_blocks_num dev = num_blocks dev"


section \<open>Reading and writing whole blocks\<close>

definition create_rw_cdb :: "virtio_dev \<Rightarrow> ptr \<Rightarrow> nat \<Rightarrow> nat \<Rightarrow> bool \<Rightarrow> mem \<Rightarrow> mem" where
  "create_rw_cdb dev req offset_blocks nblk is_write m =
     (let m1 = set_lun req m
      in if num_blocks dev > 2 ^ 32
         then to_be32 (req_cdb req 10) (of_nat nblk) (to_be64 (req_cdb req 2) (of_nat offset_blocks)
                (m1(req_cdb req 0 := if is_write then SPDK_SBC_WRITE_16 else SPDK_SBC_READ_16)))
         else to_be16 (req_cdb req 7) (of_nat nblk) (to_be32 (req_cdb req 2) (of_nat offset_blocks)
                (m1(req_cdb req 0 := if is_write then SPDK_SBC_WRITE_10 else SPDK_SBC_READ_10))))"

abbreviation bs_of :: "virtio_dev \<Rightarrow> nat" where
  "bs_of dev \<equiv> to_size (block_size dev)"

definition blk_read_virtio_dev :: "('d, 'z) env \<Rightarrow> virtio_dev \<Rightarrow> ptr \<Rightarrow> nat \<Rightarrow> nat \<Rightarrow> ('d, 'z) pworld_scheme
    \<Rightarrow> (int \<times> ('d, 'z) pworld_scheme) option" where
  "blk_read_virtio_dev e dev buf blk_offset nblk w =
     (let (t, w0) = w_create 3 w
      in if t = NULL then Some (-1, w0)
         else do {
           (req, w1) \<leftarrow> w_alloc (e_rm e) t sizeof_req False True w0;
           (resp, w2) \<leftarrow> w_alloc (e_rm e) t sizeof_resp True True w1;
           w3 \<leftarrow> w_add t buf (size_mul nblk (bs_of dev)) True w2;
           if req = NULL \<or> resp = NULL then w_destroy_return t (-1) w3
           else do {
             let w4 = w_mem (create_rw_cdb dev req blk_offset nblk False) w3;
             (rc, w5) \<leftarrow> w_submit_sync e t w4;
             if rc \<noteq> 0 then w_destroy_return t (-1) w5
             else if \<not> resp_good (m_of w5) resp then w_destroy_return t (-1) w5
             else do {
               task \<leftarrow> s_tasks (w_sys w5) t;
               let rc = to_int (int (size_sub (unat (used_bytes task)) sizeof_resp));
               c_assert (rc \<ge> 0);
               w_destroy_return t rc w5
             }
           }
         })"

definition blk_write_virtio_dev :: "('d, 'z) env \<Rightarrow> virtio_dev \<Rightarrow> ptr \<Rightarrow> nat \<Rightarrow> nat \<Rightarrow> ('d, 'z) pworld_scheme
    \<Rightarrow> (int \<times> ('d, 'z) pworld_scheme) option" where
  "blk_write_virtio_dev e dev buf blk_offset nblk w =
     (let nbytes = to_int (int (size_mul nblk (bs_of dev)));
          (t, w0) = w_create 3 w
      in if t = NULL then Some (-1, w0)
         else do {
           (req, w1) \<leftarrow> w_alloc (e_rm e) t sizeof_req False True w0;
           w2 \<leftarrow> w_add t buf (to_size nbytes) False w1;
           (resp, w3) \<leftarrow> w_alloc (e_rm e) t sizeof_resp True True w2;
           if req = NULL \<or> resp = NULL then w_destroy_return t (-1) w3
           else do {
             let w4 = w_mem (create_rw_cdb dev req blk_offset nblk True) w3;
             (rc, w5) \<leftarrow> w_submit_sync e t w4;
             if rc \<noteq> 0 then w_destroy_return t (-1) w5
             else if \<not> resp_good (m_of w5) resp then w_destroy_return t (-1) w5
             else w_destroy_return t nbytes w5
           }
         })"


section \<open>Reading and writing byte ranges\<close>

definition w_alloc_shared :: "('d, 'z) env \<Rightarrow> int \<Rightarrow> int \<Rightarrow> ('d, 'z) pworld_scheme \<Rightarrow> ptr \<times> ('d, 'z) pworld_scheme" where
  "w_alloc_shared e sz al w = (let (p, s) = alloc_shared_buf (e_rm e) sz al (w_sys w) in (p, w\<lparr>w_sys := s\<rparr>))"

definition w_free_shared :: "ptr \<Rightarrow> ('d, 'z) pworld_scheme \<Rightarrow> ('d, 'z) pworld_scheme" where
  "w_free_shared p w = w\<lparr>w_sys := free_shared_buf p (w_sys w)\<rparr>"

text \<open>The bytes of a block from \<open>off_start\<close> on that a partial access covers.\<close>

definition clip_block :: "virtio_dev \<Rightarrow> nat \<Rightarrow> nat \<Rightarrow> nat" where
  "clip_block dev off_start nbytes =
     (if size_add off_start nbytes > bs_of dev then size_sub (bs_of dev) off_start else nbytes)"

definition read_partial_block :: "('d, 'z) env \<Rightarrow> virtio_dev \<Rightarrow> nat \<Rightarrow> nat \<Rightarrow> ptr \<Rightarrow> nat \<Rightarrow> ('d, 'z) pworld_scheme
    \<Rightarrow> (int \<times> ('d, 'z) pworld_scheme) option" where
  "read_partial_block e dev blk_num off_start data nbytes0 w =
     (let (blk_buf, w1) = w_alloc_shared e (block_size dev) (block_size dev) w;
          nbytes = clip_block dev off_start nbytes0
      in do {
        (rc, w2) \<leftarrow> blk_read_virtio_dev e dev blk_buf blk_num 1 w1;
        if rc \<noteq> block_size dev then Some (-1, w_free_shared blk_buf w2)
        else Some (to_int (int nbytes), w_free_shared blk_buf (w_mem (memcpy data (blk_buf + off_start) nbytes) w2))
      })"

definition write_partial_block :: "('d, 'z) env \<Rightarrow> virtio_dev \<Rightarrow> nat \<Rightarrow> nat \<Rightarrow> ptr \<Rightarrow> nat \<Rightarrow> ('d, 'z) pworld_scheme
    \<Rightarrow> (int \<times> ('d, 'z) pworld_scheme) option" where
  "write_partial_block e dev blk_num off_start data nbytes0 w =
     (let (blk_buf, w1) = w_alloc_shared e (block_size dev) (block_size dev) w;
          nbytes = clip_block dev off_start nbytes0
      in do {
        (rc, w2) \<leftarrow> blk_read_virtio_dev e dev blk_buf blk_num 1 w1;
        if rc \<noteq> block_size dev then Some (-1, w_free_shared blk_buf w2)
        else do {
          (ret, w3) \<leftarrow> blk_write_virtio_dev e dev blk_buf blk_num 1 (w_mem (memcpy (blk_buf + off_start) data nbytes) w2);
          Some (to_int (ret - block_size dev + int nbytes), w_free_shared blk_buf w3)
        }
      })"

text \<open>
  \<open>read_virtio_dev\<close> and \<open>write_virtio_dev\<close> are the same code but for the two operations they call, one
  on part of a block and one on whole blocks. The code they share, with these operations
  as arguments, in three parts: the end of the first block, the whole blocks and the start
  of the last block. The first two say whether the function returns there and what it
  returns, the number of bytes done (\<open>read_bytes\<close>, \<open>written_bytes\<close>), the next block and the world.
\<close>

type_synonym 'w partial_op = "nat \<Rightarrow> nat \<Rightarrow> ptr \<Rightarrow> nat \<Rightarrow> 'w \<Rightarrow> (int \<times> 'w) option"
type_synonym 'w whole_op = "ptr \<Rightarrow> nat \<Rightarrow> nat \<Rightarrow> 'w \<Rightarrow> (int \<times> 'w) option"

definition first_block :: "'w partial_op \<Rightarrow> virtio_dev \<Rightarrow> ptr \<Rightarrow> nat \<Rightarrow> int \<Rightarrow> nat \<Rightarrow> 'w
    \<Rightarrow> (bool \<times> int \<times> nat \<times> nat \<times> 'w) option" where
  "first_block partial_block dev buf blk_offset resid nbytes w =
     (if resid = 0 then Some (False, 0, 0, blk_offset, w)
      else do {
        (ret, w1) \<leftarrow> partial_block blk_offset (to_size resid) buf nbytes w;
        if ret < 0 then Some (True, -1, 0, blk_offset, w1)
        else if ret < block_size dev - resid then Some (True, ret, 0, blk_offset, w1)
        else Some (False, 0, nat ret, Suc blk_offset, w1)
      })"

definition full_blocks :: "'w whole_op \<Rightarrow> virtio_dev \<Rightarrow> ptr \<Rightarrow> nat \<Rightarrow> nat \<Rightarrow> nat \<Rightarrow> 'w
    \<Rightarrow> (bool \<times> int \<times> nat \<times> nat \<times> 'w) option" where
  "full_blocks blk_op dev buf bytes blk_offset nblk w =
     (if nblk = 0 then Some (False, 0, bytes, blk_offset, w)
      else do {
        (ret, w1) \<leftarrow> blk_op (buf + bytes) blk_offset nblk w;
        if ret < 0 then Some (True, to_int (int bytes), bytes, blk_offset, w1)
        else if nat ret < size_mul nblk (bs_of dev) then Some (True, to_int (int bytes + ret), bytes, blk_offset, w1)
        else Some (False, 0, bytes + nat ret, size_add blk_offset nblk, w1)
      })"

definition last_block :: "'w partial_op \<Rightarrow> virtio_dev \<Rightarrow> ptr \<Rightarrow> nat \<Rightarrow> nat \<Rightarrow> int \<Rightarrow> 'w \<Rightarrow> (int \<times> 'w) option" where
  "last_block partial_block dev buf bytes blk_offset resid w =
     (if resid = 0 then Some (to_int (int bytes), w)
      else do {
        (ret, w1) \<leftarrow> partial_block blk_offset 0 (buf + bytes) (to_size resid) w;
        if ret < 0 then Some (-1, w1)
        else Some (to_int (int (bytes + nat ret)), w1)
      })"

definition access_bytes :: "'w partial_op \<Rightarrow> 'w whole_op \<Rightarrow> virtio_dev \<Rightarrow> ptr \<Rightarrow> nat \<Rightarrow> nat \<Rightarrow> 'w \<Rightarrow> (int \<times> 'w) option" where
  "access_bytes partial_block blk_op dev buf offset nbytes0 w =
     (if offset > cap dev then Some (-1, w)
      else if nbytes0 = 0 then Some (0, w)
      else do {
        let nbytes = (if size_add offset nbytes0 > cap dev then size_sub (cap dev) offset else nbytes0);
        c_assert (bs_of dev \<noteq> 0);
        (stop, ret, bytes, blk_offset, w1) \<leftarrow>
          first_block partial_block dev buf (offset div bs_of dev) (to_int (int (offset mod bs_of dev))) nbytes w;
        if stop then Some (ret, w1)
        else do {
          (stop, ret, bytes, blk_offset, w2) \<leftarrow>
            full_blocks blk_op dev buf bytes blk_offset (size_sub nbytes bytes div bs_of dev) w1;
          if stop then Some (ret, w2)
          else last_block partial_block dev buf bytes blk_offset (to_int (int (size_sub nbytes bytes mod bs_of dev))) w2
        }
      })"

definition read_virtio_dev :: "('d, 'z) env \<Rightarrow> virtio_dev \<Rightarrow> ptr \<Rightarrow> nat \<Rightarrow> nat \<Rightarrow> ('d, 'z) pworld_scheme
    \<Rightarrow> (int \<times> ('d, 'z) pworld_scheme) option" where
  "read_virtio_dev e dev = access_bytes (read_partial_block e dev) (blk_read_virtio_dev e dev) dev"

definition write_virtio_dev :: "('d, 'z) env \<Rightarrow> virtio_dev \<Rightarrow> ptr \<Rightarrow> nat \<Rightarrow> nat \<Rightarrow> ('d, 'z) pworld_scheme
    \<Rightarrow> (int \<times> ('d, 'z) pworld_scheme) option" where
  "write_virtio_dev e dev = access_bytes (write_partial_block e dev) (blk_write_virtio_dev e dev) dev"

end
