(* ===== verification/Virtio_Sync.thy ===== *)
theory Virtio_Sync
  imports Virtio_Dev
begin

text \<open>
  Correctness of the synchronous device operations against a block device. The server is any
  function that meets \<open>scsi_server\<close>, the behaviour that virtio-scsi and the SCSI block commands
  document for READ and WRITE: the command block names the blocks, the data of a READ is stored in
  the device-writable buffers after the response, that of a WRITE taken from the readable
  buffers after the request, and nothing else in memory changes.
\<close>

section \<open>Command blocks\<close>

text \<open>What a target reads from a command block: direction, first block, number of blocks.\<close>

definition decode_cdb :: "mem \<Rightarrow> ptr \<Rightarrow> (bool \<times> nat \<times> nat) option" where
  "decode_cdb m p =
     (if m p = SPDK_SBC_READ_10 then Some (False, unat (from_be32 m (p + 2)), unat (from_be16 m (p + 7)))
      else if m p = SPDK_SBC_WRITE_10 then Some (True, unat (from_be32 m (p + 2)), unat (from_be16 m (p + 7)))
      else if m p = SPDK_SBC_READ_16 then Some (False, unat (from_be64 m (p + 2)), unat (from_be32 m (p + 10)))
      else if m p = SPDK_SBC_WRITE_16 then Some (True, unat (from_be64 m (p + 2)), unat (from_be32 m (p + 10)))
      else None)"

text \<open>The command fits the form of command block that \<open>create_rw_cdb\<close> chooses.\<close>

definition rw_fits :: "virtio_dev \<Rightarrow> nat \<Rightarrow> nat \<Rightarrow> bool" where
  "rw_fits dev off n \<longleftrightarrow> (if num_blocks dev > 2 ^ 32 then off < 2 ^ 64 \<and> n < 2 ^ 32 else off < 2 ^ 32 \<and> n < 2 ^ 16)"

lemma be_frames:
  "a < p \<or> p + 2 \<le> a \<Longrightarrow> to_be16 p v16 m a = m a"
  "a < p \<or> p + 4 \<le> a \<Longrightarrow> to_be32 p v32 m a = m a"
  "a < p \<or> p + 8 \<le> a \<Longrightarrow> to_be64 p v64 m a = m a"
  by (rule be16.store_frame be32.store_frame be64.store_frame, assumption)+

lemma be32_over_be16: "p + 4 \<le> q \<Longrightarrow> from_be32 (to_be16 q v m) p = from_be32 m p"
  by (rule be32.load_local) (simp add: be_frames)

lemma be64_over_be32: "p + 8 \<le> q \<Longrightarrow> from_be64 (to_be32 q v m) p = from_be64 m p"
  by (rule be64.load_local) (simp add: be_frames)

lemma create_rw_cdb_decodes:
  assumes "rw_fits dev off n"
  shows "decode_cdb (create_rw_cdb dev req off n is_write m) (req + 19) = Some (is_write, off, n)"
    "create_rw_cdb dev req off n is_write m req = TARGET_ID" "create_rw_cdb dev req off n is_write m (req + 1) = LUN_ID"
  using assms
  by (simp_all add: rw_fits_def create_rw_cdb_def req_cdb_def decode_cdb_def Let_def opcode_defs set_lun_def
      be_frames be16.load_store be32.load_store be64.load_store be32_over_be16 be64_over_be32 unat_of_nat split: if_splits)

lemma create_rw_cdb_frame:
  "a < req \<or> req + sizeof_req \<le> a \<Longrightarrow> create_rw_cdb dev req off n is_write m a = m a"
  by (auto simp: create_rw_cdb_def req_cdb_def Let_def set_lun_def be_frames sizeof_req_def)


section \<open>The block device behind the server\<close>

definition disk_read :: "('d \<Rightarrow> nat \<Rightarrow> u8) \<Rightarrow> 'd \<Rightarrow> nat \<Rightarrow> nat \<Rightarrow> u8 list" where
  "disk_read disk d a n = map (disk d) [a..<a + n]"

definition disk_write :: "nat \<Rightarrow> u8 list \<Rightarrow> (nat \<Rightarrow> u8) \<Rightarrow> nat \<Rightarrow> u8" where
  "disk_write a bs f = (\<lambda>i. if a \<le> i \<and> i < a + length bs then bs ! (i - a) else f i)"

definition gathered :: "mem \<Rightarrow> virtio_buffer list \<Rightarrow> u8 list" where
  "gathered m bs = concat (map (\<lambda>b. mem_read m (vb_buf b) (vb_size b)) bs)"

definition in_buf :: "nat \<Rightarrow> virtio_buffer \<Rightarrow> bool" where
  "in_buf a b \<longleftrightarrow> vb_buf b \<le> a \<and> a < vb_buf b + vb_size b"

text \<open>Buffers the server can work with: addressable and pairwise disjoint.\<close>

definition bufs_ok :: "virtio_buffer list \<Rightarrow> bool" where
  "bufs_ok bs \<longleftrightarrow> (\<forall>b \<in> set bs. 0 < vb_buf b \<and> vb_buf b + vb_size b < 2 ^ 64 \<and> vb_size b < 2 ^ 32) \<and>
     (\<forall>i j. i < j \<longrightarrow> j < length bs \<longrightarrow> disjoint_range (vb_buf (bs ! i)) (vb_size (bs ! i)) (vb_buf (bs ! j)) (vb_size (bs ! j)))"

lemma bufs_ok_Cons:
  "bufs_ok (b # bs) \<longleftrightarrow> 0 < vb_buf b \<and> vb_buf b + vb_size b < 2 ^ 64 \<and> vb_size b < 2 ^ 32 \<and>
     (\<forall>b' \<in> set bs. disjoint_range (vb_buf b) (vb_size b) (vb_buf b') (vb_size b')) \<and> bufs_ok bs"
proof -
  have split: "(\<forall>i j. i < j \<longrightarrow> j < Suc n \<longrightarrow> P i j) \<longleftrightarrow> (\<forall>j < n. P 0 (Suc j)) \<and> (\<forall>i j. i < j \<longrightarrow> j < n \<longrightarrow> P (Suc i) (Suc j))"
    for P :: "nat \<Rightarrow> nat \<Rightarrow> bool" and n
    by (auto simp: less_Suc_eq_0_disj)
  show ?thesis unfolding bufs_ok_def by (auto simp: split all_set_conv_all_nth)
qed

definition request_ok :: "mem \<Rightarrow> virtio_buffer \<Rightarrow> bool \<Rightarrow> nat \<Rightarrow> nat \<Rightarrow> bool" where
  "request_ok m b is_write lba n \<longleftrightarrow> vb_size b = sizeof_req \<and> \<not> vb_response b \<and> m (vb_buf b) = TARGET_ID \<and>
     m (vb_buf b + 1) = LUN_ID \<and> decode_cdb m (vb_buf b + 19) = Some (is_write, lba, n)"

definition scsi_read_spec :: "'d server \<Rightarrow> ('d \<Rightarrow> nat \<Rightarrow> u8) \<Rightarrow> nat \<Rightarrow> nat \<Rightarrow> bool" where
  "scsi_read_spec serve disk bs nblk \<longleftrightarrow> (\<forall>d m breq bresp bdata lba n.
     request_ok m breq False lba n \<longrightarrow> lba + n \<le> nblk \<longrightarrow> vb_size bresp = sizeof_resp \<longrightarrow> vb_response bresp \<longrightarrow>
     (\<forall>b \<in> set bdata. vb_response b) \<longrightarrow> sum_list (map vb_size bdata) = n * bs \<longrightarrow> sizeof_resp + n * bs < 2 ^ 32 \<longrightarrow>
     length bdata \<le> 1000 \<longrightarrow> bufs_ok (breq # bresp # bdata) \<longrightarrow>
     (\<exists>m' d'. serves serve (breq # bresp # bdata) m d (of_nat (sizeof_resp + n * bs)) m' d' \<and>
        resp_good m' (vb_buf bresp) \<and> gathered m' bdata = disk_read disk d (lba * bs) (n * bs) \<and> disk d' = disk d \<and>
        (\<forall>a. \<not> in_buf a bresp \<longrightarrow> (\<forall>b \<in> set bdata. \<not> in_buf a b) \<longrightarrow> m' a = m a)))"

definition scsi_write_spec :: "'d server \<Rightarrow> ('d \<Rightarrow> nat \<Rightarrow> u8) \<Rightarrow> nat \<Rightarrow> nat \<Rightarrow> bool" where
  "scsi_write_spec serve disk bs nblk \<longleftrightarrow> (\<forall>d m breq bresp bdata lba n.
     request_ok m breq True lba n \<longrightarrow> lba + n \<le> nblk \<longrightarrow> vb_size bresp = sizeof_resp \<longrightarrow> vb_response bresp \<longrightarrow>
     (\<forall>b \<in> set bdata. \<not> vb_response b) \<longrightarrow> sum_list (map vb_size bdata) = n * bs \<longrightarrow> n * bs < 2 ^ 32 \<longrightarrow>
     length bdata \<le> 1000 \<longrightarrow> bufs_ok (breq # bdata @ [bresp]) \<longrightarrow>
     (\<exists>l m' d'. serves serve (breq # bdata @ [bresp]) m d l m' d' \<and>
        resp_good m' (vb_buf bresp) \<and> disk d' = disk_write (lba * bs) (gathered m bdata) (disk d) \<and>
        (\<forall>a. \<not> in_buf a bresp \<longrightarrow> m' a = m a)))"

definition scsi_server :: "'d server \<Rightarrow> ('d \<Rightarrow> nat \<Rightarrow> u8) \<Rightarrow> nat \<Rightarrow> nat \<Rightarrow> bool" where
  "scsi_server serve disk bs nblk \<longleftrightarrow> scsi_read_spec serve disk bs nblk \<and> scsi_write_spec serve disk bs nblk"


section \<open>The state in which the device layer works\<close>

definition env_ok :: "('d, 'z) env \<Rightarrow> bool" where
  "env_ok e \<longleftrightarrow> rte_malloc_spec (e_rm e) \<and> e_cbs e vring_submit_sync_callback = sync_callback \<and> 2 \<le> e_fuel e"

text \<open>The allocator has memory for \<open>k\<close> more blocks of at most \<open>L\<close> bytes.\<close>

fun rm_room :: "rte_malloc \<Rightarrow> nat \<Rightarrow> nat \<Rightarrow> (ptr \<times> nat) list \<Rightarrow> bool" where
  "rm_room rm L 0 b = True"
| "rm_room rm L (Suc k) b = (\<forall>n \<le> L. \<forall>al. rm b n al \<noteq> NULL \<and> rm_room rm L k ((rm b n al, n) # b))"

definition dev_ready :: "vqueue \<Rightarrow> nat \<Rightarrow> ('d, 'z) pworld_scheme \<Rightarrow> bool" where
  "dev_ready q k w \<longleftrightarrow> vring_rep (w_ring w) (w_sys w) q \<and> completed q = [] \<and> queue_slots q + 5 \<le> 1024 \<and>
     kick_room k (w_ring w) (w_sys w) \<and> 0 < s_next (w_sys w) \<and>
     (\<forall>t \<ge> s_next (w_sys w). s_tasks (w_sys w) t = None) \<and> s_oom (w_sys w) = (\<lambda>_. False)"

lemma fresh_not_inflight:
  assumes "vring_rep vr s q" "s_tasks s t = None"
  shows "t \<notin> fst ` set (inflight q)"
proof
  assume "t \<in> fst ` set (inflight q)"
  then obtain c where "(t, c) \<in> set (inflight q)" by auto
  moreover have "slots_rep vr s (inflight q)" using assms(1) by (simp add: vring_rep_def)
  ultimately have "task_in_ring vr s t c" by (rule slots_repD(1) [rotated])
  with assms(2) show False by (simp add: task_in_ring_def)
qed

text \<open>
  A task that was built at \<open>s_next\<close> and is submitted: the server's result is in place, and the
  device is ready again, the task being out of the ring.
\<close>

text \<open>What a command leaves alone: everything but the ring, the memory, the tasks and the server.\<close>

definition same_rest :: "('d, 'z) pworld_scheme \<Rightarrow> ('d, 'z) pworld_scheme \<Rightarrow> bool" where
  "same_rest w w' \<longleftrightarrow> w' = w\<lparr>w_ring := w_ring w', w_sys := w_sys w', w_srv := w_srv w', w_woken := w_woken w'\<rparr>"

lemma same_rest_trans: "same_rest w1 w2 \<Longrightarrow> same_rest w2 w3 \<Longrightarrow> same_rest w1 w3"
  unfolding same_rest_def by (cases w1, cases w2, cases w3) simp

lemma same_rest_mem: "same_rest w (w_mem f w') = same_rest w w'"
  unfolding same_rest_def w_mem_def by (cases w, cases w') simp

lemma same_rest_sys: "same_rest w (w'\<lparr>w_sys := s\<rparr>) = same_rest w w'" "same_rest (w\<lparr>w_sys := s\<rparr>) w' = same_rest w w'"
  unfolding same_rest_def by (cases w, cases w', simp)+

definition dev_frame :: "('d, 'z) pworld_scheme \<Rightarrow> ('d, 'z) pworld_scheme \<Rightarrow> bool" where
  "dev_frame w w' \<longleftrightarrow> same_rest w w' \<and> kickfd (w_ring w') = kickfd (w_ring w) \<and> callfd (w_ring w') = callfd (w_ring w) \<and>
     (\<forall>fd. fd \<noteq> kickfd (w_ring w) \<longrightarrow> s_efd (w_sys w') fd = s_efd (w_sys w) fd)"

lemma dev_frame_refl [simp]: "dev_frame w w"
  by (simp add: dev_frame_def same_rest_def)

lemma dev_frame_trans: "dev_frame w w1 \<Longrightarrow> dev_frame w1 w2 \<Longrightarrow> dev_frame w w2"
  unfolding dev_frame_def using same_rest_trans by auto

lemma dev_frame_sys:
  "s_efd s = s_efd (w_sys w') \<Longrightarrow> dev_frame w (w'\<lparr>w_sys := s\<rparr>) = dev_frame w w'"
  "s_efd s = s_efd (w_sys w) \<Longrightarrow> dev_frame (w\<lparr>w_sys := s\<rparr>) w' = dev_frame w w'"
  by (simp_all add: dev_frame_def same_rest_sys)

lemma dev_frame_mem [simp]: "dev_frame w (w_mem f w') = dev_frame w w'" "dev_frame (w_mem f w) w' = dev_frame w w'"
  by (simp_all add: w_mem_def dev_frame_sys)

lemma submit_built:
  assumes e: "env_ok e" and ready: "dev_ready q (Suc k) w"
    and w4: "w4 = w\<lparr>w_sys := s4\<rparr>" "s_tasks s4 = (s_tasks (w_sys w))(s_next (w_sys w) \<mapsto> task)"
      "s_next s4 = Suc (s_next (w_sys w))" "s_oom s4 = s_oom (w_sys w)" "s_efd s4 = s_efd (w_sys w)"
    and task: "task_wf task" "0 < count task" "count task \<le> 5"
    and srv: "serves (e_serve e) (task_bufs task) (s_mem s4) (w_srv w) l m' d'"
  obtains w5 vr' idx efd where "w_submit_sync e (s_next (w_sys w)) w4 = Some (0, w5)" "dev_ready q k w5" "dev_frame w w5"
    "w5 = w\<lparr>w_ring := vr', w_sys := s4\<lparr>s_mem := m', s_tasks := (s_tasks s4)(s_next (w_sys w) \<mapsto>
        task\<lparr>cb := Some vring_submit_sync_callback, arg := e_sarg e, vring_idx := idx, used_bytes := l\<rparr>), s_efd := efd\<rparr>,
      w_srv := d', w_woken := removeAll (e_sarg e) (w_woken w)\<rparr>"
proof -
  let ?t = "s_next (w_sys w)"
  have rep: "vring_rep (w_ring w) (w_sys w) q" and idle: "completed q = []" and room: "queue_slots q + 5 \<le> 1024"
    and kick: "kick_room (Suc k) (w_ring w) (w_sys w)" and t: "0 < ?t" "s_tasks (w_sys w) ?t = None"
    using ready by (auto simp: dev_ready_def)
  have fresh: "?t \<notin> fst ` set (inflight q)" by (rule fresh_not_inflight [OF rep t(2)])
  have rep4: "vring_rep (w_ring w4) (w_sys w4) q"
    using w4 vring_rep_update_task [OF rep fresh w4(2)] by simp
  have pre: "s_tasks (w_sys w4) ?t = Some task" "?t \<noteq> NULL" "kick_room (Suc k) (w_ring w4) (w_sys w4)"
    "queue_slots q + count task \<le> 1024" "serves (e_serve e) (task_bufs task) (s_mem (w_sys w4)) (w_srv w4) l m' d'"
    using w4 t(1) kick room task(3) srv by (simp_all add: kick_room_def)
  have cbs: "e_cbs e vring_submit_sync_callback = sync_callback" using e by (simp add: env_ok_def)
  obtain f where f: "e_fuel e = Suc (Suc f)"
    using e add_Suc_right [of 1] le_Suc_ex [of 2 "e_fuel e"] by (auto simp: env_ok_def numeral_2_eq_2)
  obtain vr' idx efd s' where s': "s' = (w_sys w4)\<lparr>s_mem := m', s_tasks := (s_tasks (w_sys w4))(?t \<mapsto>
        task\<lparr>cb := Some vring_submit_sync_callback, arg := e_sarg e, vring_idx := idx, used_bytes := l\<rparr>), s_efd := efd\<rparr>"
    and run: "vring_submit_task_sync (e_cbs e) (e_serve e) (Suc (Suc f)) (e_sarg e) ?t w4 =
      Some (0, w4\<lparr>w_ring := vr', w_sys := s', w_srv := d', w_woken := removeAll (e_sarg e) (w_woken w4)\<rparr>)"
    and rep': "vring_rep vr' s' q" "kick_room k vr' s'" "kickfd vr' = kickfd (w_ring w4)" "callfd vr' = callfd (w_ring w4)"
      "\<forall>fd. fd \<noteq> kickfd (w_ring w4) \<longrightarrow> efd fd = s_efd (w_sys w4) fd"
    by (rule vring_submit_task_sync_ok [of w4 q ?t task k "e_cbs e" "e_serve e" l m' d' "e_sarg e" f, OF rep4 idle pre(1) task(1,2) pre(2) fresh pre(3,4) cbs pre(5)])
  let ?w5 = "w\<lparr>w_ring := vr', w_sys := s', w_srv := d', w_woken := removeAll (e_sarg e) (w_woken w)\<rparr>"
  have "dev_ready q k ?w5" using rep' ready s' w4 by (auto simp: dev_ready_def)
  moreover have "dev_frame w ?w5" using rep' s' w4 by (simp add: dev_frame_def same_rest_def)
  moreover have "w_submit_sync e ?t w4 = Some (0, ?w5)" using run f w4(1) by (simp add: w_submit_sync_def)
  ultimately show ?thesis using s' w4(1) by (intro that [where vr' = vr' and idx = idx and efd = efd]) simp_all
qed

lemma submit_built_task:
  assumes e: "env_ok e" and ready: "dev_ready q (Suc k) w"
    and w4: "w4 = w\<lparr>w_sys := s4\<rparr>" "s_tasks s4 = (s_tasks (w_sys w))(s_next (w_sys w) \<mapsto> task)"
      "s_next s4 = Suc (s_next (w_sys w))" "s_oom s4 = s_oom (w_sys w)" "s_efd s4 = s_efd (w_sys w)"
    and task: "task_wf task" "0 < count task" "count task \<le> 5"
    and srv: "serves (e_serve e) (task_bufs task) (s_mem s4) (w_srv w) l m' d'"
  obtains w5 task' where "w_submit_sync e (s_next (w_sys w)) w4 = Some (0, w5)" "m_of w5 = m'" "w_srv w5 = d'"
    "s_tasks (w_sys w5) (s_next (w_sys w)) = Some task'" "used_bytes task' = l" "task_wf task'" "task_bufs task' = task_bufs task"
    "s_blocks (w_sys w5) = s_blocks s4"
    "\<And>w6. w_destroy (s_next (w_sys w)) w5 = Some w6 \<Longrightarrow> dev_ready q k w6 \<and> dev_frame w w6 \<and> s_tasks (w_sys w6) = s_tasks (w_sys w) \<and>
       w_srv w6 = d' \<and> m_of w6 = m' \<and> s_blocks (w_sys w6) = s_blocks (free_vbufs (map Some (task_bufs task)) s4)"
proof -
  let ?t = "s_next (w_sys w)"
  obtain w5 vr' idx efd where run: "w_submit_sync e ?t w4 = Some (0, w5)" and r5: "dev_ready q k w5" "dev_frame w w5"
    and w5: "w5 = w\<lparr>w_ring := vr', w_sys := s4\<lparr>s_mem := m', s_tasks := (s_tasks s4)(?t \<mapsto>
        task\<lparr>cb := Some vring_submit_sync_callback, arg := e_sarg e, vring_idx := idx, used_bytes := l\<rparr>), s_efd := efd\<rparr>,
      w_srv := d', w_woken := removeAll (e_sarg e) (w_woken w)\<rparr>"
    by (rule submit_built [OF assms])
  let ?task = "task\<lparr>cb := Some vring_submit_sync_callback, arg := e_sarg e, vring_idx := idx, used_bytes := l\<rparr>"
  have t: "s_tasks (w_sys w) ?t = None" "?t \<notin> fst ` set (inflight q)"
    using ready fresh_not_inflight [of "w_ring w" "w_sys w" q ?t] by (simp_all add: dev_ready_def)
  show ?thesis
  proof (rule that [of w5 ?task])
    fix w6 assume "w_destroy ?t w5 = Some w6"
    then have w6: "w6 = w5\<lparr>w_sys := (free_vbufs (map Some (task_bufs ?task)) (w_sys w5))\<lparr>s_tasks := (s_tasks (w_sys w5))(?t := None)\<rparr>\<rparr>"
      using take_vbufs [of ?task] task(1) by (simp add: w5 w_destroy_def virtio_task_destroy_def Let_def)
    have tasks6: "s_tasks (w_sys w6) = s_tasks (w_sys w)" using w6 w5 w4 t(1) by (auto simp: fun_eq_iff)
    have sel: "w_ring w6 = w_ring w5" "s_next (w_sys w6) = s_next (w_sys w5)" "s_oom (w_sys w6) = s_oom (w_sys w5)"
      "s_efd (w_sys w6) = s_efd (w_sys w5)" "s_tasks (w_sys w6) = (s_tasks (w_sys w5))(?t := None)"
      unfolding w6 by simp_all
    have "vring_rep (w_ring w5) (w_sys w5) q" using r5(1) by (simp add: dev_ready_def)
    from vring_rep_update_task [OF this t(2) sel(5)] have "dev_ready q k w6"
      using r5(1) unfolding dev_ready_def kick_room_def sel by simp
    moreover have "s_blocks (w_sys w6) = s_blocks (free_vbufs (map Some (task_bufs task)) s4)"
      using w6 w5 by (simp add: free_vbufs_blocks)
    moreover have "dev_frame w w6" unfolding w6 using r5(2) by (subst dev_frame_sys) simp_all
    ultimately show "dev_ready q k w6 \<and> dev_frame w w6 \<and> s_tasks (w_sys w6) = s_tasks (w_sys w) \<and> w_srv w6 = d' \<and> m_of w6 = m' \<and>
        s_blocks (w_sys w6) = s_blocks (free_vbufs (map Some (task_bufs task)) s4)"
      using tasks6 w6 w5 by simp
  qed (use run w5 task in simp_all)
qed


section \<open>Building a task\<close>

definition empty_task :: "nat \<Rightarrow> virtio_task" where
  "empty_task n = \<lparr>vbufs = replicate n None, count = 0, limit = n, vring_idx = 0, used_bytes = 0, cb = None, arg = NULL\<rparr>"

lemma empty_task_simps [simp]:
  "task_wf (empty_task n)" "count (empty_task n) = 0" "limit (empty_task n) = n" "task_bufs (empty_task n) = []"
  by (simp_all add: empty_task_def task_wf_def task_bufs_def)

lemma w_create_ok:
  assumes "dev_ready q k w"
  shows "w_create n w = (s_next (w_sys w), w\<lparr>w_sys := (w_sys w)\<lparr>s_nalloc := Suc (Suc (s_nalloc (w_sys w))),
    s_next := Suc (s_next (w_sys w)), s_tasks := (s_tasks (w_sys w))(s_next (w_sys w) \<mapsto> empty_task n)\<rparr>\<rparr>)"
  using assms by (simp add: w_create_def virtio_task_create_def c_alloc_def Let_def dev_ready_def empty_task_def)

definition own_buffer :: "ptr \<Rightarrow> nat \<Rightarrow> bool \<Rightarrow> virtio_buffer" where
  "own_buffer p n r = \<lparr>vb_buf = p, vb_size = n, vb_response = r, vb_copy = True, vb_offset_from = 0, vb_offset_to = n\<rparr>"

definition user_buffer :: "ptr \<Rightarrow> nat \<Rightarrow> bool \<Rightarrow> virtio_buffer" where
  "user_buffer p n r = \<lparr>vb_buf = p, vb_size = n, vb_response = r, vb_copy = False, vb_offset_from = 0, vb_offset_to = n\<rparr>"

lemma buffer_sel [simp]:
  "vb_buf (own_buffer p n r) = p" "vb_size (own_buffer p n r) = n" "vb_response (own_buffer p n r) = r" "vb_copy (own_buffer p n r)"
  "vb_buf (user_buffer p n r) = p" "vb_size (user_buffer p n r) = n" "vb_response (user_buffer p n r) = r" "\<not> vb_copy (user_buffer p n r)"
  by (simp_all add: own_buffer_def user_buffer_def)

lemma w_alloc_ok:
  assumes "s_tasks (w_sys w) t = Some task" "count task < limit task" "sz < 2 ^ 31" "e_rm e (s_blocks (w_sys w)) sz 0 = p" "p \<noteq> NULL"
  shows "w_alloc (e_rm e) t sz r True w = Some (p, w\<lparr>w_sys := (w_sys w)\<lparr>s_blocks := (p, sz) # s_blocks (w_sys w),
    s_mem := memset p 0 sz (m_of w), s_tasks := (s_tasks (w_sys w))(t \<mapsto> push_vbuf task (own_buffer p sz r))\<rparr>\<rparr>)"
  using assms
  by (simp add: w_alloc_def virtio_task_alloc_buf_def virtio_task_alloc_buf_part_def alloc_shared_buf_def Let_def
      to_int_id to_size_of_nat to_uint_def own_buffer_def)

lemma w_add_ok:
  assumes "s_tasks (w_sys w) t = Some task" "count task < limit task"
  shows "w_add t buf sz r w = Some (w\<lparr>w_sys := (w_sys w)\<lparr>s_tasks := (s_tasks (w_sys w))(t \<mapsto> push_vbuf task (user_buffer buf sz r))\<rparr>\<rparr>)"
  using assms by (simp add: w_add_def virtio_task_add_buf_def Let_def user_buffer_def)


section \<open>Memory of the caller\<close>

text \<open>The range lies in a live block.\<close>

definition live_range :: "(ptr \<times> nat) list \<Rightarrow> ptr \<Rightarrow> nat \<Rightarrow> bool" where
  "live_range b p n \<longleftrightarrow> (\<exists>(q, k) \<in> set b. 0 < q \<and> q \<le> p \<and> p + n \<le> q + k \<and> q + k < 2 ^ 64)"

lemma live_range_sub: "live_range b p n \<Longrightarrow> p \<le> p' \<Longrightarrow> p' + n' \<le> p + n \<Longrightarrow> live_range b p' n'"
proof -
  assume "live_range b p n" and *: "p \<le> p'" "p' + n' \<le> p + n"
  then obtain q k where "(q, k) \<in> set b" "0 < q" "q \<le> p" "p + n \<le> q + k" "q + k < 2 ^ 64"
    by (auto simp: live_range_def)
  with * show "live_range b p' n'" unfolding live_range_def by (intro bexI [of _ "(q, k)"]) simp_all
qed

lemma live_range_Cons: "live_range b p n \<Longrightarrow> live_range (x # b) p n"
  by (auto simp: live_range_def)

lemma live_range_own: "0 < p \<Longrightarrow> p + n < 2 ^ 64 \<Longrightarrow> live_range ((p, n) # b) p n"
  by (auto simp: live_range_def)

lemma rm_alloc:
  assumes "rte_malloc_spec rm" "rm b n al \<noteq> NULL"
  shows "rm b n al \<notin> fst ` set b" "rm b n al + n < 2 ^ 64" "0 < rm b n al"
    "live_range b p k \<Longrightarrow> disjoint_range (rm b n al) n p k"
proof -
  have spec: "rm b n al \<notin> fst ` set b" "rm b n al + n < 2 ^ 64" "\<forall>(q, k) \<in> set b. disjoint_range (rm b n al) n q k"
    using assms unfolding rte_malloc_spec_def by blast+
  then show "rm b n al \<notin> fst ` set b" "rm b n al + n < 2 ^ 64" "0 < rm b n al" using assms(2) by auto
  assume "live_range b p k"
  then obtain q j where "(q, j) \<in> set b" "q \<le> p" "p + k \<le> q + j" by (auto simp: live_range_def)
  moreover from this spec(3) have "disjoint_range (rm b n al) n q j" by blast
  ultimately show "disjoint_range (rm b n al) n p k" by (auto simp: disjoint_range_def)
qed

text \<open>The caller's memory outside the given range is as before.\<close>

definition mem_kept :: "(ptr \<times> nat) list \<Rightarrow> ptr \<Rightarrow> nat \<Rightarrow> mem \<Rightarrow> mem \<Rightarrow> bool" where
  "mem_kept b p n m m' \<longleftrightarrow> (\<forall>a. live_range b a 1 \<longrightarrow> (a < p \<or> p + n \<le> a) \<longrightarrow> m' a = m a)"

text \<open>What every device operation leaves: ready again, no block and no task gained or lost.\<close>

definition dev_step :: "vqueue \<Rightarrow> nat \<Rightarrow> ('d, 'z) pworld_scheme \<Rightarrow> ('d, 'z) pworld_scheme \<Rightarrow> bool" where
  "dev_step q k w w' \<longleftrightarrow> dev_ready q k w' \<and> dev_frame w w' \<and> s_blocks (w_sys w') = s_blocks (w_sys w) \<and> s_tasks (w_sys w') = s_tasks (w_sys w)"

lemma dev_step_trans: "dev_step q j w w1 \<Longrightarrow> dev_step q k w1 w2 \<Longrightarrow> dev_step q k w w2"
  using dev_frame_trans by (auto simp: dev_step_def)

lemma bufs_ok_3:
  assumes "0 < vb_buf a" "0 < vb_buf b" "0 < vb_buf c" "vb_buf a + vb_size a < 2 ^ 64" "vb_buf b + vb_size b < 2 ^ 64"
    "vb_buf c + vb_size c < 2 ^ 64" "vb_size a < 2 ^ 32" "vb_size b < 2 ^ 32" "vb_size c < 2 ^ 32"
    "disjoint_range (vb_buf a) (vb_size a) (vb_buf b) (vb_size b)"
    "disjoint_range (vb_buf a) (vb_size a) (vb_buf c) (vb_size c)"
    "disjoint_range (vb_buf b) (vb_size b) (vb_buf c) (vb_size c)"
  shows "bufs_ok [a, b, c]"
  using assms by (auto simp: bufs_ok_def less_Suc_eq nth_Cons split: nat.splits)

text \<open>The request and the response block of a command.\<close>

lemma two_blocks:
  assumes e: "rte_malloc_spec rm" and room: "rm_room rm L 2 b" "sizeof_resp \<le> L" and live: "live_range b buf n"
  defines "p1 \<equiv> rm b sizeof_req 0" and "p2 \<equiv> rm ((rm b sizeof_req 0, sizeof_req) # b) sizeof_resp 0"
  shows "p1 \<noteq> NULL" "p2 \<noteq> NULL" "p1 + sizeof_req < 2 ^ 64" "p2 + sizeof_resp < 2 ^ 64"
    "disjoint_range p1 sizeof_req p2 sizeof_resp" "disjoint_range p1 sizeof_req buf n" "disjoint_range p2 sizeof_resp buf n"
    "0 < buf" "buf + n < 2 ^ 64"
    "filter (\<lambda>(q, k). q \<noteq> p1 \<and> q \<noteq> p2) ((p2, sizeof_resp) # (p1, sizeof_req) # b) = b"
    "live_range b a 1 \<Longrightarrow> (a < p1 \<or> p1 + sizeof_req \<le> a) \<and> (a < p2 \<or> p2 + sizeof_resp \<le> a)"
proof -
  have "sizeof_req \<le> L" using room(2) by (simp add: sizeof_req_def sizeof_resp_def)
  with room show ne: "p1 \<noteq> NULL" "p2 \<noteq> NULL" by (simp_all add: numeral_2_eq_2 p1_def p2_def)
  note a1 = rm_alloc [OF e ne(1) [unfolded p1_def], folded p1_def]
  note a2 = rm_alloc [OF e ne(2) [unfolded p2_def], folded p1_def, folded p2_def [folded p1_def]]
  show sz: "p1 + sizeof_req < 2 ^ 64" "p2 + sizeof_resp < 2 ^ 64" using a1(2) a2(2) by simp_all
  have "live_range ((p1, sizeof_req) # b) p1 sizeof_req" using sz ne by (intro live_range_own) simp_all
  then show "disjoint_range p1 sizeof_req p2 sizeof_resp" using a2(4) disjoint_range_sym by blast
  show "disjoint_range p1 sizeof_req buf n" by (rule a1(4) [OF live])
  show "disjoint_range p2 sizeof_resp buf n" by (rule a2(4) [OF live_range_Cons [OF live]])
  show "0 < buf" "buf + n < 2 ^ 64" using live by (auto simp: live_range_def)
  have "p1 \<notin> fst ` set b" "p2 \<notin> fst ` set b" using a1(1) a2(1) by auto
  then show "filter (\<lambda>(q, k). q \<noteq> p1 \<and> q \<noteq> p2) ((p2, sizeof_resp) # (p1, sizeof_req) # b) = b"
    by (auto intro!: filter_True) (force+)
  assume "live_range b a 1"
  then show "(a < p1 \<or> p1 + sizeof_req \<le> a) \<and> (a < p2 \<or> p2 + sizeof_resp \<le> a)"
    using a1(4) a2(4) live_range_Cons by (fastforce simp: disjoint_range_def)
qed



section \<open>Whole blocks\<close>

lemma to_int_of_nat: "n < 2 ^ 31 \<Longrightarrow> to_int (int n) = int n"
  by (rule to_int_id) auto

definition geometry :: "virtio_dev \<Rightarrow> nat \<Rightarrow> nat \<Rightarrow> bool" where
  "geometry dev bs nblk \<longleftrightarrow> block_size dev = int bs \<and> 0 < bs \<and> bs < 2 ^ 30 \<and> num_blocks dev = nblk \<and>
     cap dev = bs * nblk \<and> bs * nblk < 2 ^ 64"

lemma geometry_bs: "geometry dev bs nblk \<Longrightarrow> bs_of dev = bs"
  by (simp add: geometry_def to_size_of_nat)

text \<open>A command of \<open>n\<close> blocks from block \<open>lba\<close> with a caller's buffer.\<close>

definition io_ok :: "virtio_dev \<Rightarrow> nat \<Rightarrow> nat \<Rightarrow> (ptr \<times> nat) list \<Rightarrow> ptr \<Rightarrow> nat \<Rightarrow> nat \<Rightarrow> bool" where
  "io_ok dev bs nblk b buf lba n \<longleftrightarrow> geometry dev bs nblk \<and> rw_fits dev lba n \<and> lba + n \<le> nblk \<and>
     sizeof_resp + n * bs < 2 ^ 31 \<and> live_range b buf (n * bs)"

text \<open>
  The task of a READ: what the calls that build it return, and the state in which it is
  submitted.
\<close>

definition cmd_state :: "('d, 'z) pworld_scheme \<Rightarrow> ptr \<Rightarrow> ptr \<Rightarrow> mem \<Rightarrow> virtio_task \<Rightarrow> sys" where
  "cmd_state w p1 p2 m task = (w_sys w)\<lparr>s_nalloc := Suc (Suc (s_nalloc (w_sys w))), s_next := Suc (s_next (w_sys w)),
     s_blocks := (p2, sizeof_resp) # (p1, sizeof_req) # s_blocks (w_sys w), s_mem := m,
     s_tasks := (s_tasks (w_sys w))(s_next (w_sys w) \<mapsto> task)\<rparr>"

definition cmd_mem :: "('d, 'z) pworld_scheme \<Rightarrow> ptr \<Rightarrow> ptr \<Rightarrow> mem" where
  "cmd_mem w p1 p2 = memset p2 0 sizeof_resp (memset p1 0 sizeof_req (m_of w))"

definition three_bufs :: "virtio_buffer list \<Rightarrow> virtio_task" where
  "three_bufs bufs = push_vbuf (push_vbuf (push_vbuf (empty_task 3) (bufs ! 0)) (bufs ! 1)) (bufs ! 2)"

lemma three_bufs_task:
  "length bufs = 3 \<Longrightarrow> task_wf (three_bufs bufs) \<and> count (three_bufs bufs) = 3 \<and> task_bufs (three_bufs bufs) = bufs"
  by (auto simp: three_bufs_def push_vbuf_wf push_vbuf_bufs length_Suc_conv numeral_3_eq_3)

lemma cmd_sizes: "sizeof_req < 2 ^ 31" "sizeof_resp < 2 ^ 31"
  by (simp_all add: sizeof_req_def sizeof_resp_def)

lemma build_read:
  assumes ready: "dev_ready q k w" and p: "p1 = e_rm e (s_blocks (w_sys w)) sizeof_req 0"
      "p2 = e_rm e ((p1, sizeof_req) # s_blocks (w_sys w)) sizeof_resp 0" "p1 \<noteq> NULL" "p2 \<noteq> NULL"
    and bufs: "bufs = [own_buffer p1 sizeof_req False, own_buffer p2 sizeof_resp True, user_buffer buf n True]"
  shows "\<exists>w0 w1 w2. w_create 3 w = (s_next (w_sys w), w0) \<and> w_alloc (e_rm e) (s_next (w_sys w)) sizeof_req False True w0 = Some (p1, w1) \<and>
    w_alloc (e_rm e) (s_next (w_sys w)) sizeof_resp True True w1 = Some (p2, w2) \<and>
    w_add (s_next (w_sys w)) buf n True w2 = Some (w\<lparr>w_sys := cmd_state w p1 p2 (cmd_mem w p1 p2) (three_bufs bufs)\<rparr>)"
proof -
  let ?s = "w_sys w" and ?t = "s_next (w_sys w)" and ?b = "s_blocks (w_sys w)"
  let ?w0 = "w\<lparr>w_sys := ?s\<lparr>s_nalloc := Suc (Suc (s_nalloc ?s)), s_next := Suc ?t, s_tasks := (s_tasks ?s)(?t \<mapsto> empty_task 3)\<rparr>\<rparr>"
  let ?w1 = "w\<lparr>w_sys := (w_sys ?w0)\<lparr>s_blocks := (p1, sizeof_req) # ?b, s_mem := memset p1 0 sizeof_req (m_of w),
    s_tasks := (s_tasks ?s)(?t \<mapsto> push_vbuf (empty_task 3) (bufs ! 0))\<rparr>\<rparr>"
  let ?w2 = "w\<lparr>w_sys := (w_sys ?w1)\<lparr>s_blocks := (p2, sizeof_resp) # (p1, sizeof_req) # ?b, s_mem := cmd_mem w p1 p2,
    s_tasks := (s_tasks ?s)(?t \<mapsto> push_vbuf (push_vbuf (empty_task 3) (bufs ! 0)) (bufs ! 1))\<rparr>\<rparr>"
  have "w_create 3 w = (?t, ?w0)" using w_create_ok [OF ready, of 3] by simp
  moreover have "w_alloc (e_rm e) ?t sizeof_req False True ?w0 = Some (p1, ?w1)"
    using w_alloc_ok [of ?w0 ?t "empty_task 3" sizeof_req e p1 False] p cmd_sizes by (simp add: bufs)
  moreover have "w_alloc (e_rm e) ?t sizeof_resp True True ?w1 = Some (p2, ?w2)"
    using w_alloc_ok [of ?w1 ?t "push_vbuf (empty_task 3) (bufs ! 0)" sizeof_resp e p2 True] p cmd_sizes
    by (simp add: bufs cmd_mem_def)
  moreover have "w_add ?t buf n True ?w2 = Some (w\<lparr>w_sys := cmd_state w p1 p2 (cmd_mem w p1 p2) (three_bufs bufs)\<rparr>)"
    using w_add_ok [of ?w2 ?t "push_vbuf (push_vbuf (empty_task 3) (bufs ! 0)) (bufs ! 1)" buf n True]
    by (simp add: bufs cmd_state_def three_bufs_def)
  ultimately show ?thesis by blast
qed

lemma build_write:
  assumes ready: "dev_ready q k w" and p: "p1 = e_rm e (s_blocks (w_sys w)) sizeof_req 0"
      "p2 = e_rm e ((p1, sizeof_req) # s_blocks (w_sys w)) sizeof_resp 0" "p1 \<noteq> NULL" "p2 \<noteq> NULL"
    and bufs: "bufs = [own_buffer p1 sizeof_req False, user_buffer buf n False, own_buffer p2 sizeof_resp True]"
  shows "\<exists>w0 w1 w2. w_create 3 w = (s_next (w_sys w), w0) \<and> w_alloc (e_rm e) (s_next (w_sys w)) sizeof_req False True w0 = Some (p1, w1) \<and>
    w_add (s_next (w_sys w)) buf n False w1 = Some w2 \<and>
    w_alloc (e_rm e) (s_next (w_sys w)) sizeof_resp True True w2 = Some (p2, w\<lparr>w_sys := cmd_state w p1 p2 (cmd_mem w p1 p2) (three_bufs bufs)\<rparr>)"
proof -
  let ?s = "w_sys w" and ?t = "s_next (w_sys w)" and ?b = "s_blocks (w_sys w)"
  let ?w0 = "w\<lparr>w_sys := ?s\<lparr>s_nalloc := Suc (Suc (s_nalloc ?s)), s_next := Suc ?t, s_tasks := (s_tasks ?s)(?t \<mapsto> empty_task 3)\<rparr>\<rparr>"
  let ?w1 = "w\<lparr>w_sys := (w_sys ?w0)\<lparr>s_blocks := (p1, sizeof_req) # ?b, s_mem := memset p1 0 sizeof_req (m_of w),
    s_tasks := (s_tasks ?s)(?t \<mapsto> push_vbuf (empty_task 3) (bufs ! 0))\<rparr>\<rparr>"
  let ?w2 = "w\<lparr>w_sys := (w_sys ?w1)\<lparr>s_tasks := (s_tasks ?s)(?t \<mapsto> push_vbuf (push_vbuf (empty_task 3) (bufs ! 0)) (bufs ! 1))\<rparr>\<rparr>"
  have "w_create 3 w = (?t, ?w0)" using w_create_ok [OF ready, of 3] by simp
  moreover have "w_alloc (e_rm e) ?t sizeof_req False True ?w0 = Some (p1, ?w1)"
    using w_alloc_ok [of ?w0 ?t "empty_task 3" sizeof_req e p1 False] p cmd_sizes by (simp add: bufs)
  moreover have "w_add ?t buf n False ?w1 = Some ?w2"
    using w_add_ok [of ?w1 ?t "push_vbuf (empty_task 3) (bufs ! 0)" buf n False] by (simp add: bufs)
  moreover have "w_alloc (e_rm e) ?t sizeof_resp True True ?w2 = Some (p2, w\<lparr>w_sys := cmd_state w p1 p2 (cmd_mem w p1 p2) (three_bufs bufs)\<rparr>)"
    using w_alloc_ok [of ?w2 ?t "push_vbuf (push_vbuf (empty_task 3) (bufs ! 0)) (bufs ! 1)" sizeof_resp e p2 True] p cmd_sizes
    by (simp add: bufs cmd_state_def cmd_mem_def three_bufs_def)
  ultimately show ?thesis by blast
qed

text \<open>Submitting a built command and destroying its task.\<close>

lemma run_command:
  assumes e: "env_ok e" and ready: "dev_ready q (Suc k) w" and len: "length bufs = 3"
    and own: "set (map vb_buf (filter vb_copy bufs)) = {p1, p2}" "p1 \<noteq> NULL" "p2 \<noteq> NULL"
    and free: "filter (\<lambda>(q, k). q \<noteq> p1 \<and> q \<noteq> p2) ((p2, sizeof_resp) # (p1, sizeof_req) # s_blocks (w_sys w)) = s_blocks (w_sys w)"
    and srv: "serves (e_serve e) bufs m4 (w_srv w) l m' d'"
  obtains w5 w6 task' where "w_submit_sync e (s_next (w_sys w)) (w\<lparr>w_sys := cmd_state w p1 p2 m4 (three_bufs bufs)\<rparr>) = Some (0, w5)"
    "m_of w5 = m'" "s_tasks (w_sys w5) (s_next (w_sys w)) = Some task'" "used_bytes task' = l"
    "w_destroy (s_next (w_sys w)) w5 = Some w6" "dev_step q k w w6" "w_srv w6 = d'" "m_of w6 = m'"
proof -
  let ?t = "s_next (w_sys w)" and ?s4 = "cmd_state w p1 p2 m4 (three_bufs bufs)"
  note task = three_bufs_task [OF len]
  obtain w5 task' where sub: "w_submit_sync e ?t (w\<lparr>w_sys := ?s4\<rparr>) = Some (0, w5)" "m_of w5 = m'" "w_srv w5 = d'"
    "s_tasks (w_sys w5) ?t = Some task'" "used_bytes task' = l" "task_wf task'" "task_bufs task' = task_bufs (three_bufs bufs)"
    "s_blocks (w_sys w5) = s_blocks ?s4"
    and fin: "\<And>w6. w_destroy ?t w5 = Some w6 \<Longrightarrow> dev_ready q k w6 \<and> dev_frame w w6 \<and> s_tasks (w_sys w6) = s_tasks (w_sys w) \<and>
       w_srv w6 = d' \<and> m_of w6 = m' \<and> s_blocks (w_sys w6) = s_blocks (free_vbufs (map Some (task_bufs (three_bufs bufs))) ?s4)"
    by (rule submit_built_task [OF e ready refl, of ?s4 "three_bufs bufs" l m' d'])
      (use task srv in \<open>simp_all add: cmd_state_def\<close>)
  obtain w6 where w6: "w_destroy ?t w5 = Some w6" using sub(4) by (simp add: w_destroy_def virtio_task_destroy_def)
  have "vb_buf ` {b \<in> set bufs. vb_copy b \<and> vb_buf b \<noteq> NULL} = set (map vb_buf (filter vb_copy bufs)) - {NULL}" by auto
  then have "vb_buf ` {b \<in> set bufs. vb_copy b \<and> vb_buf b \<noteq> NULL} = {p1, p2}" using own by simp
  then have "s_blocks (free_vbufs (map Some bufs) ?s4) = s_blocks (w_sys w)"
    using free by (simp add: free_vbufs_blocks cmd_state_def case_prod_unfold)
  with fin [OF w6] task have "dev_step q k w w6" by (simp add: dev_step_def)
  with fin [OF w6] show ?thesis by (intro that [OF sub(1,2,4,5) w6]) simp_all
qed

lemma cmd_mem_kept:
  assumes "\<And>a. live_range b a 1 \<Longrightarrow> (a < p1 \<or> p1 + sizeof_req \<le> a) \<and> (a < p2 \<or> p2 + sizeof_resp \<le> a)" "live_range b a 1"
  shows "create_rw_cdb dev p1 lba n wr (cmd_mem w p1 p2) a = m_of w a"
  using assms(1) [OF assms(2)] by (simp add: cmd_mem_def create_rw_cdb_frame memset_outside)

lemma blk_read_ok:
  assumes e: "env_ok e" and ready: "dev_ready q (Suc k) w" and srv: "scsi_server (e_serve e) disk bs nblk"
    and io: "io_ok dev bs nblk (s_blocks (w_sys w)) buf lba n"
    and room: "rm_room (e_rm e) L 2 (s_blocks (w_sys w))" "sizeof_resp \<le> L"
  obtains w' where "blk_read_virtio_dev e dev buf lba n w = Some (int (n * bs), w')" "dev_step q k w w'"
    "mem_read (m_of w') buf (n * bs) = disk_read disk (w_srv w) (lba * bs) (n * bs)"
    "disk (w_srv w') = disk (w_srv w)" "mem_kept (s_blocks (w_sys w)) buf (n * bs) (m_of w) (m_of w')"
proof -
  let ?t = "s_next (w_sys w)" and ?b = "s_blocks (w_sys w)"
  define p1 where "p1 = e_rm e ?b sizeof_req 0"
  define p2 where "p2 = e_rm e ((p1, sizeof_req) # ?b) sizeof_resp 0"
  have rm: "rte_malloc_spec (e_rm e)" using e by (simp add: env_ok_def)
  have live: "live_range ?b buf (n * bs)" and bs: "bs_of dev = bs" and len: "sizeof_resp + n * bs < 2 ^ 31"
    and fits: "rw_fits dev lba n" "lba + n \<le> nblk"
    using io geometry_bs by (auto simp: io_ok_def)
  note blocks = two_blocks [OF rm room live, folded p1_def, folded p2_def]
  define m4 where "m4 = create_rw_cdb dev p1 lba n False (cmd_mem w p1 p2)"
  define bufs where "bufs = [own_buffer p1 sizeof_req False, own_buffer p2 sizeof_resp True, user_buffer buf (n * bs) True]"
  have "request_ok m4 (own_buffer p1 sizeof_req False) False lba n"
    using create_rw_cdb_decodes [OF fits(1), of p1 False] by (simp add: request_ok_def m4_def)
  moreover have "bufs_ok bufs"
    unfolding bufs_def using blocks len by (intro bufs_ok_3) (auto simp: sizeof_req_def sizeof_resp_def)
  ultimately obtain m' d' where r: "serves (e_serve e) bufs m4 (w_srv w) (of_nat (sizeof_resp + n * bs)) m' d'"
    "resp_good m' p2" "gathered m' [user_buffer buf (n * bs) True] = disk_read disk (w_srv w) (lba * bs) (n * bs)"
    "disk d' = disk (w_srv w)" "\<And>a. (a < p2 \<or> p2 + sizeof_resp \<le> a) \<Longrightarrow> (a < buf \<or> buf + n * bs \<le> a) \<Longrightarrow> m' a = m4 a"
    using srv fits(2) len unfolding scsi_server_def scsi_read_spec_def bufs_def
    by (elim conjE allE [of _ "w_srv w"] allE [of _ m4] allE [of _ "own_buffer p1 sizeof_req False"]
        allE [of _ "own_buffer p2 sizeof_resp True"] allE [of _ "[user_buffer buf (n * bs) True]"] allE [of _ lba] allE [of _ n])
      (auto simp: in_buf_def not_le not_less)
  have kept: "m4 a = m_of w a" if "live_range ?b a 1" for a
    unfolding m4_def by (rule cmd_mem_kept [OF blocks(11) that])
  have pre: "length bufs = 3" "set (map vb_buf (filter vb_copy bufs)) = {p1, p2}" by (auto simp: bufs_def)
  obtain w5 w6 task' where sub: "w_submit_sync e ?t (w\<lparr>w_sys := cmd_state w p1 p2 m4 (three_bufs bufs)\<rparr>) = Some (0, w5)"
    "m_of w5 = m'" "s_tasks (w_sys w5) ?t = Some task'" "used_bytes task' = of_nat (sizeof_resp + n * bs)"
    "w_destroy ?t w5 = Some w6" "dev_step q k w w6" "w_srv w6 = d'" "m_of w6 = m'"
    by (rule run_command [OF e ready pre blocks(1,2,10) r(1)])
  have used: "unat (of_nat (sizeof_resp + n * bs) :: u32) = sizeof_resp + n * bs" using len by (simp only: unat_of_nat) simp
  have rc: "to_int (int (size_sub (unat (used_bytes task')) sizeof_resp)) = int (n * bs)"
    unfolding sub(4) used using len by (simp add: size_sub_id to_int_of_nat del: of_nat_mult)
  have "size_mul n (bs_of dev) = n * bs" using len bs by (simp add: size_mul_id)
  moreover have "w_mem (create_rw_cdb dev p1 lba n False) (w\<lparr>w_sys := cmd_state w p1 p2 (cmd_mem w p1 p2) (three_bufs bufs)\<rparr>) =
      w\<lparr>w_sys := cmd_state w p1 p2 m4 (three_bufs bufs)\<rparr>"
    by (simp add: w_mem_def m4_def cmd_state_def)
  moreover have "?t \<noteq> NULL" using ready by (simp add: dev_ready_def)
  ultimately have "blk_read_virtio_dev e dev buf lba n w = Some (int (n * bs), w6)"
    using build_read [OF ready p1_def p2_def blocks(1,2) bufs_def] blocks(1,2) sub r(2) rc
    by (auto simp: blk_read_virtio_dev_def w_destroy_return_def Let_def)
  moreover have "mem_kept ?b buf (n * bs) (m_of w) (m_of w6)"
    unfolding mem_kept_def sub(8) using r(5) blocks(11) kept by metis
  moreover have "mem_read (m_of w6) buf (n * bs) = disk_read disk (w_srv w) (lba * bs) (n * bs)"
    using r(3) sub(8) by (simp add: gathered_def)
  ultimately show ?thesis using that [of w6] sub(6,7) r(4) by blast
qed

lemma blk_write_ok:
  assumes e: "env_ok e" and ready: "dev_ready q (Suc k) w" and srv: "scsi_server (e_serve e) disk bs nblk"
    and io: "io_ok dev bs nblk (s_blocks (w_sys w)) buf lba n"
    and room: "rm_room (e_rm e) L 2 (s_blocks (w_sys w))" "sizeof_resp \<le> L"
  obtains w' where "blk_write_virtio_dev e dev buf lba n w = Some (int (n * bs), w')" "dev_step q k w w'"
    "disk (w_srv w') = disk_write (lba * bs) (mem_read (m_of w) buf (n * bs)) (disk (w_srv w))"
    "mem_kept (s_blocks (w_sys w)) buf 0 (m_of w) (m_of w')"
proof -
  let ?t = "s_next (w_sys w)" and ?b = "s_blocks (w_sys w)"
  define p1 where "p1 = e_rm e ?b sizeof_req 0"
  define p2 where "p2 = e_rm e ((p1, sizeof_req) # ?b) sizeof_resp 0"
  have rm: "rte_malloc_spec (e_rm e)" using e by (simp add: env_ok_def)
  have live: "live_range ?b buf (n * bs)" and bs: "bs_of dev = bs" and len: "sizeof_resp + n * bs < 2 ^ 31"
    and fits: "rw_fits dev lba n" "lba + n \<le> nblk"
    using io geometry_bs by (auto simp: io_ok_def)
  note blocks = two_blocks [OF rm room live, folded p1_def, folded p2_def]
  define m4 where "m4 = create_rw_cdb dev p1 lba n True (cmd_mem w p1 p2)"
  define bufs where "bufs = [own_buffer p1 sizeof_req False, user_buffer buf (n * bs) False, own_buffer p2 sizeof_resp True]"
  have "request_ok m4 (own_buffer p1 sizeof_req False) True lba n"
    using create_rw_cdb_decodes [OF fits(1), of p1 True] by (simp add: request_ok_def m4_def)
  moreover have "bufs_ok bufs"
    unfolding bufs_def using blocks len disjoint_range_sym by (intro bufs_ok_3) (auto simp: sizeof_req_def sizeof_resp_def)
  ultimately obtain l m' d' where r: "serves (e_serve e) bufs m4 (w_srv w) l m' d'" "resp_good m' p2"
    "disk d' = disk_write (lba * bs) (gathered m4 [user_buffer buf (n * bs) False]) (disk (w_srv w))"
    "\<And>a. (a < p2 \<or> p2 + sizeof_resp \<le> a) \<Longrightarrow> m' a = m4 a"
    using srv fits(2) len unfolding scsi_server_def scsi_write_spec_def bufs_def
    by (elim conjE allE [of _ "w_srv w"] allE [of _ m4] allE [of _ "own_buffer p1 sizeof_req False"]
        allE [of _ "own_buffer p2 sizeof_resp True"] allE [of _ "[user_buffer buf (n * bs) False]"] allE [of _ lba] allE [of _ n])
      (auto simp: in_buf_def not_le not_less)
  have kept: "m4 a = m_of w a" if "live_range ?b a 1" for a
    unfolding m4_def by (rule cmd_mem_kept [OF blocks(11) that])
  have pre: "length bufs = 3" "set (map vb_buf (filter vb_copy bufs)) = {p1, p2}" by (auto simp: bufs_def)
  obtain w5 w6 task' where sub: "w_submit_sync e ?t (w\<lparr>w_sys := cmd_state w p1 p2 m4 (three_bufs bufs)\<rparr>) = Some (0, w5)"
    "m_of w5 = m'" "s_tasks (w_sys w5) ?t = Some task'" "used_bytes task' = l"
    "w_destroy ?t w5 = Some w6" "dev_step q k w w6" "w_srv w6 = d'" "m_of w6 = m'"
    by (rule run_command [OF e ready pre blocks(1,2,10) r(1)])
  have n: "to_int (int (size_mul n (bs_of dev))) = int (n * bs)" "to_size (int (n * bs)) = n * bs"
    using len bs by (simp_all add: size_mul_id to_int_of_nat to_size_of_nat del: of_nat_mult)
  have "w_mem (create_rw_cdb dev p1 lba n True) (w\<lparr>w_sys := cmd_state w p1 p2 (cmd_mem w p1 p2) (three_bufs bufs)\<rparr>) =
      w\<lparr>w_sys := cmd_state w p1 p2 m4 (three_bufs bufs)\<rparr>"
    by (simp add: w_mem_def m4_def cmd_state_def)
  moreover have "?t \<noteq> NULL" using ready by (simp add: dev_ready_def)
  ultimately have "blk_write_virtio_dev e dev buf lba n w = Some (int (n * bs), w6)"
    using build_write [OF ready p1_def p2_def blocks(1,2) bufs_def] blocks(1,2) sub r(2) n
    by (auto simp: blk_write_virtio_dev_def w_destroy_return_def Let_def)
  moreover have "mem_kept ?b buf 0 (m_of w) (m_of w6)"
    unfolding mem_kept_def sub(8) using r(4) blocks(11) kept by metis
  moreover have "mem_read m4 buf (n * bs) = mem_read (m_of w) buf (n * bs)"
    by (intro mem_read_eqI kept live_range_sub [OF live]) simp_all
  ultimately show ?thesis using that [of w6] sub(6,7) r(3) by (simp add: gathered_def)
qed

end
