(* ===== verification/Virtio_Bytes.thy ===== *)
theory Virtio_Bytes
  imports Virtio_Sync
begin

text \<open>
  Byte-granular access on top of whole blocks: \<open>read_partial_block\<close>, \<open>write_partial_block\<close> and the
  synchronous \<open>read_virtio_dev\<close> and \<open>write_virtio_dev\<close> read and write exactly the bytes of the
  block device that the caller names, and leave blocks, tasks and the rest of the caller's
  memory as they were.
\<close>

section \<open>Slices of the device\<close>

lemma length_disk_read [simp]: "length (disk_read disk d a n) = n"
  by (simp add: disk_read_def)

lemma nth_disk_read [simp]: "i < n \<Longrightarrow> disk_read disk d a n ! i = disk d (a + i)"
  by (simp add: disk_read_def)

lemma disk_read_append: "disk_read disk d a (n + k) = disk_read disk d a n @ disk_read disk d (a + n) k"
  by (rule nth_equalityI) (auto simp: nth_append)

lemma disk_slice:
  assumes "mem_read m p n = disk_read disk d a n" "i + k \<le> n"
  shows "mem_read m (p + i) k = disk_read disk d (a + i) k"
proof (rule nth_equalityI)
  fix j assume "j < length (mem_read m (p + i) k)"
  then have "mem_read m p n ! (i + j) = disk_read disk d a n ! (i + j)" "i + j < n" using assms by simp_all
  then show "mem_read m (p + i) k ! j = disk_read disk d (a + i) k ! j" using \<open>j < _\<close> by (simp add: ac_simps)
qed simp

lemma disk_write_append:
  "disk_write (a + length xs) ys (disk_write a xs f) = disk_write a (xs @ ys) f"
  by (rule ext) (auto simp: disk_write_def nth_append)

lemma disk_write_Nil [simp]: "disk_write a [] f = f"
  by (rule ext) (auto simp: disk_write_def)

text \<open>Writing a block back with some of its bytes replaced is writing those bytes.\<close>

lemma disk_write_modified:
  assumes "length xs = n" "i + length ys \<le> n" "\<And>j. j < n \<Longrightarrow> xs ! j = (if i \<le> j \<and> j < i + length ys then ys ! (j - i) else f (a + j))"
  shows "disk_write a xs f = disk_write (a + i) ys f"
proof
  fix x
  consider "x < a \<or> a + n \<le> x" | j where "x = a + j" "j < n" using le_iff_add [of a x] by (cases "a \<le> x \<and> x < a + n") auto
  then show "disk_write a xs f x = disk_write (a + i) ys f x"
    by cases (use assms in \<open>auto simp: disk_write_def\<close>)
qed


section \<open>A block of its own\<close>

lemma rm_room_less: "rm_room rm L (Suc k) b \<Longrightarrow> rm_room rm L k b"
  by (induction k arbitrary: b) (simp, metis rm_room.simps(2))

lemma dev_ready_less: "dev_ready q (Suc k) w \<Longrightarrow> dev_ready q k w"
  by (auto simp: dev_ready_def kick_room_def)

lemma dev_ready_sys:
  assumes "dev_ready q k w" "s_tasks s = s_tasks (w_sys w)" "s_next s = s_next (w_sys w)" "s_oom s = s_oom (w_sys w)"
    "s_efd s = s_efd (w_sys w)"
  shows "dev_ready q k (w\<lparr>w_sys := s\<rparr>)"
  using assms vring_rep_tasks_cong [of "w_ring w" "w_sys w" q s] by (simp add: dev_ready_def kick_room_def)

lemma free_shared_buf_oom [simp]: "s_oom (free_shared_buf p s) = s_oom s"
  by (simp add: free_shared_buf_def)

text \<open>The buffer of one block that the partial operations work in.\<close>

lemma block_buffer:
  assumes rm: "rte_malloc_spec (e_rm e)" and ready: "dev_ready q k w" and geo: "geometry dev bs nblk"
    and room: "rm_room (e_rm e) L 3 (s_blocks (w_sys w))" "bs \<le> L"
  obtains p w1 where "w_alloc_shared e (block_size dev) (block_size dev) w = (p, w1)" "dev_ready q k w1 \<and> dev_frame w w1"
    "m_of w1 = m_of w" "w_srv w1 = w_srv w" "s_tasks (w_sys w1) = s_tasks (w_sys w)"
    "s_blocks (w_sys w1) = (p, bs) # s_blocks (w_sys w)" "rm_room (e_rm e) L 2 (s_blocks (w_sys w1))"
    "live_range (s_blocks (w_sys w1)) p bs" "\<And>a n. live_range (s_blocks (w_sys w)) a n \<Longrightarrow> disjoint_range p bs a n"
    "\<And>s. s_blocks s = s_blocks (w_sys w1) \<Longrightarrow> s_blocks (free_shared_buf p s) = s_blocks (w_sys w)"
proof -
  let ?al = "nat (to_uint (block_size dev))" and ?b = "s_blocks (w_sys w)"
  define p where "p = e_rm e ?b bs ?al"
  have bs: "to_size (block_size dev) = bs" by (rule geometry_bs [OF geo])
  have ne: "p \<noteq> NULL" and room2: "rm_room (e_rm e) L 2 ((p, bs) # ?b)"
    using room by (simp_all add: numeral_3_eq_3 numeral_2_eq_2 p_def)
  note a = rm_alloc [OF rm ne [unfolded p_def], folded p_def]
  let ?w1 = "w\<lparr>w_sys := (w_sys w)\<lparr>s_blocks := (p, bs) # ?b\<rparr>\<rparr>"
  show ?thesis
  proof (rule that [of p ?w1])
    show "w_alloc_shared e (block_size dev) (block_size dev) w = (p, ?w1)"
      using ne by (simp add: w_alloc_shared_def alloc_shared_buf_def bs p_def Let_def)
    show "dev_ready q k ?w1 \<and> dev_frame w ?w1" using dev_ready_sys [OF ready, of "w_sys ?w1"] by (simp add: dev_frame_sys)
    show "live_range (s_blocks (w_sys ?w1)) p bs" using a(2,3) by (simp add: live_range_own)
    fix s :: sys
    assume "s_blocks s = s_blocks (w_sys ?w1)"
    then show "s_blocks (free_shared_buf p s) = ?b"
      using ne filter_fresh_block [OF a(1)] by (simp add: free_shared_buf_def)
  qed (use a(4) room2 in simp_all)
qed

lemma mem_kept_cong:
  assumes "mem_kept ((p, k) # b) p n m m'" "\<And>a. live_range b a 1 \<Longrightarrow> disjoint_range p n a 1"
  shows "live_range b a 1 \<Longrightarrow> m' a = m a"
  using assms(1) assms(2) [of a] live_range_Cons [of b a 1 "(p, k)"] by (auto simp: mem_kept_def disjoint_range_def)

definition partial_ok :: "virtio_dev \<Rightarrow> nat \<Rightarrow> nat \<Rightarrow> nat \<Rightarrow> bool" where
  "partial_ok dev bs nblk lba \<longleftrightarrow> geometry dev bs nblk \<and> lba < nblk \<and> sizeof_resp + bs < 2 ^ 31"

lemma partial_io: "partial_ok dev bs nblk lba \<Longrightarrow> live_range b p bs \<Longrightarrow> io_ok dev bs nblk b p lba 1"
proof -
  assume *: "partial_ok dev bs nblk lba" "live_range b p bs"
  then have geo: "geometry dev bs nblk" "lba < nblk" by (simp_all add: partial_ok_def)
  then have "nblk \<le> bs * nblk" "bs * nblk < 2 ^ 64" "num_blocks dev = nblk" by (simp_all add: geometry_def)
  moreover from this geo(2) have "lba < 2 ^ 64" by linarith
  ultimately have "rw_fits dev lba 1" using geo(2) by (auto simp: rw_fits_def)
  with * show ?thesis by (simp add: partial_ok_def io_ok_def)
qed

lemma clip_block_min:
  assumes "geometry dev bs nblk" "i < bs" "n < 2 ^ 63"
  shows "clip_block dev i n = min n (bs - i)"
proof -
  have "bs < 2 ^ 30" using assms(1) by (simp add: geometry_def)
  with assms have "size_add i n = i + n" "size_sub bs i = bs - i" by (auto intro: size_add_id size_sub_id)
  then show ?thesis using assms(2) by (auto simp: clip_block_def geometry_bs [OF assms(1)])
qed


lemma read_partial_ok:
  assumes e: "env_ok e" and ready: "dev_ready q (Suc k) w" and srv: "scsi_server (e_serve e) disk bs nblk"
    and part: "partial_ok dev bs nblk lba" and i: "i < bs" "n < 2 ^ 63"
    and room: "rm_room (e_rm e) L 3 (s_blocks (w_sys w))" "sizeof_resp \<le> L" "bs \<le> L"
    and live: "live_range (s_blocks (w_sys w)) buf c" and c: "c = min n (bs - i)"
  obtains w' where "read_partial_block e dev lba i buf n w = Some (int c, w')" "dev_step q k w w'"
    "mem_read (m_of w') buf c = disk_read disk (w_srv w) (lba * bs + i) c"
    "disk (w_srv w') = disk (w_srv w)" "mem_kept (s_blocks (w_sys w)) buf c (m_of w) (m_of w')"
proof -
  let ?b = "s_blocks (w_sys w)"
  have rm: "rte_malloc_spec (e_rm e)" using e by (simp add: env_ok_def)
  have geo: "geometry dev bs nblk" and bs: "bs < 2 ^ 31" "block_size dev = int bs"
    using part by (auto simp: partial_ok_def geometry_def)
  obtain p w1 where al: "w_alloc_shared e (block_size dev) (block_size dev) w = (p, w1)" "dev_ready q (Suc k) w1 \<and> dev_frame w w1"
    "m_of w1 = m_of w" "w_srv w1 = w_srv w" "s_tasks (w_sys w1) = s_tasks (w_sys w)"
    "s_blocks (w_sys w1) = (p, bs) # ?b" "rm_room (e_rm e) L 2 (s_blocks (w_sys w1))"
    "live_range (s_blocks (w_sys w1)) p bs" "\<And>a n. live_range ?b a n \<Longrightarrow> disjoint_range p bs a n"
    "\<And>s. s_blocks s = s_blocks (w_sys w1) \<Longrightarrow> s_blocks (free_shared_buf p s) = ?b"
    by (rule block_buffer [OF rm ready geo room(1,3)]) blast
  obtain w2 where rd: "blk_read_virtio_dev e dev p lba 1 w1 = Some (int (1 * bs), w2)" "dev_step q k w1 w2"
    "mem_read (m_of w2) p (1 * bs) = disk_read disk (w_srv w1) (lba * bs) (1 * bs)"
    "disk (w_srv w2) = disk (w_srv w1)" "mem_kept (s_blocks (w_sys w1)) p (1 * bs) (m_of w1) (m_of w2)"
    by (rule blk_read_ok [OF e conjunct1 [OF al(2)] srv partial_io [OF part al(8)] al(7) room(2)])
  let ?w3 = "w_free_shared p (w_mem (memcpy buf (p + i) c) w2)"
  have old: "m_of w2 a = m_of w a" if "live_range ?b a 1" for a
    using mem_kept_cong [OF rd(5) [unfolded al(6)] _ that] al(3,9) by simp
  have "c < 2 ^ 31" "clip_block dev i n = c" using c i(1) bs(1) clip_block_min [OF geo i] by auto
  then have "read_partial_block e dev lba i buf n w = Some (int c, ?w3)"
    using al(1) rd(1) bs(2) by (simp add: read_partial_block_def to_int_of_nat)
  moreover have "dev_step q k w ?w3"
    using rd(2) al(2,5,10) by (auto simp: dev_step_def w_free_shared_def w_mem_def dev_frame_sys intro!: dev_ready_sys intro: dev_frame_trans)
  moreover have "mem_read (m_of ?w3) buf c = disk_read disk (w_srv w) (lba * bs + i) c"
    using disk_slice [OF rd(3), of i c] c i(1) al(4) by (simp add: w_free_shared_def w_mem_def mem_read_memcpy)
  moreover have "mem_kept ?b buf c (m_of w) (m_of ?w3)"
    using old by (auto simp: mem_kept_def w_free_shared_def w_mem_def memcpy_outside)
  ultimately show ?thesis using that [of ?w3] rd(4) al(4) by (simp add: w_free_shared_def w_mem_def)
qed

text \<open>A block that is read, patched with \<open>c\<close> bytes at \<open>i\<close> and written back changes these bytes of the disk only.\<close>

lemma patched_block:
  assumes "mem_read m p bs = disk_read disk d (lba * bs) bs" "i + c \<le> bs"
  shows "disk_write (lba * bs) (mem_read (memcpy (p + i) buf c m) p bs) (disk d) = disk_write (lba * bs + i) (mem_read m buf c) (disk d)"
proof -
  have "m (p + j) = disk d (lba * bs + j)" if "j < bs" for j
    using disk_slice [OF assms(1), of j 1] that by (simp add: mem_read_def disk_read_def)
  then show ?thesis
    by (intro disk_write_modified [of _ bs]) (use assms(2) in \<open>auto simp: memcpy_def mem_write_def\<close>)
qed

lemma write_partial_ok:
  assumes e: "env_ok e" and ready: "dev_ready q (Suc (Suc k)) w" and srv: "scsi_server (e_serve e) disk bs nblk"
    and part: "partial_ok dev bs nblk lba" and i: "i < bs" "n < 2 ^ 63"
    and room: "rm_room (e_rm e) L 3 (s_blocks (w_sys w))" "sizeof_resp \<le> L" "bs \<le> L"
    and live: "live_range (s_blocks (w_sys w)) buf c" and c: "c = min n (bs - i)"
  obtains w' where "write_partial_block e dev lba i buf n w = Some (int c, w')" "dev_step q k w w'"
    "disk (w_srv w') = disk_write (lba * bs + i) (mem_read (m_of w) buf c) (disk (w_srv w))"
    "mem_kept (s_blocks (w_sys w)) buf 0 (m_of w) (m_of w')"
proof -
  let ?b = "s_blocks (w_sys w)"
  have rm: "rte_malloc_spec (e_rm e)" using e by (simp add: env_ok_def)
  have geo: "geometry dev bs nblk" and bs: "bs < 2 ^ 31" "block_size dev = int bs"
    using part by (auto simp: partial_ok_def geometry_def)
  obtain p w1 where al: "w_alloc_shared e (block_size dev) (block_size dev) w = (p, w1)" "dev_ready q (Suc (Suc k)) w1 \<and> dev_frame w w1"
    "m_of w1 = m_of w" "w_srv w1 = w_srv w" "s_tasks (w_sys w1) = s_tasks (w_sys w)"
    "s_blocks (w_sys w1) = (p, bs) # ?b" "rm_room (e_rm e) L 2 (s_blocks (w_sys w1))"
    "live_range (s_blocks (w_sys w1)) p bs" "\<And>a n. live_range ?b a n \<Longrightarrow> disjoint_range p bs a n"
    "\<And>s. s_blocks s = s_blocks (w_sys w1) \<Longrightarrow> s_blocks (free_shared_buf p s) = ?b"
    by (rule block_buffer [OF rm ready geo room(1,3)]) blast
  note io = partial_io [OF part al(8)]
  obtain w2 where rd: "blk_read_virtio_dev e dev p lba 1 w1 = Some (int (1 * bs), w2)" "dev_step q (Suc k) w1 w2"
    "mem_read (m_of w2) p (1 * bs) = disk_read disk (w_srv w1) (lba * bs) (1 * bs)"
    "disk (w_srv w2) = disk (w_srv w1)" "mem_kept (s_blocks (w_sys w1)) p (1 * bs) (m_of w1) (m_of w2)"
    by (rule blk_read_ok [OF e conjunct1 [OF al(2)] srv io al(7) room(2)])
  let ?w2 = "w_mem (memcpy (p + i) buf c) w2"
  have w2: "dev_ready q (Suc k) ?w2" "dev_frame w ?w2" "s_blocks (w_sys ?w2) = s_blocks (w_sys w1)" "s_tasks (w_sys ?w2) = s_tasks (w_sys w1)"
    using rd(2) al(2) by (auto simp: dev_step_def w_mem_def dev_frame_sys intro!: dev_ready_sys intro: dev_frame_trans)
  obtain w3 where wr: "blk_write_virtio_dev e dev p lba 1 ?w2 = Some (int (1 * bs), w3)" "dev_step q k ?w2 w3"
    "disk (w_srv w3) = disk_write (lba * bs) (mem_read (m_of ?w2) p (1 * bs)) (disk (w_srv ?w2))"
    "mem_kept (s_blocks (w_sys ?w2)) p 0 (m_of ?w2) (m_of w3)"
    by (rule blk_write_ok [OF e w2(1) srv io [folded w2(3)] al(7) [folded w2(3)] room(2)])
  let ?w3 = "w_free_shared p w3"
  have old: "m_of w2 a = m_of w a" if "live_range ?b a 1" for a
    using mem_kept_cong [OF rd(5) [unfolded al(6)] _ that] al(3,9) by simp
  have buf: "mem_read (m_of w2) buf c = mem_read (m_of w) buf c"
    by (intro mem_read_eqI old live_range_sub [OF live]) simp_all
  have cc: "c < 2 ^ 31" "clip_block dev i n = c" "i + c \<le> bs" using c i(1) bs(1) clip_block_min [OF geo i] by auto
  then have "write_partial_block e dev lba i buf n w = Some (int c, ?w3)"
    using al(1) rd(1) wr(1) bs(2) by (simp add: write_partial_block_def to_int_of_nat)
  moreover have "dev_step q k w ?w3"
    using wr(2) w2 al(5,10) dev_frame_trans [OF w2(2), of w3]
    by (auto simp: dev_step_def w_free_shared_def dev_frame_sys simp del: dev_frame_mem intro!: dev_ready_sys)
  moreover have "disk (w_srv w3) = disk_write (lba * bs + i) (mem_read (m_of w) buf c) (disk (w_srv w))"
    using wr(3) rd(3,4) al(4) patched_block [of "m_of w2" p bs disk "w_srv w" lba i c buf] cc(3) buf by (simp add: w_mem_def)
  moreover have "mem_kept ?b buf 0 (m_of w) (m_of ?w3)"
  proof -
    have "m_of w3 a = m_of w a" if "live_range ?b a 1" for a
    proof -
      have "live_range (s_blocks (w_sys ?w2)) a 1" using that w2(3) al(6) live_range_Cons by metis
      then have "m_of w3 a = m_of ?w2 a" using wr(4) by (force simp: mem_kept_def)
      also have "\<dots> = m_of w2 a" using al(9) [OF that] cc(3) by (auto simp: w_mem_def disjoint_range_def intro!: memcpy_outside)
      finally show ?thesis using old [OF that] by simp
    qed
    then show ?thesis by (simp add: mem_kept_def w_free_shared_def)
  qed
  ultimately show ?thesis using that [of ?w3] by (simp add: w_free_shared_def)
qed


section \<open>Byte ranges\<close>

text \<open>The bytes of a request that lie on the device.\<close>

definition clip_range :: "nat \<Rightarrow> nat \<Rightarrow> nat \<Rightarrow> nat" where
  "clip_range dcap off n = min n (dcap - off)"

text \<open>
  A request for \<open>n\<close> bytes from byte \<open>off\<close>: it starts on the device, does not wrap around
  \<open>size_t\<close>, its result fits an \<open>int\<close> and its whole blocks fit a command block.
\<close>

definition byte_io :: "virtio_dev \<Rightarrow> nat \<Rightarrow> nat \<Rightarrow> nat \<Rightarrow> nat \<Rightarrow> bool" where
  "byte_io dev bs nblk off n \<longleftrightarrow> geometry dev bs nblk \<and> off \<le> bs * nblk \<and> 0 < n \<and> off + n < 2 ^ 64 \<and>
     sizeof_resp + clip_range (bs * nblk) off n < 2 ^ 31 \<and>
     (nblk > 2 ^ 32 \<or> clip_range (bs * nblk) off n div bs < 2 ^ 16)"

text \<open>
  What the byte-granular layer relies on in the block layer. \<open>ready k\<close>: the block layer can take
  \<open>k\<close> more commands; \<open>buffer\<close>: a buffer it accepts; \<open>xfer buf off n w w'\<close>: from \<open>w\<close> to \<open>w'\<close> the \<open>n\<close> bytes
  at \<open>off\<close> went between the buffer and the device and nothing else happened; \<open>cost\<close>: commands of
  an operation on part of a block.
\<close>

locale byte_access =
  fixes bs nblk :: nat
    and partial_block :: "'w partial_op"
    and blk_op :: "'w whole_op"
    and ready :: "nat \<Rightarrow> 'w \<Rightarrow> bool"
    and buffer :: "'w \<Rightarrow> ptr \<Rightarrow> nat \<Rightarrow> bool"
    and xfer :: "ptr \<Rightarrow> nat \<Rightarrow> nat \<Rightarrow> 'w \<Rightarrow> 'w \<Rightarrow> bool"
    and cost :: nat
  assumes partial_law: "ready (cost + k) w \<Longrightarrow> lba < nblk \<Longrightarrow> i < bs \<Longrightarrow> n < 2 ^ 31 \<Longrightarrow> buffer w buf (min n (bs - i)) \<Longrightarrow>
      \<exists>w'. partial_block lba i buf n w = Some (int (min n (bs - i)), w') \<and> ready k w' \<and> xfer buf (lba * bs + i) (min n (bs - i)) w w'"
    and blk_law: "ready (Suc k) w \<Longrightarrow> 0 < c \<Longrightarrow> lba + c \<le> nblk \<Longrightarrow> nblk > 2 ^ 32 \<or> c < 2 ^ 16 \<Longrightarrow> sizeof_resp + c * bs < 2 ^ 31 \<Longrightarrow>
      buffer w buf (c * bs) \<Longrightarrow>
      \<exists>w'. blk_op buf lba c w = Some (int (c * bs), w') \<and> ready k w' \<and> xfer buf (lba * bs) (c * bs) w w'"
    and ready_less: "ready (Suc k) w \<Longrightarrow> ready k w"
    and buffer_sub: "buffer w p n \<Longrightarrow> p \<le> p' \<Longrightarrow> p' + n' \<le> p + n \<Longrightarrow> buffer w p' n'"
    and buffer_kept: "xfer buf off n w w' \<Longrightarrow> buffer w' = buffer w"
    and xfer_0: "xfer buf off 0 w w"
    and xfer_trans: "xfer buf off r w w1 \<Longrightarrow> xfer (buf + r) (off + r) c w1 w2 \<Longrightarrow> buffer w buf (r + c) \<Longrightarrow>
      xfer buf off (r + c) w w2"
begin

lemma ready_le: "ready (j + k) w \<Longrightarrow> ready k w"
  by (induction j) (auto intro: ready_less)

text \<open>The first part ends at a block boundary unless the request ends before.\<close>

lemma first_block_ok:
  assumes ready: "ready (cost + k) w" and geo: "geometry dev bs nblk" and off: "off + N \<le> bs * nblk" and N: "N < 2 ^ 31"
    and buf: "buffer w buf N" and empty: "N = 0 \<longrightarrow> off mod bs = 0"
  obtains (whole) w1 where "first_block partial_block dev buf (off div bs) (to_int (int (off mod bs))) N w = Some (True, int N, 0, off div bs, w1)"
      "ready k w1" "xfer buf off N w w1"
    | (rest) r w1 where "first_block partial_block dev buf (off div bs) (to_int (int (off mod bs))) N w = Some (False, 0, r, (off + r) div bs, w1)"
      "ready k w1" "xfer buf off r w w1" "r \<le> N" "(off + r) mod bs = 0"
proof (cases "off mod bs = 0")
  case True
  with ready_le [OF ready] xfer_0 show ?thesis by (intro rest [of 0 w]) (simp_all add: first_block_def to_int_def)
next
  case False
  let ?i = "off mod bs" and ?lba = "off div bs"
  have bs: "0 < bs" "bs < 2 ^ 31" "block_size dev = int bs" using geo by (auto simp: geometry_def)
  have i: "?i < bs" "0 < ?i" "?i < 2 ^ 31" "?lba * bs + ?i = off" using bs False by (auto simp: order.strict_trans [OF mod_less_divisor])
  have "off < bs * nblk" using off empty False by (cases "N = 0") auto
  then have lba: "?lba < nblk" using bs(1) by (simp add: less_mult_imp_div_less mult.commute)
  let ?c = "min N (bs - ?i)"
  have "buffer w buf ?c" by (rule buffer_sub [OF buf]) simp_all
  then obtain w1 where w1: "partial_block ?lba ?i buf N w = Some (int ?c, w1)" "ready k w1" "xfer buf off ?c w w1"
    using partial_law [OF ready lba i(1) N] i(4) by auto
  have conv: "to_int (int ?i) = int ?i" "to_size (int ?i) = ?i" using i(3) by (simp_all add: to_int_of_nat to_size_of_nat)
  show ?thesis
  proof (cases "N < bs - ?i")
    case True
    with w1 conv i bs show ?thesis by (intro whole [of w1]) (simp_all add: first_block_def)
  next
    case False
    define c where "c = bs - ?i"
    have c: "min N (bs - ?i) = c" "int c = int bs - int ?i" "c \<le> N" using False i(1) by (auto simp: c_def)
    have "off + c = Suc ?lba * bs" unfolding c_def using i(1,4) mult_Suc [of ?lba bs] by linarith
    then have "(off + c) div bs = Suc ?lba" "(off + c) mod bs = 0" using bs(1) by simp_all
    with w1 [unfolded c(1)] c conv i bs show ?thesis by (intro rest [of c w1]) (simp_all add: first_block_def)
  qed
qed

lemma full_blocks_ok:
  assumes ready: "ready (Suc k) w1" and geo: "geometry dev bs nblk" and off: "off + N \<le> bs * nblk" and N: "sizeof_resp + N < 2 ^ 31"
    and fits: "nblk > 2 ^ 32 \<or> N div bs < 2 ^ 16" and buf: "buffer w buf N"
    and r: "xfer buf off r w w1" "r \<le> N" "(off + r) mod bs = 0"
  obtains r' w2 where "full_blocks blk_op dev buf r ((off + r) div bs) ((N - r) div bs) w1 = Some (False, 0, r', (off + r') div bs, w2)"
    "ready k w2" "xfer buf off r' w w2" "r' \<le> N" "N - r' < bs" "(off + r') mod bs = 0"
proof -
  define lba c where "lba = (off + r) div bs" and "c = (N - r) div bs"
  have bs: "0 < bs" "bs_of dev = bs" "bs * nblk < 2 ^ 64" using geo geometry_bs by (auto simp: geometry_def)
  have lba_bs: "lba * bs = off + r" unfolding lba_def using r(3) by (metis add.right_neutral div_mult_mod_eq)
  have cN: "c * bs \<le> N - r" "(N - r) - c * bs < bs"
    unfolding c_def using bs(1) by (simp_all add: minus_div_mult_eq_mod)
  have sum: "(lba + c) * bs = off + (r + c * bs)" by (simp only: distrib_right lba_bs add.assoc)
  have part: "r + c * bs \<le> N" "N - (r + c * bs) < bs" using cN r(2) by linarith+
  have "(lba + c) * bs \<le> nblk * bs" unfolding sum using off part(1) mult.commute [of bs nblk] by linarith
  then have le: "lba + c \<le> nblk" using bs(1) by simp
  have "off + (r + c * bs) = (lba + c) * bs" using sum by simp
  then have next_blk: "(off + (r + c * bs)) div bs = lba + c" "(off + (r + c * bs)) mod bs = 0" using bs(1) by simp_all
  show ?thesis
  proof (cases "c = 0")
    case True
    with part next_blk ready r show ?thesis
      by (intro that [of r w1]) (auto simp: full_blocks_def lba_def [symmetric] c_def [symmetric] intro: ready_less)
  next
    case False
    have "c \<le> N div bs" unfolding c_def by (simp add: div_le_mono)
    then have cc: "nblk > 2 ^ 32 \<or> c < 2 ^ 16" "sizeof_resp + c * bs < 2 ^ 31" using fits N cN(1) by linarith+
    have "buffer w1 (buf + r) (c * bs)"
      unfolding buffer_kept [OF r(1)] by (rule buffer_sub [OF buf]) (use part(1) in simp_all)
    then obtain w2 where w2: "blk_op (buf + r) lba c w1 = Some (int (c * bs), w2)" "ready k w2" "xfer (buf + r) (off + r) (c * bs) w1 w2"
      using blk_law [OF ready _ le cc] False lba_bs by auto
    have "buffer w buf (r + c * bs)" by (rule buffer_sub [OF buf]) (use part(1) in simp_all)
    then have x: "xfer buf off (r + c * bs) w w2" by (rule xfer_trans [OF r(1) w2(3)])
    have "nblk \<le> bs * nblk" using bs(1) by simp
    then have "size_add lba c = lba + c" using le bs(3) by (intro size_add_id) linarith
    moreover have "size_mul c (bs_of dev) = c * bs" using cc(2) bs(2) by (simp add: size_mul_id)
    ultimately show ?thesis using w2 x part next_blk False
      by (intro that [of "r + c * bs" w2]) (simp_all add: full_blocks_def lba_def [symmetric] c_def [symmetric] del: of_nat_mult)
  qed
qed

lemma last_block_ok:
  assumes ready: "ready (cost + k) w2" and geo: "geometry dev bs nblk" and off: "off + N \<le> bs * nblk" and N: "N < 2 ^ 31"
    and buf: "buffer w buf N"
    and r: "xfer buf off r w w2" "r \<le> N" "N - r < bs" "(off + r) mod bs = 0"
  obtains w3 where "last_block partial_block dev buf r ((off + r) div bs) (to_int (int (N - r))) w2 = Some (int N, w3)"
    "ready k w3" "xfer buf off N w w3"
proof (cases "N = r")
  case True
  have "to_int 0 = 0" by (simp add: to_int_def)
  with True ready_le [OF ready] r N show ?thesis by (intro that [of w2]) (simp_all add: last_block_def to_int_of_nat)
next
  case False
  let ?lba = "(off + r) div bs"
  have bs: "0 < bs" using geo by (simp add: geometry_def)
  have "off + r < bs * nblk" using off False r(2) by simp
  then have lba: "?lba < nblk" "?lba * bs = off + r"
    using bs r(4) by (auto simp: less_mult_imp_div_less mult.commute)
  have conv: "to_int (int (N - r)) = int (N - r)" "to_size (int (N - r)) = N - r" using N by (simp_all add: to_int_of_nat to_size_of_nat)
  have "min (N - r) (bs - 0) = N - r" using r(3) by simp
  moreover have "buffer w2 (buf + r) (N - r)"
    unfolding buffer_kept [OF r(1)] by (rule buffer_sub [OF buf]) (use r(2) in simp_all)
  moreover have "N - r < 2 ^ 31" using N by simp
  ultimately obtain w3 where w3: "partial_block ?lba 0 (buf + r) (N - r) w2 = Some (int (N - r), w3)" "ready k w3"
    "xfer (buf + r) (off + r) (N - r) w2 w3"
    using partial_law [OF ready lba(1) bs, of "N - r" "buf + r"] lba(2) by auto
  have "xfer buf off (r + (N - r)) w w3" by (rule xfer_trans [OF r(1) w3(3)]) (use buf r(2) in simp)
  with w3(1,2) conv False r(2) N show ?thesis by (intro that [of w3]) (simp_all add: last_block_def to_int_of_nat)
qed

theorem access_bytes_ok:
  assumes ready: "ready (cost + Suc (cost + k)) w" and io: "byte_io dev bs nblk off n"
    and buf: "buffer w buf (clip_range (bs * nblk) off n)"
  shows "\<exists>w'. access_bytes partial_block blk_op dev buf off n w = Some (int (clip_range (bs * nblk) off n), w') \<and>
    ready k w' \<and> xfer buf off (clip_range (bs * nblk) off n) w w'"
proof -
  define N where "N = clip_range (bs * nblk) off n"
  have geo: "geometry dev bs nblk" and N: "sizeof_resp + N < 2 ^ 31" "N < 2 ^ 31" and fits: "nblk > 2 ^ 32 \<or> N div bs < 2 ^ 16"
    and off: "off \<le> bs * nblk" "off + N \<le> bs * nblk" and n: "0 < n" "off + n < 2 ^ 64"
    using io by (auto simp: byte_io_def N_def clip_range_def)
  have bs: "bs_of dev = bs" "0 < bs" "cap dev = bs * nblk" "bs * nblk < 2 ^ 64" using geo geometry_bs by (auto simp: geometry_def)
  have clip: "(if size_add off n > cap dev then size_sub (cap dev) off else n) = N"
    using n off bs by (auto simp: size_add_id size_sub_id N_def clip_range_def)
  have "off = bs * nblk" if "N = 0" using that n off by (simp add: N_def clip_range_def min_def split: if_splits)
  then have empty: "N = 0 \<longrightarrow> off mod bs = 0" by simp
  have sub: "size_sub N r = N - r" if "r \<le> N" for r using that N(2) by (intro size_sub_id) simp_all
  have "\<exists>w'. access_bytes partial_block blk_op dev buf off n w = Some (int N, w') \<and> ready k w' \<and> xfer buf off N w w'"
  proof (cases rule: first_block_ok [OF ready geo off(2) N(2) buf [folded N_def] empty, case_names whole rest])
    case (whole w1)
    then have "access_bytes partial_block blk_op dev buf off n w = Some (int N, w1)"
      unfolding access_bytes_def Let_def clip unfolding bs using off(1) n(1) bs(2) by simp
    then show ?thesis using whole(2,3) ready_le [of "Suc cost" k w1] by auto
  next
    case (rest r w1)
    obtain r' w2 where full: "full_blocks blk_op dev buf r ((off + r) div bs) ((N - r) div bs) w1 = Some (False, 0, r', (off + r') div bs, w2)"
      "ready (cost + k) w2" "xfer buf off r' w w2" "r' \<le> N" "N - r' < bs" "(off + r') mod bs = 0"
      by (rule full_blocks_ok [OF rest(2) geo off(2) N(1) fits buf [folded N_def] rest(3-5)])
    obtain w3 where fin: "last_block partial_block dev buf r' ((off + r') div bs) (to_int (int (N - r'))) w2 = Some (int N, w3)"
      "ready k w3" "xfer buf off N w w3"
      by (rule last_block_ok [OF full(2) geo off(2) N(2) buf [folded N_def] full(3-6)])
    have "(N - r') mod bs = N - r'" using full(5) by simp
    then have "access_bytes partial_block blk_op dev buf off n w = Some (int N, w3)"
      unfolding access_bytes_def Let_def clip unfolding bs
      using rest(1) full(1) fin(1) off(1) n(1) bs(2) sub [OF rest(4)] sub [OF full(4)] by simp
    then show ?thesis using fin(2,3) by blast
  qed
  then show ?thesis unfolding N_def .
qed

end


section \<open>The synchronous interface of the device\<close>

text \<open>
  The block layer of a device with blocks of \<open>bs\<close> bytes: its environment, the geometry and room for
  the block buffer and for \<open>k\<close> commands.
\<close>

definition sync_ready :: "('d, 'z) env \<Rightarrow> virtio_dev \<Rightarrow> ('d \<Rightarrow> nat \<Rightarrow> u8) \<Rightarrow> nat \<Rightarrow> nat \<Rightarrow> vqueue \<Rightarrow> nat
    \<Rightarrow> ('d, 'z) pworld_scheme \<Rightarrow> bool" where
  "sync_ready e dev disk bs nblk q k w \<longleftrightarrow> env_ok e \<and> scsi_server (e_serve e) disk bs nblk \<and> geometry dev bs nblk \<and>
     rm_room (e_rm e) (max sizeof_resp bs) 3 (s_blocks (w_sys w)) \<and> dev_ready q k w"

definition read_xfer :: "('d \<Rightarrow> nat \<Rightarrow> u8) \<Rightarrow> ptr \<Rightarrow> nat \<Rightarrow> nat \<Rightarrow> ('d, 'z) pworld_scheme \<Rightarrow> ('d, 'z) pworld_scheme \<Rightarrow> bool" where
  "read_xfer disk buf off n w w' \<longleftrightarrow> s_blocks (w_sys w') = s_blocks (w_sys w) \<and> s_tasks (w_sys w') = s_tasks (w_sys w) \<and>
     mem_read (m_of w') buf n = disk_read disk (w_srv w) off n \<and> disk (w_srv w') = disk (w_srv w) \<and>
     mem_kept (s_blocks (w_sys w)) buf n (m_of w) (m_of w')"

definition write_xfer :: "('d \<Rightarrow> nat \<Rightarrow> u8) \<Rightarrow> ptr \<Rightarrow> nat \<Rightarrow> nat \<Rightarrow> ('d, 'z) pworld_scheme \<Rightarrow> ('d, 'z) pworld_scheme \<Rightarrow> bool" where
  "write_xfer disk buf off n w w' \<longleftrightarrow> s_blocks (w_sys w') = s_blocks (w_sys w) \<and> s_tasks (w_sys w') = s_tasks (w_sys w) \<and>
     disk (w_srv w') = disk_write off (mem_read (m_of w) buf n) (disk (w_srv w)) \<and>
     mem_kept (s_blocks (w_sys w)) buf 0 (m_of w) (m_of w')"

lemma sync_ready_step: "sync_ready e dev disk bs nblk q j w \<Longrightarrow> dev_step q k w w' \<Longrightarrow> sync_ready e dev disk bs nblk q k w'"
  by (simp add: sync_ready_def dev_step_def)

lemma sync_ready_less: "sync_ready e dev disk bs nblk q (Suc k) w \<Longrightarrow> sync_ready e dev disk bs nblk q k w"
  by (simp add: sync_ready_def dev_ready_less)

lemma sync_ready_room:
  assumes "sync_ready e dev disk bs nblk q k w"
  shows "env_ok e" "scsi_server (e_serve e) disk bs nblk" "geometry dev bs nblk" "dev_ready q k w"
    "rm_room (e_rm e) (max sizeof_resp bs) 3 (s_blocks (w_sys w))" "rm_room (e_rm e) (max sizeof_resp bs) 2 (s_blocks (w_sys w))"
  using assms rm_room_less [of "e_rm e" "max sizeof_resp bs" 2 "s_blocks (w_sys w)"] by (simp_all add: sync_ready_def)

lemma sync_partial: "sync_ready e dev disk bs nblk q k w \<Longrightarrow> lba < nblk \<Longrightarrow> partial_ok dev bs nblk lba"
  by (simp add: sync_ready_def partial_ok_def geometry_def sizeof_resp_def)

lemma read_xfer_trans:
  assumes r: "read_xfer disk buf off r w w1" and c: "read_xfer disk (buf + r) (off + r) c w1 w2"
    and live: "live_range (s_blocks (w_sys w)) buf (r + c)"
  shows "read_xfer disk buf off (r + c) w w2"
proof -
  have b: "s_blocks (w_sys w1) = s_blocks (w_sys w)" using r by (simp add: read_xfer_def)
  have k2: "m_of w2 a = m_of w1 a" if "live_range (s_blocks (w_sys w)) a 1" "a < buf + r \<or> buf + r + c \<le> a" for a
    using c that b by (auto simp: read_xfer_def mem_kept_def)
  have "mem_read (m_of w2) buf r = mem_read (m_of w1) buf r"
    by (intro mem_read_eqI k2 live_range_sub [OF live]) simp_all
  then have "mem_read (m_of w2) buf (r + c) = disk_read disk (w_srv w) off (r + c)"
    using r c by (simp add: mem_read_append disk_read_append read_xfer_def) (simp add: disk_read_def)
  moreover have "mem_kept (s_blocks (w_sys w)) buf (r + c) (m_of w) (m_of w2)"
    using r k2 by (auto simp: read_xfer_def mem_kept_def)
  ultimately show ?thesis using r c by (simp add: read_xfer_def)
qed

lemma write_xfer_trans:
  assumes r: "write_xfer disk buf off r w w1" and c: "write_xfer disk (buf + r) (off + r) c w1 w2"
    and live: "live_range (s_blocks (w_sys w)) buf (r + c)"
  shows "write_xfer disk buf off (r + c) w w2"
proof -
  have b: "s_blocks (w_sys w1) = s_blocks (w_sys w)" using r by (simp add: write_xfer_def)
  have k1: "m_of w1 a = m_of w a" if "live_range (s_blocks (w_sys w)) a 1" for a
    using r that by (cases "a < buf") (auto simp: write_xfer_def mem_kept_def)
  have "m_of w2 a = m_of w1 a" if "live_range (s_blocks (w_sys w)) a 1" for a
    using c that b by (cases "a < buf + r") (auto simp: write_xfer_def mem_kept_def)
  with k1 have kept: "mem_kept (s_blocks (w_sys w)) buf 0 (m_of w) (m_of w2)" by (simp add: mem_kept_def)
  have "mem_read (m_of w1) (buf + r) c = mem_read (m_of w) (buf + r) c"
    by (intro mem_read_eqI k1 live_range_sub [OF live]) simp_all
  then have "disk (w_srv w2) = disk_write off (mem_read (m_of w) buf (r + c)) (disk (w_srv w))"
    using r c disk_write_append [of off "mem_read (m_of w) buf r"] by (simp add: write_xfer_def mem_read_append)
  with kept r c show ?thesis by (simp add: write_xfer_def)
qed

lemma xfer_blocks:
  "read_xfer disk buf off n w w' \<Longrightarrow> s_blocks (w_sys w') = s_blocks (w_sys w)"
  "write_xfer disk buf off n w w' \<Longrightarrow> s_blocks (w_sys w') = s_blocks (w_sys w)"
  by (simp_all add: read_xfer_def write_xfer_def)

lemma xfer_0: "read_xfer disk buf off 0 w w" "write_xfer disk buf off 0 w w"
  by (simp_all add: read_xfer_def write_xfer_def mem_kept_def disk_read_def)

lemma rw_fits_block:
  assumes "geometry dev bs nblk" "lba + c \<le> nblk" "0 < c" "nblk > 2 ^ 32 \<or> c < 2 ^ 16" "sizeof_resp + c * bs < 2 ^ 32"
  shows "rw_fits dev lba c"
proof -
  have "nblk \<le> bs * nblk" "bs * nblk < 2 ^ 64" "num_blocks dev = nblk" "c \<le> c * bs" using assms(1) by (simp_all add: geometry_def)
  moreover from this assms(2) have "lba < 2 ^ 64" by linarith
  moreover have "c * bs < 2 ^ 32" using assms(5) by simp
  from le_less_trans [OF calculation(4) this] have "c < 2 ^ 32" .
  ultimately show ?thesis using assms(2-4) by (auto simp: rw_fits_def)
qed


interpretation reading: byte_access bs nblk "read_partial_block e dev" "blk_read_virtio_dev e dev"
    "sync_ready e dev disk bs nblk q" "\<lambda>w. live_range (s_blocks (w_sys w))" "\<lambda>buf off n w w'. read_xfer disk buf off n w w' \<and> dev_frame w w'" 1
  for bs nblk and e :: "('d, 'z) env" and dev disk q
proof unfold_locales
  fix k lba i n buf and w :: "('d, 'z) pworld_scheme"
  assume r: "sync_ready e dev disk bs nblk q (1 + k) w" and i: "lba < nblk" "i < bs" "n < 2 ^ 31"
    and live: "live_range (s_blocks (w_sys w)) buf (min n (bs - i))"
  note a = sync_ready_room [OF r]
  have n: "n < 2 ^ 63" using i(3) by simp
  show "\<exists>w'. read_partial_block e dev lba i buf n w = Some (int (min n (bs - i)), w') \<and> sync_ready e dev disk bs nblk q k w' \<and>
      (read_xfer disk buf (lba * bs + i) (min n (bs - i)) w w' \<and> dev_frame w w')"
    by (rule read_partial_ok [OF a(1) a(4) [simplified] a(2) sync_partial [OF r i(1)] i(2) n a(5) _ _ live refl])
      (use sync_ready_step [OF r] in \<open>auto simp: read_xfer_def dev_step_def\<close>)
next
  fix k lba c buf and w :: "('d, 'z) pworld_scheme"
  assume r: "sync_ready e dev disk bs nblk q (Suc k) w" and c: "0 < c" "lba + c \<le> nblk" "nblk > 2 ^ 32 \<or> c < 2 ^ 16"
      "sizeof_resp + c * bs < 2 ^ 31"
    and live: "live_range (s_blocks (w_sys w)) buf (c * bs)"
  note a = sync_ready_room [OF r]
  have io: "io_ok dev bs nblk (s_blocks (w_sys w)) buf lba c"
    using a(3) rw_fits_block [OF a(3) c(2,1,3)] c live by (simp add: io_ok_def)
  show "\<exists>w'. blk_read_virtio_dev e dev buf lba c w = Some (int (c * bs), w') \<and> sync_ready e dev disk bs nblk q k w' \<and>
      (read_xfer disk buf (lba * bs) (c * bs) w w' \<and> dev_frame w w')"
    by (rule blk_read_ok [OF a(1,4,2) io a(6)]) (use sync_ready_step [OF r] in \<open>auto simp: read_xfer_def dev_step_def\<close>)
qed (auto intro: sync_ready_less live_range_sub read_xfer_trans xfer_0 dev_frame_trans simp: xfer_blocks)

interpretation writing: byte_access bs nblk "write_partial_block e dev" "blk_write_virtio_dev e dev"
    "sync_ready e dev disk bs nblk q" "\<lambda>w. live_range (s_blocks (w_sys w))" "\<lambda>buf off n w w'. write_xfer disk buf off n w w' \<and> dev_frame w w'" 2
  for bs nblk and e :: "('d, 'z) env" and dev disk q
proof unfold_locales
  fix k lba i n buf and w :: "('d, 'z) pworld_scheme"
  assume r: "sync_ready e dev disk bs nblk q (2 + k) w" and i: "lba < nblk" "i < bs" "n < 2 ^ 31"
    and live: "live_range (s_blocks (w_sys w)) buf (min n (bs - i))"
  note a = sync_ready_room [OF r]
  have n: "n < 2 ^ 63" using i(3) by simp
  show "\<exists>w'. write_partial_block e dev lba i buf n w = Some (int (min n (bs - i)), w') \<and> sync_ready e dev disk bs nblk q k w' \<and>
      (write_xfer disk buf (lba * bs + i) (min n (bs - i)) w w' \<and> dev_frame w w')"
    by (rule write_partial_ok [OF a(1) a(4) [simplified] a(2) sync_partial [OF r i(1)] i(2) n a(5) _ _ live refl])
      (use sync_ready_step [OF r] in \<open>auto simp: write_xfer_def dev_step_def\<close>)
next
  fix k lba c buf and w :: "('d, 'z) pworld_scheme"
  assume r: "sync_ready e dev disk bs nblk q (Suc k) w" and c: "0 < c" "lba + c \<le> nblk" "nblk > 2 ^ 32 \<or> c < 2 ^ 16"
      "sizeof_resp + c * bs < 2 ^ 31"
    and live: "live_range (s_blocks (w_sys w)) buf (c * bs)"
  note a = sync_ready_room [OF r]
  have io: "io_ok dev bs nblk (s_blocks (w_sys w)) buf lba c"
    using a(3) rw_fits_block [OF a(3) c(2,1,3)] c live by (simp add: io_ok_def)
  show "\<exists>w'. blk_write_virtio_dev e dev buf lba c w = Some (int (c * bs), w') \<and> sync_ready e dev disk bs nblk q k w' \<and>
      (write_xfer disk buf (lba * bs) (c * bs) w w' \<and> dev_frame w w')"
    by (rule blk_write_ok [OF a(1,4,2) io a(6)]) (use sync_ready_step [OF r] in \<open>auto simp: write_xfer_def dev_step_def\<close>)
qed (auto intro: sync_ready_less live_range_sub write_xfer_trans xfer_0 dev_frame_trans simp: xfer_blocks)

end
