(* ===== verification/Disk_Server.thy ===== *)
theory Disk_Server
  imports Virtio_Bytes Poller_Theorems
begin

text \<open>
  A block device behind the vhost socket, for the concrete instances: it follows the chain
  that was announced last, decodes the command block, moves the data and completes the chain.
  It meets the contract that the device layer relies on, so the contract can be met.
\<close>

section \<open>The server\<close>

fun walk_chain :: "nat \<Rightarrow> vring_desc list \<Rightarrow> u16 \<Rightarrow> (ptr \<times> nat \<times> bool) list" where
  "walk_chain 0 ds i = []"
| "walk_chain (Suc f) ds i =
     (let d = ds ! unat i
      in (unat (d_addr d), unat (d_len d), d_flags d AND VIRTIO_DESC_F_WRITE \<noteq> 0) #
         (if d_flags d AND VIRTIO_DESC_F_NEXT \<noteq> 0 then walk_chain f ds (d_next d) else []))"

fun scatter :: "(ptr \<times> nat \<times> bool) list \<Rightarrow> u8 list \<Rightarrow> mem \<Rightarrow> mem" where
  "scatter [] xs m = m"
| "scatter ((p, n, wr) # bs) xs m = scatter bs (drop n xs) (mem_write p (take n xs) m)"

definition gather :: "mem \<Rightarrow> (ptr \<times> nat \<times> bool) list \<Rightarrow> u8 list" where
  "gather m bs = concat (map (\<lambda>(p, n, wr). mem_read m p n) bs)"

definition disk_server :: "nat \<Rightarrow> (nat \<Rightarrow> u8) server" where
  "disk_server bs vr m d =
     (let chain = walk_chain 1024 (desc (shm vr)) (last_announced vr);
          writable = filter (\<lambda>(p, n, wr). wr) chain;
          readable = filter (\<lambda>(p, n, wr). \<not> wr) chain;
          resp = fst (hd writable);
          m1 = memset resp 0 sizeof_resp m
      in case decode_cdb m (fst (hd chain) + 19) of
           Some (False, lba, n) \<Rightarrow> (used_push (ucast (last_announced vr)) (of_nat (sizeof_resp + n * bs)) vr,
             scatter (tl writable) (map d [lba * bs..<lba * bs + n * bs]) m1, d)
         | Some (True, lba, n) \<Rightarrow> (used_push (ucast (last_announced vr)) (of_nat sizeof_resp) vr,
             m1, disk_write (lba * bs) (gather m (tl readable)) d)
         | None \<Rightarrow> (used_push (ucast (last_announced vr)) 0 vr, m, d))"


section \<open>It meets the contract\<close>

definition view :: "virtio_buffer \<Rightarrow> ptr \<times> nat \<times> bool" where
  "view b = (vb_buf b, vb_size b, vb_response b)"

lemma desc_chain_Cons_iff:
  "desc_chain ds (i # c) (b # bufs) \<longleftrightarrow> desc_holds (ds ! unat i) b (c = []) \<and> (c \<noteq> [] \<longrightarrow> d_next (ds ! unat i) = hd c) \<and>
     desc_chain ds c bufs"
  by (auto simp: desc_chain_def All_less_Suc2 hd_conv_nth nth_Cons split: nat.splits)

lemma walk_chain_bufs:
  assumes "desc_chain ds c bufs" "c \<noteq> []" "length c \<le> f" "\<forall>b \<in> set bufs. vb_buf b < 2 ^ 64 \<and> vb_size b < 2 ^ 32"
  shows "walk_chain f ds (hd c) = map view bufs"
  using assms
proof (induction c arbitrary: bufs f)
  case (Cons i c)
  then obtain b bs g where bufs: "bufs = b # bs" "f = Suc g" by (cases bufs; cases f) (auto simp: desc_chain_def)
  have d: "desc_holds (ds ! unat i) b (c = [])" "c \<noteq> [] \<Longrightarrow> d_next (ds ! unat i) = hd c" "desc_chain ds c bs"
    using Cons.prems(1) by (auto simp: bufs desc_chain_Cons_iff)
  have "walk_chain g ds (hd c) = map view bs" if "c \<noteq> []"
    using Cons.IH [OF d(3) that, of g] Cons.prems(3,4) bufs by simp
  moreover have "c = [] \<Longrightarrow> bs = []" using d(3) by (simp add: desc_chain_def)
  moreover have "unat (d_addr (ds ! unat i)) = vb_buf b" "unat (d_len (ds ! unat i)) = vb_size b"
    using d(1) Cons.prems(4) bufs by (simp_all add: desc_holds_def unat_of_nat)
  ultimately show ?case using d(1,2) bufs
    by (cases "c = []") (auto simp: Let_def view_def desc_holds_def VIRTIO_DESC_F_WRITE_def VIRTIO_DESC_F_NEXT_def)
qed simp

lemma scatter_outside: "(\<And>b. b \<in> set bs \<Longrightarrow> \<not> in_buf a b) \<Longrightarrow> scatter (map view bs) xs m a = m a"
proof (induction bs arbitrary: xs m)
  case (Cons b bs)
  then have "a < vb_buf b \<or> vb_buf b + vb_size b \<le> a" by (auto simp: in_buf_def not_le not_less)
  then have "mem_write (vb_buf b) (take (vb_size b) xs) m a = m a" by (intro mem_write_outside) auto
  with Cons show ?case by (simp add: view_def)
qed simp

lemma gathered_scatter:
  "bufs_ok bs \<Longrightarrow> sum_list (map vb_size bs) = length xs \<Longrightarrow> gathered (scatter (map view bs) xs m) bs = xs"
proof (induction bs arbitrary: xs m)
  case (Cons b bs)
  let ?m = "mem_write (vb_buf b) (take (vb_size b) xs) m"
  have "mem_read (scatter (map view bs) (drop (vb_size b) xs) ?m) (vb_buf b) (vb_size b) = mem_read ?m (vb_buf b) (vb_size b)"
    using Cons.prems(1) by (intro mem_read_eqI scatter_outside) (auto simp: bufs_ok_Cons disjoint_range_def in_buf_def)
  also have "\<dots> = take (vb_size b) xs" using Cons.prems(2) by (intro mem_read_write_same) simp
  finally have head: "mem_read (scatter (map view bs) (drop (vb_size b) xs) ?m) (vb_buf b) (vb_size b) = take (vb_size b) xs" .
  have "gathered (scatter (map view bs) (drop (vb_size b) xs) ?m) bs = drop (vb_size b) xs"
    using Cons.prems by (intro Cons.IH) (simp_all add: bufs_ok_Cons)
  moreover have "scatter (map view (b # bs)) xs m = scatter (map view bs) (drop (vb_size b) xs) ?m" by (simp add: view_def)
  ultimately show ?case using head by (simp add: gathered_def)
qed (simp add: gathered_def)

lemma gather_view: "gather m (map view bs) = gathered m bs"
  by (simp add: gather_def gathered_def view_def o_def)

lemma announces_walk:
  assumes "announces vr bufs" "bufs_ok bufs"
  shows "walk_chain 1024 (desc (shm vr)) (last_announced vr) = map view bufs"
proof -
  from assms(1) obtain c where c: "c \<noteq> []" "distinct c" "\<forall>i \<in> set c. unat i < 1024" "hd c = last_announced vr"
    "desc_chain (desc (shm vr)) c bufs" by (auto simp: announces_def)
  have "length c = card (unat ` set c)" using c(2) by (simp add: card_image inj_on_def distinct_card unat_eq_iff)
  also have "\<dots> \<le> card {..<1024 :: nat}" using c(3) by (intro card_mono) auto
  finally have "length c \<le> 1024" by simp
  moreover have "\<forall>b \<in> set bufs. vb_buf b < 2 ^ 64 \<and> vb_size b < 2 ^ 32" using assms(2) by (auto simp: bufs_ok_def)
  ultimately show ?thesis using walk_chain_bufs [OF c(5,1)] c(4) by simp
qed

lemma filter_view:
  "(\<forall>b \<in> set bs. vb_response b) \<Longrightarrow> filter (\<lambda>(p, n, wr). wr) (map view bs) = map view bs"
  "(\<forall>b \<in> set bs. \<not> vb_response b) \<Longrightarrow> filter (\<lambda>(p, n, wr). wr) (map view bs) = []"
  "(\<forall>b \<in> set bs. \<not> vb_response b) \<Longrightarrow> filter (\<lambda>(p, n, wr). \<not> wr) (map view bs) = map view bs"
  by (auto simp: view_def intro!: filter_True filter_False)

lemma resp_good_memset: "resp_good (memset p 0 sizeof_resp m) p"
  by (simp add: resp_good_def resp_response_def resp_status_def memset_inside sizeof_resp_def VIRTIO_SCSI_S_OK_def SPDK_SCSI_STATUS_GOOD_def)

lemma disk_server_reads: "scsi_read_spec (disk_server bs) id bs nblk"
  unfolding scsi_read_spec_def
proof (intro allI impI)
  fix d :: "nat \<Rightarrow> u8" and m breq bresp bdata lba n
  assume req: "request_ok m breq False lba n" and resp: "vb_size bresp = sizeof_resp" "vb_response bresp"
    and data: "\<forall>b \<in> set bdata. vb_response b" "sum_list (map vb_size bdata) = n * bs" and ok: "bufs_ok (breq # bresp # bdata)"
  let ?m = "memset (vb_buf bresp) 0 sizeof_resp m" and ?xs = "map d [lba * bs..<lba * bs + n * bs]"
  let ?m' = "scatter (map view bdata) ?xs ?m"
  have "serves (disk_server bs) (breq # bresp # bdata) m d (of_nat (sizeof_resp + n * bs)) ?m' d"
    unfolding serves_def
  proof (intro allI impI)
    fix vr assume "announces vr (breq # bresp # bdata)"
    from announces_walk [OF this ok] show "disk_server bs vr m d =
        (used_push (ucast (last_announced vr)) (of_nat (sizeof_resp + n * bs)) vr, ?m', d)"
      using req resp data by (simp add: disk_server_def Let_def filter_view(1)) (simp add: request_ok_def view_def)
  qed
  moreover have "gathered ?m' bdata = ?xs" using ok data(2) by (intro gathered_scatter) (simp_all add: bufs_ok_Cons)
  moreover have "?m' a = ?m a" if "in_buf a bresp" for a
    using ok that by (intro scatter_outside) (auto simp: bufs_ok_Cons disjoint_range_def in_buf_def)
  then have "resp_good ?m' (vb_buf bresp)"
    using resp_good_memset [of "vb_buf bresp" m] resp(1)
    by (simp add: resp_good_def resp_response_def resp_status_def in_buf_def sizeof_resp_def)
  moreover have "?m' a = m a" if "\<not> in_buf a bresp" "\<forall>b \<in> set bdata. \<not> in_buf a b" for a
    using that resp(1) scatter_outside [of bdata a ?xs ?m] memset_outside [of a "vb_buf bresp" sizeof_resp 0 m]
    by (simp add: in_buf_def not_le not_less)
  ultimately show "\<exists>m' d'. serves (disk_server bs) (breq # bresp # bdata) m d (of_nat (sizeof_resp + n * bs)) m' d' \<and>
      resp_good m' (vb_buf bresp) \<and> gathered m' bdata = disk_read id d (lba * bs) (n * bs) \<and> id d' = id d \<and>
      (\<forall>a. \<not> in_buf a bresp \<longrightarrow> (\<forall>b \<in> set bdata. \<not> in_buf a b) \<longrightarrow> m' a = m a)"
    by (intro exI [of _ ?m'] exI [of _ d]) (simp add: disk_read_def)
qed

lemma disk_server_writes: "scsi_write_spec (disk_server bs) id bs nblk"
  unfolding scsi_write_spec_def
proof (intro allI impI)
  fix d :: "nat \<Rightarrow> u8" and m breq bresp bdata lba n
  assume req: "request_ok m breq True lba n" and resp: "vb_size bresp = sizeof_resp" "vb_response bresp"
    and data: "\<forall>b \<in> set bdata. \<not> vb_response b" and ok: "bufs_ok (breq # bdata @ [bresp])"
  let ?m = "memset (vb_buf bresp) 0 sizeof_resp m" and ?d = "disk_write (lba * bs) (gathered m bdata) d"
  have "serves (disk_server bs) (breq # bdata @ [bresp]) m d (of_nat sizeof_resp) ?m ?d"
    unfolding serves_def
  proof (intro allI impI)
    fix vr assume "announces vr (breq # bdata @ [bresp])"
    from announces_walk [OF this ok] show "disk_server bs vr m d = (used_push (ucast (last_announced vr)) (of_nat sizeof_resp) vr, ?m, ?d)"
      using req resp data by (simp add: disk_server_def Let_def filter_view) (simp add: request_ok_def view_def gather_view)
  qed
  moreover have "?m a = m a" if "\<not> in_buf a bresp" for a using that resp(1) by (auto simp: in_buf_def not_le not_less intro!: memset_outside)
  ultimately show "\<exists>l m' d'. serves (disk_server bs) (breq # bdata @ [bresp]) m d l m' d' \<and> resp_good m' (vb_buf bresp) \<and>
      id d' = disk_write (lba * bs) (gathered m bdata) (id d) \<and> (\<forall>a. \<not> in_buf a bresp \<longrightarrow> m' a = m a)"
    using resp_good_memset by (intro exI [of _ "of_nat sizeof_resp"] exI [of _ ?m] exI [of _ ?d]) simp
qed

lemma disk_server_ok: "scsi_server (disk_server bs) id bs nblk"
  by (simp add: scsi_server_def disk_server_reads disk_server_writes)

end
