(* ===== verification/Virtio_Theorems.thy ===== *)
theory Virtio_Theorems
  imports Disk_Server
begin

text \<open>What the synchronous device layer guarantees, with concrete instances.\<close>

section \<open>A device for the instances\<close>

abbreviation bump_top :: "(ptr \<times> nat) list \<Rightarrow> nat" where
  "bump_top b \<equiv> foldr (\<lambda>(q, k) hi. max (q + k + 1) hi) b 4096"

lemma bump_room: "bump_top b + k * Suc L < 2 ^ 64 \<Longrightarrow> rm_room bump_malloc L k b"
proof (induction k arbitrary: b)
  case (Suc k)
  show ?case unfolding rm_room.simps
  proof (intro allI impI)
    fix n al assume n: "n \<le> L"
    with Suc.prems have p: "bump_malloc b n al = bump_top b" by (simp add: bump_malloc_def Let_def)
    have "bump_top b \<ge> 4096" by (induction b) (auto simp: max_def)
    moreover have "rm_room bump_malloc L k ((bump_malloc b n al, n) # b)" using Suc.prems n by (intro Suc.IH) (simp add: p max_def)
    ultimately show "bump_malloc b n al \<noteq> NULL \<and> rm_room bump_malloc L k ((bump_malloc b n al, n) # b)" by (simp add: p)
  qed
qed simp

text \<open>Eight blocks of 512 bytes; byte \<open>i\<close> of the device is \<open>i mod 256\<close>.\<close>

definition example_dev :: virtio_dev where
  "example_dev = \<lparr>block_size = 512, num_blocks = 8, cap = 4096\<rparr>"

definition example_env :: "(nat \<Rightarrow> u8, unit) env" where
  "example_env = \<lparr>e_rm = bump_malloc, e_cbs = sync_only, e_serve = disk_server 512, e_fuel = 2, e_sarg = 500\<rparr>"

definition example_disk_world :: "(nat \<Rightarrow> u8) pworld" where
  "example_disk_world = \<lparr>w_ring = example_ring, w_sys = \<lparr>s_mem = (\<lambda>a. of_nat (a div 2)), s_blocks = [(65536, 4096)], s_tasks = Map.empty,
       s_next = 200, s_nalloc = 0, s_oom = (\<lambda>_. False), s_efd = [3 \<mapsto> 0, 4 \<mapsto> 0]\<rparr>,
     w_poller = example_poller, w_woken = [], w_srv = of_nat\<rparr>"

lemma example_geometry: "geometry example_dev 512 8"
  by (simp add: geometry_def example_dev_def)

lemma example_sync_ready: "k \<le> 100 \<Longrightarrow> sync_ready example_env example_dev id 512 8 empty_queue k example_disk_world"
proof -
  assume k: "k \<le> 100"
  have "sync_only vring_submit_sync_callback = (sync_callback :: ptr \<Rightarrow> ptr \<Rightarrow> (nat \<Rightarrow> u8) pworld \<Rightarrow> _)"
    by (intro ext) (simp add: sync_only_def)
  then have "env_ok example_env" by (simp add: env_ok_def example_env_def bump_malloc_spec)
  moreover have "rm_room bump_malloc (max sizeof_resp 512) 3 [(65536, 4096)]"
    by (rule bump_room) (simp add: sizeof_resp_def)
  moreover have "dev_ready empty_queue k example_disk_world"
    using example_rep k by (simp add: dev_ready_def example_disk_world_def kick_room_def example_ring_def)
  ultimately show ?thesis
    by (simp add: sync_ready_def example_geometry disk_server_ok example_env_def example_disk_world_def)
qed

lemma example_byte_io: "byte_io example_dev 512 8 700 1000"
  using example_geometry by (simp add: byte_io_def clip_range_def sizeof_resp_def)

lemma example_live: "live_range (s_blocks (w_sys example_disk_world)) 65600 1000"
  by (simp add: live_range_def example_disk_world_def)


section \<open>The two operations\<close>

lemma read_bytes_ok:
  assumes "sync_ready e dev disk bs nblk q (3 + k) w" "byte_io dev bs nblk off n"
    "live_range (s_blocks (w_sys w)) buf (min n (bs * nblk - off))"
  obtains w' where "read_virtio_dev e dev buf off n w = Some (int (min n (bs * nblk - off)), w')"
    "sync_ready e dev disk bs nblk q k w'" "read_xfer disk buf off (min n (bs * nblk - off)) w w'" "dev_frame w w'"
proof -
  have "sync_ready e dev disk bs nblk q (1 + Suc (1 + k)) w" using assms(1) by (simp add: numeral_3_eq_3)
  from reading.access_bytes_ok [OF this assms(2)] assms(3) that show ?thesis
    by (auto simp: read_virtio_dev_def clip_range_def)
qed

lemma disk_write_mem_read:
  "disk_write off (mem_read m buf n) f i = (if off \<le> i \<and> i < off + n then m (buf + (i - off)) else f i)"
  by (auto simp: disk_write_def)

lemma write_bytes_ok:
  assumes "sync_ready e dev disk bs nblk q (5 + k) w" "byte_io dev bs nblk off n"
    "live_range (s_blocks (w_sys w)) buf (min n (bs * nblk - off))"
  obtains w' where "write_virtio_dev e dev buf off n w = Some (int (min n (bs * nblk - off)), w')"
    "sync_ready e dev disk bs nblk q k w'" "write_xfer disk buf off (min n (bs * nblk - off)) w w'" "dev_frame w w'"
proof -
  have "2 + Suc (2 + k) = 5 + k" by simp
  with assms(1) have "sync_ready e dev disk bs nblk q (2 + Suc (2 + k)) w" by metis
  from writing.access_bytes_ok [OF this assms(2)] assms(3) that show ?thesis
    by (auto simp: write_virtio_dev_def clip_range_def)
qed


section \<open>Theorems\<close>

text \<open>
  C23. \<open>read_virtio_dev\<close> delivers the bytes of the device: it returns the number of requested bytes that
  lie on the device, the buffer holds exactly these bytes, and the device, the rest of
  the caller's memory, the live shared blocks and the tasks are as before.
\<close>

theorem read_virtio_dev_correct:
  assumes "sync_ready e dev disk bs nblk q (3 + k) w" "byte_io dev bs nblk off n"
    "live_range (s_blocks (w_sys w)) buf (min n (bs * nblk - off))"
  shows "\<exists>w'. read_virtio_dev e dev buf off n w = Some (int (min n (bs * nblk - off)), w') \<and>
    mem_read (s_mem (w_sys w')) buf (min n (bs * nblk - off)) = map (disk (w_srv w)) [off..<off + min n (bs * nblk - off)] \<and>
    disk (w_srv w') = disk (w_srv w) \<and> s_blocks (w_sys w') = s_blocks (w_sys w) \<and> s_tasks (w_sys w') = s_tasks (w_sys w) \<and>
    mem_kept (s_blocks (w_sys w)) buf (min n (bs * nblk - off)) (s_mem (w_sys w)) (s_mem (w_sys w')) \<and>
    sync_ready e dev disk bs nblk q k w'"
proof -
  obtain w' where "read_virtio_dev e dev buf off n w = Some (int (min n (bs * nblk - off)), w')" "sync_ready e dev disk bs nblk q k w'"
    "read_xfer disk buf off (min n (bs * nblk - off)) w w'" "dev_frame w w'"
    by (rule read_bytes_ok [OF assms])
  then show ?thesis by (intro exI [of _ w']) (auto simp: read_xfer_def disk_read_def)
qed

theorem read_virtio_dev_correct_witness:
  "\<exists>w'. read_virtio_dev example_env example_dev 65600 700 1000 example_disk_world = Some (int (min 1000 (512 * 8 - 700)), w') \<and>
    mem_read (s_mem (w_sys w')) 65600 (min 1000 (512 * 8 - 700)) = map (id (w_srv example_disk_world)) [700..<700 + min 1000 (512 * 8 - 700)] \<and>
    id (w_srv w') = id (w_srv example_disk_world) \<and> s_blocks (w_sys w') = s_blocks (w_sys example_disk_world) \<and>
    s_tasks (w_sys w') = s_tasks (w_sys example_disk_world) \<and>
    mem_kept (s_blocks (w_sys example_disk_world)) 65600 (min 1000 (512 * 8 - 700)) (s_mem (w_sys example_disk_world)) (s_mem (w_sys w')) \<and>
    sync_ready example_env example_dev id 512 8 empty_queue 0 w'"
  by (rule read_virtio_dev_correct [where disk = id]) (use example_sync_ready [of 3] example_byte_io example_live in simp_all)

text \<open>
  C24. \<open>write_virtio_dev\<close> changes exactly the named bytes: it returns the number of bytes that lie on
  the device; those bytes of the device become the caller's, every other byte stays (also in the
  blocks that are only partly overwritten), and memory, blocks and tasks are as before.
\<close>

theorem write_virtio_dev_correct:
  assumes "sync_ready e dev disk bs nblk q (5 + k) w" "byte_io dev bs nblk off n"
    "live_range (s_blocks (w_sys w)) buf (min n (bs * nblk - off))"
  shows "\<exists>w'. write_virtio_dev e dev buf off n w = Some (int (min n (bs * nblk - off)), w') \<and>
    (\<forall>i. disk (w_srv w') i = (if off \<le> i \<and> i < off + min n (bs * nblk - off) then s_mem (w_sys w) (buf + (i - off)) else disk (w_srv w) i)) \<and>
    s_blocks (w_sys w') = s_blocks (w_sys w) \<and> s_tasks (w_sys w') = s_tasks (w_sys w) \<and>
    mem_kept (s_blocks (w_sys w)) buf 0 (s_mem (w_sys w)) (s_mem (w_sys w')) \<and> sync_ready e dev disk bs nblk q k w'"
proof -
  obtain w' where "write_virtio_dev e dev buf off n w = Some (int (min n (bs * nblk - off)), w')" "sync_ready e dev disk bs nblk q k w'"
    "write_xfer disk buf off (min n (bs * nblk - off)) w w'" "dev_frame w w'"
    by (rule write_bytes_ok [OF assms])
  then show ?thesis by (intro exI [of _ w']) (simp add: write_xfer_def disk_write_mem_read)
qed

theorem write_virtio_dev_correct_witness:
  "\<exists>w'. write_virtio_dev example_env example_dev 65600 700 1000 example_disk_world = Some (int (min 1000 (512 * 8 - 700)), w') \<and>
    (\<forall>i. id (w_srv w') i = (if 700 \<le> i \<and> i < 700 + min 1000 (512 * 8 - 700) then s_mem (w_sys example_disk_world) (65600 + (i - 700))
       else id (w_srv example_disk_world) i)) \<and>
    s_blocks (w_sys w') = s_blocks (w_sys example_disk_world) \<and> s_tasks (w_sys w') = s_tasks (w_sys example_disk_world) \<and>
    mem_kept (s_blocks (w_sys example_disk_world)) 65600 0 (s_mem (w_sys example_disk_world)) (s_mem (w_sys w')) \<and>
    sync_ready example_env example_dev id 512 8 empty_queue 0 w'"
  by (rule write_virtio_dev_correct [where disk = id]) (use example_sync_ready [of 5] example_byte_io example_live in simp_all)

text \<open>
  C25. The read-write command block names the command: when block address and count fit the form that
  \<open>create_rw_cdb\<close> chooses by the size of the device (10 or 16 bytes), the target and unit are those
  of the device and a target decodes direction, address and count as given.
\<close>

theorem create_rw_cdb_round_trip:
  assumes "if num_blocks dev > 2 ^ 32 then off < 2 ^ 64 \<and> n < 2 ^ 32 else off < 2 ^ 32 \<and> n < 2 ^ 16"
  shows "decode_cdb (create_rw_cdb dev req off n is_write m) (req + 19) = Some (is_write, off, n) \<and>
    create_rw_cdb dev req off n is_write m req = TARGET_ID \<and> create_rw_cdb dev req off n is_write m (req + 1) = LUN_ID \<and>
    (\<forall>a. a < req \<or> req + sizeof_req \<le> a \<longrightarrow> create_rw_cdb dev req off n is_write m a = m a)"
  using create_rw_cdb_decodes [of dev off n req is_write m] create_rw_cdb_frame assms by (simp add: rw_fits_def)

theorem create_rw_cdb_round_trip_witness:
  "decode_cdb (create_rw_cdb example_dev 4096 5 3 True (\<lambda>_. 7)) (4096 + 19) = Some (True, 5, 3) \<and>
    create_rw_cdb example_dev 4096 5 3 True (\<lambda>_. 7) 4096 = TARGET_ID \<and> create_rw_cdb example_dev 4096 5 3 True (\<lambda>_. 7) (4096 + 1) = LUN_ID \<and>
    create_rw_cdb example_dev 4096 5 3 True (\<lambda>_. 7) 4095 = 7 \<and> create_rw_cdb example_dev 4096 5 3 True (\<lambda>_. 7) (4096 + 51) = 7"
  using create_rw_cdb_round_trip [of example_dev 5 3 4096 True "\<lambda>_. 7"] by (simp add: example_dev_def sizeof_req_def)

text \<open>
  C26. On a device of at most \<open>2 ^ 32\<close> blocks the count is cut to 16 bits: a request for \<open>n\<close> blocks
  is encoded as one for \<open>n mod 65536\<close>, so 65536 blocks become none.
\<close>

theorem create_rw_cdb_truncates:
  assumes "num_blocks dev \<le> 2 ^ 32" "off < 2 ^ 32"
  shows "decode_cdb (create_rw_cdb dev req off n is_write m) (req + 19) = Some (is_write, off, n mod 65536)"
  using assms
  by (simp add: create_rw_cdb_def req_cdb_def decode_cdb_def Let_def opcode_defs set_lun_def
      be_frames be16.load_store be32.load_store be32_over_be16 unat_of_nat)

theorem create_rw_cdb_truncates_witness:
  "decode_cdb (create_rw_cdb example_dev 4096 0 65536 False (\<lambda>_. 0)) (4096 + 19) = Some (False, 0, 65536 mod 65536)"
  by (rule create_rw_cdb_truncates) (simp_all add: example_dev_def)

text \<open>
  Write then read: what was written to a range of the device comes back when the range is read
  into another buffer, whatever the alignment of the range.
\<close>

lemma write_then_read:
  assumes "sync_ready e dev disk bs nblk q (8 + k) w" "byte_io dev bs nblk off n" "off + n \<le> bs * nblk"
    "live_range (s_blocks (w_sys w)) src n" "live_range (s_blocks (w_sys w)) dst n"
  shows "\<exists>w1 w2. write_virtio_dev e dev src off n w = Some (int n, w1) \<and> read_virtio_dev e dev dst off n w1 = Some (int n, w2) \<and>
    mem_read (s_mem (w_sys w2)) dst n = mem_read (s_mem (w_sys w)) src n"
proof -
  have n: "min n (bs * nblk - off) = n" and k: "5 + (3 + k) = 8 + k" using assms(3) by simp_all
  from assms(1) k have ready: "sync_ready e dev disk bs nblk q (5 + (3 + k)) w" by metis
  obtain w1 where w1: "write_virtio_dev e dev src off n w = Some (int n, w1)" "sync_ready e dev disk bs nblk q (3 + k) w1"
    "write_xfer disk src off n w w1" "dev_frame w w1"
    by (rule write_bytes_ok [OF ready assms(2), unfolded n, OF assms(4)])
  have "live_range (s_blocks (w_sys w1)) dst n" using assms(5) xfer_blocks(2) [OF w1(3)] by simp
  then obtain w2 where w2: "read_virtio_dev e dev dst off n w1 = Some (int n, w2)" "read_xfer disk dst off n w1 w2"
    using read_bytes_ok [OF w1(2) assms(2), of dst] n by metis
  have "disk_read disk (w_srv w1) off n = mem_read (m_of w) src n"
    using w1(3) by (intro nth_equalityI) (simp_all add: write_xfer_def disk_write_def)
  with w1 w2 show ?thesis by (auto simp: read_xfer_def)
qed

end
