(* ===== verification/Virtio_Async.thy ===== *)
theory Virtio_Async
  imports Virtio_Dev
begin

text \<open>
  \<open>src/virtio_dev.c\<close>, second part: asynchronous reads and writes. A request is an I/O descriptor
  (\<open>async_io_desc_t\<close>) in the memory of the caller. Submitting it builds a task with a callback; the
  poller runs the callback when the server has completed the task, and the callback submits
  the next task of the request or puts the descriptor into the output ring.

  The world is that of the poller, extended by the fields of \<open>struct virtio_dev\<close> that the
  asynchronous operations use and the descriptors of the caller. The output ring is DPDK's
  \<open>rte_ring\<close>: its operations are the parameter \<open>ops\<close>, and what its documentation promises is
  \<open>rte_ring_spec\<close>.
\<close>

section \<open>The output ring and the state\<close>

record 'r rte_ring_ops =
  rte_ring_sp_enqueue :: "'r \<Rightarrow> ptr \<Rightarrow> int \<times> 'r"
  rte_ring_mc_dequeue :: "'r \<Rightarrow> int \<times> ptr \<times> 'r"
  rte_ring_count :: "'r \<Rightarrow> nat"

text \<open>
  A first-in first-out queue of at most \<open>room\<close> pointers with contents \<open>els\<close>; the operations return
  0 when they succeed and a negative number, leaving the contents, when they do not.
\<close>

definition rte_ring_spec :: "'r rte_ring_ops \<Rightarrow> ('r \<Rightarrow> ptr list) \<Rightarrow> nat \<Rightarrow> bool" where
  "rte_ring_spec ops els room \<longleftrightarrow>
     (\<forall>r x. length (els r) < room \<longrightarrow> fst (rte_ring_sp_enqueue ops r x) = 0 \<and> els (snd (rte_ring_sp_enqueue ops r x)) = els r @ [x]) \<and>
     (\<forall>r x. room \<le> length (els r) \<longrightarrow> fst (rte_ring_sp_enqueue ops r x) < 0 \<and> els (snd (rte_ring_sp_enqueue ops r x)) = els r) \<and>
     (\<forall>r x xs. els r = x # xs \<longrightarrow> (\<exists>r'. rte_ring_mc_dequeue ops r = (0, x, r') \<and> els r' = xs)) \<and>
     (\<forall>r. els r = [] \<longrightarrow> fst (rte_ring_mc_dequeue ops r) < 0 \<and> els (snd (snd (rte_ring_mc_dequeue ops r))) = []) \<and>
     (\<forall>r. rte_ring_count ops r = length (els r))"

definition VIRTIO_TYPE_READ :: int where "VIRTIO_TYPE_READ = 0"
definition VIRTIO_TYPE_WRITE :: int where "VIRTIO_TYPE_WRITE = 1"

text \<open>\<open>reserved\<close> is the address of the device.\<close>

record async_io_desc =
  io_reserved :: ptr
  io_type :: int
  io_buf :: ptr
  io_offset :: nat
  io_nbytes :: nat
  io_user_ctx :: ptr
  io_retval :: int

record ('d, 'r) aworld = "'d pworld" +
  a_self :: ptr
  a_dev :: virtio_dev
  a_descs :: "ptr \<rightharpoonup> async_io_desc"
  a_outring :: 'r
  a_outfd :: int
  a_event_high_wm :: int

definition OUTRING_SIZE :: nat where "OUTRING_SIZE = 4096"

text \<open>The descriptor behind a callback's argument, and the device it belongs to.\<close>

definition io_desc_of :: "ptr \<Rightarrow> ('d, 'r, 'z) aworld_scheme \<Rightarrow> async_io_desc option" where
  "io_desc_of p w = do {
     d \<leftarrow> a_descs w p;
     c_assert (io_reserved d = a_self w);
     Some d
   }"

definition set_retval :: "ptr \<Rightarrow> int \<Rightarrow> ('d, 'r, 'z) aworld_scheme \<Rightarrow> ('d, 'r, 'z) aworld_scheme" where
  "set_retval p v w = (case a_descs w p of None \<Rightarrow> w | Some d \<Rightarrow> w\<lparr>a_descs := (a_descs w)(p \<mapsto> d\<lparr>io_retval := v\<rparr>)\<rparr>)"

text \<open>\<open>ssize_t\<close> from \<open>size_t\<close>.\<close>

definition to_ssize :: "nat \<Rightarrow> int" where
  "to_ssize n = (if n mod 2 ^ 64 < 2 ^ 63 then int (n mod 2 ^ 64) else int (n mod 2 ^ 64) - 2 ^ 64)"

definition push_to_outring :: "'r rte_ring_ops \<Rightarrow> ptr \<Rightarrow> ('d, 'r, 'z) aworld_scheme \<Rightarrow> ('d, 'r, 'z) aworld_scheme option" where
  "push_to_outring ops io_desc w = do {
     let (rc, r) = rte_ring_sp_enqueue ops (a_outring w) io_desc;
     c_assert (rc = 0);
     let w1 = w\<lparr>a_outring := r\<rparr>;
     if a_event_high_wm w1 > 0 \<and> a_event_high_wm w1 \<le> int (rte_ring_count ops (a_outring w1))
     then do {
       s \<leftarrow> eventfd_write (a_outfd w1) (w_sys w1);
       Some (w1\<lparr>w_sys := s\<rparr>)
     }
     else Some w1
   }"

text \<open>\<open>virtio_task_destroy\<close> on a pointer that may be \<open>NULL\<close> under a test.\<close>

definition w_destroy_if :: "ptr \<Rightarrow> ('d, 'z) pworld_scheme \<Rightarrow> ('d, 'z) pworld_scheme option" where
  "w_destroy_if t w = (if t = NULL then Some w else w_destroy t w)"


section \<open>Reading\<close>

text \<open>
  The loop of \<open>blk_read_done\<close> over the data buffers: it counts the bytes that were read and
  copies those that went to a block buffer.
\<close>

fun copy_out :: "virtio_buffer option list \<Rightarrow> nat \<Rightarrow> ptr \<Rightarrow> nat \<Rightarrow> mem \<Rightarrow> (nat \<times> mem) option" where
  "copy_out [] ub dst nbytes m = Some (nbytes, m)"
| "copy_out (None # vs) ub dst nbytes m = None"
| "copy_out (Some vb # vs) ub dst nbytes m =
     (let d0 = size_sub (vb_offset_to vb) (vb_offset_from vb);
          delta = (if size_add nbytes d0 > ub then size_sub ub nbytes else d0);
          m1 = (if vb_copy vb then memcpy (dst + nbytes) (vb_buf vb + vb_offset_from vb) delta m else m);
          n1 = size_add nbytes delta
      in if n1 \<ge> ub then Some (n1, m1) else copy_out vs ub dst n1 m1)"

definition blk_read_done_cb :: "'r rte_ring_ops \<Rightarrow> ptr \<Rightarrow> ptr \<Rightarrow> ('d, 'r, 'z) aworld_scheme \<Rightarrow> ('d, 'r, 'z) aworld_scheme option" where
  "blk_read_done_cb ops t io w = do {
     task \<leftarrow> s_tasks (w_sys w) t;
     d \<leftarrow> io_desc_of io w;
     resp \<leftarrow> virtio_task_get_buf task 1;
     let ub = size_sub (unat (used_bytes task)) sizeof_resp;
     c_assert (resp \<noteq> NULL);
     w1 \<leftarrow> (if resp_good (m_of w) resp
       then do {
         (nbytes, m) \<leftarrow> copy_out (drop 2 (take (count task) (vbufs task))) ub (io_buf d) 0 (m_of w);
         c_assert (nbytes \<le> ub);
         Some (set_retval io (to_ssize nbytes) (w_mem (\<lambda>_. m) w))
       }
       else Some (set_retval io (-1) w));
     w2 \<leftarrow> push_to_outring ops io w1;
     w_destroy t w2
   }"

text \<open>
  The three parts of the data of an asynchronous read: the end of the first block and the start of
  the last block go to block buffers, the blocks between them to the caller's buffer. The
  first two yield the bytes and blocks so far; the flag is an allocation that failed.
\<close>

definition async_first_part :: "rte_malloc \<Rightarrow> ptr \<Rightarrow> nat \<Rightarrow> int \<Rightarrow> ('d, 'r, 'z) aworld_scheme \<Rightarrow> (bool \<times> nat \<times> nat \<times> ('d, 'r, 'z) aworld_scheme) option" where
  "async_first_part rm t nbytes resid w =
     (if resid = 0 then Some (False, 0, 0, w)
      else do {
        let dev = a_dev w;
        let rb = (if size_add (to_size resid) nbytes \<le> bs_of dev then nbytes else to_size (block_size dev - resid));
        (p, w1) \<leftarrow> w_alloc_part rm t (bs_of dev) True False (to_size resid) (size_add (to_size resid) rb) w;
        Some (p = NULL, rb, 1, w1)
      })"

definition async_middle_part :: "ptr \<Rightarrow> ptr \<Rightarrow> nat \<Rightarrow> nat \<Rightarrow> nat \<Rightarrow> ('d, 'r, 'z) aworld_scheme \<Rightarrow> (nat \<times> nat \<times> ('d, 'r, 'z) aworld_scheme) option" where
  "async_middle_part t buf nbytes read_bytes nblk w =
     (let bs = bs_of (a_dev w);
          temp = size_sub nbytes read_bytes div bs
      in if temp > 0 then do {
           w1 \<leftarrow> w_add t (buf + read_bytes) (size_mul temp bs) True w;
           Some (size_add read_bytes (size_mul temp bs), size_add nblk temp, w1)
         }
         else Some (read_bytes, nblk, w))"

definition async_last_part :: "rte_malloc \<Rightarrow> ptr \<Rightarrow> nat \<Rightarrow> nat \<Rightarrow> nat \<Rightarrow> ('d, 'r, 'z) aworld_scheme \<Rightarrow> (bool \<times> nat \<times> ('d, 'r, 'z) aworld_scheme) option" where
  "async_last_part rm t nbytes read_bytes nblk w =
     (let bs = bs_of (a_dev w);
          resid = to_int (int (size_sub nbytes read_bytes mod bs))
      in if read_bytes < nbytes \<and> resid \<noteq> 0 then do {
           (p, w1) \<leftarrow> w_alloc_part rm t bs True False 0 (to_size resid) w;
           Some (p = NULL, size_add nblk 1, w1)
         }
         else Some (False, nblk, w))"

definition read_virtio_dev_async :: "rte_malloc \<Rightarrow> ptr \<Rightarrow> ('d, 'r, 'z) aworld_scheme \<Rightarrow> (int \<times> ('d, 'r, 'z) aworld_scheme) option" where
  "read_virtio_dev_async rm io w = do {
     d \<leftarrow> a_descs w io;
     let dev = a_dev w;
     let offset = io_offset d;
     if offset > cap dev then Some (-1, w)
     else if io_nbytes d = 0 then Some (0, w)
     else do {
       let nbytes = (if size_add offset (io_nbytes d) > cap dev then size_sub (cap dev) offset else io_nbytes d);
       let w0 = w\<lparr>a_descs := (a_descs w)(io \<mapsto> d\<lparr>io_reserved := a_self w\<rparr>)\<rparr>;
       let (t, w1) = w_create 5 w0;
       if t = NULL then Some (-1, w1)
       else do {
         (req, w2) \<leftarrow> w_alloc rm t sizeof_req False True w1;
         (resp, w3) \<leftarrow> w_alloc rm t sizeof_resp True True w2;
         if req = NULL \<or> resp = NULL then w_destroy_return t (-1) w3
         else do {
           c_assert (bs_of dev \<noteq> 0);
           (failed, read_bytes, nblk, w4) \<leftarrow> async_first_part rm t nbytes (to_int (int (offset mod bs_of dev))) w3;
           if failed then w_destroy_return t (-1) w4
           else do {
             (read_bytes, nblk, w5) \<leftarrow> async_middle_part t (io_buf d) nbytes read_bytes nblk w4;
             (failed, nblk, w6) \<leftarrow> async_last_part rm t nbytes read_bytes nblk w5;
             if failed then w_destroy_return t (-1) w6
             else do {
               (rc, w7) \<leftarrow> vring_submit_task t (Some blk_read_done) io
                 (w_mem (create_rw_cdb dev req (offset div bs_of dev) nblk False) w6);
               if rc \<noteq> 0 then w_destroy_return t (-1) w7 else Some (0, w7)
             }
           }
         }
       }
     }
   }"


section \<open>Writing\<close>

definition blk_write_last_block_done_cb :: "'r rte_ring_ops \<Rightarrow> ptr \<Rightarrow> ptr \<Rightarrow> ('d, 'r, 'z) aworld_scheme \<Rightarrow> ('d, 'r, 'z) aworld_scheme option" where
  "blk_write_last_block_done_cb ops t io w = do {
     task \<leftarrow> s_tasks (w_sys w) t;
     d \<leftarrow> io_desc_of io w;
     resp \<leftarrow> virtio_task_get_buf task 2;
     c_assert (count task = 3);
     c_assert (resp \<noteq> NULL);
     w1 \<leftarrow> (if resp_good (m_of w) resp
       then do {
         vb \<leftarrow> vbufs task ! 1;
         let n = size_sub (vb_offset_to vb) (vb_offset_from vb);
         Some (set_retval io (if io_retval d < 0 then to_ssize n else to_ssize (nat (io_retval d) + n)) w)
       }
       else Some w);
     w2 \<leftarrow> push_to_outring ops io w1;
     w_destroy t w2
   }"

text \<open>The label \<open>write_done\<close>: the descriptor is handed out and the tasks are destroyed.\<close>

definition write_done :: "'r rte_ring_ops \<Rightarrow> ptr \<Rightarrow> ptr \<Rightarrow> ptr \<Rightarrow> ('d, 'r, 'z) aworld_scheme \<Rightarrow> ('d, 'r, 'z) aworld_scheme option" where
  "write_done ops io t new_task w = do {
     w1 \<leftarrow> push_to_outring ops io w;
     w2 \<leftarrow> w_destroy_if t w1;
     w_destroy_if new_task w2
   }"

definition blk_read_last_block_done_cb :: "rte_malloc \<Rightarrow> 'r rte_ring_ops \<Rightarrow> ptr \<Rightarrow> ptr \<Rightarrow> ('d, 'r, 'z) aworld_scheme \<Rightarrow> ('d, 'r, 'z) aworld_scheme option" where
  "blk_read_last_block_done_cb rm ops t io w = do {
     task \<leftarrow> s_tasks (w_sys w) t;
     d \<leftarrow> io_desc_of io w;
     let dev = a_dev w;
     resp \<leftarrow> virtio_task_get_buf task 1;
     c_assert (count task = 3);
     c_assert (resp \<noteq> NULL);
     if \<not> resp_good (m_of w) resp then write_done ops io t NULL w
     else do {
       let (nt, w1) = w_create 4 w;
       if nt = NULL then write_done ops io t NULL w1
       else do {
         (req, w2) \<leftarrow> w_alloc rm nt sizeof_req False True w1;
         if req = NULL then write_done ops io t nt w2
         else do {
           vb \<leftarrow> vbufs task ! 2;
           (buf, w3) \<leftarrow> w_alloc_part rm nt (bs_of dev) False False (vb_offset_from vb) (vb_offset_to vb) w2;
           if buf = NULL then write_done ops io t nt w3
           else do {
             let delta = size_sub (vb_offset_to vb) (vb_offset_from vb);
             let w4 = w_mem (memcpy buf (vb_buf vb) (vb_size vb)) w3;
             let w5 = w_mem (memcpy buf (io_buf d + io_nbytes d - delta) delta) w4;
             c_assert (bs_of dev \<noteq> 0);
             let blk_offset = size_add (io_offset d) (io_nbytes d) div bs_of dev;
             let w6 = w_mem (create_rw_cdb dev req blk_offset 1 True) w5;
             (resp, w7) \<leftarrow> w_alloc rm nt sizeof_resp True True w6;
             if resp = NULL then write_done ops io t nt w7
             else do {
               (rc, w8) \<leftarrow> vring_submit_task nt (Some blk_write_last_block_done) io w7;
               if rc \<noteq> 0 then write_done ops io t nt w8
               else w_destroy t w8
             }
           }
         }
       }
     }
   }"

text \<open>The bytes of the buffers between request and response.\<close>

fun written_bytes :: "virtio_buffer option list \<Rightarrow> nat \<Rightarrow> nat option" where
  "written_bytes [] n = Some n"
| "written_bytes (None # vs) n = None"
| "written_bytes (Some vb # vs) n = written_bytes vs (size_add n (size_sub (vb_offset_to vb) (vb_offset_from vb)))"

definition blk_write_full_blocks_done_cb :: "rte_malloc \<Rightarrow> 'r rte_ring_ops \<Rightarrow> ptr \<Rightarrow> ptr \<Rightarrow> ('d, 'r, 'z) aworld_scheme \<Rightarrow> ('d, 'r, 'z) aworld_scheme option" where
  "blk_write_full_blocks_done_cb rm ops t io w = do {
     task \<leftarrow> s_tasks (w_sys w) t;
     d \<leftarrow> io_desc_of io w;
     let dev = a_dev w;
     resp \<leftarrow> virtio_task_get_buf task (count task - 1);
     c_assert (count task > 2);
     c_assert (resp \<noteq> NULL);
     if \<not> resp_good (m_of w) resp then write_done ops io t NULL w
     else do {
       nbytes \<leftarrow> written_bytes (drop 1 (take (count task - 1) (vbufs task))) 0;
       let w1 = set_retval io (to_ssize nbytes) w;
       if nbytes = io_nbytes d then write_done ops io t NULL w1
       else do {
         w2 \<leftarrow> w_destroy t w1;
         let (t, w3) = w_create 3 w2;
         if t = NULL then write_done ops io NULL NULL w3
         else do {
           (req, w4) \<leftarrow> w_alloc rm t sizeof_req False True w3;
           (resp, w5) \<leftarrow> w_alloc rm t sizeof_resp True True w4;
           if req = NULL \<or> resp = NULL then write_done ops io t NULL w5
           else do {
             let offset = size_add (io_offset d) (io_nbytes d);
             c_assert (bs_of dev \<noteq> 0);
             let blk_offset = offset div bs_of dev;
             let resid = to_int (int (offset mod bs_of dev));
             c_assert (resid \<noteq> 0);
             let w6 = w_mem (create_rw_cdb dev req blk_offset 1 False) w5;
             (p, w7) \<leftarrow> w_alloc_part rm t (bs_of dev) True False 0 (to_size resid) w6;
             if p = NULL then write_done ops io t NULL w7
             else do {
               (rc, w8) \<leftarrow> vring_submit_task t (Some blk_read_last_block_done) io w7;
               if rc \<noteq> 0 then write_done ops io t NULL w8 else Some w8
             }
           }
         }
       }
     }
   }"

definition blk_read_first_block_done_cb :: "rte_malloc \<Rightarrow> 'r rte_ring_ops \<Rightarrow> ptr \<Rightarrow> ptr \<Rightarrow> ('d, 'r, 'z) aworld_scheme \<Rightarrow> ('d, 'r, 'z) aworld_scheme option" where
  "blk_read_first_block_done_cb rm ops t io w = do {
     task \<leftarrow> s_tasks (w_sys w) t;
     d \<leftarrow> io_desc_of io w;
     let dev = a_dev w;
     resp \<leftarrow> virtio_task_get_buf task 1;
     c_assert (count task = 3);
     c_assert (resp \<noteq> NULL);
     if \<not> resp_good (m_of w) resp then write_done ops io t NULL w
     else do {
       let (nt, w1) = w_create 4 w;
       if nt = NULL then write_done ops io t NULL w1
       else do {
         (req, w2) \<leftarrow> w_alloc rm nt sizeof_req False True w1;
         if req = NULL then write_done ops io t nt w2
         else do {
           vb \<leftarrow> vbufs task ! 2;
           (buf, w3) \<leftarrow> w_alloc_part rm nt (bs_of dev) False False (vb_offset_from vb) (vb_offset_to vb) w2;
           if buf = NULL then write_done ops io t nt w3
           else do {
             let delta = size_sub (vb_offset_to vb) (vb_offset_from vb);
             let w4 = w_mem (memcpy buf (vb_buf vb) (vb_size vb)) w3;
             let w5 = w_mem (memcpy (buf + vb_offset_from vb) (io_buf d) delta) w4;
             c_assert (bs_of dev \<noteq> 0);
             (nblk, w6) \<leftarrow>
               (if delta < io_nbytes d then do {
                  let n = size_sub (io_nbytes d) delta div bs_of dev;
                  w6 \<leftarrow> w_add nt (io_buf d + delta) (size_mul n (bs_of dev)) False w5;
                  Some (n, w6)
                }
                else Some (0, w5));
             let w7 = w_mem (create_rw_cdb dev req (io_offset d div bs_of dev) (size_add nblk 1) True) w6;
             (resp, w8) \<leftarrow> w_alloc rm nt sizeof_resp True True w7;
             if resp = NULL then write_done ops io t nt w8
             else do {
               (rc, w9) \<leftarrow> vring_submit_task nt (Some blk_write_full_blocks_done) io w8;
               if rc \<noteq> 0 then write_done ops io t nt w9
               else w_destroy t w9
             }
           }
         }
       }
     }
   }"

text \<open>
  The three ways in which \<open>write_virtio_dev_async\<close> goes on once it has a request block: read the first
  block, write whole blocks, read the only block.
\<close>

definition submit_or_destroy :: "ptr \<Rightarrow> task_cb \<Rightarrow> ptr \<Rightarrow> ('d, 'r, 'z) aworld_scheme \<Rightarrow> (int \<times> ('d, 'r, 'z) aworld_scheme) option" where
  "submit_or_destroy t c io w = do {
     (rc, w1) \<leftarrow> vring_submit_task t (Some c) io w;
     if rc \<noteq> 0 then w_destroy_return t (-1) w1 else Some (0, w1)
   }"

definition submit_read_block :: "rte_malloc \<Rightarrow> ptr \<Rightarrow> ptr \<Rightarrow> nat \<Rightarrow> nat \<Rightarrow> nat \<Rightarrow> task_cb \<Rightarrow> ptr \<Rightarrow> ('d, 'r, 'z) aworld_scheme
    \<Rightarrow> (int \<times> ('d, 'r, 'z) aworld_scheme) option" where
  "submit_read_block rm t req blk_offset off_from off_to c io w = do {
     let dev = a_dev w;
     let w1 = w_mem (create_rw_cdb dev req blk_offset 1 False) w;
     (resp, w2) \<leftarrow> w_alloc rm t sizeof_resp True True w1;
     if resp = NULL then w_destroy_return t (-1) w2
     else do {
       (p, w3) \<leftarrow> w_alloc_part rm t (bs_of dev) True False off_from off_to w2;
       if p = NULL then w_destroy_return t (-1) w3
       else submit_or_destroy t c io w3
     }
   }"

definition submit_write_blocks :: "rte_malloc \<Rightarrow> ptr \<Rightarrow> ptr \<Rightarrow> nat \<Rightarrow> nat \<Rightarrow> ptr \<Rightarrow> ptr \<Rightarrow> ('d, 'r, 'z) aworld_scheme
    \<Rightarrow> (int \<times> ('d, 'r, 'z) aworld_scheme) option" where
  "submit_write_blocks rm t req blk_offset nblk buf io w = do {
     let dev = a_dev w;
     let w1 = w_mem (create_rw_cdb dev req blk_offset nblk True) w;
     w2 \<leftarrow> w_add t buf (size_mul nblk (bs_of dev)) False w1;
     (resp, w3) \<leftarrow> w_alloc rm t sizeof_resp True True w2;
     if resp = NULL then w_destroy_return t (-1) w3
     else submit_or_destroy t blk_write_full_blocks_done io w3
   }"

definition write_virtio_dev_async :: "rte_malloc \<Rightarrow> ptr \<Rightarrow> ('d, 'r, 'z) aworld_scheme \<Rightarrow> (int \<times> ('d, 'r, 'z) aworld_scheme) option" where
  "write_virtio_dev_async rm io w = do {
     d \<leftarrow> a_descs w io;
     let dev = a_dev w;
     let offset = io_offset d;
     if offset > cap dev then Some (-1, w)
     else if io_nbytes d = 0 then Some (0, w)
     else do {
       let nbytes = (if size_add offset (io_nbytes d) > cap dev then size_sub (cap dev) offset else io_nbytes d);
       let w0 = w\<lparr>a_descs := (a_descs w)(io \<mapsto> d\<lparr>io_reserved := a_self w, io_retval := -1\<rparr>)\<rparr>;
       let (t, w1) = w_create 4 w0;
       if t = NULL then Some (-1, w1)
       else do {
         (req, w2) \<leftarrow> w_alloc rm t sizeof_req False True w1;
         if req = NULL then w_destroy_return t (-1) w2
         else do {
           c_assert (bs_of dev \<noteq> 0);
           let blk_offset = offset div bs_of dev;
           let resid = to_int (int (offset mod bs_of dev));
           let rb = (if size_add (to_size resid) nbytes \<le> bs_of dev then nbytes else to_size (block_size dev - resid));
           if resid \<noteq> 0
           then submit_read_block rm t req blk_offset (to_size resid) (size_add (to_size resid) rb) blk_read_first_block_done io w2
           else if nbytes div bs_of dev > 0
           then submit_write_blocks rm t req blk_offset (nbytes div bs_of dev) (io_buf d) io w2
           else do {
             c_assert (nbytes < bs_of dev);
             submit_read_block rm t req blk_offset 0 (to_size (to_int (int (nbytes mod bs_of dev)))) blk_read_last_block_done io w2
           }
         }
       }
     }
   }"


section \<open>The interface of the library\<close>

definition virtio_submit :: "rte_malloc \<Rightarrow> ptr \<Rightarrow> ('d, 'r, 'z) aworld_scheme \<Rightarrow> (int \<times> ('d, 'r, 'z) aworld_scheme) option" where
  "virtio_submit rm io w = do {
     d \<leftarrow> a_descs w io;
     if io_type d = VIRTIO_TYPE_READ then read_virtio_dev_async rm io w
     else if io_type d = VIRTIO_TYPE_WRITE then write_virtio_dev_async rm io w
     else Some (-1, w)
   }"

text \<open>The functions whose addresses the program stores in tasks.\<close>

definition dev_callbacks where
  "dev_callbacks rm ops c t a w = (case c of
      vring_submit_sync_callback \<Rightarrow> sync_callback t a w
    | blk_read_done \<Rightarrow> blk_read_done_cb ops t a w
    | blk_write_last_block_done \<Rightarrow> blk_write_last_block_done_cb ops t a w
    | blk_read_last_block_done \<Rightarrow> blk_read_last_block_done_cb rm ops t a w
    | blk_write_full_blocks_done \<Rightarrow> blk_write_full_blocks_done_cb rm ops t a w
    | blk_read_first_block_done \<Rightarrow> blk_read_first_block_done_cb rm ops t a w)"

text \<open>
  What happens while \<open>virtio_completed\<close> polls: the other threads and the server, and whether \<open>poll\<close>
  reports an error. An input list that ends while the loop goes on is a wait that is not over. \<open>total_time\<close> is an \<open>int\<close>
  and wraps around.
\<close>

record 'w wait_input =
  wi_others :: "'w \<Rightarrow> 'w"
  wi_poll_fails :: bool

definition poll_outfd :: "bool \<Rightarrow> int \<Rightarrow> sys \<Rightarrow> sys" where
  "poll_outfd fails fd s =
     (if fails then s
      else case s_efd s fd of None \<Rightarrow> s | Some n \<Rightarrow> if n > 0 then s\<lparr>s_efd := (s_efd s)(fd \<mapsto> 0)\<rparr> else s)"

fun completed_loop :: "'r rte_ring_ops \<Rightarrow> int \<Rightarrow> int \<Rightarrow> ('d, 'r, 'z) aworld_scheme wait_input list \<Rightarrow> int \<Rightarrow> int \<Rightarrow> ('d, 'r, 'z) aworld_scheme
    \<Rightarrow> (int \<times> ('d, 'r, 'z) aworld_scheme) option" where
  "completed_loop ops mincount timeout ins total_time n w =
     (if timeout \<ge> 0 \<and> total_time \<ge> timeout then Some (n, w)
      else case ins of
        [] \<Rightarrow> None
      | i # is \<Rightarrow>
          (let w1 = wi_others i w;
               w2 = w1\<lparr>w_sys := poll_outfd (wi_poll_fails i) (a_outfd w1) (w_sys w1)\<rparr>;
               n2 = to_int (int (rte_ring_count ops (a_outring w2)))
           in if n2 < mincount then completed_loop ops mincount timeout is (to_int (total_time + 100)) n2 w2
              else Some (n2, w2\<lparr>a_event_high_wm := 0\<rparr>)))"

definition virtio_completed :: "'r rte_ring_ops \<Rightarrow> int \<Rightarrow> int \<Rightarrow> ('d, 'r, 'z) aworld_scheme wait_input list \<Rightarrow> ('d, 'r, 'z) aworld_scheme
    \<Rightarrow> (int \<times> ('d, 'r, 'z) aworld_scheme) option" where
  "virtio_completed ops mincount timeout ins w = do {
     c_assert (mincount > 0);
     let w0 = w\<lparr>a_event_high_wm := mincount\<rparr>;
     let n = to_int (int (rte_ring_count ops (a_outring w0)));
     if n \<ge> mincount then Some (n, w0\<lparr>a_event_high_wm := 0\<rparr>)
     else completed_loop ops mincount timeout ins 0 n w0
   }"

definition virtio_get_completed :: "'r rte_ring_ops \<Rightarrow> ('d, 'r, 'z) aworld_scheme \<Rightarrow> ptr \<times> ('d, 'r, 'z) aworld_scheme" where
  "virtio_get_completed ops w =
     (let (rc, p, r) = rte_ring_mc_dequeue ops (a_outring w)
      in (if rc = 0 then p else NULL, w\<lparr>a_outring := r\<rparr>))"

definition virtio_buf_alloc :: "rte_malloc \<Rightarrow> int \<Rightarrow> ('d, 'r, 'z) aworld_scheme \<Rightarrow> ptr \<times> ('d, 'r, 'z) aworld_scheme" where
  "virtio_buf_alloc rm sz w = (let (p, s) = alloc_shared_buf rm sz (block_size (a_dev w)) (w_sys w) in (p, w\<lparr>w_sys := s\<rparr>))"

definition virtio_buf_free :: "ptr \<Rightarrow> ('d, 'r, 'z) aworld_scheme \<Rightarrow> ('d, 'r, 'z) aworld_scheme" where
  "virtio_buf_free p w = w\<lparr>w_sys := free_shared_buf p (w_sys w)\<rparr>"

end
