(* ===== verification/Async_Build.thy ===== *)
theory Async_Build
  imports Virtio_Async Virtio_Bytes
begin

text \<open>
  The life of a task in the asynchronous operations, independent of which operation it is: it
  is built from blocks of its own and buffers of the caller, submitted, completed by the server,
  handed to its callback and destroyed. The lemmas say at each point which shared blocks
  are live, what memory holds and which queue the ring represents.
\<close>

section \<open>Blocks owned by a task\<close>

definition blk_of :: "virtio_buffer \<Rightarrow> ptr \<times> nat" where
  "blk_of b = (vb_buf b, vb_size b)"

text \<open>Buffers allocated on top of the live blocks \<open>b0\<close>.\<close>

definition fresh_bufs :: "(ptr \<times> nat) list \<Rightarrow> virtio_buffer list \<Rightarrow> bool" where
  "fresh_bufs b0 own \<longleftrightarrow> distinct (map vb_buf own) \<and>
     (\<forall>b \<in> set own. 0 < vb_buf b \<and> vb_buf b + vb_size b < 2 ^ 64 \<and> vb_buf b \<notin> fst ` set b0 \<and>
        (\<forall>p n. live_range b0 p n \<longrightarrow> disjoint_range (vb_buf b) (vb_size b) p n)) \<and>
     (\<forall>b \<in> set own. \<forall>b' \<in> set own. vb_buf b \<noteq> vb_buf b' \<longrightarrow> disjoint_range (vb_buf b) (vb_size b) (vb_buf b') (vb_size b'))"

definition owns :: "(ptr \<times> nat) list \<Rightarrow> virtio_buffer list \<Rightarrow> (ptr \<times> nat) list \<Rightarrow> bool" where
  "owns b0 own b \<longleftrightarrow> b = rev (map blk_of own) @ b0 \<and> fresh_bufs b0 own"

lemma owns_Nil [simp]: "owns b0 [] b \<longleftrightarrow> b = b0"
  by (simp add: owns_def fresh_bufs_def)

lemma fst_blk_of [simp]: "fst ` blk_of ` A = vb_buf ` A"
  by (simp add: blk_of_def image_image)

lemma live_range_append: "live_range (b1 @ b0) p n \<longleftrightarrow> live_range b1 p n \<or> live_range b0 p n"
  by (auto simp: live_range_def)

lemma owns_live: "owns b0 own b \<Longrightarrow> live_range b0 p n \<Longrightarrow> live_range b p n"
  by (auto simp: owns_def live_range_append)

lemma owns_live_own: "owns b0 own b \<Longrightarrow> x \<in> set own \<Longrightarrow> live_range b (vb_buf x) (vb_size x)"
  by (force simp: owns_def live_range_append live_range_def fresh_bufs_def blk_of_def)

lemma owns_disjoint: "owns b0 own b \<Longrightarrow> x \<in> set own \<Longrightarrow> live_range b0 p n \<Longrightarrow> disjoint_range (vb_buf x) (vb_size x) p n"
  by (simp add: owns_def fresh_bufs_def)

lemma owns_free:
  assumes "owns b0 own b"
  shows "filter (\<lambda>(q, k). q \<notin> vb_buf ` set own) b = b0"
proof -
  have "filter (\<lambda>(q, k). q \<notin> vb_buf ` set own) (rev (map blk_of own)) = []" by (auto simp: filter_empty_conv blk_of_def)
  moreover have "filter (\<lambda>(q, k). q \<notin> vb_buf ` set own) b0 = b0"
    using assms by (force simp: owns_def fresh_bufs_def intro: filter_True)
  ultimately show ?thesis using assms by (simp add: owns_def)
qed

text \<open>One more block.\<close>

lemma owns_snoc:
  assumes "owns b0 own b" "rte_malloc_spec rm" "vb_buf x = rm b (vb_size x) al" "vb_buf x \<noteq> NULL"
  shows "owns b0 (own @ [x]) ((vb_buf x, vb_size x) # b)"
proof -
  note a = rm_alloc [OF assms(2) assms(4) [unfolded assms(3)], folded assms(3)]
  have new: "disjoint_range (vb_buf x) (vb_size x) (vb_buf y) (vb_size y)" if "y \<in> set own" for y
    using a(4) owns_live_own [OF assms(1) that] by simp
  have old: "disjoint_range (vb_buf x) (vb_size x) p n" if "live_range b0 p n" for p n
    using a(4) owns_live [OF assms(1) that] by simp
  have "vb_buf x \<notin> vb_buf ` set own" "vb_buf x \<notin> fst ` set b0"
    using a(1) assms(1) by (auto simp: owns_def image_Un)
  then show ?thesis
    using assms(1) a(2,3) new old unfolding owns_def fresh_bufs_def
    by (auto simp: blk_of_def intro: disjoint_range_sym)
qed

text \<open>Freeing the older of two groups of blocks.\<close>

lemma owns_free_old:
  assumes old: "owns b0 own1 b1" and new: "owns b1 own2 b2"
  shows "owns b0 own2 (filter (\<lambda>(q, k). q \<notin> vb_buf ` set own1) b2)"
proof -
  have fresh: "vb_buf x \<notin> vb_buf ` set own1" if "x \<in> set own2" for x
    using new that old by (auto simp: owns_def fresh_bufs_def image_Un)
  have "filter (\<lambda>(q, k). q \<notin> vb_buf ` set own1) (rev (map blk_of own2)) = rev (map blk_of own2)"
    using fresh by (auto simp: blk_of_def intro!: filter_True)
  then have "filter (\<lambda>(q, k). q \<notin> vb_buf ` set own1) b2 = rev (map blk_of own2) @ b0"
    using new owns_free [OF old] by (simp add: owns_def)
  moreover have "fresh_bufs b0 own2"
    using new owns_live [OF old] old unfolding owns_def fresh_bufs_def by (auto simp: image_Un)
  ultimately show ?thesis by (simp add: owns_def)
qed


text \<open>The buffers of a task with at most one buffer of the caller.\<close>

lemma bufs_ok_owned:
  assumes "fresh_bufs b0 (filter vb_copy bufs)" "\<forall>b \<in> set bufs. vb_size b < 2 ^ 32"
    "\<forall>b \<in> set bufs. \<not> vb_copy b \<longrightarrow> live_range b0 (vb_buf b) (vb_size b)" "length (filter (\<lambda>b. \<not> vb_copy b) bufs) \<le> 1"
  shows "bufs_ok bufs"
  using assms
proof (induction bufs)
  case Nil
  then show ?case by (simp add: bufs_ok_def)
next
  case (Cons b bufs)
  have "fresh_bufs b0 (filter vb_copy bufs)" using Cons.prems(1) by (auto simp: fresh_bufs_def split: if_splits)
  with Cons have tail: "bufs_ok bufs" by (auto split: if_splits)
  have head: "0 < vb_buf b \<and> vb_buf b + vb_size b < 2 ^ 64"
    using Cons.prems(1,3) by (cases "vb_copy b") (auto simp: fresh_bufs_def live_range_def)
  have "disjoint_range (vb_buf b) (vb_size b) (vb_buf b') (vb_size b')" if b': "b' \<in> set bufs" for b'
  proof (cases "vb_copy b")
    case True
    show ?thesis
    proof (cases "vb_copy b'")
      case copy: True
      have "vb_buf b \<notin> vb_buf ` set (filter vb_copy bufs)" using Cons.prems(1) True by (simp add: fresh_bufs_def)
      with b' copy have "vb_buf b \<noteq> vb_buf b'" by force
      then show ?thesis using Cons.prems(1) True copy b' by (simp add: fresh_bufs_def)
    next
      case False
      then show ?thesis using Cons.prems(1,3) True b' by (simp add: fresh_bufs_def)
    qed
  next
    case False
    with Cons.prems(4) have "filter (\<lambda>b. \<not> vb_copy b) bufs = []" by simp
    with b' have "vb_copy b'" by (auto simp: filter_empty_conv)
    then show ?thesis using Cons.prems(1,3) False b' by (auto simp: fresh_bufs_def intro: disjoint_range_sym)
  qed
  with tail head Cons.prems(2) show ?case by (simp add: bufs_ok_Cons)
qed


section \<open>Building\<close>

definition blk_buffer :: "ptr \<Rightarrow> nat \<Rightarrow> bool \<Rightarrow> nat \<Rightarrow> nat \<Rightarrow> virtio_buffer" where
  "blk_buffer p n r f g = \<lparr>vb_buf = p, vb_size = n, vb_response = r, vb_copy = True, vb_offset_from = f, vb_offset_to = g\<rparr>"

lemma blk_buffer_sel [simp]:
  "vb_buf (blk_buffer p n r f g) = p" "vb_size (blk_buffer p n r f g) = n" "vb_response (blk_buffer p n r f g) = r"
  "vb_copy (blk_buffer p n r f g)" "vb_offset_from (blk_buffer p n r f g) = f" "vb_offset_to (blk_buffer p n r f g) = g"
  by (simp_all add: blk_buffer_def)

lemma buffer_offsets [simp]:
  "vb_offset_from (user_buffer p n r) = 0" "vb_offset_to (user_buffer p n r) = n"
  "vb_offset_from (own_buffer p n r) = 0" "vb_offset_to (own_buffer p n r) = n"
  by (simp_all add: user_buffer_def own_buffer_def)

text \<open>From \<open>s0\<close> to \<open>s\<close> a task with the buffers \<open>bufs\<close> was created at \<open>t\<close>.\<close>

definition building :: "sys \<Rightarrow> sys \<Rightarrow> ptr \<Rightarrow> nat \<Rightarrow> virtio_buffer list \<Rightarrow> bool" where
  "building s0 s t lim bufs \<longleftrightarrow> t = s_next s0 \<and> s_next s = Suc t \<and> s_oom s = s_oom s0 \<and> s_efd s = s_efd s0 \<and>
     owns (s_blocks s0) (filter vb_copy bufs) (s_blocks s) \<and>
     (\<exists>task. s_tasks s = (s_tasks s0)(t \<mapsto> task) \<and> task_wf task \<and> task_bufs task = bufs \<and> limit task = lim)"

lemma building_owns: "building s0 s t lim bufs \<Longrightarrow> owns (s_blocks s0) (filter vb_copy bufs) (s_blocks s)"
  by (simp add: building_def)

lemma building_mem [simp]: "building s0 (s\<lparr>s_mem := m\<rparr>) t lim bufs = building s0 s t lim bufs"
  by (simp add: building_def)

lemma build_create:
  assumes "s_oom s = (\<lambda>_. False)"
  shows "\<exists>s'. virtio_task_create n s = (s_next s, s') \<and> building s s' (s_next s) n [] \<and> s_mem s' = s_mem s"
proof -
  let ?s = "s\<lparr>s_nalloc := Suc (Suc (s_nalloc s)), s_next := Suc (s_next s), s_tasks := (s_tasks s)(s_next s \<mapsto> empty_task n)\<rparr>"
  have "virtio_task_create n s = (s_next s, ?s)"
    using assms by (simp add: virtio_task_create_def c_alloc_def Let_def empty_task_def)
  moreover have "building s ?s (s_next s) n []" by (auto simp: building_def intro: exI [of _ "empty_task n"])
  ultimately show ?thesis by (intro exI [of _ ?s]) simp
qed

lemma build_alloc:
  assumes b: "building s0 s t lim bufs" and len: "length bufs < lim" and rm: "rte_malloc_spec rm"
    and room: "rm_room rm L (Suc k) (s_blocks s)" "sz \<le> L" and sz: "sz < 2 ^ 31"
  obtains p s' where "virtio_task_alloc_buf_part rm t sz r z f g s = Some (p, s')" "p \<noteq> NULL"
    "building s0 s' t lim (bufs @ [blk_buffer p sz r f g])"
    "s_mem s' = (if z then memset p 0 sz (s_mem s) else s_mem s)" "rm_room rm L k (s_blocks s')"
    "\<And>a n. live_range (s_blocks s) a n \<Longrightarrow> disjoint_range p sz a n"
proof -
  define p where "p = rm (s_blocks s) sz 0"
  let ?vb = "blk_buffer p sz r f g"
  have p: "p \<noteq> NULL" "rm_room rm L k ((p, sz) # s_blocks s)" using room by (simp_all add: p_def)
  obtain task where task: "s_tasks s = (s_tasks s0)(t \<mapsto> task)" "task_wf task" "task_bufs task = bufs" "limit task = lim"
    using b by (auto simp: building_def)
  have cnt: "count task < limit task" using task len length_task_bufs [of task] by simp
  let ?s = "s\<lparr>s_blocks := (p, sz) # s_blocks s, s_mem := if z then memset p 0 sz (s_mem s) else s_mem s,
    s_tasks := (s_tasks s)(t \<mapsto> push_vbuf task ?vb)\<rparr>"
  have "virtio_task_alloc_buf_part rm t sz r z f g s = Some (p, ?s)"
    using task(1) cnt p(1) sz
    by (cases s) (simp add: virtio_task_alloc_buf_part_def alloc_shared_buf_def Let_def to_int_of_nat to_size_of_nat to_uint_def p_def blk_buffer_def)
  moreover have "owns (s_blocks s0) (filter vb_copy bufs @ [?vb]) ((p, sz) # s_blocks s)"
    using owns_snoc [OF building_owns [OF b] rm, of ?vb 0] p(1) by (simp add: p_def)
  then have "building s0 ?s t lim (bufs @ [?vb])"
    using b task cnt push_vbuf_wf [OF task(2) cnt] push_vbuf_bufs [OF task(2) cnt]
    by (auto simp: building_def intro!: exI [of _ "push_vbuf task ?vb"])
  moreover have "disjoint_range p sz a n" if "live_range (s_blocks s) a n" for a n
    using rm_alloc(4) [OF rm _ that] p(1) by (simp add: p_def)
  ultimately show ?thesis using p by (intro that [of p ?s]) simp_all
qed

lemma build_add:
  assumes b: "building s0 s t lim bufs" and len: "length bufs < lim"
  obtains s' where "virtio_task_add_buf t buf sz r s = Some s'"
    "building s0 s' t lim (bufs @ [user_buffer buf sz r])" "s_mem s' = s_mem s" "s_blocks s' = s_blocks s"
proof -
  obtain task where task: "s_tasks s = (s_tasks s0)(t \<mapsto> task)" "task_wf task" "task_bufs task = bufs" "limit task = lim"
    using b by (auto simp: building_def)
  have cnt: "count task < limit task" using task len length_task_bufs [of task] by simp
  let ?s = "s\<lparr>s_tasks := (s_tasks s)(t \<mapsto> push_vbuf task (user_buffer buf sz r))\<rparr>"
  have "virtio_task_add_buf t buf sz r s = Some ?s"
    using task(1) cnt by (simp add: virtio_task_add_buf_def Let_def user_buffer_def)
  moreover have "building s0 ?s t lim (bufs @ [user_buffer buf sz r])"
    using b task cnt push_vbuf_wf [OF task(2) cnt] push_vbuf_bufs [OF task(2) cnt]
    by (auto simp: building_def intro!: exI [of _ "push_vbuf task (user_buffer buf sz r)"])
  ultimately show ?thesis by (intro that [of ?s]) simp_all
qed


section \<open>Submission\<close>

text \<open>
  The task \<open>t\<close> with callback \<open>c\<close> and argument \<open>a\<close> is in the ring behind the queue \<open>q\<close>, announced last
  and not yet completed.
\<close>

definition pending :: "vqueue \<Rightarrow> nat \<Rightarrow> ('d, 'z) pworld_scheme \<Rightarrow> ptr \<Rightarrow> task_cb \<Rightarrow> ptr \<Rightarrow> virtio_buffer list \<Rightarrow> bool" where
  "pending q k w t c a bufs \<longleftrightarrow>
     (\<exists>task ch. s_tasks (w_sys w) t = Some task \<and> task_wf task \<and> task_bufs task = bufs \<and> cb task = Some c \<and> arg task = a \<and>
        vring_rep (w_ring w) (w_sys w) (q\<lparr>inflight := inflight q @ [(t, ch)]\<rparr>) \<and> last_announced (w_ring w) = hd ch) \<and>
     announces (w_ring w) bufs \<and> t \<noteq> NULL \<and> t \<notin> fst ` set (inflight q) \<and> completed q = [] \<and> queue_slots q + 5 \<le> 1024 \<and>
     kick_room k (w_ring w) (w_sys w) \<and> t < s_next (w_sys w) \<and> (\<forall>t' \<ge> s_next (w_sys w). s_tasks (w_sys w) t' = None) \<and>
     s_oom (w_sys w) = (\<lambda>_. False)"

text \<open>The world \<open>w\<close> with another ring and with the tasks and events of \<open>s\<close>; the rest of the state is that of \<open>s\<close>.\<close>

lemma submit_pending:
  assumes ready: "dev_ready q (Suc k) w" and b: "building (w_sys w) s t lim bufs" and len: "bufs \<noteq> []" "length bufs \<le> 5"
  obtains vr task e where "vring_submit_task t (Some c) a (w\<lparr>w_sys := s\<rparr>) =
      Some (0, w\<lparr>w_ring := vr, w_sys := s\<lparr>s_tasks := (s_tasks (w_sys w))(t \<mapsto> task), s_efd := e\<rparr>\<rparr>)"
    "pending q k (w\<lparr>w_ring := vr, w_sys := s\<lparr>s_tasks := (s_tasks (w_sys w))(t \<mapsto> task), s_efd := e\<rparr>\<rparr>) t c a bufs"
    "task_bufs task = bufs" "task_wf task"
proof -
  obtain task where task: "s_tasks s = (s_tasks (w_sys w))(t \<mapsto> task)" "task_wf task" "task_bufs task = bufs"
    using b by (auto simp: building_def)
  have t: "t = s_next (w_sys w)" "s_next s = Suc t" "s_oom s = s_oom (w_sys w)" "s_efd s = s_efd (w_sys w)"
    using b by (auto simp: building_def)
  have rep: "vring_rep (w_ring w) (w_sys w) q" and ne: "t \<noteq> NULL" "s_tasks (w_sys w) t = None"
    and fresh: "\<forall>t' \<ge> s_next (w_sys w). s_tasks (w_sys w) t' = None" and q: "completed q = []" "queue_slots q + 5 \<le> 1024"
    and kick: "kick_room (Suc k) (w_ring w) (w_sys w)" and oom: "s_oom (w_sys w) = (\<lambda>_. False)"
    using ready t(1) by (auto simp: dev_ready_def)
  have notin: "t \<notin> fst ` set (inflight q)" by (rule fresh_not_inflight [OF rep ne(2)])
  let ?w = "w\<lparr>w_sys := s\<rparr>"
  have rep0: "vring_rep (w_ring ?w) (w_sys ?w) q"
    using vring_rep_update_task [OF rep notin task(1)] by simp
  have cnt: "count task = length bufs" using length_task_bufs [OF task(2)] task(3) by simp
  have pre: "s_tasks (w_sys ?w) t = Some task" "0 < count task" "queue_slots q + count task \<le> 1024"
    "kick_room (Suc k) (w_ring ?w) (w_sys ?w)"
    using task(1) len q(2) kick t(4) cnt by (auto simp: kick_room_def)
  obtain ch vr s' e where s': "s' = (w_sys ?w)\<lparr>s_tasks := (s_tasks (w_sys ?w))(t \<mapsto> task\<lparr>cb := Some c, arg := a, vring_idx := hd ch\<rparr>), s_efd := e\<rparr>"
    and sub: "vring_submit_task t (Some c) a ?w = Some (0, ?w\<lparr>w_ring := vr, w_sys := s'\<rparr>)"
    "vring_rep vr s' (q\<lparr>inflight := inflight q @ [(t, ch)]\<rparr>)" "announces vr (task_bufs task)" "last_announced vr = hd ch"
    "kick_room k vr s'" "length ch = count task"
    by (rule vring_submit_task_ok [OF rep0 pre(1) task(2) pre(2) ne(1) notin pre(4,3)])
  let ?t2 = "task\<lparr>cb := Some c, arg := a, vring_idx := hd ch\<rparr>"
  have eq: "s' = s\<lparr>s_tasks := (s_tasks (w_sys w))(t \<mapsto> ?t2), s_efd := e\<rparr>" using task(1) s' by simp
  have "pending q k (w\<lparr>w_ring := vr, w_sys := s'\<rparr>) t c a bufs"
    using sub(2-5) task(2,3) ne(1) notin q t fresh oom unfolding pending_def
    by (auto simp: eq intro!: exI [of _ ?t2] exI [of _ ch])
  with sub(1) task(2,3) show ?thesis
    by (intro that [where vr = vr and task = ?t2 and e = e]) (simp_all add: eq)
qed

lemma drain_idle:
  assumes "vring_rep (w_ring w) (w_sys w) q" "completed q = []"
  shows "drain (Suc f) cbs n w = Some (n, w)"
  using vring_get_empty [OF assms] by simp

lemma drain_pending: "pending q k w t c a bufs \<Longrightarrow> drain (Suc f) cbs n w = Some (n, w)"
  by (auto simp: pending_def simp del: drain.simps intro: drain_idle)

lemma drain_ready: "dev_ready q k w \<Longrightarrow> drain (Suc f) cbs n w = Some (n, w)"
  by (auto simp: dev_ready_def simp del: drain.simps intro: drain_idle)


section \<open>Completion\<close>

text \<open>The poller has fetched the task: it is out of the ring and its byte count is \<open>l\<close>.\<close>

definition fetched :: "('d, 'z) pworld_scheme \<Rightarrow> ptr \<Rightarrow> virtio_buffer list \<Rightarrow> u32 \<Rightarrow> bool" where
  "fetched w t bufs l \<longleftrightarrow> (\<exists>task. s_tasks (w_sys w) t = Some task \<and> task_wf task \<and> task_bufs task = bufs \<and> used_bytes task = l)"

lemma complete_pending:
  assumes p: "pending q k w t c a bufs" and srv: "serves serve bufs (m_of w) (w_srv w) l m' d'"
  obtains vr task where
    "drain (Suc f) cbs n (run_server serve w) =
       Option.bind (cbs c t a (w\<lparr>w_ring := vr, w_sys := (w_sys w)\<lparr>s_mem := m', s_tasks := (s_tasks (w_sys w))(t \<mapsto> task)\<rparr>, w_srv := d'\<rparr>))
         (drain f cbs (n + 1))"
    "dev_ready q k (w\<lparr>w_ring := vr, w_sys := (w_sys w)\<lparr>s_mem := m', s_tasks := (s_tasks (w_sys w))(t \<mapsto> task)\<rparr>, w_srv := d'\<rparr>)"
    "task_wf task" "task_bufs task = bufs" "used_bytes task = l" "kickfd vr = kickfd (w_ring w)"
proof -
  let ?s1 = "(w_sys w)\<lparr>s_mem := m'\<rparr>"
  obtain task ch where task: "s_tasks (w_sys w) t = Some task" "task_wf task" "task_bufs task = bufs" "cb task = Some c" "arg task = a"
    and rep: "vring_rep (w_ring w) (w_sys w) (q\<lparr>inflight := inflight q @ [(t, ch)]\<rparr>)" and ann: "last_announced (w_ring w) = hd ch"
    using p by (auto simp: pending_def)
  have q: "completed q = []" "queue_slots q + 5 \<le> 1024" and t: "t \<noteq> NULL" "t \<notin> fst ` set (inflight q)" "announces (w_ring w) bufs"
    using p by (auto simp: pending_def)
  have fresh: "kick_room k (w_ring w) (w_sys w)" "t < s_next (w_sys w)"
      "\<forall>t' \<ge> s_next (w_sys w). s_tasks (w_sys w) t' = None" "s_oom (w_sys w) = (\<lambda>_. False)"
    using p by (auto simp: pending_def)
  let ?vr1 = "used_push (ucast (hd ch)) l (w_ring w)"
  let ?q1 = "\<lparr>inflight = inflight q @ [(t, ch)], completed = [(t, l)]\<rparr>"
  have run: "run_server serve w = w\<lparr>w_ring := ?vr1, w_sys := ?s1, w_srv := d'\<rparr>"
    using srv t(3) ann by (simp add: run_server_def serves_def)
  have "vring_rep ?vr1 (w_sys w) ?q1" using used_push_rep [OF rep, of t ch l] q(1) by (cases q) simp
  then have rep1: "vring_rep ?vr1 ?s1 ?q1" by (rule vring_rep_tasks_cong) simp
  let ?task = "task\<lparr>used_bytes := l\<rparr>"
  let ?s2 = "?s1\<lparr>s_tasks := (s_tasks (w_sys w))(t \<mapsto> ?task)\<rparr>"
  from vring_get_completed [OF rep1, of t l "[]"] task(1) obtain vr2 where
    get: "vring_get_task ?vr1 ?s1 = Some (t, vr2, ?s2)" "vring_rep vr2 ?s2 \<lparr>inflight = drop_task t (inflight ?q1), completed = []\<rparr>"
    by auto
  have q': "\<lparr>inflight = drop_task t (inflight ?q1), completed = []\<rparr> = q"
    using q(1) vq.drop_task_append [OF t(2)] by (cases q) simp
  have kick: "kickfd vr2 = kickfd (w_ring w)"
    using get(1) by (auto simp: vring_get_task_def Let_def bind_eq_Some_conv split: if_splits)
  let ?w2 = "w\<lparr>w_ring := vr2, w_sys := ?s2, w_srv := d'\<rparr>"
  have upd: "w\<lparr>w_srv := d', w_ring := x, w_sys := y\<rparr> = w\<lparr>w_ring := x, w_sys := y, w_srv := d'\<rparr>" for x y
    by (cases w) simp
  have "drain (Suc f) cbs n (run_server serve w) = Option.bind (cbs c t a ?w2) (drain f cbs (n + 1))"
    unfolding run using get(1) t(1) task(4,5) by (simp add: Let_def upd)
  moreover have "dev_ready q k ?w2"
    using get(2) [unfolded q'] q fresh kick by (auto simp: dev_ready_def kick_room_def)
  ultimately show ?thesis using task(2,3) kick by (intro that [where vr = vr2 and task = ?task]) (assumption | simp)+
qed


section \<open>Destruction\<close>

lemma destroy_fetched:
  assumes ready: "dev_ready q k w" and t: "t < s_next (w_sys w)" "s_tasks (w_sys w) t = Some task" "task_wf task" "t \<notin> fst ` set (inflight q)"
    and own: "\<forall>b \<in> set (filter vb_copy (task_bufs task)). vb_buf b \<noteq> NULL"
  obtains s where "w_destroy t w = Some (w\<lparr>w_sys := s\<rparr>)" "dev_ready q k (w\<lparr>w_sys := s\<rparr>)"
    "s_blocks s = filter (\<lambda>(p, n). p \<notin> vb_buf ` set (filter vb_copy (task_bufs task))) (s_blocks (w_sys w))"
    "s_tasks s = (s_tasks (w_sys w))(t := None)" "s_mem s = m_of w" "s_efd s = s_efd (w_sys w)" "s_next s = s_next (w_sys w)"
proof -
  let ?s = "(free_vbufs (map Some (task_bufs task)) (w_sys w))\<lparr>s_tasks := (s_tasks (w_sys w))(t := None)\<rparr>"
  have "w_destroy t w = Some (w\<lparr>w_sys := ?s\<rparr>)"
    using t(2) take_vbufs [OF t(3)] by (simp add: w_destroy_def virtio_task_destroy_def Let_def)
  moreover have rep: "vring_rep (w_ring w) (w_sys w) q" using ready by (simp add: dev_ready_def)
  have "vring_rep (w_ring w) ?s q" by (rule vring_rep_update_task [OF rep t(4), of ?s None]) simp
  then have "dev_ready q k (w\<lparr>w_sys := ?s\<rparr>)" using ready by (simp add: dev_ready_def kick_room_def)
  moreover have "{b \<in> set (task_bufs task). vb_copy b \<and> vb_buf b \<noteq> NULL} = set (filter vb_copy (task_bufs task))"
    using own by auto
  then have "s_blocks ?s = filter (\<lambda>(p, n). p \<notin> vb_buf ` set (filter vb_copy (task_bufs task))) (s_blocks (w_sys w))"
    using free_vbufs_blocks [of "task_bufs task" "w_sys w"] by simp
  ultimately show ?thesis by (intro that [of ?s]) simp_all
qed


section \<open>A request in progress\<close>

definition mem_same :: "(ptr \<times> nat) list \<Rightarrow> mem \<Rightarrow> mem \<Rightarrow> bool" where
  "mem_same b m m' \<longleftrightarrow> (\<forall>a. live_range b a 1 \<longrightarrow> m' a = m a)"

lemma mem_same_refl [simp]: "mem_same b m m"
  by (simp add: mem_same_def)

lemma mem_same_trans: "mem_same b m m1 \<Longrightarrow> mem_same b m1 m2 \<Longrightarrow> mem_same b m m2"
  by (simp add: mem_same_def)

text \<open>The parts of the device that change only when a request is finished.\<close>

definition aframe :: "('d, 'r, 'z) aworld_scheme \<Rightarrow> ('d, 'r, 'z) aworld_scheme \<Rightarrow> bool" where
  "aframe w w' \<longleftrightarrow> a_self w' = a_self w \<and> a_dev w' = a_dev w \<and> a_outfd w' = a_outfd w \<and> a_outring w' = a_outring w \<and>
     a_event_high_wm w' = a_event_high_wm w \<and> kickfd (w_ring w') = kickfd (w_ring w) \<and>
     (a_outfd w \<noteq> kickfd (w_ring w) \<longrightarrow> s_efd (w_sys w') (a_outfd w) = s_efd (w_sys w) (a_outfd w))"

lemma aframe_refl [simp]: "aframe w w"
  by (simp add: aframe_def)

lemma aframe_trans: "aframe w w1 \<Longrightarrow> aframe w1 w2 \<Longrightarrow> aframe w w2"
  by (simp add: aframe_def)

text \<open>
  Since \<open>w0\<close> one task was built at \<open>t\<close>, with the buffers \<open>bufs\<close>; its own blocks are the only ones that
  were added.
\<close>

definition one_task :: "('d, 'r, 'z) aworld_scheme \<Rightarrow> ('d, 'r, 'z) aworld_scheme \<Rightarrow> ptr \<Rightarrow> virtio_buffer list \<Rightarrow> bool" where
  "one_task w0 w t bufs \<longleftrightarrow> owns (s_blocks (w_sys w0)) (filter vb_copy bufs) (s_blocks (w_sys w)) \<and>
     (\<forall>t'. t' \<noteq> t \<longrightarrow> s_tasks (w_sys w) t' = s_tasks (w_sys w0) t') \<and> s_tasks (w_sys w0) t = None \<and> aframe w0 w"

definition io_fetched :: "vqueue \<Rightarrow> nat \<Rightarrow> ('d, 'r, 'z) aworld_scheme \<Rightarrow> ('d, 'r, 'z) aworld_scheme \<Rightarrow> ptr \<Rightarrow> virtio_buffer list \<Rightarrow> u32 \<Rightarrow> bool" where
  "io_fetched q k w0 w t bufs l \<longleftrightarrow> one_task w0 w t bufs \<and> fetched w t bufs l \<and> dev_ready q k w \<and> t < s_next (w_sys w) \<and>
     t \<notin> fst ` set (inflight q) \<and> t \<noteq> NULL"

lemma submit_one_task:
  assumes ready: "dev_ready q (Suc k) w" and b: "building (w_sys w) s t lim bufs" and len: "bufs \<noteq> []" "length bufs \<le> 5"
  obtains w1 where "vring_submit_task t (Some c) a (w\<lparr>w_sys := s\<rparr>) = Some (0, w1)" "pending q k w1 t c a bufs"
    "one_task w w1 t bufs" "m_of w1 = s_mem s" "a_descs w1 = a_descs w" "w_srv w1 = w_srv w"
proof -
  obtain vr task e where sub: "vring_submit_task t (Some c) a (w\<lparr>w_sys := s\<rparr>) =
      Some (0, w\<lparr>w_ring := vr, w_sys := s\<lparr>s_tasks := (s_tasks (w_sys w))(t \<mapsto> task), s_efd := e\<rparr>\<rparr>)"
    "pending q k (w\<lparr>w_ring := vr, w_sys := s\<lparr>s_tasks := (s_tasks (w_sys w))(t \<mapsto> task), s_efd := e\<rparr>\<rparr>) t c a bufs"
    "task_bufs task = bufs" "task_wf task"
    by (rule submit_pending [OF ready b len])
  have "s_tasks (w_sys w) t = None" using ready b by (auto simp: dev_ready_def building_def)
  moreover have "s_efd s = s_efd (w_sys w)" using b by (simp add: building_def)
  ultimately have "one_task w (w\<lparr>w_ring := vr, w_sys := s\<lparr>s_tasks := (s_tasks (w_sys w))(t \<mapsto> task), s_efd := e\<rparr>\<rparr>) t bufs"
    using building_owns [OF b] submit_frame [OF sub(1)] by (auto simp: one_task_def aframe_def)
  then show ?thesis
    by (rule that [where ?w1.0 = "w\<lparr>w_ring := vr, w_sys := s\<lparr>s_tasks := (s_tasks (w_sys w))(t \<mapsto> task), s_efd := e\<rparr>\<rparr>", OF sub(1,2)]) simp_all
qed

lemma complete_one_task:
  assumes p: "pending q k w t c a bufs" and one: "one_task w0 w t bufs" and srv: "serves serve bufs (m_of w) (w_srv w) l m' d'"
  obtains w2 where "drain (Suc f) cbs n (run_server serve w) = Option.bind (cbs c t a w2) (drain f cbs (n + 1))"
    "io_fetched q k w0 w2 t bufs l" "m_of w2 = m'" "w_srv w2 = d'" "a_descs w2 = a_descs w"
proof -
  obtain vr task where d:
    "drain (Suc f) cbs n (run_server serve w) =
       Option.bind (cbs c t a (w\<lparr>w_ring := vr, w_sys := (w_sys w)\<lparr>s_mem := m', s_tasks := (s_tasks (w_sys w))(t \<mapsto> task)\<rparr>, w_srv := d'\<rparr>))
         (drain f cbs (n + 1))"
    "dev_ready q k (w\<lparr>w_ring := vr, w_sys := (w_sys w)\<lparr>s_mem := m', s_tasks := (s_tasks (w_sys w))(t \<mapsto> task)\<rparr>, w_srv := d'\<rparr>)"
    "task_wf task" "task_bufs task = bufs" "used_bytes task = l" "kickfd vr = kickfd (w_ring w)"
    by (rule complete_pending [OF p srv])
  have "io_fetched q k w0 (w\<lparr>w_ring := vr, w_sys := (w_sys w)\<lparr>s_mem := m', s_tasks := (s_tasks (w_sys w))(t \<mapsto> task)\<rparr>, w_srv := d'\<rparr>) t bufs l"
    using p one d(2-6) by (auto simp: io_fetched_def one_task_def aframe_def fetched_def pending_def)
  then show ?thesis
    by (rule that [where ?w2.0 = "w\<lparr>w_ring := vr, w_sys := (w_sys w)\<lparr>s_mem := m', s_tasks := (s_tasks (w_sys w))(t \<mapsto> task)\<rparr>, w_srv := d'\<rparr>",
          OF d(1)]) simp_all
qed

lemma one_task_nonnull: "one_task w0 w t bufs \<Longrightarrow> \<forall>b \<in> set (filter vb_copy bufs). vb_buf b \<noteq> NULL"
  by (simp add: one_task_def owns_def fresh_bufs_def)

lemma one_task_free:
  "one_task w0 w t bufs \<Longrightarrow>
   filter (\<lambda>(p, n). p \<notin> vb_buf ` set (filter vb_copy bufs)) (s_blocks (w_sys w)) = s_blocks (w_sys w0)"
  unfolding one_task_def by (rule owns_free) simp


section \<open>The output ring\<close>

definition outfd_room :: "('d, 'r, 'z) aworld_scheme \<Rightarrow> bool" where
  "outfd_room w \<longleftrightarrow> a_outfd w \<noteq> kickfd (w_ring w) \<and> (\<exists>n. s_efd (w_sys w) (a_outfd w) = Some n \<and> n + 1 \<le> 2 ^ 64 - 2)"

lemma aframe_room: "aframe w w' \<Longrightarrow> outfd_room w \<Longrightarrow> outfd_room w'"
  by (simp add: aframe_def outfd_room_def)

lemma push_ok:
  assumes spec: "rte_ring_spec ops els rcap" and len: "length (els (a_outring w)) < rcap" and out: "outfd_room w"
  obtains r e where "push_to_outring ops io w = Some (w\<lparr>a_outring := r, w_sys := (w_sys w)\<lparr>s_efd := e\<rparr>\<rparr>)"
    "els r = els (a_outring w) @ [io]" "e (kickfd (w_ring w)) = s_efd (w_sys w) (kickfd (w_ring w))"
proof -
  obtain rc r where enq: "rte_ring_sp_enqueue ops (a_outring w) io = (rc, r)" by fastforce
  have "fst (rte_ring_sp_enqueue ops (a_outring w) io) = 0 \<and> els (snd (rte_ring_sp_enqueue ops (a_outring w) io)) = els (a_outring w) @ [io]"
    using spec len unfolding rte_ring_spec_def by blast
  then have r: "rc = 0" "els r = els (a_outring w) @ [io]" using enq by simp_all
  obtain n where n: "s_efd (w_sys w) (a_outfd w) = Some n" "n + 1 \<le> 2 ^ 64 - 2" "a_outfd w \<noteq> kickfd (w_ring w)"
    using out by (auto simp: outfd_room_def)
  show ?thesis
  proof (cases "a_event_high_wm w > 0 \<and> a_event_high_wm w \<le> int (rte_ring_count ops r)")
    case True
    then show ?thesis using enq r n
      by (intro that [where r = r and e = "(s_efd (w_sys w))(a_outfd w \<mapsto> n + 1)"])
        (simp_all add: push_to_outring_def eventfd_write_def Let_def)
  next
    case False
    then have "push_to_outring ops io w = Some (w\<lparr>a_outring := r, w_sys := (w_sys w)\<lparr>s_efd := s_efd (w_sys w)\<rparr>\<rparr>)"
      using enq r by (auto simp: push_to_outring_def Let_def)
    then show ?thesis using r(2) by (rule that) simp
  qed
qed

text \<open>The end of every callback that finishes a request.\<close>

lemma finish_request:
  assumes spec: "rte_ring_spec ops els rcap" and len: "length (els (a_outring w0)) < rcap" and out: "outfd_room w0"
    and st: "io_fetched q k w0 w t bufs l"
  obtains w' where "Option.bind (push_to_outring ops io w) (w_destroy t) = Some w'" "dev_ready q k w'"
    "s_blocks (w_sys w') = s_blocks (w_sys w0)" "s_tasks (w_sys w') = s_tasks (w_sys w0)" "m_of w' = m_of w" "w_srv w' = w_srv w"
    "a_descs w' = a_descs w" "els (a_outring w') = els (a_outring w0) @ [io]" "a_dev w' = a_dev w0" "a_self w' = a_self w0"
proof -
  have one: "one_task w0 w t bufs" and fr: "aframe w0 w" and ready: "dev_ready q k w" and t: "t < s_next (w_sys w)" "t \<notin> fst ` set (inflight q)"
    using st by (auto simp: io_fetched_def one_task_def)
  obtain task where task: "s_tasks (w_sys w) t = Some task" "task_wf task" "task_bufs task = bufs"
    using st by (auto simp: io_fetched_def fetched_def)
  have "length (els (a_outring w)) < rcap" using len fr by (simp add: aframe_def)
  then obtain r e where push: "push_to_outring ops io w = Some (w\<lparr>a_outring := r, w_sys := (w_sys w)\<lparr>s_efd := e\<rparr>\<rparr>)"
    "els r = els (a_outring w) @ [io]" "e (kickfd (w_ring w)) = s_efd (w_sys w) (kickfd (w_ring w))"
    by (rule push_ok [OF spec _ aframe_room [OF fr out]])
  let ?w = "w\<lparr>a_outring := r, w_sys := (w_sys w)\<lparr>s_efd := e\<rparr>\<rparr>"
  have "vring_rep (w_ring w) ((w_sys w)\<lparr>s_efd := e\<rparr>) q"
    by (rule vring_rep_tasks_cong [of _ "w_sys w"]) (use ready in \<open>simp_all add: dev_ready_def\<close>)
  then have ready2: "dev_ready q k ?w" using ready push(3) by (simp add: dev_ready_def kick_room_def)
  have own: "\<forall>b \<in> set (filter vb_copy (task_bufs task)). vb_buf b \<noteq> NULL" unfolding task(3) by (rule one_task_nonnull [OF one])
  have pre: "t < s_next (w_sys ?w)" "s_tasks (w_sys ?w) t = Some task" using t(1) task(1) by simp_all
  obtain s where d: "w_destroy t ?w = Some (?w\<lparr>w_sys := s\<rparr>)" "dev_ready q k (?w\<lparr>w_sys := s\<rparr>)"
    "s_blocks s = filter (\<lambda>(p, n). p \<notin> vb_buf ` set (filter vb_copy (task_bufs task))) (s_blocks (w_sys ?w))"
    "s_tasks s = (s_tasks (w_sys ?w))(t := None)" "s_mem s = m_of ?w" "s_efd s = s_efd (w_sys ?w)" "s_next s = s_next (w_sys ?w)"
    by (rule destroy_fetched [OF ready2 pre task(2) t(2) own])
  have "s_tasks s = s_tasks (w_sys w0)" using d(4) one by (auto simp: one_task_def fun_eq_iff)
  moreover have "s_blocks s = s_blocks (w_sys w0)" using d(3) task(3) one_task_free [OF one] by simp
  ultimately show ?thesis using push d fr by (intro that [of "?w\<lparr>w_sys := s\<rparr>"]) (simp_all add: aframe_def)
qed

end
