(* ===== verification/Async_Read.thy ===== *)
theory Async_Read
  imports Async_Build
begin

text \<open>
  Asynchronous reads: the data buffers that \<open>read_virtio_dev_async\<close> builds cover the requested bytes, and
  \<open>blk_read_done\<close> leaves exactly these bytes in the caller's buffer.
\<close>

section \<open>Contents of a list of buffers\<close>

fun contents :: "mem \<Rightarrow> (nat \<Rightarrow> u8) \<Rightarrow> nat \<Rightarrow> virtio_buffer list \<Rightarrow> bool" where
  "contents m F pos [] = True"
| "contents m F pos (b # bs) = ((\<forall>i < vb_size b. m (vb_buf b + i) = F (pos + i)) \<and> contents m F (pos + vb_size b) bs)"

lemma gathered_contents:
  "gathered m bs = map F [pos..<pos + sum_list (map vb_size bs)] \<Longrightarrow> contents m F pos bs"
proof (induction bs arbitrary: pos)
  case (Cons b bs)
  let ?n = "vb_size b" and ?k = "sum_list (map vb_size bs)"
  have "[pos..<pos + sum_list (map vb_size (b # bs))] = [pos..<pos + ?n] @ [pos + ?n..<pos + ?n + ?k]"
    using upt_add_eq_append [of pos "pos + ?n" ?k] by (simp add: add.assoc)
  with Cons.prems have "mem_read m (vb_buf b) ?n @ gathered m bs = map F [pos..<pos + ?n] @ map F [pos + ?n..<pos + ?n + ?k]"
    by (simp add: gathered_def)
  then have eq: "mem_read m (vb_buf b) ?n = map F [pos..<pos + ?n]" "gathered m bs = map F [pos + ?n..<pos + ?n + ?k]"
    by (auto simp: append_eq_append_conv)
  have "m (vb_buf b + i) = F (pos + i)" if "i < ?n" for i
    using arg_cong [OF eq(1), of "\<lambda>xs. xs ! i"] that by simp
  with Cons.IH [OF eq(2)] show ?case by simp
qed simp

lemma contents_cong:
  "contents m F pos bs \<Longrightarrow> (\<And>b i. b \<in> set bs \<Longrightarrow> i < vb_size b \<Longrightarrow> m' (vb_buf b + i) = m (vb_buf b + i)) \<Longrightarrow> contents m' F pos bs"
  by (induction bs arbitrary: pos) auto

text \<open>
  The buffers take the device from byte \<open>pos\<close> on; the caller wants the bytes from \<open>off\<close> to
  \<open>off + N\<close> in \<open>buf\<close> and has \<open>r\<close> of them.
\<close>

fun data_plan :: "ptr \<Rightarrow> nat \<Rightarrow> nat \<Rightarrow> nat \<Rightarrow> nat \<Rightarrow> virtio_buffer list \<Rightarrow> bool" where
  "data_plan buf off N pos r [] \<longleftrightarrow> r = N"
| "data_plan buf off N pos r (b # bs) \<longleftrightarrow>
     vb_offset_from b \<le> vb_offset_to b \<and> vb_offset_to b \<le> vb_size b \<and> vb_size b < 2 ^ 62 \<and>
     off + r = pos + vb_offset_from b \<and>
     r + (vb_offset_to b - vb_offset_from b) \<le> N \<and>
     (\<not> vb_copy b \<longrightarrow> vb_buf b = buf + r \<and> vb_offset_from b = 0 \<and> vb_offset_to b = vb_size b) \<and>
     (vb_copy b \<longrightarrow> disjoint_range (vb_buf b) (vb_size b) buf N) \<and>
     data_plan buf off N (pos + vb_size b) (r + (vb_offset_to b - vb_offset_from b)) bs"

lemma data_plan_le: "data_plan buf off N pos r bs \<Longrightarrow> r \<le> N"
  by (cases bs) auto

lemma data_plan_later:
  "data_plan buf off N pos r bs \<Longrightarrow> b \<in> set bs \<Longrightarrow> j < vb_size b \<Longrightarrow> vb_buf b + j < buf \<or> buf + r \<le> vb_buf b + j"
proof (induction bs arbitrary: pos r)
  case (Cons x bs)
  then show ?case
  proof (cases "b = x")
    case True
    with Cons.prems data_plan_le show ?thesis by (cases "vb_copy x") (force simp: disjoint_range_def)+
  next
    case False
    with Cons.prems Cons.IH [of _ "r + (vb_offset_to x - vb_offset_from x)"] show ?thesis by force
  qed
qed simp

lemma copy_out_ok:
  assumes "data_plan buf off N pos r bs" "N \<le> ub" "ub < 2 ^ 62"
    "\<forall>i < r. m (buf + i) = F (off + i)" "contents m F pos bs"
  shows "\<exists>m'. copy_out (map Some bs) ub buf r m = Some (N, m') \<and> (\<forall>i < N. m' (buf + i) = F (off + i)) \<and>
    (\<forall>a. a < buf \<or> buf + N \<le> a \<longrightarrow> m' a = m a)"
  using assms
proof (induction bs arbitrary: pos r m)
  case Nil
  then show ?case by simp
next
  case (Cons b bs)
  define delta where "delta = vb_offset_to b - vb_offset_from b"
  have plan: "vb_offset_from b \<le> vb_offset_to b" "vb_offset_to b \<le> vb_size b" "vb_size b < 2 ^ 62" "off + r = pos + vb_offset_from b"
    "r + delta \<le> N" "data_plan buf off N (pos + vb_size b) (r + delta) bs"
    "vb_copy b \<Longrightarrow> disjoint_range (vb_buf b) (vb_size b) buf N"
    "\<not> vb_copy b \<Longrightarrow> vb_buf b = buf + r \<and> vb_offset_from b = 0 \<and> vb_offset_to b = vb_size b"
    using Cons.prems(1) by (auto simp: delta_def)
  have conv: "size_sub (vb_offset_to b) (vb_offset_from b) = delta" "size_add r delta = r + delta"
    using plan(1-3,5) Cons.prems(2,3) by (auto simp: delta_def size_sub_id size_add_id)
  have le: "\<not> size_add r delta > ub" using conv(2) plan(5) Cons.prems(2) by simp
  let ?m = "if vb_copy b then memcpy (buf + r) (vb_buf b + vb_offset_from b) delta m else m"
  have out: "?m a = m a" if "a < buf + r \<or> buf + r + delta \<le> a" for a using that by (simp add: memcpy_outside)
  have step: "copy_out (map Some (b # bs)) ub buf r m = (if r + delta \<ge> ub then Some (r + delta, ?m) else copy_out (map Some bs) ub buf (r + delta) ?m)"
    using conv le by (simp add: Let_def)
  have "?m (buf + (r + j)) = F (off + (r + j))" if "j < delta" for j
  proof -
    have src: "m (vb_buf b + (vb_offset_from b + j)) = F (pos + (vb_offset_from b + j))"
      using Cons.prems(5) that plan(1,2) by (simp add: delta_def)
    have dev: "pos + (vb_offset_from b + j) = off + (r + j)" using plan(4) by simp
    show ?thesis
    proof (cases "vb_copy b")
      case True
      then show ?thesis using src [unfolded dev] that arg_cong [OF mem_read_memcpy, of "\<lambda>xs. xs ! j" "buf + r" "vb_buf b + vb_offset_from b" delta m]
        by (simp add: add.assoc)
    next
      case False
      then show ?thesis using src [unfolded dev] plan(8) by (simp add: add.assoc)
    qed
  qed
  moreover have "?m (buf + i) = F (off + i)" if "i < r" for i using Cons.prems(4) that out by simp
  ultimately have got: "\<forall>i < r + delta. ?m (buf + i) = F (off + i)"
    by (metis add_diff_inverse_nat nat_add_left_cancel_less)
  show ?case
  proof (cases "r + delta \<ge> ub")
    case True
    with plan(5) Cons.prems(2) have "r + delta = N" by simp
    with True got out step show ?thesis by (intro exI [of _ ?m]) auto
  next
    case False
    have "contents ?m F (pos + vb_size b) bs"
      by (rule contents_cong [of m]) (use Cons.prems(5) in simp, metis data_plan_later [OF plan(6)] out add.assoc less_or_eq_imp_le trans_less_add1)
    from Cons.IH [OF plan(6) Cons.prems(2,3) got this] obtain m' where
      "copy_out (map Some bs) ub buf (r + delta) ?m = Some (N, m')" "\<forall>i < N. m' (buf + i) = F (off + i)"
      "\<forall>a. a < buf \<or> buf + N \<le> a \<longrightarrow> m' a = ?m a" by blast
    moreover have "?m a = m a" if "a < buf \<or> buf + N \<le> a" for a using that out [of a] plan(5) by fastforce
    ultimately show ?thesis using False step by (intro exI [of _ m']) simp
  qed
qed


section \<open>The blocks of a request\<close>

text \<open>
  \<open>o\<close> bytes into the first block; \<open>r1\<close> bytes from it, then \<open>c\<close> whole blocks, then \<open>e\<close> bytes.
\<close>

definition first_bytes :: "nat \<Rightarrow> nat \<Rightarrow> nat \<Rightarrow> nat" where
  "first_bytes bs off N = (if off mod bs = 0 then 0 else min N (bs - off mod bs))"

definition flag_nat :: "bool \<Rightarrow> nat" where
  "flag_nat b = (if b then 1 else 0)"

lemma first_bytes_le [simp]: "first_bytes bs off N \<le> N"
  by (simp add: first_bytes_def)

lemma first_bytes_end:
  assumes "0 < bs" "first_bytes bs off N < N"
  shows "off + first_bytes bs off N = (off div bs + flag_nat (off mod bs \<noteq> 0)) * bs"
proof (cases "off mod bs = 0")
  case True
  then show ?thesis using mult_div_mod_eq [of bs off] by (simp add: first_bytes_def flag_nat_def mult.commute)
next
  case False
  have "off mod bs < bs" using assms(1) by simp
  moreover have "off div bs * bs + off mod bs = off" by simp
  moreover have "first_bytes bs off N = bs - off mod bs" using assms(2) False by (auto simp: first_bytes_def min_def split: if_splits)
  moreover have "(off div bs + flag_nat (off mod bs \<noteq> 0)) * bs = off div bs * bs + bs" using False by (simp add: flag_nat_def)
  ultimately show ?thesis by linarith
qed

lemma blocks_covered:
  assumes bs: "0 < bs" and off: "off + N \<le> bs * nblk" "0 < N"
  defines "r \<equiv> first_bytes bs off N"
  shows "off div bs + (flag_nat (off mod bs \<noteq> 0) + (N - r) div bs + flag_nat ((N - r) mod bs \<noteq> 0)) \<le> nblk"
proof -
  let ?c = "(N - r) div bs" and ?e = "(N - r) mod bs" and ?f = "off div bs + flag_nat (off mod bs \<noteq> 0)"
  have split: "?c * bs + ?e = N - r" by simp
  have "\<exists>X. ?f + ?c + flag_nat (?e \<noteq> 0) = Suc X \<and> X * bs < off + N"
  proof (cases "r < N")
    case False
    then have r: "r = N" using first_bytes_le [of bs off N] by (simp add: r_def)
    with off(2) have "off mod bs \<noteq> 0" unfolding r_def first_bytes_def by (cases "off mod bs = 0") simp_all
    moreover have "off div bs * bs < off + N" using div_times_less_eq_dividend [of off bs] off(2) by linarith
    ultimately show ?thesis using r off(2) by (intro exI [of _ "off div bs"]) (simp add: flag_nat_def)
  next
    case True
    have start: "?f * bs = off + r" unfolding r_def using first_bytes_end [OF bs True [unfolded r_def]] by simp
    show ?thesis
    proof (cases "?e = 0")
      case True
      with split \<open>r < N\<close> have "0 < ?c" by (cases "?c = 0") auto
      then obtain c where c: "?c = Suc c" by (cases ?c) auto
      have "(?f + c) * bs = off + r + c * bs" using start by (simp add: distrib_right)
      moreover have "c * bs < N - r" using split True c bs by simp
      ultimately show ?thesis using True c \<open>r < N\<close> by (intro exI [of _ "?f + c"]) (simp add: flag_nat_def)
    next
      case False
      have "(?f + ?c) * bs = off + r + ?c * bs" using start by (simp add: distrib_right)
      moreover have "?c * bs < N - r" using split False by linarith
      ultimately show ?thesis using False by (intro exI [of _ "?f + ?c"]) (simp add: flag_nat_def)
    qed
  qed
  then obtain X where X: "?f + ?c + flag_nat (?e \<noteq> 0) = Suc X" "X * bs < nblk * bs"
    using off(1) by (metis less_le_trans mult.commute)
  then have "X < nblk" by simp
  with X(1) show ?thesis by simp
qed


section \<open>Building the data buffers\<close>

lemma pow_facts: "(2 :: nat) ^ 31 < 2 ^ 64" "(2 :: nat) ^ 31 + 2 ^ 32 < 2 ^ 64" "1 \<le> (2 :: nat) ^ 31"
  by simp_all

lemma async_first_part_ok:
  assumes b: "building s0 s t 5 bufs" "length bufs = 2" and rm: "rte_malloc_spec rm"
    and room: "rm_room rm L (Suc k) (s_blocks s)" "bs \<le> L"
    and geo: "geometry (a_dev w) bs nblk" and N: "N < 2 ^ 31"
  obtains data s' where
    "async_first_part rm t N (to_int (int (off mod bs))) (w\<lparr>w_sys := s\<rparr>) =
       Some (False, first_bytes bs off N, flag_nat (off mod bs \<noteq> 0), w\<lparr>w_sys := s'\<rparr>)"
    "building s0 s' t 5 (bufs @ data)" "s_mem s' = s_mem s" "rm_room rm L k (s_blocks s')"
    "if off mod bs = 0 then data = [] else \<exists>p. data = [blk_buffer p bs True (off mod bs) (off mod bs + first_bytes bs off N)]"
proof (cases "off mod bs = 0")
  case True
  then show ?thesis using b room(1)
    by (intro that [of s "[]"]) (simp_all add: async_first_part_def to_int_def first_bytes_def flag_nat_def rm_room_less del: rm_room.simps)
next
  case False
  let ?i = "off mod bs"
  have bs: "0 < bs" "bs < 2 ^ 30" "bs_of (a_dev w) = bs" "block_size (a_dev w) = int bs"
    using geo geometry_bs by (auto simp: geometry_def)
  have i: "?i < bs" "?i < 2 ^ 31" "0 < ?i" using bs False by (auto simp: order.strict_trans [OF mod_less_divisor])
  have conv: "to_int (int ?i) = int ?i" "to_size (int ?i) = ?i" "size_add ?i N = ?i + N"
      "to_size (int bs - int ?i) = bs - ?i"
    using i N bs by (auto simp: to_int_of_nat to_size_of_nat size_add_id to_size_id)
  define r where "r = first_bytes bs off N"
  have rb: "(if ?i + N \<le> bs then N else bs - ?i) = r" using False by (auto simp: r_def first_bytes_def)
  have r: "size_add ?i r = ?i + r" using i bs rb by (intro size_add_id) (auto split: if_splits)
  have lt: "length bufs < 5" "bs < 2 ^ 31" using b(2) bs(2) by simp_all
  obtain p s' where al: "virtio_task_alloc_buf_part rm t bs True False ?i (?i + r) s = Some (p, s')" "p \<noteq> NULL"
    "building s0 s' t 5 (bufs @ [blk_buffer p bs True ?i (?i + r)])"
    "s_mem s' = (if False then memset p 0 bs (s_mem s) else s_mem s)" "rm_room rm L k (s_blocks s')"
    by (rule build_alloc [OF b(1) lt(1) rm room lt(2), of True False ?i "?i + r"])
  have "async_first_part rm t N (to_int (int ?i)) (w\<lparr>w_sys := s\<rparr>) = Some (False, r, 1, w\<lparr>w_sys := s'\<rparr>)"
    using False al(1,2) bs(3,4) conv rb r by (cases "?i + N \<le> bs") (simp_all add: async_first_part_def w_alloc_part_def Let_def)
  then show ?thesis using al False by (intro that [of s' "[blk_buffer p bs True ?i (?i + r)]"]) (auto simp: r_def flag_nat_def)
qed

lemma async_middle_part_ok:
  assumes b: "building s0 s t 5 bufs" "length bufs < 5" and geo: "geometry (a_dev w) bs nblk" and N: "N < 2 ^ 31" "r \<le> N"
    and k: "k \<le> 1"
  obtains s' where
    "async_middle_part t buf N r k (w\<lparr>w_sys := s\<rparr>) = Some (r + (N - r) div bs * bs, k + (N - r) div bs, w\<lparr>w_sys := s'\<rparr>)"
    "building s0 s' t 5 (bufs @ (if N - r < bs then [] else [user_buffer (buf + r) ((N - r) div bs * bs) True]))"
    "s_mem s' = s_mem s" "s_blocks s' = s_blocks s"
proof -
  let ?c = "(N - r) div bs"
  have bs: "0 < bs" "bs_of (a_dev w) = bs" using geo geometry_bs by (auto simp: geometry_def)
  have c: "?c * bs \<le> N - r" "?c \<le> N - r" by simp_all
  have lt: "N < 2 ^ 64" "?c * bs < 2 ^ 64" "r + ?c * bs < 2 ^ 64" "k + ?c < 2 ^ 64" using c N k pow_facts by linarith+
  have conv: "size_sub N r = N - r" "size_mul ?c bs = ?c * bs" "size_add r (?c * bs) = r + ?c * bs" "size_add k ?c = k + ?c"
    by (rule size_sub_id [OF N(2) lt(1)] size_mul_id [OF lt(2)] size_add_id [OF lt(3)] size_add_id [OF lt(4)])+
  show ?thesis
  proof (cases "?c = 0")
    case True
    then have "N - r < bs" using bs(1) by (simp add: div_eq_0_iff)
    then show ?thesis using True b conv bs(2) by (intro that [of s]) (simp_all add: async_middle_part_def Let_def)
  next
    case False
    obtain s' where s': "virtio_task_add_buf t (buf + r) (?c * bs) True s = Some s'"
      "building s0 s' t 5 (bufs @ [user_buffer (buf + r) (?c * bs) True])" "s_mem s' = s_mem s" "s_blocks s' = s_blocks s"
      by (rule build_add [OF b])
    have "async_middle_part t buf N r k (w\<lparr>w_sys := s\<rparr>) = Some (r + ?c * bs, k + ?c, w\<lparr>w_sys := s'\<rparr>)"
      using False s'(1) conv bs(2) by (simp add: async_middle_part_def Let_def w_add_def)
    moreover have "\<not> N - r < bs" using False by (auto simp: div_eq_0_iff)
    ultimately show ?thesis using s' by (intro that [of s']) simp_all
  qed
qed

lemma async_last_part_ok:
  assumes b: "building s0 s t 5 bufs" "length bufs < 5" and rm: "rte_malloc_spec rm"
    and room: "rm_room rm L (Suc k) (s_blocks s)" "bs \<le> L" and geo: "geometry (a_dev w) bs nblk"
    and N: "N < 2 ^ 31" "r \<le> N" "N - r < bs" and n: "n < 2 ^ 32"
  obtains s' data where
    "async_last_part rm t N r n (w\<lparr>w_sys := s\<rparr>) = Some (False, n + flag_nat (r \<noteq> N), w\<lparr>w_sys := s'\<rparr>)"
    "building s0 s' t 5 (bufs @ data)" "s_mem s' = s_mem s"
    "if r = N then data = [] else \<exists>p. data = [blk_buffer p bs True 0 (N - r)]"
proof -
  have bs: "0 < bs" "bs < 2 ^ 30" "bs_of (a_dev w) = bs" using geo geometry_bs by (auto simp: geometry_def)
  have lt: "N < 2 ^ 64" "N - r < 2 ^ 31" "N - r < 2 ^ 64" "n + 1 < 2 ^ 64" using N n pow_facts by linarith+
  have sub: "size_sub N r = N - r" "to_int (int (N - r)) = int (N - r)" "to_size (int (N - r)) = N - r" "size_add n 1 = n + 1"
    by (rule size_sub_id [OF N(2) lt(1)] to_int_of_nat [OF lt(2)] to_size_of_nat [OF lt(3)] size_add_id [OF lt(4)])+
  show ?thesis
  proof (cases "r = N")
    case True
    then show ?thesis using b by (intro that [of s "[]"]) (simp_all add: async_last_part_def Let_def flag_nat_def)
  next
    case False
    have lt31: "bs < 2 ^ 31" using bs(2) by simp
    obtain p s' where al: "virtio_task_alloc_buf_part rm t bs True False 0 (N - r) s = Some (p, s')" "p \<noteq> NULL"
      "building s0 s' t 5 (bufs @ [blk_buffer p bs True 0 (N - r)])" "s_mem s' = (if False then memset p 0 bs (s_mem s) else s_mem s)"
      by (rule build_alloc [OF b rm room lt31, of True False 0 "N - r"])
    have "async_last_part rm t N r n (w\<lparr>w_sys := s\<rparr>) = Some (False, n + 1, w\<lparr>w_sys := s'\<rparr>)"
      using False N(2,3) al(1,2) bs(3) sub by (simp add: async_last_part_def w_alloc_part_def Let_def del: of_nat_diff)
    then show ?thesis using al False by (intro that [of s' "[blk_buffer p bs True 0 (N - r)]"]) (auto simp: flag_nat_def)
  qed
qed


text \<open>A request that the asynchronous operations can put into one command.\<close>

definition async_io :: "virtio_dev \<Rightarrow> nat \<Rightarrow> nat \<Rightarrow> nat \<Rightarrow> nat \<Rightarrow> bool" where
  "async_io dev bs nblk off n \<longleftrightarrow> geometry dev bs nblk \<and> off < bs * nblk \<and> 0 < n \<and> off + n < 2 ^ 64 \<and>
     sizeof_resp + clip_range (bs * nblk) off n < 2 ^ 31 \<and>
     (nblk > 2 ^ 32 \<or> clip_range (bs * nblk) off n div bs + 2 < 2 ^ 16)"

text \<open>What the data buffers of a read look like.\<close>

definition read_data :: "ptr \<Rightarrow> nat \<Rightarrow> nat \<Rightarrow> nat \<Rightarrow> nat \<Rightarrow> virtio_buffer list \<Rightarrow> bool" where
  "read_data buf bs off N nb data \<longleftrightarrow> length data \<le> 3 \<and> (\<forall>b \<in> set data. vb_response b \<and> vb_size b < 2 ^ 32) \<and>
     sum_list (map vb_size data) = nb * bs \<and>
     (\<forall>b \<in> set data. \<not> vb_copy b \<longrightarrow> (\<exists>r. vb_buf b = buf + r \<and> r + vb_size b \<le> N)) \<and>
     length (filter (\<lambda>b. \<not> vb_copy b) data) \<le> 1 \<and>
     ((\<forall>b \<in> set data. vb_copy b \<longrightarrow> disjoint_range (vb_buf b) (vb_size b) buf N) \<longrightarrow> data_plan buf off N (off div bs * bs) 0 data)"

lemma read_data_parts:
  assumes bs: "0 < bs" "bs < 2 ^ 30" and N: "0 < N" "N < 2 ^ 31"
    and r: "r = first_bytes bs off N" "c = (N - r) div bs" "r2 = r + c * bs"
    and d1: "if off mod bs = 0 then d1 = [] else \<exists>p. d1 = [blk_buffer p bs True (off mod bs) (off mod bs + r)]"
    and d2: "d2 = (if N - r < bs then [] else [user_buffer (buf + r) (c * bs) True])"
    and d3: "if r2 = N then d3 = [] else \<exists>p. d3 = [blk_buffer p bs True 0 (N - r2)]"
  shows "read_data buf bs off N (flag_nat (off mod bs \<noteq> 0) + c + flag_nat (r2 \<noteq> N)) (d1 @ d2 @ d3)"
proof -
  let ?i = "off mod bs" and ?pos = "off div bs * bs"
  have i: "?i < bs" "?pos + ?i = off" using bs(1) by simp_all
  have rN: "r \<le> N" "r \<le> bs" using r(1) by (auto simp: first_bytes_def)
  have rest: "off + r = ?pos + flag_nat (?i \<noteq> 0) * bs" if "r < N"
    using first_bytes_end [OF bs(1), of off N] that r(1) by (simp add: distrib_right)
  have c1: "c * bs + (N - r) mod bs = N - r" using r(2) by simp
  have m: "(N - r) mod bs < bs" using bs(1) by simp
  have c: "c * bs \<le> N - r" "N - r2 < bs" "r2 \<le> N" using c1 m r(3) rN(1) by linarith+
  have c0: "c = 0 \<longleftrightarrow> N - r < bs" using r(2) bs(1) by (simp add: div_eq_0_iff)
  have lt: "c * bs < 2 ^ 32" "bs < 2 ^ 32" "c * bs < 2 ^ 62" "bs < 2 ^ 62" using c(1) N(2) bs(2) by auto
  have i0: "r = 0" if "?i = 0" using that r(1) by (simp add: first_bytes_def)
  have single: "?i + r \<le> bs" using i(1) r(1) by (auto simp: first_bytes_def)
  obtain p1 where p1: "?i \<noteq> 0 \<Longrightarrow> d1 = [blk_buffer p1 bs True ?i (?i + r)]" "?i = 0 \<Longrightarrow> d1 = []" using d1 by (cases "?i = 0") auto
  obtain p3 where p3: "r2 \<noteq> N \<Longrightarrow> d3 = [blk_buffer p3 bs True 0 (N - r2)]" "r2 = N \<Longrightarrow> d3 = []" using d3 by (cases "r2 = N") auto
  have end_r: "r2 = r" if "c = 0" using that r(3) by simp
  show ?thesis
    unfolding read_data_def
  proof (intro conjI)
    show "\<forall>b \<in> set (d1 @ d2 @ d3). \<not> vb_copy b \<longrightarrow> (\<exists>r. vb_buf b = buf + r \<and> r + vb_size b \<le> N)"
      using p1 p3 d2 c(1) rN(1) by (cases "?i = 0"; cases "r2 = N") (auto intro!: exI [of _ r])
    show "(\<forall>b \<in> set (d1 @ d2 @ d3). vb_copy b \<longrightarrow> disjoint_range (vb_buf b) (vb_size b) buf N) \<longrightarrow>
        data_plan buf off N ?pos 0 (d1 @ d2 @ d3)"
    proof
      assume dis: "\<forall>b \<in> set (d1 @ d2 @ d3). vb_copy b \<longrightarrow> disjoint_range (vb_buf b) (vb_size b) buf N"
      have tail: "data_plan buf off N (?pos + flag_nat (?i \<noteq> 0) * bs + c * bs) r2 d3"
      proof (cases "r2 = N")
        case False
        then have "off + r2 = ?pos + flag_nat (?i \<noteq> 0) * bs + c * bs" using rest r(3) c(3) by linarith
        then show ?thesis using False p3(1) c(2,3) lt dis by simp
      qed (use p3 in simp)
      have "data_plan buf off N (?pos + flag_nat (?i \<noteq> 0) * bs) r (d2 @ d3)"
      proof (cases "c = 0")
        case False
        then have "off + r = ?pos + flag_nat (?i \<noteq> 0) * bs" using rest c0 by (metis diff_is_0_eq div_0 leI r(2))
        then show ?thesis using False tail d2 c c0 r(3) rN lt by simp
      qed (use tail end_r d2 c0 in simp)
      then show "data_plan buf off N ?pos 0 (d1 @ d2 @ d3)"
        using p1 i single rN(1) lt i0 dis by (cases "?i = 0") (simp_all add: flag_nat_def)
    qed
  qed (use p1 p3 d2 lt c0 end_r in \<open>cases "?i = 0"; cases "r2 = N"; auto simp: flag_nat_def distrib_right\<close>)+
qed

section \<open>Submitting a read\<close>

definition cmd_bufs :: "ptr \<Rightarrow> ptr \<Rightarrow> virtio_buffer list \<Rightarrow> virtio_buffer list" where
  "cmd_bufs req resp data = own_buffer req sizeof_req False # own_buffer resp sizeof_resp True # data"

lemma own_buffer_blk: "own_buffer p n r = blk_buffer p n r 0 n"
  by (simp add: own_buffer_def blk_buffer_def)

lemma alloc_own:
  assumes b: "building s0 s t lim bufs" and len: "length bufs < lim" and rm: "rte_malloc_spec rm"
    and room: "rm_room rm L (Suc k) (s_blocks s)" "sz \<le> L" and sz: "sz < 2 ^ 31"
  obtains p s' where "virtio_task_alloc_buf rm t sz r True s = Some (p, s')" "p \<noteq> NULL"
    "building s0 s' t lim (bufs @ [own_buffer p sz r])" "s_mem s' = memset p 0 sz (s_mem s)" "rm_room rm L k (s_blocks s')"
    "\<forall>a n. live_range (s_blocks s) a n \<longrightarrow> disjoint_range p sz a n"
  unfolding virtio_task_alloc_buf_def own_buffer_blk
  by (rule build_alloc [OF b len rm room sz, of r True 0 sz]) (auto intro: that [unfolded virtio_task_alloc_buf_def own_buffer_blk])

lemma mem_same_memset:
  assumes "mem_same b m m1" "\<And>a. live_range b a 1 \<Longrightarrow> disjoint_range p n a 1"
  shows "mem_same b m (memset p v n m1)"
  using assms by (fastforce simp: mem_same_def memset_outside disjoint_range_def)

lemma mem_same_cdb:
  assumes "mem_same b m m1" "\<And>a. live_range b a 1 \<Longrightarrow> disjoint_range req sizeof_req a 1"
  shows "mem_same b m (create_rw_cdb dev req off n wr m1)"
  using assms by (fastforce simp: mem_same_def create_rw_cdb_frame disjoint_range_def)

text \<open>The start of a read: the task with its request and its response block.\<close>

lemma read_start:
  assumes rm: "rte_malloc_spec rm" and ready: "dev_ready q k w" and room: "rm_room rm L 4 (s_blocks (w_sys w))" "sizeof_resp \<le> L"
  obtains s2 s3 s4 req resp where
    "virtio_task_create 5 (w_sys w) = (s_next (w_sys w), s2)"
    "virtio_task_alloc_buf rm (s_next (w_sys w)) sizeof_req False True s2 = Some (req, s3)"
    "virtio_task_alloc_buf rm (s_next (w_sys w)) sizeof_resp True True s3 = Some (resp, s4)" "req \<noteq> NULL" "resp \<noteq> NULL"
    "building (w_sys w) s4 (s_next (w_sys w)) 5 [own_buffer req sizeof_req False, own_buffer resp sizeof_resp True]"
    "rm_room rm L (Suc (Suc 0)) (s_blocks s4)" "mem_same (s_blocks (w_sys w)) (m_of w) (s_mem s4)"
proof -
  let ?t = "s_next (w_sys w)" and ?b = "s_blocks (w_sys w)"
  have req_le: "sizeof_req \<le> L" using room(2) by (simp add: sizeof_req_def sizeof_resp_def)
  have oom: "s_oom (w_sys w) = (\<lambda>_. False)" using ready by (simp add: dev_ready_def)
  obtain s2 where c: "virtio_task_create 5 (w_sys w) = (?t, s2)" "building (w_sys w) s2 ?t 5 []" "s_mem s2 = m_of w"
    using build_create [OF oom] by blast
  have blocks: "s_blocks s2 = ?b" using building_owns [OF c(2)] by simp
  then have room4: "rm_room rm L (Suc (Suc (Suc (Suc 0)))) (s_blocks s2)" using room(1) by (simp add: eval_nat_numeral)
  have len: "length ([] :: virtio_buffer list) < 5" "length ([] @ [own_buffer x sizeof_req False]) < 5" for x by simp_all
  obtain req s3 where q: "virtio_task_alloc_buf rm ?t sizeof_req False True s2 = Some (req, s3)" "req \<noteq> NULL"
    "building (w_sys w) s3 ?t 5 ([] @ [own_buffer req sizeof_req False])" "s_mem s3 = memset req 0 sizeof_req (s_mem s2)"
    "rm_room rm L (Suc (Suc (Suc 0))) (s_blocks s3)" "\<forall>a n. live_range (s_blocks s2) a n \<longrightarrow> disjoint_range req sizeof_req a n"
    by (rule alloc_own [OF c(2) len(1) rm room4 req_le cmd_sizes(1), where r = False])
  obtain resp s4 where p: "virtio_task_alloc_buf rm ?t sizeof_resp True True s3 = Some (resp, s4)" "resp \<noteq> NULL"
    "building (w_sys w) s4 ?t 5 (([] @ [own_buffer req sizeof_req False]) @ [own_buffer resp sizeof_resp True])"
    "s_mem s4 = memset resp 0 sizeof_resp (s_mem s3)" "rm_room rm L (Suc (Suc 0)) (s_blocks s4)"
    "\<forall>a n. live_range (s_blocks s3) a n \<longrightarrow> disjoint_range resp sizeof_resp a n"
    by (rule alloc_own [OF q(3) len(2) rm q(5) room(2) cmd_sizes(2), where r = True])
  have "mem_same ?b (m_of w) (s_mem s3)"
    unfolding q(4) c(3) by (rule mem_same_memset) (use q(6) blocks in \<open>auto simp: mem_same_def\<close>)
  then have "mem_same ?b (m_of w) (s_mem s4)"
    unfolding p(4) by (rule mem_same_memset) (use p(6) owns_live [OF building_owns [OF q(3)]] in blast)
  with c(1) q(1,2) p show ?thesis by (intro that [of s2 req s3 resp s4]) simp_all
qed

text \<open>The blocks of the request: the partly read first one, the whole ones and the partly read last one.\<close>

definition read_blocks :: "nat \<Rightarrow> nat \<Rightarrow> nat \<Rightarrow> nat" where
  "read_blocks bs off N = flag_nat (off mod bs \<noteq> 0) + (N - first_bytes bs off N) div bs +
     flag_nat (first_bytes bs off N + (N - first_bytes bs off N) div bs * bs \<noteq> N)"

lemma read_whole:
  assumes "0 < bs"
  shows "first_bytes bs off N + (N - first_bytes bs off N) div bs * bs \<le> N"
    "N - (first_bytes bs off N + (N - first_bytes bs off N) div bs * bs) < bs" "(N - first_bytes bs off N) div bs \<le> N"
    "first_bytes bs off N + (N - first_bytes bs off N) div bs * bs \<noteq> N \<longleftrightarrow> (N - first_bytes bs off N) mod bs \<noteq> 0"
proof -
  let ?r = "first_bytes bs off N"
  have "(N - ?r) div bs * bs + (N - ?r) mod bs = N - ?r" "(N - ?r) mod bs < bs" "?r \<le> N" using assms by simp_all
  then show "?r + (N - ?r) div bs * bs \<le> N" "N - (?r + (N - ?r) div bs * bs) < bs" "(N - ?r) div bs \<le> N"
    "?r + (N - ?r) div bs * bs \<noteq> N \<longleftrightarrow> (N - ?r) mod bs \<noteq> 0"
    using div_le_dividend [of "N - ?r" bs] by linarith+
qed

lemma read_blocks_bounds:
  assumes io: "async_io dev bs nblk off n" and N: "N = clip_range (bs * nblk) off n"
  shows "off div bs + read_blocks bs off N \<le> nblk" "rw_fits dev (off div bs) (read_blocks bs off N)"
    "sizeof_resp + read_blocks bs off N * bs < 2 ^ 32"
proof -
  have geo: "geometry dev bs nblk" and bs: "0 < bs" "bs < 2 ^ 30" and N31: "0 < N" "off + N \<le> bs * nblk"
    and fits: "nblk > 2 ^ 32 \<or> N div bs + 2 < 2 ^ 16"
    using io N by (auto simp: async_io_def geometry_def clip_range_def)
  let ?nb = "read_blocks bs off N"
  show le: "off div bs + ?nb \<le> nblk"
    using blocks_covered [OF bs(1) N31(2,1)] read_whole(4) [OF bs(1), of off N] by (simp add: read_blocks_def)
  have nb: "?nb \<le> N div bs + 2" using div_le_mono [of "N - first_bytes bs off N" N bs] by (auto simp: read_blocks_def flag_nat_def)
  then have "?nb * bs \<le> (N div bs + 2) * bs" by (rule mult_le_mono1)
  also have "\<dots> \<le> N + 2 * bs" by (simp add: distrib_right)
  finally show sz: "sizeof_resp + ?nb * bs < 2 ^ 32" using io bs(2) N by (simp add: async_io_def)
  have "0 < ?nb"
  proof (rule ccontr)
    assume "\<not> 0 < ?nb"
    then have "off mod bs = 0" "(N - first_bytes bs off N) div bs = 0" "first_bytes bs off N = N"
      by (auto simp: read_blocks_def flag_nat_def split: if_splits)
    then show False using N31(1) by (simp add: first_bytes_def)
  qed
  then show "rw_fits dev (off div bs) ?nb" using rw_fits_block [OF geo le _ _ sz] fits nb by linarith
qed

text \<open>The three parts of a read on a task that holds the request and the response block.\<close>

lemma read_parts_run:
  assumes b: "building (w_sys w) s4 t 5 hdr" "length hdr = 2" and rm: "rte_malloc_spec rm"
    and room: "rm_room rm L (Suc (Suc 0)) (s_blocks s4)" "bs \<le> L" and geo: "geometry (a_dev w) bs nblk" and N: "0 < N" "N < 2 ^ 31"
  obtains s5 s6 s' r2 n2 data where
    "async_first_part rm t N (to_int (int (off mod bs))) (w\<lparr>w_sys := s4\<rparr>) =
       Some (False, first_bytes bs off N, flag_nat (off mod bs \<noteq> 0), w\<lparr>w_sys := s5\<rparr>)"
    "async_middle_part t buf N (first_bytes bs off N) (flag_nat (off mod bs \<noteq> 0)) (w\<lparr>w_sys := s5\<rparr>) = Some (r2, n2, w\<lparr>w_sys := s'\<rparr>)"
    "async_last_part rm t N r2 n2 (w\<lparr>w_sys := s'\<rparr>) = Some (False, read_blocks bs off N, w\<lparr>w_sys := s6\<rparr>)"
    "building (w_sys w) s6 t 5 (hdr @ data)" "read_data buf bs off N (read_blocks bs off N) data" "s_mem s6 = s_mem s4"
proof -
  let ?r = "first_bytes bs off N" and ?f = "flag_nat (off mod bs \<noteq> 0)"
  let ?c = "(N - ?r) div bs"
  let ?d2 = "if N - ?r < bs then [] else [user_buffer (buf + ?r) (?c * bs) True]"
  have bs: "0 < bs" "bs < 2 ^ 30" using geo by (auto simp: geometry_def)
  note whole = read_whole [OF bs(1), where off = off and N = N]
  obtain d1 s5 where f: "async_first_part rm t N (to_int (int (off mod bs))) (w\<lparr>w_sys := s4\<rparr>) = Some (False, ?r, ?f, w\<lparr>w_sys := s5\<rparr>)"
    "building (w_sys w) s5 t 5 (hdr @ d1)" "s_mem s5 = s_mem s4" "rm_room rm L (Suc 0) (s_blocks s5)"
    "if off mod bs = 0 then d1 = [] else \<exists>p. d1 = [blk_buffer p bs True (off mod bs) (off mod bs + ?r)]"
    by (rule async_first_part_ok [OF b rm room geo N(2), of off])
  have "length d1 \<le> 1" using f(5) by (auto split: if_splits)
  then have len: "length (hdr @ d1) < 5" "length ((hdr @ d1) @ ?d2) < 5" and flag1: "?f \<le> 1" using b(2) by (simp_all add: flag_nat_def)
  obtain s' where m: "async_middle_part t buf N ?r ?f (w\<lparr>w_sys := s5\<rparr>) = Some (?r + ?c * bs, ?f + ?c, w\<lparr>w_sys := s'\<rparr>)"
    "building (w_sys w) s' t 5 ((hdr @ d1) @ ?d2)" "s_mem s' = s_mem s5" "s_blocks s' = s_blocks s5"
    by (rule async_middle_part_ok [OF f(2) len(1) geo N(2) first_bytes_le flag1, where buf = buf])
  have room5: "rm_room rm L (Suc 0) (s_blocks s')" and n32: "?f + ?c < 2 ^ 32" using f(4) m(4) flag1 whole(3) N(2) by simp_all
  obtain s6 d3 where l: "async_last_part rm t N (?r + ?c * bs) (?f + ?c) (w\<lparr>w_sys := s'\<rparr>) =
       Some (False, ?f + ?c + flag_nat (?r + ?c * bs \<noteq> N), w\<lparr>w_sys := s6\<rparr>)"
    "building (w_sys w) s6 t 5 (((hdr @ d1) @ ?d2) @ d3)" "s_mem s6 = s_mem s'"
    "if ?r + ?c * bs = N then d3 = [] else \<exists>p. d3 = [blk_buffer p bs True 0 (N - (?r + ?c * bs))]"
    by (rule async_last_part_ok [OF m(2) len(2) rm room5 room(2) geo N(2) whole(1,2) n32])
  have data: "read_data buf bs off N (read_blocks bs off N) (d1 @ ?d2 @ d3)"
    unfolding read_blocks_def by (rule read_data_parts [OF bs N refl refl refl f(5) refl l(4)])
  show ?thesis
    by (rule that [OF f(1) m(1) l(1) [folded read_blocks_def] _ data]) (use l(2,3) m(3) f(3) in simp_all)
qed

text \<open>The task of a read, ready to be submitted in the state \<open>s6\<close>.\<close>

lemma build_read_task:
  assumes rm: "rte_malloc_spec rm" and ready: "dev_ready q k w" and io: "async_io (a_dev w) bs nblk off n"
    and room: "rm_room rm L 4 (s_blocks (w_sys w))" "sizeof_resp \<le> L" "bs \<le> L"
    and live: "live_range (s_blocks (w_sys w)) buf N" and N: "N = clip_range (bs * nblk) off n"
  obtains s2 s3 s4 s5 s6 req resp nb data r2 n2 where
    "virtio_task_create 5 (w_sys w) = (s_next (w_sys w), s2)"
    "virtio_task_alloc_buf rm (s_next (w_sys w)) sizeof_req False True s2 = Some (req, s3)"
    "virtio_task_alloc_buf rm (s_next (w_sys w)) sizeof_resp True True s3 = Some (resp, s4)" "req \<noteq> NULL" "resp \<noteq> NULL"
    "async_first_part rm (s_next (w_sys w)) N (to_int (int (off mod bs))) (w\<lparr>w_sys := s4\<rparr>) =
       Some (False, first_bytes bs off N, flag_nat (off mod bs \<noteq> 0), w\<lparr>w_sys := s5\<rparr>)"
    "\<exists>s'. async_middle_part (s_next (w_sys w)) buf N (first_bytes bs off N) (flag_nat (off mod bs \<noteq> 0)) (w\<lparr>w_sys := s5\<rparr>) =
         Some (r2, n2, w\<lparr>w_sys := s'\<rparr>) \<and>
       async_last_part rm (s_next (w_sys w)) N r2 n2 (w\<lparr>w_sys := s'\<rparr>) = Some (False, nb, w\<lparr>w_sys := s6\<rparr>)"
    "building (w_sys w) s6 (s_next (w_sys w)) 5 (cmd_bufs req resp data)" "read_data buf bs off N nb data"
    "off div bs + nb \<le> nblk" "rw_fits (a_dev w) (off div bs) nb" "sizeof_resp + nb * bs < 2 ^ 32"
    "mem_same (s_blocks (w_sys w)) (m_of w) (s_mem s6)"
proof -
  let ?t = "s_next (w_sys w)" and ?nb = "read_blocks bs off N"
  have geo: "geometry (a_dev w) bs nblk" and N31: "0 < N" "N < 2 ^ 31" using io N by (auto simp: async_io_def geometry_def clip_range_def)
  obtain s2 s3 s4 req resp where c: "virtio_task_create 5 (w_sys w) = (?t, s2)"
    "virtio_task_alloc_buf rm ?t sizeof_req False True s2 = Some (req, s3)"
    "virtio_task_alloc_buf rm ?t sizeof_resp True True s3 = Some (resp, s4)" "req \<noteq> NULL" "resp \<noteq> NULL"
    "building (w_sys w) s4 ?t 5 [own_buffer req sizeof_req False, own_buffer resp sizeof_resp True]"
    "rm_room rm L (Suc (Suc 0)) (s_blocks s4)" "mem_same (s_blocks (w_sys w)) (m_of w) (s_mem s4)"
    by (rule read_start [OF rm ready room(1,2)])
  have two: "length [own_buffer req sizeof_req False, own_buffer resp sizeof_resp True] = 2" by simp
  obtain s5 s6 s' r2 n2 data where
    p: "async_first_part rm ?t N (to_int (int (off mod bs))) (w\<lparr>w_sys := s4\<rparr>) =
       Some (False, first_bytes bs off N, flag_nat (off mod bs \<noteq> 0), w\<lparr>w_sys := s5\<rparr>)"
    "async_middle_part ?t buf N (first_bytes bs off N) (flag_nat (off mod bs \<noteq> 0)) (w\<lparr>w_sys := s5\<rparr>) = Some (r2, n2, w\<lparr>w_sys := s'\<rparr>)"
    "async_last_part rm ?t N r2 n2 (w\<lparr>w_sys := s'\<rparr>) = Some (False, ?nb, w\<lparr>w_sys := s6\<rparr>)"
    "building (w_sys w) s6 ?t 5 ([own_buffer req sizeof_req False, own_buffer resp sizeof_resp True] @ data)"
    "read_data buf bs off N ?nb data" "s_mem s6 = s_mem s4"
    by (rule read_parts_run [OF c(6) two rm c(7) room(3) geo N31, of off buf])
  have mid: "\<exists>s'. async_middle_part ?t buf N (first_bytes bs off N) (flag_nat (off mod bs \<noteq> 0)) (w\<lparr>w_sys := s5\<rparr>) = Some (r2, n2, w\<lparr>w_sys := s'\<rparr>) \<and>
      async_last_part rm ?t N r2 n2 (w\<lparr>w_sys := s'\<rparr>) = Some (False, ?nb, w\<lparr>w_sys := s6\<rparr>)"
    by (rule exI, rule conjI, rule p(2), rule p(3))
  show ?thesis
    by (rule that [OF c(1-5) p(1) mid _ p(5) read_blocks_bounds [OF io N]]) (use p(4,6) c(8) in \<open>simp_all add: cmd_bufs_def\<close>)
qed

end
