(* ===== verification/Async_Read_Done.thy ===== *)
theory Async_Read_Done
  imports Async_Read
begin

text \<open>
  An asynchronous read from the submission to the end of its callback: the descriptor is in the
  output ring with the number of bytes, the bytes are in the caller's buffer and the blocks and
  the task of the request are given back.
\<close>

section \<open>The request in the ring\<close>

text \<open>What the asynchronous operations need of the device: the parts of the program and room for one request.\<close>

definition async_ready :: "rte_malloc \<Rightarrow> 'r rte_ring_ops \<Rightarrow> ('r \<Rightarrow> ptr list) \<Rightarrow> nat \<Rightarrow> 'd server \<Rightarrow> ('d \<Rightarrow> nat \<Rightarrow> u8) \<Rightarrow> nat \<Rightarrow> nat
    \<Rightarrow> vqueue \<Rightarrow> nat \<Rightarrow> ('d, 'r, 'z) aworld_scheme \<Rightarrow> bool" where
  "async_ready rm ops els rcap serve disk bs nblk q k w \<longleftrightarrow> rte_malloc_spec rm \<and> rte_ring_spec ops els rcap \<and>
     scsi_server serve disk bs nblk \<and> geometry (a_dev w) bs nblk \<and> rm_room rm (max sizeof_resp bs) 6 (s_blocks (w_sys w)) \<and>
     length (els (a_outring w)) < rcap \<and> outfd_room w \<and> dev_ready q k w"

lemma rm_room_le: "rm_room rm L k b \<Longrightarrow> j \<le> k \<Longrightarrow> rm_room rm L j b"
  by (induction k) (auto simp: le_Suc_eq simp del: rm_room.simps dest: rm_room_less)

definition started :: "('d, 'r, 'z) aworld_scheme \<Rightarrow> ptr \<Rightarrow> async_io_desc \<Rightarrow> ('d, 'r, 'z) aworld_scheme" where
  "started w io d = w\<lparr>a_descs := (a_descs w)(io \<mapsto> d\<lparr>io_reserved := a_self w\<rparr>)\<rparr>"

lemma started_sel [simp]:
  "w_sys (started w io d) = w_sys w" "w_ring (started w io d) = w_ring w" "w_srv (started w io d) = w_srv w"
  "a_dev (started w io d) = a_dev w" "a_self (started w io d) = a_self w" "a_outring (started w io d) = a_outring w"
  "a_outfd (started w io d) = a_outfd w" "a_descs (started w io d) = (a_descs w)(io \<mapsto> d\<lparr>io_reserved := a_self w\<rparr>)"
  "dev_ready q k (started w io d) = dev_ready q k w" "one_task (started w io d) w1 t bufs = one_task w w1 t bufs"
  by (auto simp: started_def dev_ready_def one_task_def aframe_def)

lemma read_async_submits:
  assumes rm: "rte_malloc_spec rm" and ready: "dev_ready q (Suc k) w" and io: "async_io (a_dev w) bs nblk off n"
    and room: "rm_room rm L 4 (s_blocks (w_sys w))" "sizeof_resp \<le> L" "bs \<le> L"
    and d: "a_descs w p = Some d" "io_offset d = off" "io_nbytes d = n"
    and live: "live_range (s_blocks (w_sys w)) (io_buf d) N" and N: "N = clip_range (bs * nblk) off n"
  obtains w1 t req resp nb data where
    "read_virtio_dev_async rm p w = Some (0, w1)" "pending q k w1 t blk_read_done p (cmd_bufs req resp data)"
    "one_task w w1 t (cmd_bufs req resp data)" "request_ok (m_of w1) (own_buffer req sizeof_req False) False (off div bs) nb"
    "read_data (io_buf d) bs off N nb data" "off div bs + nb \<le> nblk" "sizeof_resp + nb * bs < 2 ^ 32"
    "mem_same (s_blocks (w_sys w)) (m_of w) (m_of w1)" "w_srv w1 = w_srv w"
    "a_descs w1 = (a_descs w)(p \<mapsto> d\<lparr>io_reserved := a_self w\<rparr>)"
proof -
  let ?w0 = "started w p d" and ?t = "s_next (w_sys w)"
  obtain s2 s3 s4 s5 s6 req resp nb data r2 n2 where
    c: "virtio_task_create 5 (w_sys ?w0) = (s_next (w_sys ?w0), s2)"
    "virtio_task_alloc_buf rm (s_next (w_sys ?w0)) sizeof_req False True s2 = Some (req, s3)"
    "virtio_task_alloc_buf rm (s_next (w_sys ?w0)) sizeof_resp True True s3 = Some (resp, s4)" "req \<noteq> NULL" "resp \<noteq> NULL"
    "async_first_part rm (s_next (w_sys ?w0)) N (to_int (int (off mod bs))) (?w0\<lparr>w_sys := s4\<rparr>) =
       Some (False, first_bytes bs off N, flag_nat (off mod bs \<noteq> 0), ?w0\<lparr>w_sys := s5\<rparr>)"
    "\<exists>s'. async_middle_part (s_next (w_sys ?w0)) (io_buf d) N (first_bytes bs off N) (flag_nat (off mod bs \<noteq> 0)) (?w0\<lparr>w_sys := s5\<rparr>) =
         Some (r2, n2, ?w0\<lparr>w_sys := s'\<rparr>) \<and>
       async_last_part rm (s_next (w_sys ?w0)) N r2 n2 (?w0\<lparr>w_sys := s'\<rparr>) = Some (False, nb, ?w0\<lparr>w_sys := s6\<rparr>)"
    "building (w_sys ?w0) s6 (s_next (w_sys ?w0)) 5 (cmd_bufs req resp data)" "read_data (io_buf d) bs off N nb data"
    "off div bs + nb \<le> nblk" "rw_fits (a_dev ?w0) (off div bs) nb" "sizeof_resp + nb * bs < 2 ^ 32"
    "mem_same (s_blocks (w_sys ?w0)) (m_of ?w0) (s_mem s6)"
    by (rule build_read_task [of rm q "Suc k" ?w0 bs nblk off n L "io_buf d" N]) (use assms in simp_all)
  from c(7) obtain s' where m: "async_middle_part ?t (io_buf d) N (first_bytes bs off N) (flag_nat (off mod bs \<noteq> 0)) (?w0\<lparr>w_sys := s5\<rparr>) =
      Some (r2, n2, ?w0\<lparr>w_sys := s'\<rparr>)" "async_last_part rm ?t N r2 n2 (?w0\<lparr>w_sys := s'\<rparr>) = Some (False, nb, ?w0\<lparr>w_sys := s6\<rparr>)"
    by auto
  have geo: "geometry (a_dev w) bs nblk" and off: "off < bs * nblk" "0 < n" "off + n < 2 ^ 64" using io by (simp_all add: async_io_def)
  have bs: "bs_of (a_dev w) = bs" "0 < bs" "cap (a_dev w) = bs * nblk" "bs * nblk < 2 ^ 64"
    using geo geometry_bs by (auto simp: geometry_def)
  have clip: "(if size_add off n > cap (a_dev w) then size_sub (cap (a_dev w)) off else n) = N"
    using off bs by (auto simp: size_add_id size_sub_id N clip_range_def)
  let ?s7 = "s6\<lparr>s_mem := create_rw_cdb (a_dev w) req (off div bs) nb False (s_mem s6)\<rparr>"
  have len: "cmd_bufs req resp data \<noteq> []" "length (cmd_bufs req resp data) \<le> 5" using c(9) by (simp_all add: cmd_bufs_def read_data_def)
  have b: "building (w_sys ?w0) ?s7 ?t 5 (cmd_bufs req resp data)" using c(8) by simp
  have ready0: "dev_ready q (Suc k) ?w0" and next0: "0 < ?t" using ready by (simp_all add: dev_ready_def)
  obtain w1 where w1: "vring_submit_task ?t (Some blk_read_done) p (?w0\<lparr>w_sys := ?s7\<rparr>) = Some (0, w1)"
    "pending q k w1 ?t blk_read_done p (cmd_bufs req resp data)" "one_task ?w0 w1 ?t (cmd_bufs req resp data)" "m_of w1 = s_mem ?s7"
    "a_descs w1 = a_descs ?w0" "w_srv w1 = w_srv ?w0"
    by (rule submit_one_task [OF ready0 b len])
  have "read_virtio_dev_async rm p w = Some (0, w1)"
    unfolding read_virtio_dev_async_def d(1) bind.bind_lunit Let_def d(2,3) clip
    unfolding started_def [symmetric] w_create_def
    using off bs c(1-6) m w1(1) next0 by (simp add: w_alloc_def w_mem_def)
  moreover have "req \<in> vb_buf ` set (filter vb_copy (cmd_bufs req resp data))" by (simp add: cmd_bufs_def)
  then have "mem_same (s_blocks (w_sys w)) (m_of w) (m_of w1)"
    unfolding w1(4) using c(13) owns_disjoint [OF building_owns [OF c(8)], of "own_buffer req sizeof_req False"]
    by (auto simp: cmd_bufs_def intro!: mem_same_cdb)
  moreover have "request_ok (m_of w1) (own_buffer req sizeof_req False) False (off div bs) nb"
    unfolding w1(4) using create_rw_cdb_decodes [of "a_dev w" "off div bs" nb req False] c(11) by (simp add: request_ok_def)
  ultimately show ?thesis using w1 c(9,10,12) by (intro that [of w1 ?t req resp data nb]) simp_all
qed


section \<open>The callback\<close>

lemma io_fetched_descs [simp]: "io_fetched q k w0 (w\<lparr>a_descs := D\<rparr>) t bufs l = io_fetched q k w0 w t bufs l"
  by (simp add: io_fetched_def one_task_def aframe_def fetched_def dev_ready_def)

lemma io_fetched_mem: "io_fetched q k w0 w t bufs l \<Longrightarrow> io_fetched q k w0 (w_mem f w) t bufs l"
  using dev_ready_sys [of q k w "(w_sys w)\<lparr>s_mem := f (m_of w)\<rparr>"]
  by (simp add: io_fetched_def one_task_def aframe_def fetched_def w_mem_def)

text \<open>The buffers of a fetched read, and where its data lies.\<close>

lemma blk_read_done_ok:
  assumes ring: "rte_ring_spec ops els rcap" "length (els (a_outring w0)) < rcap" "outfd_room w0"
    and st: "io_fetched q k w0 w t (cmd_bufs req resp data) (of_nat (sizeof_resp + n * bs))"
    and d: "a_descs w p = Some d" "io_reserved d = a_self w0" "resp_good (m_of w) resp" "resp \<noteq> NULL"
    and n: "sizeof_resp + n * bs < 2 ^ 32" "N \<le> n * bs" "N < 2 ^ 31"
    and plan: "data_plan (io_buf d) off N pos 0 data" "contents (m_of w) F pos data"
  obtains w' where "blk_read_done_cb ops t p w = Some w'" "dev_ready q k w'" "s_blocks (w_sys w') = s_blocks (w_sys w0)"
    "s_tasks (w_sys w') = s_tasks (w_sys w0)" "w_srv w' = w_srv w" "a_descs w' = (a_descs w)(p \<mapsto> d\<lparr>io_retval := int N\<rparr>)"
    "els (a_outring w') = els (a_outring w0) @ [p]" "a_dev w' = a_dev w0" "a_self w' = a_self w0"
    "\<forall>i < N. m_of w' (io_buf d + i) = F (off + i)" "\<forall>a. a < io_buf d \<or> io_buf d + N \<le> a \<longrightarrow> m_of w' a = m_of w a"
proof -
  obtain task where task: "s_tasks (w_sys w) t = Some task" "task_wf task" "task_bufs task = cmd_bufs req resp data"
    "used_bytes task = of_nat (sizeof_resp + n * bs)" and fr: "aframe w0 w"
    using st by (auto simp: io_fetched_def fetched_def one_task_def)
  have u: "unat (of_nat (sizeof_resp + n * bs) :: u32) = sizeof_resp + n * bs" using n(1) by (simp only: unat_of_nat) simp
  have ub: "size_sub (unat (used_bytes task)) sizeof_resp = n * bs"
    unfolding task(4) u using n(1) by (subst size_sub_id) simp_all
  have lt: "n * bs < 2 ^ 62" using n(1) by simp
  obtain m' where m': "copy_out (map Some data) (n * bs) (io_buf d) 0 (m_of w) = Some (N, m')"
    "\<forall>i < N. m' (io_buf d + i) = F (off + i)" "\<forall>a. a < io_buf d \<or> io_buf d + N \<le> a \<longrightarrow> m' a = m_of w a"
    using copy_out_ok [OF plan(1) n(2) lt _ plan(2)] by auto
  have bufs: "drop 2 (take (count task) (vbufs task)) = map Some data"
    using take_vbufs [OF task(2)] task(3) by (simp add: cmd_bufs_def)
  have "length (task_bufs task) = count task" by (rule length_task_bufs [OF task(2)])
  then have cnt: "1 < count task" using task(3) by (simp add: cmd_bufs_def)
  have "take (count task) (vbufs task) ! 1 = Some (own_buffer resp sizeof_resp True)"
    using take_vbufs [OF task(2)] task(3) by (simp add: cmd_bufs_def)
  then have get: "virtio_task_get_buf task 1 = Some resp" using cnt by (simp add: virtio_task_get_buf_def)
  have ret: "to_ssize N = int N" using n(3) by (simp add: to_ssize_def)
  let ?w1 = "set_retval p (to_ssize N) (w_mem (\<lambda>_. m') w)"
  have w1: "?w1 = (w_mem (\<lambda>_. m') w)\<lparr>a_descs := (a_descs w)(p \<mapsto> d\<lparr>io_retval := int N\<rparr>)\<rparr>"
    using d(1) ret by (simp add: set_retval_def w_mem_def)
  have st1: "io_fetched q k w0 ?w1 t (cmd_bufs req resp data) (of_nat (sizeof_resp + n * bs))"
    unfolding w1 io_fetched_descs by (rule io_fetched_mem [OF st])
  obtain w' where w': "Option.bind (push_to_outring ops p ?w1) (w_destroy t) = Some w'" "dev_ready q k w'"
    "s_blocks (w_sys w') = s_blocks (w_sys w0)" "s_tasks (w_sys w') = s_tasks (w_sys w0)" "m_of w' = m_of ?w1" "w_srv w' = w_srv ?w1"
    "a_descs w' = a_descs ?w1" "els (a_outring w') = els (a_outring w0) @ [p]" "a_dev w' = a_dev w0" "a_self w' = a_self w0"
    by (rule finish_request [OF ring st1])
  have "blk_read_done_cb ops t p w = Option.bind (push_to_outring ops p ?w1) (w_destroy t)"
    using task(1) d get ub bufs m'(1) n(2) fr by (simp add: blk_read_done_cb_def io_desc_of_def aframe_def Let_def)
  then show ?thesis using w' m'(2,3) by (intro that [of w']) (simp_all add: w1, simp_all add: w_mem_def)
qed


section \<open>Completion\<close>

lemma data_plan_sum: "data_plan buf off N pos r bs \<Longrightarrow> N \<le> r + sum_list (map vb_size bs)"
proof (induction bs arbitrary: pos r)
  case (Cons b bs)
  from Cons.prems have "data_plan buf off N (pos + vb_size b) (r + (vb_offset_to b - vb_offset_from b)) bs" "vb_offset_to b \<le> vb_size b"
    unfolding data_plan.simps by blast+
  with Cons.IH [OF this(1)] show ?case by simp
qed simp

lemma read_bufs_ok:
  assumes one: "one_task w w1 t (cmd_bufs req resp data)" and data: "read_data buf bs off N nb data"
    and live: "live_range (s_blocks (w_sys w)) buf N"
  shows "bufs_ok (cmd_bufs req resp data)"
proof (rule bufs_ok_owned)
  show "fresh_bufs (s_blocks (w_sys w)) (filter vb_copy (cmd_bufs req resp data))" using one by (simp add: one_task_def owns_def)
  show "\<forall>b \<in> set (cmd_bufs req resp data). \<not> vb_copy b \<longrightarrow> live_range (s_blocks (w_sys w)) (vb_buf b) (vb_size b)"
    using data by (auto simp: cmd_bufs_def read_data_def intro!: live_range_sub [OF live])
qed (use data in \<open>auto simp: cmd_bufs_def read_data_def sizeof_req_def sizeof_resp_def\<close>)

text \<open>The server writes into the blocks of the task and the caller's buffer only, the callback into the buffer.\<close>

lemma read_kept:
  assumes one: "one_task w w1 t (cmd_bufs req resp data)" and data: "read_data buf bs off N nb data"
    and m1: "mem_same (s_blocks (w_sys w)) (m_of w) (m_of w1)"
    and m': "\<forall>a. \<not> in_buf a (own_buffer resp sizeof_resp True) \<longrightarrow> (\<forall>b \<in> set data. \<not> in_buf a b) \<longrightarrow> m' a = m_of w1 a"
    and m3: "\<forall>a. a < buf \<or> buf + N \<le> a \<longrightarrow> m3 a = m' a"
  shows "mem_kept (s_blocks (w_sys w)) buf N (m_of w) m3"
  unfolding mem_kept_def
proof (intro allI impI)
  fix a assume a: "live_range (s_blocks (w_sys w)) a 1" "a < buf \<or> buf + N \<le> a"
  have "\<not> in_buf a b" if "b \<in> set (cmd_bufs req resp data)" "vb_copy b" for b
    using one that a(1) owns_disjoint [of _ "filter vb_copy (cmd_bufs req resp data)" "s_blocks (w_sys w1)" b a 1]
    by (auto simp: one_task_def disjoint_range_def in_buf_def)
  moreover have "\<not> in_buf a b" if "b \<in> set data" "\<not> vb_copy b" for b
    using data that a(2) by (auto simp: read_data_def in_buf_def)
  ultimately have "\<not> in_buf a (own_buffer resp sizeof_resp True)" "\<forall>b \<in> set data. \<not> in_buf a b"
    by (fastforce simp: cmd_bufs_def)+
  with m' have "m' a = m_of w1 a" by blast
  then show "m3 a = m_of w a" using m3 a m1 by (auto simp: mem_same_def)
qed

lemma read_async_ok:
  assumes r: "async_ready rm ops els rcap serve disk bs nblk q (Suc k) w" and io: "async_io (a_dev w) bs nblk off n"
    and d: "a_descs w p = Some d" "io_offset d = off" "io_nbytes d = n"
    and live: "live_range (s_blocks (w_sys w)) (io_buf d) N" and N: "N = clip_range (bs * nblk) off n"
  obtains w1 w2 where "read_virtio_dev_async rm p w = Some (0, w1)"
    "drain (Suc (Suc f)) (dev_callbacks rm ops) 0 (run_server serve w1) = Some (1, w2)"
    "els (a_outring w2) = els (a_outring w) @ [p]" "a_descs w2 = (a_descs w)(p \<mapsto> d\<lparr>io_reserved := a_self w, io_retval := int N\<rparr>)"
    "read_xfer disk (io_buf d) off N w w2" "dev_ready q k w2" "a_dev w2 = a_dev w" "a_self w2 = a_self w"
proof -
  let ?b = "s_blocks (w_sys w)" and ?L = "max sizeof_resp bs" and ?pos = "off div bs * bs"
  have rm: "rte_malloc_spec rm" and ring: "rte_ring_spec ops els rcap" "length (els (a_outring w)) < rcap" "outfd_room w"
    and srv: "scsi_server serve disk bs nblk" and geo: "geometry (a_dev w) bs nblk" and room: "rm_room rm ?L 6 ?b" and ready: "dev_ready q (Suc k) w"
    using r by (simp_all add: async_ready_def del: rm_room.simps)
  have room4: "rm_room rm ?L 4 ?b" "sizeof_resp \<le> ?L" "bs \<le> ?L" using rm_room_le [OF room] by simp_all
  obtain w1 t req resp nb data where w1: "read_virtio_dev_async rm p w = Some (0, w1)" "pending q k w1 t blk_read_done p (cmd_bufs req resp data)"
    "one_task w w1 t (cmd_bufs req resp data)" "request_ok (m_of w1) (own_buffer req sizeof_req False) False (off div bs) nb"
    "read_data (io_buf d) bs off N nb data" "off div bs + nb \<le> nblk" "sizeof_resp + nb * bs < 2 ^ 32"
    "mem_same ?b (m_of w) (m_of w1)" "w_srv w1 = w_srv w" "a_descs w1 = (a_descs w)(p \<mapsto> d\<lparr>io_reserved := a_self w\<rparr>)"
    by (rule read_async_submits [OF rm ready io room4 d live N])
  have ok: "bufs_ok (cmd_bufs req resp data)" by (rule read_bufs_ok [OF w1(3,5) live])
  have data: "length data \<le> 1000" "\<forall>b \<in> set data. vb_response b" "sum_list (map vb_size data) = nb * bs" using w1(5) by (auto simp: read_data_def)
  have "scsi_read_spec serve disk bs nblk" using srv by (simp add: scsi_server_def)
  from this [unfolded scsi_read_spec_def, rule_format, OF w1(4,6) _ _ data(2) [rule_format] data(3) w1(7) data(1), of "own_buffer resp sizeof_resp True" "w_srv w"] ok
  obtain m' d' where sv: "serves serve (cmd_bufs req resp data) (m_of w1) (w_srv w) (of_nat (sizeof_resp + nb * bs)) m' d'" "resp_good m' resp"
    "gathered m' data = disk_read disk (w_srv w) ?pos (nb * bs)" "disk d' = disk (w_srv w)"
    "\<forall>a. \<not> in_buf a (own_buffer resp sizeof_resp True) \<longrightarrow> (\<forall>b \<in> set data. \<not> in_buf a b) \<longrightarrow> m' a = m_of w1 a"
    by (auto simp: cmd_bufs_def)
  obtain w2 where w2: "drain (Suc (Suc f)) (dev_callbacks rm ops) 0 (run_server serve w1) =
      Option.bind (dev_callbacks rm ops blk_read_done t p w2) (drain (Suc f) (dev_callbacks rm ops) (0 + 1))"
    "io_fetched q k w w2 t (cmd_bufs req resp data) (of_nat (sizeof_resp + nb * bs))" "m_of w2 = m'" "w_srv w2 = d'" "a_descs w2 = a_descs w1"
    by (rule complete_one_task [OF w1(2,3) sv(1) [folded w1(9)], of "Suc f" "dev_callbacks rm ops" 0])
  have plan: "data_plan (io_buf d) off N ?pos 0 data"
    using w1(3,5) owns_disjoint [of ?b "filter vb_copy (cmd_bufs req resp data)" "s_blocks (w_sys w1)" _ "io_buf d" N] live
    by (auto simp: read_data_def cmd_bufs_def one_task_def)
  have cont: "contents (m_of w2) (disk (w_srv w)) ?pos data"
    unfolding w2(3) by (rule gathered_contents) (use sv(3) data(3) in \<open>simp add: disk_read_def\<close>)
  have N31: "N < 2 ^ 31" using io N by (simp add: async_io_def)
  have "N \<le> nb * bs" using data_plan_sum [OF plan] data(3) by simp
  have ne: "resp \<noteq> NULL" using ok by (auto simp: bufs_ok_def cmd_bufs_def)
  let ?d = "d\<lparr>io_reserved := a_self w\<rparr>"
  have d2: "a_descs w2 p = Some ?d" "io_reserved ?d = a_self w" "resp_good (m_of w2) resp" using w2(3,5) w1(10) sv(2) by simp_all
  obtain w3 where w3: "blk_read_done_cb ops t p w2 = Some w3" "dev_ready q k w3" "s_blocks (w_sys w3) = ?b"
    "s_tasks (w_sys w3) = s_tasks (w_sys w)" "w_srv w3 = w_srv w2" "a_descs w3 = (a_descs w2)(p \<mapsto> ?d\<lparr>io_retval := int N\<rparr>)"
    "els (a_outring w3) = els (a_outring w) @ [p]" "a_dev w3 = a_dev w" "a_self w3 = a_self w"
    "\<forall>i < N. m_of w3 (io_buf ?d + i) = disk (w_srv w) (off + i)" "\<forall>a. a < io_buf ?d \<or> io_buf ?d + N \<le> a \<longrightarrow> m_of w3 a = m_of w2 a"
    by (rule blk_read_done_ok [OF ring w2(2) d2 ne w1(7) \<open>N \<le> nb * bs\<close> N31 _ cont]) (use plan in simp)
  have "mem_kept ?b (io_buf d) N (m_of w) (m_of w3)"
    by (rule read_kept [OF w1(3,5,8) sv(5)]) (use w3(11) w2(3) in simp)
  moreover have "mem_read (m_of w3) (io_buf d) N = disk_read disk (w_srv w) off N"
    using w3(10) by (intro nth_equalityI) simp_all
  ultimately have "read_xfer disk (io_buf d) off N w w3" using w3(3-5) w2(4) sv(4) by (simp add: read_xfer_def)
  moreover have "drain (Suc (Suc f)) (dev_callbacks rm ops) 0 (run_server serve w1) = Some (1, w3)"
    using w2(1) w3(1) drain_ready [OF w3(2)] by (simp add: dev_callbacks_def del: drain.simps)
  ultimately show ?thesis using w1(1,10) w2(5) w3 by (intro that [of w1 w3]) simp_all
qed

end
