(* ===== verification/Async_Stage.thy ===== *)
theory Async_Stage
  imports Async_Read_Done
begin

text \<open>
  The steps of an asynchronous write. A write goes through up to four commands: read the first block,
  write it back with the whole blocks, read the last block, write it back. Each callback runs
  while its own task is out of the ring, builds the task of the next command, submits it and
  destroys its own.
\<close>

section \<open>Memory that a task does not touch\<close>

lemma memcpy_at: "i < n \<Longrightarrow> memcpy d s n m (d + i) = m (s + i)"
  using arg_cong [OF mem_read_memcpy, of "\<lambda>xs. xs ! i" d s n m] by simp

lemma mem_same_at: "mem_same b m m' \<Longrightarrow> live_range b p n \<Longrightarrow> i < n \<Longrightarrow> m' (p + i) = m (p + i)"
  using live_range_sub [of b p n "p + i" 1] by (simp add: mem_same_def)

lemma mem_same_read: "mem_same b m m' \<Longrightarrow> live_range b p n \<Longrightarrow> mem_read m' p n = mem_read m p n"
  by (rule mem_read_eqI) (simp add: mem_same_at)

lemma mem_same_owns: "mem_same b m m' \<Longrightarrow> owns b0 own b \<Longrightarrow> mem_same b0 m m'"
  by (simp add: mem_same_def owns_live)

lemma mem_same_memcpy:
  assumes "mem_same b m m1" "\<And>a. live_range b a 1 \<Longrightarrow> disjoint_range p n a 1"
  shows "mem_same b m (memcpy p src n m1)"
  using assms by (fastforce simp: mem_same_def memcpy_outside disjoint_range_def)

lemma decode_cdb_cong: "(\<And>i. i < 16 \<Longrightarrow> m' (p + i) = m (p + i)) \<Longrightarrow> decode_cdb m' p = decode_cdb m p"
proof -
  assume *: "\<And>i. i < 16 \<Longrightarrow> m' (p + i) = m (p + i)"
  have at: "m' a = m a" if "p \<le> a" "a < p + 16" for a using * [of "a - p"] that by simp
  have "m' p = m p" using at by simp
  moreover have "from_be32 m' (p + 2) = from_be32 m (p + 2)" "from_be16 m' (p + 7) = from_be16 m (p + 7)"
    "from_be64 m' (p + 2) = from_be64 m (p + 2)" "from_be32 m' (p + 10) = from_be32 m (p + 10)"
    by (simp_all add: be_defs at)
  ultimately show ?thesis by (simp only: decode_cdb_def)
qed

lemma request_ok_same:
  assumes "mem_same b m m'" "live_range b req sizeof_req" "request_ok m (own_buffer req sizeof_req False) wr lba n"
  shows "request_ok m' (own_buffer req sizeof_req False) wr lba n"
proof -
  have at: "m' (req + i) = m (req + i)" if "i < 51" for i
    using mem_same_at [OF assms(1,2)] that by (simp add: sizeof_req_def)
  have "decode_cdb m' (req + 19) = decode_cdb m (req + 19)" by (rule decode_cdb_cong) (use at in \<open>simp add: add.assoc\<close>)
  then show ?thesis using assms(3) at [of 0] at [of 1] by (simp add: request_ok_def)
qed

lemma gathered_same:
  assumes "mem_same b m m'" "\<forall>x \<in> set data. live_range b (vb_buf x) (vb_size x)"
  shows "gathered m' data = gathered m data"
  unfolding gathered_def using assms mem_same_read by (intro arg_cong [of _ _ concat] map_cong) auto


section \<open>One task follows another\<close>

lemma destroy_pending:
  assumes one: "one_task w0 w t bufs" and task: "s_tasks (w_sys w) t = Some task" "task_wf task" "task_bufs task = bufs"
    and new: "pending q k w1 nt c a bufs'" "one_task w w1 nt bufs'" and q: "t \<notin> fst ` set (inflight q)"
  obtains w2 where "w_destroy t w1 = Some w2" "pending q k w2 nt c a bufs'" "one_task w0 w2 nt bufs'"
    "m_of w2 = m_of w1" "w_srv w2 = w_srv w1" "a_descs w2 = a_descs w1"
proof -
  have ne: "t \<noteq> nt" using new(2) task(1) by (auto simp: one_task_def)
  have t1: "s_tasks (w_sys w1) t = Some task" using new(2) task(1) ne by (simp add: one_task_def)
  let ?s = "(free_vbufs (map Some (task_bufs task)) (w_sys w1))\<lparr>s_tasks := (s_tasks (w_sys w1))(t := None)\<rparr>"
  let ?w = "w1\<lparr>w_sys := ?s\<rparr>"
  have d: "w_destroy t w1 = Some ?w"
    using t1 take_vbufs [OF task(2)] by (simp add: w_destroy_def virtio_task_destroy_def Let_def)
  obtain tk ch where tk: "s_tasks (w_sys w1) nt = Some tk" "task_wf tk" "task_bufs tk = bufs'" "cb tk = Some c" "arg tk = a"
    and rep: "vring_rep (w_ring w1) (w_sys w1) (q\<lparr>inflight := inflight q @ [(nt, ch)]\<rparr>)" and ann: "last_announced (w_ring w1) = hd ch"
    using new(1) by (auto simp: pending_def)
  have "vring_rep (w_ring w1) ?s (q\<lparr>inflight := inflight q @ [(nt, ch)]\<rparr>)"
    by (rule vring_rep_update_task [OF rep, of t _ None]) (use q ne in auto)
  then have "pending q k ?w nt c a bufs'"
    using new(1) tk ann ne unfolding pending_def by (auto simp: kick_room_def)
  moreover have "{b \<in> set bufs. vb_copy b \<and> vb_buf b \<noteq> NULL} = set (filter vb_copy bufs)"
    using one_task_nonnull [OF one] by auto
  then have "s_blocks ?s = filter (\<lambda>(p, n). p \<notin> vb_buf ` set (filter vb_copy bufs)) (s_blocks (w_sys w1))"
    using free_vbufs_blocks [of "task_bufs task" "w_sys w1"] task(3) by simp
  then have "owns (s_blocks (w_sys w0)) (filter vb_copy bufs') (s_blocks ?s)"
    using owns_free_old [of _ "filter vb_copy bufs"] one new(2) unfolding one_task_def by metis
  then have "one_task w0 ?w nt bufs'"
    using one new(2) ne by (auto simp: one_task_def aframe_def)
  ultimately show ?thesis using d by (intro that [of ?w]) simp_all
qed


section \<open>Building the next command\<close>

lemma building_live: "building s0 s t lim bufs \<Longrightarrow> b \<in> set bufs \<Longrightarrow> vb_copy b \<Longrightarrow> live_range (s_blocks s) (vb_buf b) (vb_size b)"
  using owns_live_own [OF building_owns] by force

lemma building_old: "building s0 s t lim bufs \<Longrightarrow> live_range (s_blocks s0) p n \<Longrightarrow> live_range (s_blocks s) p n"
  using owns_live [OF building_owns] by blast

lemma building_disjoint:
  "building s0 s t lim bufs \<Longrightarrow> b \<in> set bufs \<Longrightarrow> vb_copy b \<Longrightarrow> live_range (s_blocks s0) p n \<Longrightarrow> disjoint_range (vb_buf b) (vb_size b) p n"
  using owns_disjoint [OF building_owns] by force

text \<open>The request and the response block: zeroed, and nothing else changes in live memory.\<close>

lemma alloc_cmd:
  assumes b: "building s0 s t lim bufs" "length bufs < lim" and rm: "rte_malloc_spec rm"
    and room: "rm_room rm L (Suc k) (s_blocks s)" "sz \<le> L" "sz < 2 ^ 31"
  obtains p s' where "virtio_task_alloc_buf rm t sz r True s = Some (p, s')" "p \<noteq> NULL"
    "building s0 s' t lim (bufs @ [own_buffer p sz r])" "mem_same (s_blocks s) (s_mem s) (s_mem s')" "rm_room rm L k (s_blocks s')"
proof -
  obtain p s' where p: "virtio_task_alloc_buf rm t sz r True s = Some (p, s')" "p \<noteq> NULL"
    "building s0 s' t lim (bufs @ [own_buffer p sz r])" "s_mem s' = memset p 0 sz (s_mem s)" "rm_room rm L k (s_blocks s')"
    "\<forall>a n. live_range (s_blocks s) a n \<longrightarrow> disjoint_range p sz a n"
    by (rule alloc_own [OF b rm room, where r = r])
  have "mem_same (s_blocks s) (s_mem s) (s_mem s')" unfolding p(4) using p(6) by (intro mem_same_memset) auto
  with p show ?thesis by (intro that [of p s'])
qed

text \<open>
  A command with a block of the device in which the bytes from \<open>f\<close> on were replaced: the block is
  copied from where it was read and \<open>delta\<close> bytes are copied over it from the caller's memory.
\<close>

lemma build_patch:
  assumes rm: "rte_malloc_spec rm" and ready: "dev_ready q k w" and room: "rm_room rm L 3 (s_blocks (w_sys w))" "sizeof_resp \<le> L" "bs \<le> L"
    and bs: "bs < 2 ^ 30" and old: "live_range (s_blocks (w_sys w)) pb bs"
    and src: "live_range (s_blocks (w_sys w)) src delta" "f + delta \<le> bs"
  obtains s2 s3 s4 req buf m where
    "virtio_task_create 4 (w_sys w) = (s_next (w_sys w), s2)" "s_next (w_sys w) \<noteq> NULL"
    "virtio_task_alloc_buf rm (s_next (w_sys w)) sizeof_req False True s2 = Some (req, s3)" "req \<noteq> NULL"
    "virtio_task_alloc_buf_part rm (s_next (w_sys w)) bs False False f g s3 = Some (buf, s4)" "buf \<noteq> NULL"
    "building (w_sys w) s4 (s_next (w_sys w)) 4 [own_buffer req sizeof_req False, blk_buffer buf bs False f g]"
    "rm_room rm L 1 (s_blocks s4)" "memcpy (buf + f) src delta (memcpy buf pb bs (s_mem s4)) = m"
    "mem_same (s_blocks (w_sys w)) (m_of w) m"
    "\<forall>j < bs. m (buf + j) = (if f \<le> j \<and> j < f + delta then m_of w (src + (j - f)) else m_of w (pb + j))"
proof -
  let ?t = "s_next (w_sys w)" and ?b = "s_blocks (w_sys w)"
  have t: "?t \<noteq> NULL" and oom: "s_oom (w_sys w) = (\<lambda>_. False)" using ready by (auto simp: dev_ready_def)
  obtain s2 where c: "virtio_task_create 4 (w_sys w) = (?t, s2)" "building (w_sys w) s2 ?t 4 []" "s_mem s2 = m_of w"
    using build_create [OF oom] by blast
  have b2: "s_blocks s2 = ?b" using building_owns [OF c(2)] by simp
  have room3: "rm_room rm L (Suc (Suc (Suc 0))) (s_blocks s2)" using room(1) b2 by (simp add: numeral_3_eq_3)
  have le: "length ([] :: virtio_buffer list) < 4" "length ([] @ [own_buffer x sizeof_req False]) < 4" "sizeof_req \<le> L" "bs < 2 ^ 31" for x
    using room(2) bs by (simp_all add: sizeof_req_def sizeof_resp_def)
  obtain req s3 where r: "virtio_task_alloc_buf rm ?t sizeof_req False True s2 = Some (req, s3)" "req \<noteq> NULL"
    "building (w_sys w) s3 ?t 4 ([] @ [own_buffer req sizeof_req False])" "mem_same (s_blocks s2) (s_mem s2) (s_mem s3)"
    "rm_room rm L (Suc (Suc 0)) (s_blocks s3)"
    by (rule alloc_cmd [OF c(2) le(1) rm room3 le(3) cmd_sizes(1), where r = False])
  obtain buf s4 where a: "virtio_task_alloc_buf_part rm ?t bs False False f g s3 = Some (buf, s4)" "buf \<noteq> NULL"
    "building (w_sys w) s4 ?t 4 (([] @ [own_buffer req sizeof_req False]) @ [blk_buffer buf bs False f g])"
    "s_mem s4 = (if False then memset buf 0 bs (s_mem s3) else s_mem s3)" "rm_room rm L (Suc 0) (s_blocks s4)"
    by (rule build_alloc [OF r(3) le(2) rm r(5) room(3) le(4), of False False f g])
  have dis: "disjoint_range buf bs p n" if "live_range ?b p n" for p n
    using building_disjoint [OF a(3), of "blk_buffer buf bs False f g" p n] that by simp
  let ?m1 = "memcpy buf pb bs (s_mem s4)"
  let ?m = "memcpy (buf + f) src delta ?m1"
  have m4: "mem_same ?b (m_of w) (s_mem s4)" using r(4) a(4) b2 c(3) by simp
  have m1: "mem_same ?b (m_of w) ?m1" using m4 dis by (intro mem_same_memcpy)
  have "disjoint_range (buf + f) delta p n" if "live_range ?b p n" for p n
    using dis [OF that] src(2) by (auto simp: disjoint_range_def)
  with m1 have m: "mem_same ?b (m_of w) ?m" by (rule mem_same_memcpy)
  have "?m (buf + j) = (if f \<le> j \<and> j < f + delta then m_of w (src + (j - f)) else m_of w (pb + j))" if "j < bs" for j
  proof (cases "f \<le> j \<and> j < f + delta")
    case True
    then have "j - f < delta" "buf + f + (j - f) = buf + j" by auto
    then have "?m (buf + j) = ?m1 (src + (j - f))" using memcpy_at [of "j - f" delta "buf + f" src ?m1] by metis
    also have "\<dots> = m_of w (src + (j - f))" by (rule mem_same_at [OF m1 src(1) \<open>j - f < delta\<close>])
    finally show ?thesis using True by simp
  next
    case False
    then have "?m (buf + j) = ?m1 (buf + j)" by (intro memcpy_outside) auto
    also have "\<dots> = s_mem s4 (pb + j)" by (rule memcpy_at [OF that])
    also have "\<dots> = m_of w (pb + j)" by (rule mem_same_at [OF m4 old that])
    finally show ?thesis using False by auto
  qed
  then show ?thesis using c(1) t r(1,2) a m by (intro that [of s2 req s3 buf s4 ?m]) simp_all
qed


text \<open>The command block and the response of a write whose data is in place.\<close>

lemma cdb_keeps:
  assumes b: "building s0 s t lim (own_buffer req sizeof_req False # bufs)"
  shows "mem_same (s_blocks s0) (s_mem s) (create_rw_cdb dev req lba n wr (s_mem s))"
    "\<forall>x \<in> set bufs. vb_copy x \<longrightarrow> mem_read (create_rw_cdb dev req lba n wr (s_mem s)) (vb_buf x) (vb_size x) = mem_read (s_mem s) (vb_buf x) (vb_size x)"
proof -
  have dis: "disjoint_range req sizeof_req p n" if "live_range (s_blocks s0) p n" for p n
    using building_disjoint [OF b, of "own_buffer req sizeof_req False"] that by simp
  then show "mem_same (s_blocks s0) (s_mem s) (create_rw_cdb dev req lba n wr (s_mem s))" by (intro mem_same_cdb) simp_all
  have fresh: "fresh_bufs (s_blocks s0) (own_buffer req sizeof_req False # filter vb_copy bufs)" using building_owns [OF b] by (simp add: owns_def)
  show "\<forall>x \<in> set bufs. vb_copy x \<longrightarrow>
      mem_read (create_rw_cdb dev req lba n wr (s_mem s)) (vb_buf x) (vb_size x) = mem_read (s_mem s) (vb_buf x) (vb_size x)"
  proof (intro ballI impI)
    fix x assume x: "x \<in> set bufs" "vb_copy x"
    then have "req \<noteq> vb_buf x" using fresh by (force simp: fresh_bufs_def)
    then have "disjoint_range req sizeof_req (vb_buf x) (vb_size x)" using fresh x by (simp add: fresh_bufs_def)
    then show "mem_read (create_rw_cdb dev req lba n wr (s_mem s)) (vb_buf x) (vb_size x) = mem_read (s_mem s) (vb_buf x) (vb_size x)"
      by (intro mem_read_eqI create_rw_cdb_frame) (auto simp: disjoint_range_def)
  qed
qed

lemma finish_cmd:
  assumes b: "building s0 s t lim (own_buffer req sizeof_req False # data)" "Suc (length data) < lim" and rm: "rte_malloc_spec rm"
    and room: "rm_room rm L 1 (s_blocks s)" "sizeof_resp \<le> L" and req: "request_ok (s_mem s) (own_buffer req sizeof_req False) wr lba n"
    and live: "\<forall>x \<in> set data. \<not> vb_copy x \<longrightarrow> live_range (s_blocks s0) (vb_buf x) (vb_size x)"
  obtains resp s' where "virtio_task_alloc_buf rm t sizeof_resp True True s = Some (resp, s')" "resp \<noteq> NULL"
    "building s0 s' t lim (own_buffer req sizeof_req False # data @ [own_buffer resp sizeof_resp True])"
    "request_ok (s_mem s') (own_buffer req sizeof_req False) wr lba n" "gathered (s_mem s') data = gathered (s_mem s) data"
    "mem_same (s_blocks s0) (s_mem s) (s_mem s')"
proof -
  have room1: "rm_room rm L (Suc 0) (s_blocks s)" and len: "length (own_buffer req sizeof_req False # data) < lim" using room(1) b(2) by simp_all
  obtain resp s' where a: "virtio_task_alloc_buf rm t sizeof_resp True True s = Some (resp, s')" "resp \<noteq> NULL"
    "building s0 s' t lim ((own_buffer req sizeof_req False # data) @ [own_buffer resp sizeof_resp True])"
    "mem_same (s_blocks s) (s_mem s) (s_mem s')"
    by (rule alloc_cmd [OF b(1) len rm room1 room(2) cmd_sizes(2), where r = True])
  have "live_range (s_blocks s) req sizeof_req" using building_live [OF b(1), of "own_buffer req sizeof_req False"] by simp
  note request_ok_same [OF a(4) this req]
  moreover have "live_range (s_blocks s) (vb_buf x) (vb_size x)" if "x \<in> set data" for x
    using building_live [OF b(1), of x] building_old [OF b(1)] live that by (cases "vb_copy x") auto
  then have "gathered (s_mem s') data = gathered (s_mem s) data" using gathered_same [OF a(4)] by blast
  ultimately show ?thesis using a mem_same_owns [OF a(4) building_owns [OF b(1)]] by (intro that [of resp s']) simp_all
qed


section \<open>The server's part\<close>

definition write_cmd :: "ptr \<Rightarrow> ptr \<Rightarrow> virtio_buffer list \<Rightarrow> virtio_buffer list" where
  "write_cmd req resp data = own_buffer req sizeof_req False # data @ [own_buffer resp sizeof_resp True]"

text \<open>The blocks and the caller's buffer that a command transfers.\<close>

definition data_ok :: "('d, 'r, 'z) aworld_scheme \<Rightarrow> virtio_buffer list \<Rightarrow> nat \<Rightarrow> bool" where
  "data_ok w0 data sz \<longleftrightarrow> length data \<le> 2 \<and> sum_list (map vb_size data) = sz \<and> sz < 2 ^ 31 \<and>
     (\<forall>b \<in> set data. \<not> vb_copy b \<longrightarrow> live_range (s_blocks (w_sys w0)) (vb_buf b) (vb_size b)) \<and> length (filter (\<lambda>b. \<not> vb_copy b) data) \<le> 1"

lemma data_ok_size: "data_ok w0 data n \<Longrightarrow> b \<in> set data \<Longrightarrow> vb_size b < 2 ^ 32"
  using member_le_sum_list [of "vb_size b" "map vb_size data"] by (auto simp: data_ok_def)

lemma write_stage:
  assumes p: "pending q k w t c a (write_cmd req resp data)" and one: "one_task w0 w t (write_cmd req resp data)"
    and req: "request_ok (m_of w) (own_buffer req sizeof_req False) True lba n" "lba + n \<le> nblk"
    and data: "data_ok w0 data (n * bs)" "\<forall>b \<in> set data. \<not> vb_response b" and srv: "scsi_server serve disk bs nblk"
  obtains w2 l where "drain (Suc f) cbs x (run_server serve w) = Option.bind (cbs c t a w2) (drain f cbs (x + 1))"
    "io_fetched q k w0 w2 t (write_cmd req resp data) l" "resp_good (m_of w2) resp" "resp \<noteq> NULL"
    "disk (w_srv w2) = disk_write (lba * bs) (gathered (m_of w) data) (disk (w_srv w))"
    "mem_same (s_blocks (w_sys w0)) (m_of w) (m_of w2)" "a_descs w2 = a_descs w"
proof -
  have fresh: "fresh_bufs (s_blocks (w_sys w0)) (filter vb_copy (write_cmd req resp data))" using one by (simp add: one_task_def owns_def)
  have ok: "bufs_ok (write_cmd req resp data)"
    by (rule bufs_ok_owned [OF fresh]) (use data data_ok_size [OF data(1)] in \<open>auto simp: write_cmd_def data_ok_def sizeof_req_def sizeof_resp_def\<close>)
  have sz: "length data \<le> 1000" "sum_list (map vb_size data) = n * bs" "n * bs < 2 ^ 32" using data(1) by (auto simp: data_ok_def)
  have "scsi_write_spec serve disk bs nblk" using srv by (simp add: scsi_server_def)
  from this [unfolded scsi_write_spec_def, rule_format, OF req _ _ data(2) [rule_format] sz(2,3,1), of "own_buffer resp sizeof_resp True" "w_srv w"] ok
  obtain l m' d' where sv: "serves serve (write_cmd req resp data) (m_of w) (w_srv w) l m' d'" "resp_good m' resp"
    "disk d' = disk_write (lba * bs) (gathered (m_of w) data) (disk (w_srv w))" "\<forall>a. \<not> in_buf a (own_buffer resp sizeof_resp True) \<longrightarrow> m' a = m_of w a"
    by (auto simp: write_cmd_def)
  obtain w2 where w2: "drain (Suc f) cbs x (run_server serve w) = Option.bind (cbs c t a w2) (drain f cbs (x + 1))"
    "io_fetched q k w0 w2 t (write_cmd req resp data) l" "m_of w2 = m'" "w_srv w2 = d'" "a_descs w2 = a_descs w"
    by (rule complete_one_task [OF p one sv(1)])
  have "disjoint_range resp sizeof_resp a 1" if "live_range (s_blocks (w_sys w0)) a 1" for a
    using fresh that by (simp add: fresh_bufs_def write_cmd_def)
  then have "mem_same (s_blocks (w_sys w0)) (m_of w) m'" using sv(4) by (fastforce simp: mem_same_def in_buf_def disjoint_range_def)
  moreover have "resp \<noteq> NULL" using ok by (auto simp: bufs_ok_def write_cmd_def)
  ultimately show ?thesis using w2 sv by (intro that [of w2 l]) simp_all
qed

lemma read_stage:
  assumes p: "pending q k w t c a (cmd_bufs req resp [blk_buffer pb bs True f g])" and one: "one_task w0 w t (cmd_bufs req resp [blk_buffer pb bs True f g])"
    and req: "request_ok (m_of w) (own_buffer req sizeof_req False) False lba 1" "lba < nblk"
    and bs: "bs < 2 ^ 30" and srv: "scsi_server serve disk bs nblk"
  obtains w2 l where "drain (Suc f') cbs x (run_server serve w) = Option.bind (cbs c t a w2) (drain f' cbs (x + 1))"
    "io_fetched q k w0 w2 t (cmd_bufs req resp [blk_buffer pb bs True f g]) l" "resp_good (m_of w2) resp" "resp \<noteq> NULL"
    "mem_read (m_of w2) pb bs = disk_read disk (w_srv w) (lba * bs) bs" "disk (w_srv w2) = disk (w_srv w)"
    "mem_same (s_blocks (w_sys w0)) (m_of w) (m_of w2)" "a_descs w2 = a_descs w"
proof -
  let ?data = "[blk_buffer pb bs True f g]"
  have fresh: "fresh_bufs (s_blocks (w_sys w0)) (filter vb_copy (cmd_bufs req resp ?data))" using one by (simp add: one_task_def owns_def)
  have ok: "bufs_ok (cmd_bufs req resp ?data)"
    by (rule bufs_ok_owned [OF fresh]) (use bs in \<open>auto simp: cmd_bufs_def sizeof_req_def sizeof_resp_def\<close>)
  have sz: "lba + 1 \<le> nblk" "\<forall>b \<in> set ?data. vb_response b" "sum_list (map vb_size ?data) = 1 * bs" "sizeof_resp + 1 * bs < 2 ^ 32" "length ?data \<le> 1000"
    using bs req(2) by (simp_all add: sizeof_resp_def)
  have "scsi_read_spec serve disk bs nblk" using srv by (simp add: scsi_server_def)
  from this [unfolded scsi_read_spec_def, rule_format, OF req(1) sz(1) _ _ sz(2) [rule_format] sz(3-5), of "own_buffer resp sizeof_resp True" "w_srv w"] ok
  obtain m' d' where sv: "serves serve (cmd_bufs req resp ?data) (m_of w) (w_srv w) (of_nat (sizeof_resp + 1 * bs)) m' d'" "resp_good m' resp"
    "gathered m' ?data = disk_read disk (w_srv w) (lba * bs) (1 * bs)" "disk d' = disk (w_srv w)"
    "\<forall>a. \<not> in_buf a (own_buffer resp sizeof_resp True) \<longrightarrow> (\<forall>b \<in> set ?data. \<not> in_buf a b) \<longrightarrow> m' a = m_of w a"
    by (auto simp: cmd_bufs_def)
  obtain w2 where w2: "drain (Suc f') cbs x (run_server serve w) = Option.bind (cbs c t a w2) (drain f' cbs (x + 1))"
    "io_fetched q k w0 w2 t (cmd_bufs req resp ?data) (of_nat (sizeof_resp + 1 * bs))" "m_of w2 = m'" "w_srv w2 = d'" "a_descs w2 = a_descs w"
    by (rule complete_one_task [OF p one sv(1)])
  have "disjoint_range resp sizeof_resp a 1 \<and> disjoint_range pb bs a 1" if "live_range (s_blocks (w_sys w0)) a 1" for a
    using fresh that by (simp add: fresh_bufs_def cmd_bufs_def)
  then have "mem_same (s_blocks (w_sys w0)) (m_of w) m'" using sv(5) by (fastforce simp: mem_same_def in_buf_def disjoint_range_def)
  moreover have "resp \<noteq> NULL" using ok by (auto simp: bufs_ok_def cmd_bufs_def)
  moreover have "mem_read m' pb bs = disk_read disk (w_srv w) (lba * bs) bs" using sv(3) by (simp add: gathered_def)
  ultimately show ?thesis using w2 sv by (intro that [of w2]) simp_all
qed

end
