(* ===== verification/Async_Write.thy ===== *)
theory Async_Write
  imports Async_Stage
begin

text \<open>
  Asynchronous writes: what each callback of a write does when its command succeeded. The request
  is not cut at the end of the device (\<open>off + n \<le> bs * nblk\<close>).
\<close>

section \<open>A callback at work\<close>

definition at_callback :: "rte_malloc \<Rightarrow> nat \<Rightarrow> nat \<Rightarrow> nat \<Rightarrow> vqueue \<Rightarrow> nat \<Rightarrow> ('d, 'r, 'z) aworld_scheme \<Rightarrow> ('d, 'r, 'z) aworld_scheme \<Rightarrow> ptr \<Rightarrow> ptr
    \<Rightarrow> async_io_desc \<Rightarrow> virtio_buffer list \<Rightarrow> bool" where
  "at_callback rm L bs nblk q k w0 w t p d bufs \<longleftrightarrow> rte_malloc_spec rm \<and> geometry (a_dev w0) bs nblk \<and> bs \<le> L \<and> sizeof_resp \<le> L \<and>
     (\<exists>l. io_fetched q k w0 w t bufs l) \<and> a_descs w p = Some d \<and> io_reserved d = a_self w0"

lemma task_buf_nth:
  assumes "task_wf task" "i < length (task_bufs task)"
  shows "vbufs task ! i = Some (task_bufs task ! i)" "virtio_task_get_buf task i = Some (vb_buf (task_bufs task ! i))"
proof -
  have "i < count task" using assms length_task_bufs by simp
  moreover have "take (count task) (vbufs task) ! i = Some (task_bufs task ! i)" using take_vbufs [OF assms(1)] assms(2) by simp
  ultimately show "vbufs task ! i = Some (task_bufs task ! i)" by simp
  with \<open>i < count task\<close> show "virtio_task_get_buf task i = Some (vb_buf (task_bufs task ! i))" by (simp add: virtio_task_get_buf_def)
qed

lemma at_callback_task:
  assumes "at_callback rm L bs nblk q k w0 w t p d bufs"
  obtains task where "s_tasks (w_sys w) t = Some task" "task_wf task" "task_bufs task = bufs" "count task = length bufs"
    "io_desc_of p w = Some d" "a_dev w = a_dev w0" "bs_of (a_dev w) = bs" "0 < bs" "bs < 2 ^ 30" "dev_ready q k w" "one_task w0 w t bufs"
    "t \<notin> fst ` set (inflight q)" "t < s_next (w_sys w)" "t \<noteq> NULL"
proof -
  obtain l where l: "io_fetched q k w0 w t bufs l" using assms by (auto simp: at_callback_def)
  then obtain task where task: "s_tasks (w_sys w) t = Some task" "task_wf task" "task_bufs task = bufs"
    by (auto simp: io_fetched_def fetched_def)
  have fr: "aframe w0 w" using l by (simp add: io_fetched_def one_task_def)
  then have "io_desc_of p w = Some d" using assms by (simp add: at_callback_def io_desc_of_def aframe_def)
  moreover have dev: "a_dev w = a_dev w0" using fr by (simp add: aframe_def)
  moreover have "bs_of (a_dev w) = bs" "0 < bs" "bs < 2 ^ 30" using assms geometry_bs unfolding dev by (auto simp: at_callback_def geometry_def)
  ultimately show ?thesis using task l length_task_bufs [OF task(2)] by (intro that [of task]) (simp_all add: io_fetched_def)
qed

lemma one_task_blocks: "one_task w0 w t bufs \<Longrightarrow> s_blocks (w_sys w) = rev (map blk_of (filter vb_copy bufs)) @ s_blocks (w_sys w0)"
  by (simp add: one_task_def owns_def)

lemma one_task_live:
  assumes "one_task w0 w t bufs"
  shows "live_range (s_blocks (w_sys w0)) a n \<Longrightarrow> live_range (s_blocks (w_sys w)) a n"
    "b \<in> set bufs \<Longrightarrow> vb_copy b \<Longrightarrow> live_range (s_blocks (w_sys w)) (vb_buf b) (vb_size b)"
  using assms owns_live owns_live_own [of "s_blocks (w_sys w0)" "filter vb_copy bufs" "s_blocks (w_sys w)" b] by (auto simp: one_task_def)

text \<open>A command is submitted in place of the task of the callback.\<close>

lemma submit_next:
  assumes cbk: "at_callback rm L bs nblk q (Suc k) w0 w t p d bufs" and b: "building (w_sys w) s nt lim bufs'" "bufs' \<noteq> []" "length bufs' \<le> 5"
  obtains w1 w2 where "vring_submit_task nt (Some c) p (w\<lparr>w_sys := s\<rparr>) = Some (0, w1)" "w_destroy t w1 = Some w2"
    "pending q k w2 nt c p bufs'" "one_task w0 w2 nt bufs'" "m_of w2 = s_mem s" "a_descs w2 = a_descs w" "w_srv w2 = w_srv w"
proof -
  obtain task where task: "s_tasks (w_sys w) t = Some task" "task_wf task" "task_bufs task = bufs" "count task = length bufs"
    "io_desc_of p w = Some d" "a_dev w = a_dev w0" "bs_of (a_dev w) = bs" "0 < bs" "bs < 2 ^ 30" "dev_ready q (Suc k) w" "one_task w0 w t bufs"
    "t \<notin> fst ` set (inflight q)"
    by (rule at_callback_task [OF cbk])
  obtain w1 where w1: "vring_submit_task nt (Some c) p (w\<lparr>w_sys := s\<rparr>) = Some (0, w1)" "pending q k w1 nt c p bufs'"
    "one_task w w1 nt bufs'" "m_of w1 = s_mem s" "a_descs w1 = a_descs w" "w_srv w1 = w_srv w"
    by (rule submit_one_task [OF task(10) b])
  obtain w2 where "w_destroy t w1 = Some w2" "pending q k w2 nt c p bufs'" "one_task w0 w2 nt bufs'"
    "m_of w2 = m_of w1" "w_srv w2 = w_srv w1" "a_descs w2 = a_descs w1"
    by (rule destroy_pending [OF task(11,1-3) w1(2,3) task(12)])
  with w1 show ?thesis by (intro that [of w1 w2]) simp_all
qed


text \<open>The command block, the response and the submission of a write whose data is in place.\<close>

lemma close_write:
  assumes cbk: "at_callback rm L bs nblk q (Suc k) w0 w t p d bufs" and b: "building (w_sys w) s nt 4 (own_buffer req sizeof_req False # data)"
    and len: "length data \<le> 2" and room: "rm_room rm L 1 (s_blocks s)" and same: "mem_same (s_blocks (w_sys w)) (m_of w) (s_mem s)"
    and fits: "rw_fits (a_dev w) lba n"
    and live: "\<forall>x \<in> set data. \<not> vb_copy x \<longrightarrow> live_range (s_blocks (w_sys w0)) (vb_buf x) (vb_size x)"
  obtains resp s' w1 w2 where
    "virtio_task_alloc_buf rm nt sizeof_resp True True (s\<lparr>s_mem := create_rw_cdb (a_dev w) req lba n True (s_mem s)\<rparr>) = Some (resp, s')"
    "resp \<noteq> NULL" "vring_submit_task nt (Some c) p (w\<lparr>w_sys := s'\<rparr>) = Some (0, w1)" "w_destroy t w1 = Some w2"
    "pending q k w2 nt c p (write_cmd req resp data)" "one_task w0 w2 nt (write_cmd req resp data)"
    "request_ok (m_of w2) (own_buffer req sizeof_req False) True lba n" "gathered (m_of w2) data = gathered (s_mem s) data"
    "mem_same (s_blocks (w_sys w0)) (m_of w) (m_of w2)" "a_descs w2 = a_descs w" "w_srv w2 = w_srv w"
proof -
  have rm: "rte_malloc_spec rm" and L: "sizeof_resp \<le> L" using cbk by (simp_all add: at_callback_def)
  have one: "one_task w0 w t bufs" using cbk by (auto simp: at_callback_def io_fetched_def)
  let ?cdb = "create_rw_cdb (a_dev w) req lba n True (s_mem s)"
  let ?s6 = "s\<lparr>s_mem := ?cdb\<rparr>"
  have b6: "building (w_sys w) ?s6 nt 4 (own_buffer req sizeof_req False # data)" and room6: "rm_room rm L 1 (s_blocks ?s6)"
    and len6: "Suc (length data) < 4" using b room len by simp_all
  have r6: "request_ok (s_mem ?s6) (own_buffer req sizeof_req False) True lba n"
    using create_rw_cdb_decodes [OF fits, of req True] by (simp add: request_ok_def)
  have live6: "\<forall>x \<in> set data. \<not> vb_copy x \<longrightarrow> live_range (s_blocks (w_sys w)) (vb_buf x) (vb_size x)"
    using live one_task_live(1) [OF one] by blast
  obtain resp s7 where f: "virtio_task_alloc_buf rm nt sizeof_resp True True ?s6 = Some (resp, s7)" "resp \<noteq> NULL"
    "building (w_sys w) s7 nt 4 (own_buffer req sizeof_req False # data @ [own_buffer resp sizeof_resp True])"
    "request_ok (s_mem s7) (own_buffer req sizeof_req False) True lba n"
    "gathered (s_mem s7) data = gathered (s_mem ?s6) data" "mem_same (s_blocks (w_sys w)) (s_mem ?s6) (s_mem s7)"
    by (rule finish_cmd [OF b6 len6 rm room6 L r6 live6])
  have b7: "building (w_sys w) s7 nt 4 (write_cmd req resp data)" using f(3) by (simp add: write_cmd_def)
  obtain w1 w2 where w2: "vring_submit_task nt (Some c) p (w\<lparr>w_sys := s7\<rparr>) = Some (0, w1)" "w_destroy t w1 = Some w2"
    "pending q k w2 nt c p (write_cmd req resp data)" "one_task w0 w2 nt (write_cmd req resp data)" "m_of w2 = s_mem s7"
    "a_descs w2 = a_descs w" "w_srv w2 = w_srv w"
    by (rule submit_next [OF cbk b7]) (use len in \<open>simp_all add: write_cmd_def\<close>)
  note keep = cdb_keeps [OF b, of "a_dev w" lba n True]
  have "mem_same (s_blocks (w_sys w)) (m_of w) (m_of w2)" unfolding w2(5) using mem_same_trans [OF mem_same_trans [OF same keep(1)]] f(6) by simp
  then have "mem_same (s_blocks (w_sys w0)) (m_of w) (m_of w2)" using one_task_live(1) [OF one] by (simp add: mem_same_def)
  moreover have "mem_read ?cdb (vb_buf x) (vb_size x) = mem_read (s_mem s) (vb_buf x) (vb_size x)" if "x \<in> set data" for x
    using keep(2) mem_same_read [OF keep(1)] live6 that by (cases "vb_copy x") auto
  then have "gathered (m_of w2) data = gathered (s_mem s) data"
    unfolding w2(5) f(5) unfolding gathered_def by (intro arg_cong [of _ _ concat] map_cong) simp_all
  ultimately show ?thesis using f(1,2,4) w2 by (intro that [of resp s7 w1 w2]) simp_all
qed


section \<open>The last block\<close>

text \<open>Writing back a block of the device with some bytes of the caller is writing these bytes.\<close>

lemma patch_written:
  assumes blk: "mem_read m0 pb bs = disk_read disk d (lba * bs) bs" and le: "f + delta \<le> bs"
    and m: "\<forall>j < bs. m (buf + j) = (if f \<le> j \<and> j < f + delta then m0 (src + (j - f)) else m0 (pb + j))"
  shows "disk_write (lba * bs) (mem_read m buf bs) (disk d) = disk_write (lba * bs + f) (mem_read m0 src delta) (disk d)"
proof (rule disk_write_modified [where n = bs])
  fix j assume j: "j < bs"
  have "m0 (pb + j) = disk d (lba * bs + j)" using arg_cong [OF blk, of "\<lambda>xs. xs ! j"] j by simp
  with m [rule_format, OF j] j show "mem_read m buf bs ! j =
      (if f \<le> j \<and> j < f + length (mem_read m0 src delta) then mem_read m0 src delta ! (j - f) else disk d (lba * bs + j))"
    by auto
qed (use le in simp_all)

lemma one_block_fits: "geometry dev bs nblk \<Longrightarrow> lba < nblk \<Longrightarrow> rw_fits dev lba 1"
  by (rule rw_fits_block) (auto simp: geometry_def sizeof_resp_def)

lemma blk_read_last_block_done_ok:
  assumes cbk: "at_callback rm L bs nblk q (Suc k) w0 w t p d (cmd_bufs req0 resp0 [blk_buffer pb bs True 0 e])"
    and good: "resp_good (m_of w) resp0" "resp0 \<noteq> NULL" and room: "rm_room rm L 3 (s_blocks (w_sys w))"
    and e: "io_offset d + io_nbytes d = lba * bs + e" "e < bs" "e \<le> io_nbytes d" "lba < nblk"
    and live: "live_range (s_blocks (w_sys w0)) (io_buf d) (io_nbytes d)"
    and blk: "mem_read (m_of w) pb bs = disk_read disk (w_srv w) (lba * bs) bs"
  obtains w' nt req resp buf where "blk_read_last_block_done_cb rm ops t p w = Some w'"
    "pending q k w' nt blk_write_last_block_done p (write_cmd req resp [blk_buffer buf bs False 0 e])"
    "one_task w0 w' nt (write_cmd req resp [blk_buffer buf bs False 0 e])"
    "request_ok (m_of w') (own_buffer req sizeof_req False) True lba 1"
    "disk_write (lba * bs) (gathered (m_of w') [blk_buffer buf bs False 0 e]) (disk (w_srv w)) =
       disk_write (lba * bs) (mem_read (m_of w) (io_buf d + io_nbytes d - e) e) (disk (w_srv w))"
    "mem_same (s_blocks (w_sys w0)) (m_of w) (m_of w')" "a_descs w' = a_descs w" "w_srv w' = w_srv w"
proof -
  let ?nt = "s_next (w_sys w)" and ?src = "io_buf d + io_nbytes d - e"
  obtain task where task: "s_tasks (w_sys w) t = Some task" "task_wf task" "task_bufs task = cmd_bufs req0 resp0 [blk_buffer pb bs True 0 e]"
    "count task = length (cmd_bufs req0 resp0 [blk_buffer pb bs True 0 e])" "io_desc_of p w = Some d" "a_dev w = a_dev w0"
    "bs_of (a_dev w) = bs" "0 < bs" "bs < 2 ^ 30" "dev_ready q (Suc k) w" "one_task w0 w t (cmd_bufs req0 resp0 [blk_buffer pb bs True 0 e])"
    by (rule at_callback_task [OF cbk])
  have rm: "rte_malloc_spec rm" and L: "sizeof_resp \<le> L" "bs \<le> L" and geo: "geometry (a_dev w) bs nblk"
    using cbk task(6) by (simp_all add: at_callback_def)
  have nth: "vbufs task ! 2 = Some (blk_buffer pb bs True 0 e)" "virtio_task_get_buf task 1 = Some resp0" "count task = 3"
    using task_buf_nth [OF task(2)] task(3,4) by (simp_all add: cmd_bufs_def)
  have "live_range (s_blocks (w_sys w0)) ?src e" by (rule live_range_sub [OF live]) (use e(3) in simp_all)
  then have src: "live_range (s_blocks (w_sys w)) ?src e" by (rule one_task_live [OF task(11)])
  have pb: "live_range (s_blocks (w_sys w)) pb bs"
    using one_task_live(2) [OF task(11), of "blk_buffer pb bs True 0 e"] by (simp add: cmd_bufs_def)
  have le: "0 + e \<le> bs" using e(2) by simp
  obtain s2 s3 s4 req buf m where c: "virtio_task_create 4 (w_sys w) = (?nt, s2)" "?nt \<noteq> NULL"
    "virtio_task_alloc_buf rm ?nt sizeof_req False True s2 = Some (req, s3)" "req \<noteq> NULL"
    "virtio_task_alloc_buf_part rm ?nt bs False False 0 e s3 = Some (buf, s4)" "buf \<noteq> NULL"
    "building (w_sys w) s4 ?nt 4 [own_buffer req sizeof_req False, blk_buffer buf bs False 0 e]"
    "rm_room rm L 1 (s_blocks s4)" "memcpy (buf + 0) ?src e (memcpy buf pb bs (s_mem s4)) = m"
    "mem_same (s_blocks (w_sys w)) (m_of w) m"
    "\<forall>j < bs. m (buf + j) = (if 0 \<le> j \<and> j < 0 + e then m_of w (?src + (j - 0)) else m_of w (pb + j))"
    by (rule build_patch [OF rm task(10) room L task(9) pb src le, where g = e])
  let ?s5 = "s4\<lparr>s_mem := m\<rparr>" and ?data = "[blk_buffer buf bs False 0 e]"
  have b5: "building (w_sys w) ?s5 ?nt 4 (own_buffer req sizeof_req False # ?data)" "rm_room rm L 1 (s_blocks ?s5)"
    "mem_same (s_blocks (w_sys w)) (m_of w) (s_mem ?s5)" "length ?data \<le> 2" using c(7,8,10) by simp_all
  obtain resp s7 w1 w2 where w2:
    "virtio_task_alloc_buf rm ?nt sizeof_resp True True (?s5\<lparr>s_mem := create_rw_cdb (a_dev w) req lba 1 True (s_mem ?s5)\<rparr>) = Some (resp, s7)"
    "resp \<noteq> NULL" "vring_submit_task ?nt (Some blk_write_last_block_done) p (w\<lparr>w_sys := s7\<rparr>) = Some (0, w1)" "w_destroy t w1 = Some w2"
    "pending q k w2 ?nt blk_write_last_block_done p (write_cmd req resp ?data)" "one_task w0 w2 ?nt (write_cmd req resp ?data)"
    "request_ok (m_of w2) (own_buffer req sizeof_req False) True lba 1" "gathered (m_of w2) ?data = gathered (s_mem ?s5) ?data"
    "mem_same (s_blocks (w_sys w0)) (m_of w) (m_of w2)" "a_descs w2 = a_descs w" "w_srv w2 = w_srv w"
    by (rule close_write [OF cbk b5(1,4,2,3) one_block_fits [OF geo e(4)]]) auto
  have "lba * bs + e < Suc lba * bs" "Suc lba * bs \<le> nblk * bs" "nblk * bs < 2 ^ 64"
    using e(2,4) geo mult_le_mono1 [of "Suc lba" nblk bs] by (simp_all add: geometry_def mult.commute)
  then have lt: "io_offset d + io_nbytes d < 2 ^ 64" unfolding e(1) by linarith
  have "(lba * bs + e) div bs = lba" using e(2) by simp
  then have sz: "size_sub e 0 = e" "size_add (io_offset d) (io_nbytes d) div bs = lba"
    using e(2) task(9) size_add_id [OF lt] e(1) by (simp_all add: size_sub_id)
  have "blk_read_last_block_done_cb rm ops t p w = Some w2"
    using task(1,5,7,8) nth good c(1-6) c(9) sz w2(1-4)
    by (simp add: blk_read_last_block_done_cb_def Let_def w_create_def w_alloc_def w_alloc_part_def w_mem_def)
  moreover have "disk_write (lba * bs) (gathered (m_of w2) ?data) (disk (w_srv w)) =
      disk_write (lba * bs) (mem_read (m_of w) ?src e) (disk (w_srv w))"
    using patch_written [OF blk le c(11)] w2(8) by (simp add: gathered_def)
  ultimately show ?thesis using w2 by (intro that [of w2 ?nt req resp buf]) simp_all
qed


text \<open>The request is over: the descriptor is handed out with its result and the task is destroyed.\<close>

definition out_ready :: "'r rte_ring_ops \<Rightarrow> ('r \<Rightarrow> ptr list) \<Rightarrow> nat \<Rightarrow> ('d, 'r, 'z) aworld_scheme \<Rightarrow> bool" where
  "out_ready ops els rcap w0 \<longleftrightarrow> rte_ring_spec ops els rcap \<and> length (els (a_outring w0)) < rcap \<and> outfd_room w0"

definition finished :: "('r \<Rightarrow> ptr list) \<Rightarrow> vqueue \<Rightarrow> nat \<Rightarrow> ptr \<Rightarrow> ('d, 'r, 'z) aworld_scheme \<Rightarrow> ('d, 'r, 'z) aworld_scheme \<Rightarrow> bool" where
  "finished els q k p w0 w' \<longleftrightarrow> dev_ready q k w' \<and> s_blocks (w_sys w') = s_blocks (w_sys w0) \<and> s_tasks (w_sys w') = s_tasks (w_sys w0) \<and>
     els (a_outring w') = els (a_outring w0) @ [p] \<and> a_dev w' = a_dev w0 \<and> a_self w' = a_self w0"

lemma hand_out:
  assumes out: "out_ready ops els rcap w0" and cbk: "at_callback rm L bs nblk q k w0 w t p d bufs"
  obtains w' where "Option.bind (push_to_outring ops p (set_retval p v w)) (w_destroy t) = Some w'" "finished els q k p w0 w'"
    "m_of w' = m_of w" "w_srv w' = w_srv w" "a_descs w' = (a_descs w)(p \<mapsto> d\<lparr>io_retval := v\<rparr>)"
proof -
  have ring: "rte_ring_spec ops els rcap" "length (els (a_outring w0)) < rcap" "outfd_room w0" using out by (simp_all add: out_ready_def)
  obtain l where l: "io_fetched q k w0 w t bufs l" and d: "a_descs w p = Some d" using cbk by (auto simp: at_callback_def)
  let ?w1 = "set_retval p v w"
  have w1: "?w1 = w\<lparr>a_descs := (a_descs w)(p \<mapsto> d\<lparr>io_retval := v\<rparr>)\<rparr>" using d by (simp add: set_retval_def)
  have st: "io_fetched q k w0 ?w1 t bufs l" unfolding w1 using l by simp
  obtain w' where w': "Option.bind (push_to_outring ops p ?w1) (w_destroy t) = Some w'" "dev_ready q k w'"
    "s_blocks (w_sys w') = s_blocks (w_sys w0)" "s_tasks (w_sys w') = s_tasks (w_sys w0)" "m_of w' = m_of ?w1" "w_srv w' = w_srv ?w1"
    "a_descs w' = a_descs ?w1" "els (a_outring w') = els (a_outring w0) @ [p]" "a_dev w' = a_dev w0" "a_self w' = a_self w0"
    by (rule finish_request [OF ring st])
  then show ?thesis by (intro that [of w']) (simp_all add: finished_def w1)
qed

lemma blk_write_last_block_done_ok:
  assumes cbk: "at_callback rm L bs nblk q k w0 w t p d (write_cmd req resp [blk_buffer buf bs False 0 e])" and out: "out_ready ops els rcap w0"
    and good: "resp_good (m_of w) resp" "resp \<noteq> NULL" and e: "e < 2 ^ 31" "io_retval d < 2 ^ 31"
  obtains w' where "blk_write_last_block_done_cb ops t p w = Some w'" "finished els q k p w0 w'" "m_of w' = m_of w" "w_srv w' = w_srv w"
    "a_descs w' = (a_descs w)(p \<mapsto> d\<lparr>io_retval := (if io_retval d < 0 then 0 else io_retval d) + int e\<rparr>)"
proof -
  obtain task where task: "s_tasks (w_sys w) t = Some task" "task_wf task" "task_bufs task = write_cmd req resp [blk_buffer buf bs False 0 e]"
    "count task = length (write_cmd req resp [blk_buffer buf bs False 0 e])" "io_desc_of p w = Some d"
    by (rule at_callback_task [OF cbk])
  have nth: "vbufs task ! 1 = Some (blk_buffer buf bs False 0 e)" "virtio_task_get_buf task 2 = Some resp" "count task = 3"
    using task_buf_nth [OF task(2)] task(3,4) by (simp_all add: write_cmd_def)
  have sub: "size_sub e 0 = e" using e(1) by (simp add: size_sub_id)
  have ret: "(if io_retval d < 0 then to_ssize e else to_ssize (nat (io_retval d) + e)) = (if io_retval d < 0 then 0 else io_retval d) + int e"
    using e by (auto simp: to_ssize_def nat_add_distrib)
  obtain w' where w': "Option.bind (push_to_outring ops p (set_retval p ((if io_retval d < 0 then 0 else io_retval d) + int e) w)) (w_destroy t) = Some w'"
    "finished els q k p w0 w'" "m_of w' = m_of w" "w_srv w' = w_srv w"
    "a_descs w' = (a_descs w)(p \<mapsto> d\<lparr>io_retval := (if io_retval d < 0 then 0 else io_retval d) + int e\<rparr>)"
    by (rule hand_out [OF out cbk])
  have "blk_write_last_block_done_cb ops t p w = Some w'"
    unfolding blk_write_last_block_done_cb_def task(1,5) nth
    using w'(1) good nth sub ret by simp
  with w' show ?thesis by (intro that [of w'])
qed


section \<open>The first block\<close>

text \<open>The data of the command that writes the first block and the whole blocks after it.\<close>

lemma first_block_written:
  assumes bs: "0 < bs" and o: "off mod bs \<noteq> 0" and r: "r = first_bytes bs off n"
    and blk: "disk_write (off div bs * bs) xs D = disk_write (off div bs * bs + off mod bs) (mem_read m buf r) D" "length xs = bs"
    and c: "r < n \<or> c = 0"
  shows "disk_write (off div bs * bs) (xs @ mem_read m (buf + r) (c * bs)) D = disk_write off (mem_read m buf (r + c * bs)) D"
proof -
  have off: "off div bs * bs + off mod bs = off" by simp
  have "disk_write (off div bs * bs) (xs @ mem_read m (buf + r) (c * bs)) D =
      disk_write (off div bs * bs + bs) (mem_read m (buf + r) (c * bs)) (disk_write off (mem_read m buf r) D)"
    using blk off by (simp flip: disk_write_append)
  also have "\<dots> = disk_write (off + r) (mem_read m (buf + r) (c * bs)) (disk_write off (mem_read m buf r) D)"
  proof (cases "c = 0")
    case False
    with c o bs first_bytes_end [OF bs, of off n] r show ?thesis by (simp add: flag_nat_def add.commute)
  qed (simp add: mem_read_def)
  also have "\<dots> = disk_write off (mem_read m buf (r + c * bs)) D"
    using disk_write_append [of off "mem_read m buf r"] by (simp add: mem_read_append)
  finally show ?thesis .
qed


definition first_data :: "ptr \<Rightarrow> nat \<Rightarrow> async_io_desc \<Rightarrow> virtio_buffer list" where
  "first_data buf bs d =
     (let i = io_offset d mod bs; r = first_bytes bs (io_offset d) (io_nbytes d)
      in blk_buffer buf bs False i (i + r) #
         (if r < io_nbytes d then [user_buffer (io_buf d + r) ((io_nbytes d - r) div bs * bs) False] else []))"

text \<open>A request that is not cut at the end of the device.\<close>

definition write_io :: "nat \<Rightarrow> nat \<Rightarrow> async_io_desc \<Rightarrow> bool" where
  "write_io bs nblk d \<longleftrightarrow> 0 < io_nbytes d \<and> io_offset d + io_nbytes d \<le> bs * nblk \<and> sizeof_resp + io_nbytes d + bs < 2 ^ 31 \<and>
     (nblk > 2 ^ 32 \<or> io_nbytes d div bs + 2 < 2 ^ 16)"

lemma first_data_ok:
  assumes geo: "geometry dev bs nblk" and io: "write_io bs nblk d" and o: "io_offset d mod bs \<noteq> 0"
    and live: "live_range (s_blocks (w_sys w0)) (io_buf d) (io_nbytes d)"
    and r: "r = first_bytes bs (io_offset d) (io_nbytes d)" "c = (io_nbytes d - r) div bs"
  shows "data_ok w0 (first_data buf bs d) ((c + 1) * bs)" "\<forall>b \<in> set (first_data buf bs d). \<not> vb_response b"
    "written_bytes (map Some (first_data buf bs d)) 0 = Some (r + c * bs)" "io_offset d div bs + (c + 1) \<le> nblk"
    "rw_fits dev (io_offset d div bs) (c + 1)" "r < io_nbytes d \<or> c = 0" "io_offset d mod bs + r \<le> bs" "r + c * bs \<le> io_nbytes d" "r \<le> io_nbytes d"
proof -
  let ?off = "io_offset d" and ?n = "io_nbytes d" and ?i = "io_offset d mod bs"
  have bs: "0 < bs" "bs < 2 ^ 30" using geo by (auto simp: geometry_def)
  have n: "0 < ?n" "?off + ?n \<le> bs * nblk" "sizeof_resp + ?n + bs < 2 ^ 31" "nblk > 2 ^ 32 \<or> ?n div bs + 2 < 2 ^ 16"
    using io by (auto simp: write_io_def)
  have i: "?i < bs" using bs by simp
  have rr: "r = min ?n (bs - ?i)" using o by (simp add: r(1) first_bytes_def)
  then have r2: "r \<le> ?n" "?i + r \<le> bs" using i by auto
  have c: "c * bs \<le> ?n - r" "c \<le> ?n div bs" unfolding r(2) by (simp_all add: div_le_mono)
  show "r < ?n \<or> c = 0" using r2(1) r(2) by (cases "r = ?n") auto
  show "?i + r \<le> bs" "r \<le> ?n" using r2 by auto
  show le: "r + c * bs \<le> ?n" using r2(1) c(1) by linarith
  have sum: "(c + 1) * bs = bs + c * bs" by simp
  have lt0: "sizeof_resp + (c + 1) * bs < 2 ^ 31" using c(1) n(3) unfolding sum by linarith
  then have lt: "c * bs < 2 ^ 31" "(c + 1) * bs < 2 ^ 31" "sizeof_resp + (c + 1) * bs < 2 ^ 32" unfolding sum by simp_all
  have "live_range (s_blocks (w_sys w0)) (io_buf d + r) (c * bs)" by (rule live_range_sub [OF live]) (use le in simp_all)
  then show "data_ok w0 (first_data buf bs d) ((c + 1) * bs)"
    using lt(2) r2(1) r(2) bs(1) by (auto simp: data_ok_def first_data_def Let_def r(1) [symmetric] split: if_splits)
  show "\<forall>b \<in> set (first_data buf bs d). \<not> vb_response b" by (auto simp: first_data_def Let_def)
  have conv: "size_sub (?i + r) ?i = r" "size_add 0 r = r" "size_sub (c * bs) 0 = c * bs" "size_add r (c * bs) = r + c * bs"
    using r2 i bs le n(3) lt(1) by (auto simp: size_sub_id size_add_id)
  show "written_bytes (map Some (first_data buf bs d)) 0 = Some (r + c * bs)"
    using conv r2(1) r(2) by (auto simp: first_data_def Let_def r(1) [symmetric])
  have "?off div bs + (flag_nat (?i \<noteq> 0) + (?n - r) div bs + flag_nat ((?n - r) mod bs \<noteq> 0)) \<le> nblk"
    unfolding r(1) by (rule blocks_covered [OF bs(1) n(2,1)])
  then show blk: "?off div bs + (c + 1) \<le> nblk" using o unfolding r(2) by (simp add: flag_nat_def)
  show "rw_fits dev (?off div bs) (c + 1)"
    by (rule rw_fits_block [OF geo blk _ _ lt(3)]) (use n(4) c(2) in auto)
qed

text \<open>The buffers of the write that follows: the patched block, and the whole blocks when there are any left.\<close>

lemma first_data_built:
  assumes "building s0 s t 4 [own_buffer req sizeof_req False, blk_buffer buf bs False (io_offset d mod bs) (io_offset d mod bs + r)]"
    and r: "r = first_bytes bs (io_offset d) (io_nbytes d)" and c: "c = (io_nbytes d - r) div bs"
  obtains s' where "building s0 s' t 4 (own_buffer req sizeof_req False # first_data buf bs d)" "s_mem s' = s_mem s" "s_blocks s' = s_blocks s"
    "if r < io_nbytes d then virtio_task_add_buf t (io_buf d + r) (c * bs) False s = Some s' else s' = s"
proof (cases "r < io_nbytes d")
  case True
  from build_add [OF assms(1), of "io_buf d + r" "c * bs" False] True that show ?thesis
    by (auto simp: first_data_def Let_def r [symmetric] c [symmetric])
next
  case False
  then show ?thesis using that [of s] assms(1) by (simp add: first_data_def Let_def r [symmetric])
qed

lemma first_data_gathered:
  assumes "r = first_bytes bs (io_offset d) (io_nbytes d)" "c = (io_nbytes d - r) div bs" "r < io_nbytes d \<or> c = 0"
  shows "gathered m (first_data buf bs d) = mem_read m buf bs @ mem_read m (io_buf d + r) (c * bs)"
  using assms(3) by (auto simp: gathered_def first_data_def Let_def assms(1) [symmetric] assms(2) [symmetric] mem_read_def [of _ _ 0])

lemma blk_read_first_block_done_ok:
  assumes cbk: "at_callback rm L bs nblk q (Suc k) w0 w t p d (cmd_bufs req0 resp0 [blk_buffer pb bs True i (i + r)])"
    and i: "i = io_offset d mod bs" "i \<noteq> 0" and r: "r = first_bytes bs (io_offset d) (io_nbytes d)" and c: "c = (io_nbytes d - r) div bs"
    and io: "write_io bs nblk d" and good: "resp_good (m_of w) resp0" "resp0 \<noteq> NULL" and room: "rm_room rm L 3 (s_blocks (w_sys w))"
    and live: "live_range (s_blocks (w_sys w0)) (io_buf d) (io_nbytes d)"
    and blk: "mem_read (m_of w) pb bs = disk_read disk (w_srv w) (io_offset d div bs * bs) bs"
  obtains w' nt req resp buf where "blk_read_first_block_done_cb rm ops t p w = Some w'"
    "pending q k w' nt blk_write_full_blocks_done p (write_cmd req resp (first_data buf bs d))"
    "one_task w0 w' nt (write_cmd req resp (first_data buf bs d))"
    "request_ok (m_of w') (own_buffer req sizeof_req False) True (io_offset d div bs) (c + 1)"
    "disk_write (io_offset d div bs * bs) (gathered (m_of w') (first_data buf bs d)) (disk (w_srv w)) =
       disk_write (io_offset d) (mem_read (m_of w) (io_buf d) (r + c * bs)) (disk (w_srv w))"
    "mem_same (s_blocks (w_sys w0)) (m_of w) (m_of w')" "a_descs w' = a_descs w" "w_srv w' = w_srv w"
proof -
  let ?nt = "s_next (w_sys w)" and ?n = "io_nbytes d" and ?lba = "io_offset d div bs" and ?bufs = "cmd_bufs req0 resp0 [blk_buffer pb bs True i (i + r)]"
  obtain task where task: "s_tasks (w_sys w) t = Some task" "task_wf task" "task_bufs task = ?bufs" "count task = length ?bufs"
    "io_desc_of p w = Some d" "a_dev w = a_dev w0" "bs_of (a_dev w) = bs" "0 < bs" "bs < 2 ^ 30" "dev_ready q (Suc k) w" "one_task w0 w t ?bufs"
    by (rule at_callback_task [OF cbk])
  have rm: "rte_malloc_spec rm" and L: "sizeof_resp \<le> L" "bs \<le> L" and geo: "geometry (a_dev w) bs nblk"
    using cbk task(6) by (simp_all add: at_callback_def)
  note fd = first_data_ok [OF geo io i(2) [unfolded i(1)] live r c]
  have nth: "vbufs task ! 2 = Some (blk_buffer pb bs True i (i + r))" "virtio_task_get_buf task 1 = Some resp0" "count task = 3"
    using task_buf_nth [OF task(2)] task(3,4) by (simp_all add: cmd_bufs_def)
  have "live_range (s_blocks (w_sys w0)) (io_buf d) r" by (rule live_range_sub [OF live]) (use fd(9) in simp_all)
  then have src: "live_range (s_blocks (w_sys w)) (io_buf d) r" by (rule one_task_live [OF task(11)])
  have pb: "live_range (s_blocks (w_sys w)) pb bs"
    using one_task_live(2) [OF task(11), of "blk_buffer pb bs True i (i + r)"] by (simp add: cmd_bufs_def)
  have le: "i + r \<le> bs" using fd(7) i(1) by simp
  obtain s2 s3 s4 req buf m where s4: "virtio_task_create 4 (w_sys w) = (?nt, s2)" "?nt \<noteq> NULL"
    "virtio_task_alloc_buf rm ?nt sizeof_req False True s2 = Some (req, s3)" "req \<noteq> NULL"
    "virtio_task_alloc_buf_part rm ?nt bs False False i (i + r) s3 = Some (buf, s4)" "buf \<noteq> NULL"
    "building (w_sys w) s4 ?nt 4 [own_buffer req sizeof_req False, blk_buffer buf bs False i (i + r)]"
    "rm_room rm L 1 (s_blocks s4)" "memcpy (buf + i) (io_buf d) r (memcpy buf pb bs (s_mem s4)) = m"
    "mem_same (s_blocks (w_sys w)) (m_of w) m"
    "\<forall>j < bs. m (buf + j) = (if i \<le> j \<and> j < i + r then m_of w (io_buf d + (j - i)) else m_of w (pb + j))"
    by (rule build_patch [OF rm task(10) room L task(9) pb src le, where g = "i + r"])
  let ?s5 = "s4\<lparr>s_mem := m\<rparr>" and ?data = "first_data buf bs d"
  have n31: "?n < 2 ^ 31" using io by (simp add: write_io_def)
  have "c \<le> c * bs" using task(8) by simp
  then have cc: "c + 1 < 2 ^ 64" using fd(8) n31 pow_facts by linarith
  have conv: "size_sub (i + r) i = r" "size_sub ?n r = ?n - r" "size_mul c bs = c * bs" "size_add c 1 = c + 1"
    using le task(8,9) fd(8,9) n31 size_add_id [OF cc] by (simp_all add: size_sub_id size_mul_id)
  have b5: "building (w_sys w) ?s5 ?nt 4 [own_buffer req sizeof_req False, blk_buffer buf bs False (io_offset d mod bs) (io_offset d mod bs + r)]"
    using s4(7) i(1) by simp
  obtain s6 where s6: "building (w_sys w) s6 ?nt 4 (own_buffer req sizeof_req False # ?data)" "s_mem s6 = m" "s_blocks s6 = s_blocks s4"
    "if r < ?n then virtio_task_add_buf ?nt (io_buf d + r) (c * bs) False ?s5 = Some s6 else s6 = ?s5"
    by (rule first_data_built [OF b5 r c]) (rule that; simp)
  obtain resp s7 w1 w2 where w2:
    "virtio_task_alloc_buf rm ?nt sizeof_resp True True (s6\<lparr>s_mem := create_rw_cdb (a_dev w) req ?lba (c + 1) True (s_mem s6)\<rparr>) = Some (resp, s7)"
    "resp \<noteq> NULL" "vring_submit_task ?nt (Some blk_write_full_blocks_done) p (w\<lparr>w_sys := s7\<rparr>) = Some (0, w1)" "w_destroy t w1 = Some w2"
    "pending q k w2 ?nt blk_write_full_blocks_done p (write_cmd req resp ?data)" "one_task w0 w2 ?nt (write_cmd req resp ?data)"
    "request_ok (m_of w2) (own_buffer req sizeof_req False) True ?lba (c + 1)" "gathered (m_of w2) ?data = gathered (s_mem s6) ?data"
    "mem_same (s_blocks (w_sys w0)) (m_of w) (m_of w2)" "a_descs w2 = a_descs w" "w_srv w2 = w_srv w"
    by (rule close_write [OF cbk s6(1) _ _ _ fd(5)]) (use s4(8,10) s6(2,3) fd(1) in \<open>auto simp: data_ok_def\<close>)
  have "blk_read_first_block_done_cb rm ops t p w = Some w2"
    using task(1,5,7,8) nth good s4(1-6) s4(9) conv s6(4) w2(1-4) c fd(6)
    by (cases "r < ?n") (simp_all add: blk_read_first_block_done_cb_def Let_def w_create_def w_alloc_def w_alloc_part_def w_mem_def w_add_def)
  moreover have "disk_write (?lba * bs) (mem_read m buf bs) (disk (w_srv w)) =
      disk_write (?lba * bs + io_offset d mod bs) (mem_read (m_of w) (io_buf d) r) (disk (w_srv w))"
    using patch_written [OF blk le s4(11)] i(1) by simp
  from first_block_written [OF task(8) i(2) [unfolded i(1)] r this _ fd(6)]
  have "disk_write (?lba * bs) (mem_read m buf bs @ mem_read (m_of w) (io_buf d + r) (c * bs)) (disk (w_srv w)) =
      disk_write (io_offset d) (mem_read (m_of w) (io_buf d) (r + c * bs)) (disk (w_srv w))" by simp
  moreover have "mem_read m (io_buf d + r) (c * bs) = mem_read (m_of w) (io_buf d + r) (c * bs)"
    by (rule mem_same_read [OF s4(10)], rule one_task_live(1) [OF task(11)], rule live_range_sub [OF live]) (use fd(8) in simp_all)
  then have "gathered (m_of w2) ?data = mem_read m buf bs @ mem_read (m_of w) (io_buf d + r) (c * bs)"
    using w2(8) s6(2) first_data_gathered [OF r c fd(6), of m buf] by simp
  ultimately show ?thesis using w2 by (intro that [of w2 ?nt req resp buf]) simp_all
qed

end
