(* ===== verification/Async_Write_Done.thy ===== *)
theory Async_Write_Done
  imports Async_Write
begin

text \<open>
  An asynchronous write from its submission to the end of its last callback: the bytes of the caller
  are on the device, the descriptor is in the output ring with the number of bytes, and
  blocks and tasks are given back.
\<close>

section \<open>After the whole blocks\<close>

lemma write_done_task: "t \<noteq> NULL \<Longrightarrow> write_done ops p t NULL w = Option.bind (push_to_outring ops p w) (w_destroy t)"
  by (cases "push_to_outring ops p w") (simp_all add: write_done_def w_destroy_if_def)

lemma write_cmd_task:
  assumes "task_wf task" "task_bufs task = write_cmd req resp data" "data \<noteq> []"
  shows "count task > 2" "virtio_task_get_buf task (count task - 1) = Some resp"
    "drop 1 (take (count task - 1) (vbufs task)) = map Some data"
proof -
  have cnt: "count task = length data + 2" using length_task_bufs [OF assms(1)] assms(2) by (simp add: write_cmd_def)
  then show "count task > 2" using assms(3) by simp
  show "virtio_task_get_buf task (count task - 1) = Some resp"
    using task_buf_nth(2) [OF assms(1), of "count task - 1"] cnt assms(2) by (simp add: write_cmd_def nth_append)
  have "take (count task - 1) (vbufs task) = take (count task - 1) (take (count task) (vbufs task))" by (simp add: min_def)
  also have "\<dots> = take (count task - 1) (map Some (write_cmd req resp data))" using take_vbufs [OF assms(1)] assms(2) by simp
  finally show "drop 1 (take (count task - 1) (vbufs task)) = map Some data" using cnt by (simp add: write_cmd_def)
qed

lemma full_blocks_finish:
  assumes cbk: "at_callback rm L bs nblk q k w0 w t p d (write_cmd req resp data)" and out: "out_ready ops els rcap w0"
    and good: "resp_good (m_of w) resp" "resp \<noteq> NULL" and data: "data \<noteq> []" "written_bytes (map Some data) 0 = Some (io_nbytes d)" "io_nbytes d < 2 ^ 31"
  obtains w' where "blk_write_full_blocks_done_cb rm ops t p w = Some w'" "finished els q k p w0 w'" "m_of w' = m_of w" "w_srv w' = w_srv w"
    "a_descs w' = (a_descs w)(p \<mapsto> d\<lparr>io_retval := int (io_nbytes d)\<rparr>)"
proof -
  obtain task where task: "s_tasks (w_sys w) t = Some task" "task_wf task" "task_bufs task = write_cmd req resp data"
    "count task = length (write_cmd req resp data)" "io_desc_of p w = Some d" "a_dev w = a_dev w0" "bs_of (a_dev w) = bs" "0 < bs" "bs < 2 ^ 30"
    "dev_ready q k w" "one_task w0 w t (write_cmd req resp data)" "t \<notin> fst ` set (inflight q)" "t < s_next (w_sys w)" "t \<noteq> NULL"
    by (rule at_callback_task [OF cbk])
  note tc = write_cmd_task [OF task(2,3) data(1)]
  obtain w' where w': "Option.bind (push_to_outring ops p (set_retval p (int (io_nbytes d)) w)) (w_destroy t) = Some w'" "finished els q k p w0 w'"
    "m_of w' = m_of w" "w_srv w' = w_srv w" "a_descs w' = (a_descs w)(p \<mapsto> d\<lparr>io_retval := int (io_nbytes d)\<rparr>)"
    by (rule hand_out [OF out cbk])
  have "to_ssize (io_nbytes d) = int (io_nbytes d)" using data(3) by (simp add: to_ssize_def)
  then have "blk_write_full_blocks_done_cb rm ops t p w = Some w'"
    using w'(1) task(1,5) tc good data(2) by (simp add: blk_write_full_blocks_done_cb_def Let_def write_done_task [OF task(14)])
  with w' show ?thesis by (intro that [of w'])
qed

lemma one_task_rebase:
  assumes "one_task w w' t bufs" "s_blocks (w_sys w) = s_blocks (w_sys w0)" "s_tasks (w_sys w) = s_tasks (w_sys w0)" "aframe w0 w"
  shows "one_task w0 w' t bufs"
  using assms aframe_trans by (auto simp: one_task_def)

text \<open>The task of a command that reads one block, built on the state \<open>s\<close> that has request and response.\<close>

lemma submit_block_read:
  assumes ready: "dev_ready q (Suc k) w" and b: "building (w_sys w) s t lim [own_buffer req sizeof_req False, own_buffer resp sizeof_resp True]" "2 < lim"
    and rm: "rte_malloc_spec rm" and room: "rm_room rm L 4 (s_blocks s)" "bs \<le> L" "bs < 2 ^ 30"
    and req: "request_ok (s_mem s) (own_buffer req sizeof_req False) False lba 1"
  obtains pb s' w1 where "virtio_task_alloc_buf_part rm t bs True False f g s = Some (pb, s')" "pb \<noteq> NULL"
    "vring_submit_task t (Some c) p (w\<lparr>w_sys := s'\<rparr>) = Some (0, w1)" "pending q k w1 t c p (cmd_bufs req resp [blk_buffer pb bs True f g])"
    "one_task w w1 t (cmd_bufs req resp [blk_buffer pb bs True f g])" "request_ok (m_of w1) (own_buffer req sizeof_req False) False lba 1"
    "m_of w1 = s_mem s" "a_descs w1 = a_descs w" "w_srv w1 = w_srv w" "rm_room rm L 3 (s_blocks (w_sys w1))"
proof -
  have room4: "rm_room rm L (Suc 3) (s_blocks s)" and len: "length [own_buffer req sizeof_req False, own_buffer resp sizeof_resp True] < lim" and lt: "bs < 2 ^ 31"
    using room b(2) by (simp_all del: rm_room.simps)
  obtain pb s' where a: "virtio_task_alloc_buf_part rm t bs True False f g s = Some (pb, s')" "pb \<noteq> NULL"
    "building (w_sys w) s' t lim ([own_buffer req sizeof_req False, own_buffer resp sizeof_resp True] @ [blk_buffer pb bs True f g])"
    "s_mem s' = (if False then memset pb 0 bs (s_mem s) else s_mem s)" "rm_room rm L 3 (s_blocks s')"
    by (rule build_alloc [OF b(1) len rm room4 room(2) lt, of True False f g])
  have b': "building (w_sys w) s' t lim (cmd_bufs req resp [blk_buffer pb bs True f g])" using a(3) by (simp add: cmd_bufs_def)
  obtain w1 where w1: "vring_submit_task t (Some c) p (w\<lparr>w_sys := s'\<rparr>) = Some (0, w1)" "pending q k w1 t c p (cmd_bufs req resp [blk_buffer pb bs True f g])"
    "one_task w w1 t (cmd_bufs req resp [blk_buffer pb bs True f g])" "m_of w1 = s_mem s'" "a_descs w1 = a_descs w" "w_srv w1 = w_srv w"
    by (rule submit_one_task [OF ready b']) (simp_all add: cmd_bufs_def)
  have "s_blocks (w_sys w1) = s_blocks s'" using one_task_blocks [OF w1(3)] building_owns [OF b'] by (simp add: owns_def)
  then show ?thesis using a w1 req by (intro that [of pb s' w1]) simp_all
qed


text \<open>The callback's own task is gone before the next one is built.\<close>

lemma drop_own_task:
  assumes cbk: "at_callback rm L bs nblk q k w0 w t p d bufs"
  obtains w2 where "w_destroy t (set_retval p v w) = Some w2" "dev_ready q k w2" "s_blocks (w_sys w2) = s_blocks (w_sys w0)"
    "s_tasks (w_sys w2) = s_tasks (w_sys w0)" "aframe w0 w2" "m_of w2 = m_of w" "w_srv w2 = w_srv w" "a_dev w2 = a_dev w"
    "a_descs w2 = (a_descs w)(p \<mapsto> d\<lparr>io_retval := v\<rparr>)"
proof -
  let ?w = "w\<lparr>a_descs := (a_descs w)(p \<mapsto> d\<lparr>io_retval := v\<rparr>)\<rparr>"
  have set: "set_retval p v w = ?w" using cbk by (simp add: at_callback_def set_retval_def)
  obtain task where task: "s_tasks (w_sys w) t = Some task" "task_wf task" "task_bufs task = bufs" "count task = length bufs"
    "io_desc_of p w = Some d" "a_dev w = a_dev w0" "bs_of (a_dev w) = bs" "0 < bs" "bs < 2 ^ 30" "dev_ready q k w" "one_task w0 w t bufs"
    "t \<notin> fst ` set (inflight q)" "t < s_next (w_sys w)"
    by (rule at_callback_task [OF cbk])
  have pre: "dev_ready q k ?w" "t < s_next (w_sys ?w)" "s_tasks (w_sys ?w) t = Some task" using task(1,10,13) by (simp_all add: dev_ready_def)
  have own: "\<forall>b \<in> set (filter vb_copy (task_bufs task)). vb_buf b \<noteq> NULL" unfolding task(3) by (rule one_task_nonnull [OF task(11)])
  obtain s where d: "w_destroy t ?w = Some (?w\<lparr>w_sys := s\<rparr>)" "dev_ready q k (?w\<lparr>w_sys := s\<rparr>)"
    "s_blocks s = filter (\<lambda>(p, n). p \<notin> vb_buf ` set (filter vb_copy (task_bufs task))) (s_blocks (w_sys ?w))"
    "s_tasks s = (s_tasks (w_sys ?w))(t := None)" "s_mem s = m_of ?w" "s_efd s = s_efd (w_sys ?w)" "s_next s = s_next (w_sys ?w)"
    by (rule destroy_fetched [OF pre task(2,12) own])
  have "s_tasks s = s_tasks (w_sys w0)" using d(4) task(11) by (auto simp: one_task_def fun_eq_iff)
  moreover have "s_blocks s = s_blocks (w_sys w0)" using d(3) task(3) one_task_free [OF task(11)] by simp
  moreover have "aframe w0 (?w\<lparr>w_sys := s\<rparr>)" using task(11) d(6) by (simp add: one_task_def aframe_def)
  ultimately show ?thesis using d set by (intro that [of "?w\<lparr>w_sys := s\<rparr>"]) simp_all
qed

text \<open>A new task with a request and a response block.\<close>

lemma new_cmd:
  assumes ready: "dev_ready q k w" and rm: "rte_malloc_spec rm" and room: "rm_room rm L (Suc (Suc j)) (s_blocks (w_sys w))" "sizeof_resp \<le> L"
    and lim: "2 < lim"
  obtains s3 s4 s5 req resp where "virtio_task_create lim (w_sys w) = (s_next (w_sys w), s3)" "s_next (w_sys w) \<noteq> NULL"
    "virtio_task_alloc_buf rm (s_next (w_sys w)) sizeof_req False True s3 = Some (req, s4)" "req \<noteq> NULL"
    "virtio_task_alloc_buf rm (s_next (w_sys w)) sizeof_resp True True s4 = Some (resp, s5)" "resp \<noteq> NULL"
    "building (w_sys w) s5 (s_next (w_sys w)) lim (own_buffer req sizeof_req False # [own_buffer resp sizeof_resp True])"
    "mem_same (s_blocks (w_sys w)) (m_of w) (s_mem s5)" "rm_room rm L j (s_blocks s5)"
proof -
  let ?t = "s_next (w_sys w)"
  have nt: "?t \<noteq> NULL" and oom: "s_oom (w_sys w) = (\<lambda>_. False)" and Lq: "sizeof_req \<le> L"
    using ready room(2) by (auto simp: dev_ready_def sizeof_req_def sizeof_resp_def)
  obtain s3 where s3: "virtio_task_create lim (w_sys w) = (?t, s3)" "building (w_sys w) s3 ?t lim []" "s_mem s3 = m_of w"
    using build_create [OF oom] by blast
  have b3: "s_blocks s3 = s_blocks (w_sys w)" using building_owns [OF s3(2)] by simp
  have room3: "rm_room rm L (Suc (Suc j)) (s_blocks s3)" using room b3 by (simp del: rm_room.simps)
  have len: "length ([] :: virtio_buffer list) < lim" "length ([] @ [own_buffer x sizeof_req False]) < lim" for x using lim by simp_all
  obtain req s4 where s4: "virtio_task_alloc_buf rm ?t sizeof_req False True s3 = Some (req, s4)" "req \<noteq> NULL"
    "building (w_sys w) s4 ?t lim ([] @ [own_buffer req sizeof_req False])" "mem_same (s_blocks s3) (s_mem s3) (s_mem s4)"
    "rm_room rm L (Suc j) (s_blocks s4)"
    by (rule alloc_cmd [OF s3(2) len(1) rm room3 Lq cmd_sizes(1), where r = False])
  obtain resp s5 where s5: "virtio_task_alloc_buf rm ?t sizeof_resp True True s4 = Some (resp, s5)" "resp \<noteq> NULL"
    "building (w_sys w) s5 ?t lim (([] @ [own_buffer req sizeof_req False]) @ [own_buffer resp sizeof_resp True])"
    "mem_same (s_blocks s4) (s_mem s4) (s_mem s5)" "rm_room rm L j (s_blocks s5)"
    by (rule alloc_cmd [OF s4(3) len(2) rm s4(5) room(2) cmd_sizes(2), where r = True])
  have "mem_same (s_blocks (w_sys w)) (m_of w) (s_mem s5)"
    using s4(4) s5(4) building_old [OF s4(3)] s3(3) b3 by (simp add: mem_same_def)
  with s3(1) nt s4(1,2) s5 show ?thesis by (intro that [of s3 req s4 resp s5]) simp_all
qed

lemma full_blocks_next:
  assumes cbk: "at_callback rm L bs nblk q (Suc k) w0 w t p d (write_cmd req0 resp0 data)"
    and good: "resp_good (m_of w) resp0" "resp0 \<noteq> NULL" and data: "data \<noteq> []" "written_bytes (map Some data) 0 = Some r" "r < io_nbytes d" "r < 2 ^ 31"
    and e: "io_offset d + io_nbytes d = lba * bs + e" "e < bs" "0 < e" "lba < nblk"
    and room: "rm_room rm L 6 (s_blocks (w_sys w0))"
  obtains w' nt req resp pb where "blk_write_full_blocks_done_cb rm ops t p w = Some w'"
    "pending q k w' nt blk_read_last_block_done p (cmd_bufs req resp [blk_buffer pb bs True 0 e])"
    "one_task w0 w' nt (cmd_bufs req resp [blk_buffer pb bs True 0 e])"
    "request_ok (m_of w') (own_buffer req sizeof_req False) False lba 1" "rm_room rm L 3 (s_blocks (w_sys w'))"
    "mem_same (s_blocks (w_sys w0)) (m_of w) (m_of w')" "a_descs w' = (a_descs w)(p \<mapsto> d\<lparr>io_retval := int r\<rparr>)" "w_srv w' = w_srv w"
proof -
  obtain task where task: "s_tasks (w_sys w) t = Some task" "task_wf task" "task_bufs task = write_cmd req0 resp0 data"
    "count task = length (write_cmd req0 resp0 data)" "io_desc_of p w = Some d" "a_dev w = a_dev w0" "bs_of (a_dev w) = bs" "0 < bs" "bs < 2 ^ 30"
    by (rule at_callback_task [OF cbk])
  note tc = write_cmd_task [OF task(2,3) data(1)]
  have rm: "rte_malloc_spec rm" and L: "sizeof_resp \<le> L" "bs \<le> L" and geo: "geometry (a_dev w) bs nblk"
    using cbk task(6) by (auto simp: at_callback_def)
  obtain w2 where w2: "w_destroy t (set_retval p (int r) w) = Some w2" "dev_ready q (Suc k) w2" "s_blocks (w_sys w2) = s_blocks (w_sys w0)"
    "s_tasks (w_sys w2) = s_tasks (w_sys w0)" "aframe w0 w2" "m_of w2 = m_of w" "w_srv w2 = w_srv w" "a_dev w2 = a_dev w"
    "a_descs w2 = (a_descs w)(p \<mapsto> d\<lparr>io_retval := int r\<rparr>)"
    by (rule drop_own_task [OF cbk])
  let ?nt = "s_next (w_sys w2)" and ?b = "s_blocks (w_sys w0)"
  have room2: "rm_room rm L (Suc (Suc 4)) (s_blocks (w_sys w2))" and lim: "(2 :: nat) < 3" using room w2(3) by (simp_all del: rm_room.simps)
  obtain s3 s4 s5 req resp where c: "virtio_task_create 3 (w_sys w2) = (?nt, s3)" "?nt \<noteq> NULL"
    "virtio_task_alloc_buf rm ?nt sizeof_req False True s3 = Some (req, s4)" "req \<noteq> NULL"
    "virtio_task_alloc_buf rm ?nt sizeof_resp True True s4 = Some (resp, s5)" "resp \<noteq> NULL"
    "building (w_sys w2) s5 ?nt 3 (own_buffer req sizeof_req False # [own_buffer resp sizeof_resp True])"
    "mem_same (s_blocks (w_sys w2)) (m_of w2) (s_mem s5)" "rm_room rm L 4 (s_blocks s5)"
    by (rule new_cmd [OF w2(2) rm room2 L(1) lim])
  let ?cdb = "create_rw_cdb (a_dev w) req lba 1 False (s_mem s5)"
  let ?s6 = "s5\<lparr>s_mem := ?cdb\<rparr>"
  have b6: "building (w_sys w2) ?s6 ?nt 3 [own_buffer req sizeof_req False, own_buffer resp sizeof_resp True]" and room6: "rm_room rm L 4 (s_blocks ?s6)"
    using c(7,9) by (simp_all del: rm_room.simps)
  have r6: "request_ok (s_mem ?s6) (own_buffer req sizeof_req False) False lba 1"
    using create_rw_cdb_decodes [OF one_block_fits [OF geo e(4)], of req False] by (simp add: request_ok_def)
  obtain pb s7 w' where w': "virtio_task_alloc_buf_part rm ?nt bs True False 0 e ?s6 = Some (pb, s7)" "pb \<noteq> NULL"
    "vring_submit_task ?nt (Some blk_read_last_block_done) p (w2\<lparr>w_sys := s7\<rparr>) = Some (0, w')"
    "pending q k w' ?nt blk_read_last_block_done p (cmd_bufs req resp [blk_buffer pb bs True 0 e])"
    "one_task w2 w' ?nt (cmd_bufs req resp [blk_buffer pb bs True 0 e])" "request_ok (m_of w') (own_buffer req sizeof_req False) False lba 1"
    "m_of w' = s_mem ?s6" "a_descs w' = a_descs w2" "w_srv w' = w_srv w2" "rm_room rm L 3 (s_blocks (w_sys w'))"
    by (rule submit_block_read [OF w2(2) b6 lim rm room6 L(2) task(9) r6])
  have "lba * bs + e < Suc lba * bs" "Suc lba * bs \<le> nblk * bs" "nblk * bs < 2 ^ 64"
    using e(2,4) geo mult_le_mono1 [of "Suc lba" nblk bs] by (simp_all add: geometry_def mult.commute)
  then have lt: "io_offset d + io_nbytes d < 2 ^ 64" unfolding e(1) by linarith
  have e31: "e < 2 ^ 31" "e < 2 ^ 64" using e(2) task(9) by simp_all
  have conv: "size_add (io_offset d) (io_nbytes d) = lba * bs + e" "(lba * bs + e) div bs = lba" "(lba * bs + e) mod bs = e"
    "to_int (int e) = int e" "to_size (int e) = e" "to_ssize r = int r"
    using size_add_id [OF lt] e(1,2) data(4) to_int_of_nat [OF e31(1)] to_size_of_nat [OF e31(2)] by (simp_all add: to_ssize_def)
  have "blk_write_full_blocks_done_cb rm ops t p w = Some w'"
    using task(1,5,7,8) tc good data(2,3) conv e(3) w2(1) c(1-6) w'(1-3)
    by (simp add: blk_write_full_blocks_done_cb_def Let_def w_create_def w_alloc_def w_alloc_part_def w_mem_def)
  moreover have "mem_same (s_blocks (w_sys w2)) (s_mem s5) (m_of w')" unfolding w'(7) using cdb_keeps(1) [OF c(7), of "a_dev w" lba 1 False] by simp
  then have "mem_same ?b (m_of w) (m_of w')" using c(8) w2(3,6) by (simp add: mem_same_def)
  ultimately show ?thesis using w' w2 one_task_rebase [OF w'(5) w2(3-5)] by (intro that [of w' ?nt req resp pb]) simp_all
qed


text \<open>
  The callback takes the bytes of the request that were not written for a part of a last block. When the
  request ends on a block boundary there is none, and its assertion fails.
\<close>

lemma full_blocks_aborts:
  assumes cbk: "at_callback rm L bs nblk q k w0 w t p d (write_cmd req0 resp0 data)"
    and good: "resp_good (m_of w) resp0" "resp0 \<noteq> NULL" and data: "data \<noteq> []" "written_bytes (map Some data) 0 = Some r" "r \<noteq> io_nbytes d"
    and e: "io_offset d + io_nbytes d < 2 ^ 64" "(io_offset d + io_nbytes d) mod bs = 0" and room: "rm_room rm L 6 (s_blocks (w_sys w0))"
  shows "blk_write_full_blocks_done_cb rm ops t p w = None"
proof -
  obtain task where task: "s_tasks (w_sys w) t = Some task" "task_wf task" "task_bufs task = write_cmd req0 resp0 data"
    "count task = length (write_cmd req0 resp0 data)" "io_desc_of p w = Some d" "a_dev w = a_dev w0" "bs_of (a_dev w) = bs" "0 < bs"
    by (rule at_callback_task [OF cbk])
  note tc = write_cmd_task [OF task(2,3) data(1)]
  have rm: "rte_malloc_spec rm" and L: "sizeof_resp \<le> L" using cbk by (auto simp: at_callback_def)
  obtain w2 where w2: "w_destroy t (set_retval p (to_ssize r) w) = Some w2" "dev_ready q k w2" "s_blocks (w_sys w2) = s_blocks (w_sys w0)"
    by (rule drop_own_task [OF cbk])
  have room2: "rm_room rm L (Suc (Suc 4)) (s_blocks (w_sys w2))" and lim: "(2 :: nat) < 3" using room w2(3) by (simp_all del: rm_room.simps)
  obtain s3 s4 s5 req resp where "virtio_task_create 3 (w_sys w2) = (s_next (w_sys w2), s3)" "s_next (w_sys w2) \<noteq> NULL"
    "virtio_task_alloc_buf rm (s_next (w_sys w2)) sizeof_req False True s3 = Some (req, s4)" "req \<noteq> NULL"
    "virtio_task_alloc_buf rm (s_next (w_sys w2)) sizeof_resp True True s4 = Some (resp, s5)" "resp \<noteq> NULL"
    by (rule new_cmd [OF w2(2) rm room2 L lim])
  then show ?thesis
    using task(1,5,7,8) tc good data(2,3) size_add_id [OF e(1)] e(2) w2(1) by (simp add: blk_write_full_blocks_done_cb_def Let_def w_create_def w_alloc_def to_int_def)
qed

end
