(* ===== verification/Async_Write_Run.thy ===== *)
theory Async_Write_Run
  imports Async_Write_Done
begin

text \<open>
  The run of an asynchronous write: the poller takes up the completions of one command after another,
  and after at most four rounds of server and poller the write is over.
\<close>

section \<open>Rounds\<close>

fun poll_rounds :: "(task_cb \<Rightarrow> ptr \<Rightarrow> ptr \<Rightarrow> ('d, 'z) pworld_scheme \<Rightarrow> ('d, 'z) pworld_scheme option) \<Rightarrow> 'd server \<Rightarrow> nat \<Rightarrow> nat
    \<Rightarrow> ('d, 'z) pworld_scheme \<Rightarrow> ('d, 'z) pworld_scheme option" where
  "poll_rounds cbs serve f 0 w = Some w"
| "poll_rounds cbs serve f (Suc j) w = Option.bind (drain f cbs 0 (run_server serve w)) (\<lambda>(n, w'). poll_rounds cbs serve f j w')"

text \<open>What holds of every write: the parts of the device and the request \<open>d\<close> of the caller.\<close>

definition writing_ok :: "rte_malloc \<Rightarrow> 'r rte_ring_ops \<Rightarrow> ('r \<Rightarrow> ptr list) \<Rightarrow> nat \<Rightarrow> 'd server \<Rightarrow> ('d \<Rightarrow> nat \<Rightarrow> u8) \<Rightarrow> nat \<Rightarrow> nat \<Rightarrow> nat
    \<Rightarrow> ('d, 'r, 'z) aworld_scheme \<Rightarrow> async_io_desc \<Rightarrow> bool" where
  "writing_ok rm ops els rcap serve disk L bs nblk w0 d \<longleftrightarrow> rte_malloc_spec rm \<and> scsi_server serve disk bs nblk \<and>
     geometry (a_dev w0) bs nblk \<and> bs \<le> L \<and> sizeof_resp \<le> L \<and> out_ready ops els rcap w0 \<and> rm_room rm L 6 (s_blocks (w_sys w0)) \<and>
     write_io bs nblk d \<and> live_range (s_blocks (w_sys w0)) (io_buf d) (io_nbytes d)"

text \<open>\<open>r\<close> bytes of the request are on the device, and the descriptor holds the result \<open>v\<close>.\<close>

definition progress :: "('d \<Rightarrow> nat \<Rightarrow> u8) \<Rightarrow> ('d, 'r, 'z) aworld_scheme \<Rightarrow> ptr \<Rightarrow> async_io_desc \<Rightarrow> int \<Rightarrow> nat \<Rightarrow> ('d, 'r, 'z) aworld_scheme \<Rightarrow> bool" where
  "progress disk w0 p d v r w \<longleftrightarrow> mem_same (s_blocks (w_sys w0)) (m_of w0) (m_of w) \<and>
     a_descs w = (a_descs w0)(p \<mapsto> d\<lparr>io_reserved := a_self w0, io_retval := v\<rparr>) \<and>
     disk (w_srv w) = disk_write (io_offset d) (mem_read (m_of w0) (io_buf d) r) (disk (w_srv w0))"

definition write_over :: "('r \<Rightarrow> ptr list) \<Rightarrow> ('d \<Rightarrow> nat \<Rightarrow> u8) \<Rightarrow> vqueue \<Rightarrow> nat \<Rightarrow> ('d, 'r, 'z) aworld_scheme \<Rightarrow> ptr \<Rightarrow> async_io_desc \<Rightarrow> ('d, 'r, 'z) aworld_scheme \<Rightarrow> bool" where
  "write_over els disk q k w0 p d w' \<longleftrightarrow> finished els q k p w0 w' \<and> progress disk w0 p d (int (io_nbytes d)) (io_nbytes d) w'"

lemma progress_callback:
  assumes "writing_ok rm ops els rcap serve disk L bs nblk w0 d" "progress disk w0 p d v r w" "io_fetched q k w0 w2 t bufs l" "a_descs w2 = a_descs w"
  shows "at_callback rm L bs nblk q k w0 w2 t p (d\<lparr>io_reserved := a_self w0, io_retval := v\<rparr>) bufs"
  using assms by (auto simp: at_callback_def writing_ok_def progress_def)

lemma written_more:
  assumes "D' = disk_write off (mem_read m buf r) D" "disk_write a xs D' = disk_write (off + r) (mem_read m (buf + r) e) D'"
  shows "disk_write a xs D' = disk_write off (mem_read m buf (r + e)) D"
  using assms disk_write_append [of off "mem_read m buf r" "mem_read m (buf + r) e" D] by (simp add: mem_read_append)

lemma finish_round:
  assumes "drain (Suc (Suc f)) cbs 0 (run_server serve w) = Option.bind (cbs c t a w2) (drain (Suc f) cbs (0 + 1))"
    "cbs c t a w2 = Some w'" "dev_ready q k w' \<or> (\<exists>t c a bufs. pending q k w' t c a bufs)"
  shows "poll_rounds cbs serve (Suc (Suc f)) (Suc j) w = poll_rounds cbs serve (Suc (Suc f)) j w'"
proof -
  have "drain (Suc f) cbs 1 w' = Some (1, w')" using assms(3) drain_ready drain_pending by blast
  then show ?thesis using assms(1,2) by (simp del: drain.simps)
qed


section \<open>The last command\<close>

lemma write_last_round:
  assumes env: "writing_ok rm ops els rcap serve disk L bs nblk w0 d" and pr: "progress disk w0 p d v r w"
    and p: "pending q k w t blk_write_last_block_done p (write_cmd req resp [blk_buffer buf bs False 0 e])"
    and one: "one_task w0 w t (write_cmd req resp [blk_buffer buf bs False 0 e])"
    and req: "request_ok (m_of w) (own_buffer req sizeof_req False) True lba 1" "lba < nblk"
    and e: "r + e = io_nbytes d" "v = int r \<or> v < 0 \<and> r = 0"
    and patch: "disk_write (lba * bs) (gathered (m_of w) [blk_buffer buf bs False 0 e]) (disk (w_srv w)) =
      disk_write (io_offset d + r) (mem_read (m_of w0) (io_buf d + r) e) (disk (w_srv w))"
  obtains w' where "poll_rounds (dev_callbacks rm ops) serve (Suc (Suc f)) 1 w = Some w'" "write_over els disk q k w0 p d w'"
proof -
  let ?cbs = "dev_callbacks rm ops" and ?data = "[blk_buffer buf bs False 0 e]" and ?d = "d\<lparr>io_reserved := a_self w0, io_retval := v\<rparr>"
  have srv: "scsi_server serve disk bs nblk" and out: "out_ready ops els rcap w0" and n31: "io_nbytes d < 2 ^ 31" and bs: "bs < 2 ^ 31"
    using env by (auto simp: writing_ok_def write_io_def geometry_def)
  have dat: "lba + 1 \<le> nblk" "data_ok w0 ?data (1 * bs)" "\<forall>b \<in> set ?data. \<not> vb_response b" using req(2) bs by (simp_all add: data_ok_def)
  obtain w2 l where w2: "drain (Suc (Suc f)) ?cbs 0 (run_server serve w) = Option.bind (?cbs blk_write_last_block_done t p w2) (drain (Suc f) ?cbs (0 + 1))"
    "io_fetched q k w0 w2 t (write_cmd req resp ?data) l" "resp_good (m_of w2) resp" "resp \<noteq> NULL"
    "disk (w_srv w2) = disk_write (lba * bs) (gathered (m_of w) ?data) (disk (w_srv w))"
    "mem_same (s_blocks (w_sys w0)) (m_of w) (m_of w2)" "a_descs w2 = a_descs w"
    by (rule write_stage [OF p one req(1) dat srv])
  have cbk: "at_callback rm L bs nblk q k w0 w2 t p ?d (write_cmd req resp ?data)" by (rule progress_callback [OF env pr w2(2,7)])
  have lt: "e < 2 ^ 31" "io_retval ?d < 2 ^ 31" using e n31 by auto
  obtain w' where w': "blk_write_last_block_done_cb ops t p w2 = Some w'" "finished els q k p w0 w'" "m_of w' = m_of w2" "w_srv w' = w_srv w2"
    "a_descs w' = (a_descs w2)(p \<mapsto> ?d\<lparr>io_retval := (if io_retval ?d < 0 then 0 else io_retval ?d) + int e\<rparr>)"
    by (rule blk_write_last_block_done_ok [OF cbk out w2(3,4) lt])
  have ret: "(if io_retval ?d < 0 then 0 else io_retval ?d) + int e = int (io_nbytes d)" using e by auto
  have "disk (w_srv w') = disk_write (io_offset d) (mem_read (m_of w0) (io_buf d) (io_nbytes d)) (disk (w_srv w0))"
    using written_more [where D' = "disk (w_srv w)", OF _ patch] pr w2(5) w'(4) e(1) by (simp add: progress_def)
  moreover have "mem_same (s_blocks (w_sys w0)) (m_of w0) (m_of w')" using pr w2(6) w'(3) mem_same_trans by (auto simp: progress_def)
  ultimately have "progress disk w0 p d (int (io_nbytes d)) (io_nbytes d) w'"
    using w'(5) w2(7) pr ret by (simp add: progress_def)
  moreover have "poll_rounds ?cbs serve (Suc (Suc f)) (Suc 0) w = poll_rounds ?cbs serve (Suc (Suc f)) 0 w'"
    by (rule finish_round [OF w2(1)]) (use w'(1,2) in \<open>auto simp: dev_callbacks_def finished_def\<close>)
  ultimately show ?thesis using w'(2) by (intro that [of w']) (simp_all add: write_over_def del: poll_rounds.simps(2))
qed


section \<open>The last block\<close>

lemma mem_same_sub_read:
  assumes "mem_same (s_blocks (w_sys w0)) (m_of w0) m" "live_range (s_blocks (w_sys w0)) buf n" "r + e \<le> n"
  shows "mem_read m (buf + r) e = mem_read (m_of w0) (buf + r) e"
  by (rule mem_same_read [OF assms(1)], rule live_range_sub [OF assms(2)]) (use assms(3) in simp_all)

lemma same_blocks: "one_task w0 w t bufs \<Longrightarrow> one_task w0 w2 t2 bufs \<Longrightarrow> s_blocks (w_sys w2) = s_blocks (w_sys w)"
  by (simp add: one_task_blocks)

lemma read_last_rounds:
  assumes env: "writing_ok rm ops els rcap serve disk L bs nblk w0 d" and pr: "progress disk w0 p d v r w"
    and p: "pending q (Suc k) w t blk_read_last_block_done p (cmd_bufs req resp [blk_buffer pb bs True 0 e])"
    and one: "one_task w0 w t (cmd_bufs req resp [blk_buffer pb bs True 0 e])" and room: "rm_room rm L 3 (s_blocks (w_sys w))"
    and req: "request_ok (m_of w) (own_buffer req sizeof_req False) False lba 1" "lba < nblk"
    and e: "r + e = io_nbytes d" "v = int r \<or> v < 0 \<and> r = 0" "lba * bs = io_offset d + r" "e < bs"
  obtains w' where "poll_rounds (dev_callbacks rm ops) serve (Suc (Suc f)) 2 w = Some w'" "write_over els disk q k w0 p d w'"
proof -
  let ?cbs = "dev_callbacks rm ops" and ?d = "d\<lparr>io_reserved := a_self w0, io_retval := v\<rparr>" and ?b = "s_blocks (w_sys w0)"
  have srv: "scsi_server serve disk bs nblk" and bs: "bs < 2 ^ 30" and live: "live_range ?b (io_buf d) (io_nbytes d)"
    using env by (auto simp: writing_ok_def geometry_def)
  obtain w2 l where w2: "drain (Suc (Suc f)) ?cbs 0 (run_server serve w) = Option.bind (?cbs blk_read_last_block_done t p w2) (drain (Suc f) ?cbs (0 + 1))"
    "io_fetched q (Suc k) w0 w2 t (cmd_bufs req resp [blk_buffer pb bs True 0 e]) l" "resp_good (m_of w2) resp" "resp \<noteq> NULL"
    "mem_read (m_of w2) pb bs = disk_read disk (w_srv w) (lba * bs) bs" "disk (w_srv w2) = disk (w_srv w)"
    "mem_same ?b (m_of w) (m_of w2)" "a_descs w2 = a_descs w"
    by (rule read_stage [OF p one req bs srv])
  have cbk: "at_callback rm L bs nblk q (Suc k) w0 w2 t p ?d (cmd_bufs req resp [blk_buffer pb bs True 0 e])"
    by (rule progress_callback [OF env pr w2(2,8)])
  have "one_task w0 w2 t (cmd_bufs req resp [blk_buffer pb bs True 0 e])" using w2(2) by (simp add: io_fetched_def)
  then have room2: "rm_room rm L 3 (s_blocks (w_sys w2))" using room same_blocks [OF one] by metis
  have pos: "io_offset ?d + io_nbytes ?d = lba * bs + e" "e \<le> io_nbytes ?d" "live_range ?b (io_buf ?d) (io_nbytes ?d)"
      "mem_read (m_of w2) pb bs = disk_read disk (w_srv w2) (lba * bs) bs"
    using e(1,3) live w2(5,6) by (simp_all add: disk_read_def)
  obtain w3 nt req' resp' buf where w3: "blk_read_last_block_done_cb rm ops t p w2 = Some w3"
    "pending q k w3 nt blk_write_last_block_done p (write_cmd req' resp' [blk_buffer buf bs False 0 e])"
    "one_task w0 w3 nt (write_cmd req' resp' [blk_buffer buf bs False 0 e])" "request_ok (m_of w3) (own_buffer req' sizeof_req False) True lba 1"
    "disk_write (lba * bs) (gathered (m_of w3) [blk_buffer buf bs False 0 e]) (disk (w_srv w2)) =
       disk_write (lba * bs) (mem_read (m_of w2) (io_buf ?d + io_nbytes ?d - e) e) (disk (w_srv w2))"
    "mem_same ?b (m_of w2) (m_of w3)" "a_descs w3 = a_descs w2" "w_srv w3 = w_srv w2"
    by (rule blk_read_last_block_done_ok [OF cbk w2(3,4) room2 pos(1) e(4) pos(2) req(2) pos(3,4), where ops = ops])
  have same: "mem_same ?b (m_of w0) (m_of w2)" "mem_same ?b (m_of w0) (m_of w3)" using pr w2(7) w3(6) mem_same_trans by (auto simp: progress_def)
  have src: "io_buf ?d + io_nbytes ?d - e = io_buf d + r" using e(1) by simp
  have "mem_read (m_of w2) (io_buf ?d + io_nbytes ?d - e) e = mem_read (m_of w0) (io_buf d + r) e"
    unfolding src by (rule mem_same_sub_read [OF same(1) live]) (use e(1) in simp)
  with w3(5,8) e(3) have patch: "disk_write (lba * bs) (gathered (m_of w3) [blk_buffer buf bs False 0 e]) (disk (w_srv w3)) =
      disk_write (io_offset d + r) (mem_read (m_of w0) (io_buf d + r) e) (disk (w_srv w3))" by simp
  have pr3: "progress disk w0 p d v r w3" using pr same(2) w2(6,8) w3(7,8) by (simp add: progress_def)
  obtain w' where w': "poll_rounds ?cbs serve (Suc (Suc f)) 1 w3 = Some w'" "write_over els disk q k w0 p d w'"
    by (rule write_last_round [OF env pr3 w3(2-4) req(2) e(1,2) patch])
  have "poll_rounds ?cbs serve (Suc (Suc f)) (Suc 1) w = poll_rounds ?cbs serve (Suc (Suc f)) 1 w3"
    by (rule finish_round [OF w2(1)]) (use w3(1,2) in \<open>auto simp: dev_callbacks_def\<close>)
  with w' show ?thesis by (intro that [of w']) (simp_all only: numeral_2_eq_2 One_nat_def)
qed


section \<open>The whole blocks\<close>

lemma write_over_less: "write_over els disk q (Suc k) w0 p d w' \<Longrightarrow> write_over els disk q k w0 p d w'"
  by (auto simp: write_over_def finished_def dev_ready_less)

lemma full_blocks_rounds:
  assumes env: "writing_ok rm ops els rcap serve disk L bs nblk w0 d" and pr: "progress disk w0 p d v 0 w"
    and p: "pending q (Suc (Suc k)) w t blk_write_full_blocks_done p (write_cmd req resp data)" and one: "one_task w0 w t (write_cmd req resp data)"
    and req: "request_ok (m_of w) (own_buffer req sizeof_req False) True lba c" "lba + c \<le> nblk"
    and data: "data_ok w0 data (c * bs)" "\<forall>b \<in> set data. \<not> vb_response b" "data \<noteq> []" "written_bytes (map Some data) 0 = Some r"
    and r: "r \<le> io_nbytes d" "io_nbytes d - r < bs" "r < io_nbytes d \<longrightarrow> (io_offset d + r) mod bs = 0"
    and patch: "disk_write (lba * bs) (gathered (m_of w) data) (disk (w_srv w)) =
      disk_write (io_offset d) (mem_read (m_of w0) (io_buf d) r) (disk (w_srv w))"
  shows "\<exists>j w'. j \<le> 3 \<and> poll_rounds (dev_callbacks rm ops) serve (Suc (Suc f)) j w = Some w' \<and> write_over els disk q k w0 p d w'"
proof -
  let ?cbs = "dev_callbacks rm ops" and ?d = "d\<lparr>io_reserved := a_self w0, io_retval := v\<rparr>" and ?b = "s_blocks (w_sys w0)"
  have srv: "scsi_server serve disk bs nblk" and out: "out_ready ops els rcap w0" and geo: "geometry (a_dev w0) bs nblk"
    and room: "rm_room rm L 6 ?b" and n: "io_nbytes d < 2 ^ 31" "io_offset d + io_nbytes d \<le> bs * nblk" "0 < bs"
    using env by (auto simp: writing_ok_def write_io_def geometry_def)
  obtain w2 l where w2: "drain (Suc (Suc f)) ?cbs 0 (run_server serve w) = Option.bind (?cbs blk_write_full_blocks_done t p w2) (drain (Suc f) ?cbs (0 + 1))"
    "io_fetched q (Suc (Suc k)) w0 w2 t (write_cmd req resp data) l" "resp_good (m_of w2) resp" "resp \<noteq> NULL"
    "disk (w_srv w2) = disk_write (lba * bs) (gathered (m_of w) data) (disk (w_srv w))" "mem_same ?b (m_of w) (m_of w2)" "a_descs w2 = a_descs w"
    by (rule write_stage [OF p one req data(1,2) srv])
  have cbk: "at_callback rm L bs nblk q (Suc (Suc k)) w0 w2 t p ?d (write_cmd req resp data)" by (rule progress_callback [OF env pr w2(2,7)])
  have same: "mem_same ?b (m_of w0) (m_of w2)" using pr w2(6) mem_same_trans by (auto simp: progress_def)
  have disk2: "disk (w_srv w2) = disk_write (io_offset d) (mem_read (m_of w0) (io_buf d) r) (disk (w_srv w0))"
    using w2(5) patch pr by (simp add: progress_def mem_read_def [of _ _ 0])
  show ?thesis
  proof (cases "r = io_nbytes d")
    case True
    have wb: "written_bytes (map Some data) 0 = Some (io_nbytes ?d)" "io_nbytes ?d < 2 ^ 31" using data(4) True n(1) by simp_all
    obtain w' where w': "blk_write_full_blocks_done_cb rm ops t p w2 = Some w'" "finished els q (Suc (Suc k)) p w0 w'" "m_of w' = m_of w2" "w_srv w' = w_srv w2"
      "a_descs w' = (a_descs w2)(p \<mapsto> ?d\<lparr>io_retval := int (io_nbytes ?d)\<rparr>)"
      by (rule full_blocks_finish [OF cbk out w2(3,4) data(3) wb])
    have "progress disk w0 p d (int (io_nbytes d)) (io_nbytes d) w'" using same disk2 w' w2(7) pr True by (simp add: progress_def)
    then have over: "write_over els disk q (Suc (Suc k)) w0 p d w'" using w'(2) by (simp add: write_over_def)
    have "poll_rounds ?cbs serve (Suc (Suc f)) (Suc 0) w = poll_rounds ?cbs serve (Suc (Suc f)) 0 w'"
      by (rule finish_round [OF w2(1)]) (use w'(1,2) in \<open>auto simp: dev_callbacks_def finished_def\<close>)
    then show ?thesis using write_over_less [OF write_over_less [OF over]] by (intro exI [of _ "Suc 0"] exI [of _ w']) simp
  next
    case False
    define e where "e = io_nbytes d - r"
    define lb where "lb = (io_offset d + r) div bs"
    have e: "r + e = io_nbytes d" "0 < e" "e < bs" "lb * bs = io_offset d + r"
      using r False by (auto simp: e_def lb_def)
    have "lb * bs < nblk * bs" using e n(2) by (simp add: mult.commute)
    then have lb: "lb < nblk" by simp
    have pre: "r < io_nbytes ?d" "r < 2 ^ 31" "io_offset ?d + io_nbytes ?d = lb * bs + e" using e n(1) r(1) False by simp_all
    obtain w3 nt req' resp' pb where w3: "blk_write_full_blocks_done_cb rm ops t p w2 = Some w3"
      "pending q (Suc k) w3 nt blk_read_last_block_done p (cmd_bufs req' resp' [blk_buffer pb bs True 0 e])"
      "one_task w0 w3 nt (cmd_bufs req' resp' [blk_buffer pb bs True 0 e])" "request_ok (m_of w3) (own_buffer req' sizeof_req False) False lb 1"
      "rm_room rm L 3 (s_blocks (w_sys w3))" "mem_same ?b (m_of w2) (m_of w3)" "a_descs w3 = (a_descs w2)(p \<mapsto> ?d\<lparr>io_retval := int r\<rparr>)" "w_srv w3 = w_srv w2"
      by (rule full_blocks_next [OF cbk w2(3,4) data(3,4) pre(1,2,3) e(3,2) lb room, where ops = ops])
    have pr3: "progress disk w0 p d (int r) r w3"
      using same disk2 w3(6-8) w2(7) pr mem_same_trans [OF same] by (simp add: progress_def)
    have v: "int r = int r \<or> int r < 0 \<and> r = 0" by simp
    obtain w' where w': "poll_rounds ?cbs serve (Suc (Suc f)) 2 w3 = Some w'" "write_over els disk q k w0 p d w'"
      by (rule read_last_rounds [OF env pr3 w3(2,3,5,4) lb e(1) v e(4,3)])
    have "poll_rounds ?cbs serve (Suc (Suc f)) (Suc 2) w = poll_rounds ?cbs serve (Suc (Suc f)) 2 w3"
      by (rule finish_round [OF w2(1)]) (use w3(1,2) in \<open>auto simp: dev_callbacks_def\<close>)
    with w' show ?thesis by (intro exI [of _ "Suc 2"] exI [of _ w']) (simp del: poll_rounds.simps)
  qed
qed


section \<open>The first block\<close>

lemma read_first_rounds:
  assumes env: "writing_ok rm ops els rcap serve disk L bs nblk w0 d" and pr: "progress disk w0 p d v 0 w"
    and i: "i = io_offset d mod bs" "i \<noteq> 0" and r: "r = first_bytes bs (io_offset d) (io_nbytes d)"
    and p: "pending q (Suc (Suc (Suc k))) w t blk_read_first_block_done p (cmd_bufs req resp [blk_buffer pb bs True i (i + r)])"
    and one: "one_task w0 w t (cmd_bufs req resp [blk_buffer pb bs True i (i + r)])" and room: "rm_room rm L 3 (s_blocks (w_sys w))"
    and req: "request_ok (m_of w) (own_buffer req sizeof_req False) False (io_offset d div bs) 1"
  shows "\<exists>j w'. j \<le> 4 \<and> poll_rounds (dev_callbacks rm ops) serve (Suc (Suc f)) j w = Some w' \<and> write_over els disk q k w0 p d w'"
proof -
  let ?cbs = "dev_callbacks rm ops" and ?d = "d\<lparr>io_reserved := a_self w0, io_retval := v\<rparr>" and ?b = "s_blocks (w_sys w0)"
  let ?lba = "io_offset d div bs" and ?bufs = "cmd_bufs req resp [blk_buffer pb bs True i (i + r)]"
  define c where "c = (io_nbytes d - r) div bs"
  have srv: "scsi_server serve disk bs nblk" and geo: "geometry (a_dev w0) bs nblk" and bs: "0 < bs" "bs < 2 ^ 30" and io: "write_io bs nblk d"
    and live: "live_range ?b (io_buf d) (io_nbytes d)"
    using env by (auto simp: writing_ok_def geometry_def)
  note fd = first_data_ok [OF geo io i(2) [unfolded i(1)] live r c_def]
  have lba: "?lba < nblk" using fd(4) by simp
  obtain w2 l where w2: "drain (Suc (Suc f)) ?cbs 0 (run_server serve w) = Option.bind (?cbs blk_read_first_block_done t p w2) (drain (Suc f) ?cbs (0 + 1))"
    "io_fetched q (Suc (Suc (Suc k))) w0 w2 t ?bufs l" "resp_good (m_of w2) resp" "resp \<noteq> NULL"
    "mem_read (m_of w2) pb bs = disk_read disk (w_srv w) (?lba * bs) bs" "disk (w_srv w2) = disk (w_srv w)"
    "mem_same ?b (m_of w) (m_of w2)" "a_descs w2 = a_descs w"
    by (rule read_stage [OF p one req lba bs(2) srv])
  have cbk: "at_callback rm L bs nblk q (Suc (Suc (Suc k))) w0 w2 t p ?d ?bufs" by (rule progress_callback [OF env pr w2(2,8)])
  have "one_task w0 w2 t ?bufs" using w2(2) by (simp add: io_fetched_def)
  then have room2: "rm_room rm L 3 (s_blocks (w_sys w2))" using room same_blocks [OF one] by metis
  have pre: "i = io_offset ?d mod bs" "r = first_bytes bs (io_offset ?d) (io_nbytes ?d)" "c = (io_nbytes ?d - r) div bs" "write_io bs nblk ?d"
    "live_range ?b (io_buf ?d) (io_nbytes ?d)" "mem_read (m_of w2) pb bs = disk_read disk (w_srv w2) (io_offset ?d div bs * bs) bs"
    using i(1) r c_def io live w2(5,6) by (simp_all add: write_io_def disk_read_def)
  obtain w3 nt req' resp' buf where w3': "blk_read_first_block_done_cb rm ops t p w2 = Some w3"
    "pending q (Suc (Suc k)) w3 nt blk_write_full_blocks_done p (write_cmd req' resp' (first_data buf bs ?d))"
    "one_task w0 w3 nt (write_cmd req' resp' (first_data buf bs ?d))"
    "request_ok (m_of w3) (own_buffer req' sizeof_req False) True (io_offset ?d div bs) (c + 1)"
    "disk_write (io_offset ?d div bs * bs) (gathered (m_of w3) (first_data buf bs ?d)) (disk (w_srv w2)) =
       disk_write (io_offset ?d) (mem_read (m_of w2) (io_buf ?d) (r + c * bs)) (disk (w_srv w2))"
    "mem_same ?b (m_of w2) (m_of w3)" "a_descs w3 = a_descs w2" "w_srv w3 = w_srv w2"
    by (rule blk_read_first_block_done_ok [OF cbk pre(1) i(2) pre(2-4) w2(3,4) room2 pre(5,6), where ops = ops])
  have fdd: "first_data buf bs ?d = first_data buf bs d" by (simp add: first_data_def Let_def)
  note w3 = w3' [unfolded fdd, simplified]
  have same: "mem_same ?b (m_of w0) (m_of w2)" "mem_same ?b (m_of w0) (m_of w3)" using pr w2(7) w3(6) mem_same_trans by (auto simp: progress_def)
  have "mem_read (m_of w2) (io_buf d + 0) (r + c * bs) = mem_read (m_of w0) (io_buf d + 0) (r + c * bs)"
    by (rule mem_same_sub_read [OF same(1) live]) (use fd(8) in simp)
  then have patch: "disk_write (?lba * bs) (gathered (m_of w3) (first_data buf bs d)) (disk (w_srv w3)) =
      disk_write (io_offset d) (mem_read (m_of w0) (io_buf d) (r + c * bs)) (disk (w_srv w3))" using w3(5,8) by simp
  have pr3: "progress disk w0 p d v 0 w3" using pr same(2) w2(6,8) w3(7,8) by (simp add: progress_def)
  have split: "c * bs + (io_nbytes d - r) mod bs = io_nbytes d - r" unfolding c_def by simp
  moreover have "(io_nbytes d - r) mod bs < bs" using bs(1) by simp
  ultimately have rest: "io_nbytes d - (r + c * bs) < bs" by linarith
  have align: "r + c * bs < io_nbytes d \<longrightarrow> (io_offset d + (r + c * bs)) mod bs = 0"
  proof
    assume "r + c * bs < io_nbytes d"
    then have "io_offset d + r = (?lba + flag_nat (io_offset d mod bs \<noteq> 0)) * bs"
      using first_bytes_end [OF bs(1), of "io_offset d" "io_nbytes d"] r by simp
    then have "io_offset d + (r + c * bs) = (?lba + flag_nat (io_offset d mod bs \<noteq> 0) + c) * bs" by (simp add: distrib_right)
    then show "(io_offset d + (r + c * bs)) mod bs = 0" by simp
  qed
  have ne: "first_data buf bs d \<noteq> []" by (simp add: first_data_def Let_def)
  have req3: "request_ok (m_of w3) (own_buffer req' sizeof_req False) True ?lba (c + 1)" using w3(4) by simp
  from full_blocks_rounds [OF env pr3 w3(2,3) req3 fd(4,1,2) ne fd(3,8) rest align patch]
  obtain j w' where w': "j \<le> 3" "poll_rounds ?cbs serve (Suc (Suc f)) j w3 = Some w'" "write_over els disk q k w0 p d w'" by blast
  have "poll_rounds ?cbs serve (Suc (Suc f)) (Suc j) w = poll_rounds ?cbs serve (Suc (Suc f)) j w3"
    by (rule finish_round [OF w2(1)]) (use w3(1,2) in \<open>auto simp: dev_callbacks_def\<close>)
  with w' show ?thesis by (intro exI [of _ "Suc j"] exI [of _ w']) (simp del: poll_rounds.simps)
qed

end
