(* ===== verification/Async_Submit.thy ===== *)
theory Async_Submit
  imports Async_Write_Run
begin

text \<open>
  The submission of an asynchronous write, in the three ways in which \<open>write_virtio_dev_async\<close> can start,
  and the write as a whole.
\<close>

section \<open>The first command\<close>

lemma submit_read_block_ok:
  assumes ready: "dev_ready q (Suc k) w" and b: "building (w_sys w) s t 4 [own_buffer req sizeof_req False]"
    and rm: "rte_malloc_spec rm" and room: "rm_room rm L 5 (s_blocks s)" "sizeof_resp \<le> L" "bs \<le> L"
    and geo: "geometry (a_dev w) bs nblk" "lba < nblk"
  obtains w1 resp pb where "submit_read_block rm t req lba f g c p (w\<lparr>w_sys := s\<rparr>) = Some (0, w1)"
    "pending q k w1 t c p (cmd_bufs req resp [blk_buffer pb bs True f g])" "one_task w w1 t (cmd_bufs req resp [blk_buffer pb bs True f g])"
    "request_ok (m_of w1) (own_buffer req sizeof_req False) False lba 1" "rm_room rm L 3 (s_blocks (w_sys w1))"
    "mem_same (s_blocks (w_sys w)) (s_mem s) (m_of w1)" "a_descs w1 = a_descs w" "w_srv w1 = w_srv w"
proof -
  have bs: "bs_of (a_dev w) = bs" "bs < 2 ^ 30" using geo geometry_bs by (auto simp: geometry_def)
  let ?s1 = "s\<lparr>s_mem := create_rw_cdb (a_dev w) req lba 1 False (s_mem s)\<rparr>"
  have b1: "building (w_sys w) ?s1 t 4 [own_buffer req sizeof_req False]" and room1: "rm_room rm L (Suc 4) (s_blocks ?s1)"
    and len: "length [own_buffer req sizeof_req False] < 4"
    using b room(1) by (simp_all del: rm_room.simps)
  obtain resp s2 where a: "virtio_task_alloc_buf rm t sizeof_resp True True ?s1 = Some (resp, s2)" "resp \<noteq> NULL"
    "building (w_sys w) s2 t 4 ([own_buffer req sizeof_req False] @ [own_buffer resp sizeof_resp True])"
    "mem_same (s_blocks ?s1) (s_mem ?s1) (s_mem s2)" "rm_room rm L 4 (s_blocks s2)"
    by (rule alloc_cmd [OF b1 len rm room1 room(2) cmd_sizes(2), where r = True])
  have b2: "building (w_sys w) s2 t 4 [own_buffer req sizeof_req False, own_buffer resp sizeof_resp True]" and lim: "(2 :: nat) < 4"
    using a(3) by simp_all
  have r1: "request_ok (s_mem ?s1) (own_buffer req sizeof_req False) False lba 1"
    using create_rw_cdb_decodes [OF one_block_fits [OF geo], of req False] by (simp add: request_ok_def)
  have live: "live_range (s_blocks ?s1) req sizeof_req" using building_live [OF b, of "own_buffer req sizeof_req False"] by simp
  obtain pb s3 w1 where w1: "virtio_task_alloc_buf_part rm t bs True False f g s2 = Some (pb, s3)" "pb \<noteq> NULL"
    "vring_submit_task t (Some c) p (w\<lparr>w_sys := s3\<rparr>) = Some (0, w1)" "pending q k w1 t c p (cmd_bufs req resp [blk_buffer pb bs True f g])"
    "one_task w w1 t (cmd_bufs req resp [blk_buffer pb bs True f g])" "request_ok (m_of w1) (own_buffer req sizeof_req False) False lba 1"
    "m_of w1 = s_mem s2" "a_descs w1 = a_descs w" "w_srv w1 = w_srv w" "rm_room rm L 3 (s_blocks (w_sys w1))"
    by (rule submit_block_read [OF ready b2 lim rm a(5) room(3) bs(2) request_ok_same [OF a(4) live r1]])
  have "submit_read_block rm t req lba f g c p (w\<lparr>w_sys := s\<rparr>) = Some (0, w1)"
    using a(1,2) w1(1-3) bs(1) by (simp add: submit_read_block_def submit_or_destroy_def Let_def w_mem_def w_alloc_def w_alloc_part_def)
  moreover have "mem_same (s_blocks (w_sys w)) (s_mem s) (m_of w1)"
    unfolding w1(7) using cdb_keeps(1) [OF b, of "a_dev w" lba 1 False] mem_same_owns [OF a(4)] building_owns [OF b1] mem_same_trans by auto
  ultimately show ?thesis using w1 by (intro that [of w1 resp pb])
qed

lemma submit_write_blocks_ok:
  assumes ready: "dev_ready q (Suc k) w" and b: "building (w_sys w) s t 4 [own_buffer req sizeof_req False]"
    and rm: "rte_malloc_spec rm" and room: "rm_room rm L 1 (s_blocks s)" "sizeof_resp \<le> L" and same: "mem_same (s_blocks (w_sys w)) (m_of w) (s_mem s)"
    and geo: "geometry (a_dev w) bs nblk" "rw_fits (a_dev w) lba n" "n * bs < 2 ^ 31" and live: "live_range (s_blocks (w_sys w)) buf (n * bs)"
  obtains w1 resp where "submit_write_blocks rm t req lba n buf p (w\<lparr>w_sys := s\<rparr>) = Some (0, w1)"
    "pending q k w1 t blk_write_full_blocks_done p (write_cmd req resp [user_buffer buf (n * bs) False])"
    "one_task w w1 t (write_cmd req resp [user_buffer buf (n * bs) False])"
    "request_ok (m_of w1) (own_buffer req sizeof_req False) True lba n" "gathered (m_of w1) [user_buffer buf (n * bs) False] = mem_read (m_of w) buf (n * bs)"
    "mem_same (s_blocks (w_sys w)) (m_of w) (m_of w1)" "a_descs w1 = a_descs w" "w_srv w1 = w_srv w"
proof -
  let ?data = "[user_buffer buf (n * bs) False]"
  have bs: "bs_of (a_dev w) = bs" using geo geometry_bs by auto
  let ?s1 = "s\<lparr>s_mem := create_rw_cdb (a_dev w) req lba n True (s_mem s)\<rparr>"
  have b1: "building (w_sys w) ?s1 t 4 [own_buffer req sizeof_req False]" and len: "length [own_buffer req sizeof_req False] < 4" using b by simp_all
  obtain s2 where s2: "virtio_task_add_buf t buf (n * bs) False ?s1 = Some s2"
    "building (w_sys w) s2 t 4 ([own_buffer req sizeof_req False] @ ?data)" "s_mem s2 = s_mem ?s1" "s_blocks s2 = s_blocks ?s1"
    by (rule build_add [OF b1 len])
  have b2: "building (w_sys w) s2 t 4 (own_buffer req sizeof_req False # ?data)" and len2: "Suc (length ?data) < 4"
    and room2: "rm_room rm L 1 (s_blocks s2)" using s2(2,4) room(1) by simp_all
  have r2: "request_ok (s_mem s2) (own_buffer req sizeof_req False) True lba n"
    using create_rw_cdb_decodes [OF geo(2), of req True] s2(3) by (simp add: request_ok_def)
  obtain resp s3 where a: "virtio_task_alloc_buf rm t sizeof_resp True True s2 = Some (resp, s3)" "resp \<noteq> NULL"
    "building (w_sys w) s3 t 4 (own_buffer req sizeof_req False # ?data @ [own_buffer resp sizeof_resp True])"
    "request_ok (s_mem s3) (own_buffer req sizeof_req False) True lba n" "gathered (s_mem s3) ?data = gathered (s_mem s2) ?data"
    "mem_same (s_blocks (w_sys w)) (s_mem s2) (s_mem s3)"
    by (rule finish_cmd [OF b2 len2 rm room2 room(2) r2]) (use live in simp_all)
  have b3: "building (w_sys w) s3 t 4 (write_cmd req resp ?data)" using a(3) by (simp add: write_cmd_def)
  obtain w1 where w1: "vring_submit_task t (Some blk_write_full_blocks_done) p (w\<lparr>w_sys := s3\<rparr>) = Some (0, w1)"
    "pending q k w1 t blk_write_full_blocks_done p (write_cmd req resp ?data)" "one_task w w1 t (write_cmd req resp ?data)" "m_of w1 = s_mem s3"
    "a_descs w1 = a_descs w" "w_srv w1 = w_srv w"
    by (rule submit_one_task [OF ready b3]) (simp_all add: write_cmd_def)
  have "size_mul n bs = n * bs" using geo(3) by (simp add: size_mul_id)
  then have "submit_write_blocks rm t req lba n buf p (w\<lparr>w_sys := s\<rparr>) = Some (0, w1)"
    using s2(1) a(1,2) w1(1) bs by (simp add: submit_write_blocks_def submit_or_destroy_def Let_def w_mem_def w_alloc_def w_add_def)
  moreover have m3: "mem_same (s_blocks (w_sys w)) (m_of w) (m_of w1)"
    unfolding w1(4) using mem_same_trans [OF mem_same_trans [OF same cdb_keeps(1) [OF b, of "a_dev w" lba n True]]] a(6) s2(3) by simp
  moreover have "gathered (m_of w1) ?data = mem_read (m_of w) buf (n * bs)" using mem_same_read [OF m3 live] by (simp add: gathered_def)
  ultimately show ?thesis using a(4) w1 by (intro that [of w1 resp]) simp_all
qed


section \<open>The whole write\<close>

text \<open>What the three starts share: the task with its request block.\<close>

lemma write_start:
  assumes ready: "dev_ready q k w" and rm: "rte_malloc_spec rm" and room: "rm_room rm L 6 (s_blocks (w_sys w))" "sizeof_resp \<le> L"
  obtains s2 s3 req where "virtio_task_create 4 (w_sys w) = (s_next (w_sys w), s2)" "s_next (w_sys w) \<noteq> NULL"
    "virtio_task_alloc_buf rm (s_next (w_sys w)) sizeof_req False True s2 = Some (req, s3)" "req \<noteq> NULL"
    "building (w_sys w) s3 (s_next (w_sys w)) 4 [own_buffer req sizeof_req False]" "mem_same (s_blocks (w_sys w)) (m_of w) (s_mem s3)"
    "rm_room rm L 5 (s_blocks s3)"
proof -
  let ?t = "s_next (w_sys w)"
  have t: "?t \<noteq> NULL" and oom: "s_oom (w_sys w) = (\<lambda>_. False)" and Lq: "sizeof_req \<le> L"
    using ready room(2) by (auto simp: dev_ready_def sizeof_req_def sizeof_resp_def)
  obtain s2 where c: "virtio_task_create 4 (w_sys w) = (?t, s2)" "building (w_sys w) s2 ?t 4 []" "s_mem s2 = m_of w"
    using build_create [OF oom] by blast
  have b2: "s_blocks s2 = s_blocks (w_sys w)" using building_owns [OF c(2)] by simp
  have room2: "rm_room rm L (Suc 5) (s_blocks s2)" and len: "length ([] :: virtio_buffer list) < 4" using room(1) b2 by (simp_all del: rm_room.simps)
  obtain req s3 where "virtio_task_alloc_buf rm ?t sizeof_req False True s2 = Some (req, s3)" "req \<noteq> NULL"
    "building (w_sys w) s3 ?t 4 ([] @ [own_buffer req sizeof_req False])" "mem_same (s_blocks s2) (s_mem s2) (s_mem s3)" "rm_room rm L 5 (s_blocks s3)"
    by (rule alloc_cmd [OF c(2) len rm room2 Lq cmd_sizes(1), where r = False])
  with c t b2 show ?thesis by (intro that [of s2 req s3]) simp_all
qed

lemma desc_update: "d\<lparr>io_retval := v, io_reserved := x\<rparr> = d\<lparr>io_reserved := x, io_retval := v\<rparr>"
  by (cases d) simp

text \<open>
  \<open>write_virtio_dev_async\<close> after its checks: which of the three continuations it takes.
\<close>

lemma write_async_cases:
  assumes geo: "geometry (a_dev w) bs nblk" and d: "a_descs w p = Some d" "io_offset d \<le> bs * nblk" "0 < io_nbytes d" "io_offset d + io_nbytes d < 2 ^ 64"
    and N: "N = clip_range (bs * nblk) (io_offset d) (io_nbytes d)" "N < 2 ^ 31" and w0: "w0 = started w p (d\<lparr>io_retval := -1\<rparr>)"
    and c: "virtio_task_create 4 (w_sys w0) = (t, s2)" "t \<noteq> NULL" "virtio_task_alloc_buf rm t sizeof_req False True s2 = Some (req, s3)" "req \<noteq> NULL"
  shows "write_virtio_dev_async rm p w =
    (if io_offset d mod bs \<noteq> 0 then submit_read_block rm t req (io_offset d div bs) (io_offset d mod bs)
         (io_offset d mod bs + first_bytes bs (io_offset d) N) blk_read_first_block_done p (w0\<lparr>w_sys := s3\<rparr>)
     else if N div bs > 0 then submit_write_blocks rm t req (io_offset d div bs) (N div bs) (io_buf d) p (w0\<lparr>w_sys := s3\<rparr>)
     else submit_read_block rm t req (io_offset d div bs) 0 N blk_read_last_block_done p (w0\<lparr>w_sys := s3\<rparr>))"
proof -
  let ?i = "io_offset d mod bs" and ?dev = "a_dev w"
  have bs: "bs_of ?dev = bs" "0 < bs" "bs < 2 ^ 30" "block_size ?dev = int bs" "cap ?dev = bs * nblk" "bs * nblk < 2 ^ 64"
    using geo geometry_bs by (auto simp: geometry_def)
  have clip: "(if size_add (io_offset d) (io_nbytes d) > cap ?dev then size_sub (cap ?dev) (io_offset d) else io_nbytes d) = N"
    "\<not> io_offset d > cap ?dev"
    using d(2,4) bs(5,6) by (auto simp: size_add_id size_sub_id N(1) clip_range_def)
  have i: "?i < bs" "?i < 2 ^ 31" "?i < 2 ^ 64" "?i + N < 2 ^ 64" "N < 2 ^ 64" "bs - ?i < 2 ^ 64"
    using bs(3) N(2) mod_less_divisor [OF bs(2), of "io_offset d"] by simp_all
  have conv: "to_int (int ?i) = int ?i" "to_size (int ?i) = ?i" "size_add ?i N = ?i + N" "to_size (int bs - int ?i) = bs - ?i"
    "to_int (int N) = int N" "to_size (int N) = N"
    using to_int_of_nat [OF i(2)] to_size_of_nat [OF i(3)] size_add_id [OF i(4)] to_size_of_nat [OF i(6)] i(1)
      to_int_of_nat [OF N(2)] to_size_of_nat [OF i(5)] by simp_all
  have rb: "(if ?i + N \<le> bs then N else bs - ?i) = first_bytes bs (io_offset d) N" if "?i \<noteq> 0"
    using that i(1) by (auto simp: first_bytes_def)
  have r: "size_add ?i (first_bytes bs (io_offset d) N) = ?i + first_bytes bs (io_offset d) N"
    using i(4) first_bytes_le [of bs "io_offset d" N] by (intro size_add_id) linarith
  have upd: "w\<lparr>a_descs := (a_descs w)(p \<mapsto> d\<lparr>io_reserved := a_self w, io_retval := -1\<rparr>)\<rparr> = w0"
    unfolding w0 started_def desc_update by simp
  have one: "0 < N div bs \<longleftrightarrow> \<not> N < bs" using bs(2) by (simp add: div_greater_zero_iff not_less)
  show ?thesis
    unfolding write_virtio_dev_async_def d(1) bind.bind_lunit Let_def clip(1) upd bs(1)
    using clip(2) d(3) c bs(2,4) conv r rb
    by (cases "?i = 0"; cases "?i + N \<le> bs"; cases "N < bs") (simp_all add: one w_create_def w_alloc_def)
qed

text \<open>The task of a write with its request block, in the state \<open>s\<close> of \<open>w\<close> after its start.\<close>

definition write_begun where
  "write_begun rm L q k w s req \<longleftrightarrow> dev_ready q (Suc (Suc (Suc (Suc k)))) w \<and>
     building (w_sys w) s (s_next (w_sys w)) 4 [own_buffer req sizeof_req False] \<and>
     mem_same (s_blocks (w_sys w)) (m_of w) (s_mem s) \<and> rm_room rm L 5 (s_blocks s)"

lemma writing_okD:
  assumes "writing_ok rm ops els rcap serve disk L bs nblk w d"
  shows "rte_malloc_spec rm" "sizeof_resp \<le> L" "bs \<le> L" "geometry (a_dev w) bs nblk" "rm_room rm L 6 (s_blocks (w_sys w))"
    "write_io bs nblk d" "live_range (s_blocks (w_sys w)) (io_buf d) (io_nbytes d)"
    "0 < bs" "0 < io_nbytes d" "io_offset d + io_nbytes d \<le> bs * nblk" "io_nbytes d < 2 ^ 31" "nblk > 2 ^ 32 \<or> io_nbytes d div bs + 2 < 2 ^ 16"
    "sizeof_resp + io_nbytes d < 2 ^ 32" "io_offset d div bs < nblk"
proof -
  show all: "rte_malloc_spec rm" "sizeof_resp \<le> L" "bs \<le> L" "geometry (a_dev w) bs nblk" "rm_room rm L 6 (s_blocks (w_sys w))"
    "write_io bs nblk d" "live_range (s_blocks (w_sys w)) (io_buf d) (io_nbytes d)"
    using assms by (simp_all add: writing_ok_def del: rm_room.simps)
  show fit: "0 < bs" "0 < io_nbytes d" "io_offset d + io_nbytes d \<le> bs * nblk" "io_nbytes d < 2 ^ 31"
    "nblk > 2 ^ 32 \<or> io_nbytes d div bs + 2 < 2 ^ 16" "sizeof_resp + io_nbytes d < 2 ^ 32"
    using all(4,6) by (auto simp: geometry_def write_io_def)
  then have "io_offset d < bs * nblk" by simp
  then show "io_offset d div bs < nblk" by (simp add: less_mult_imp_div_less mult.commute)
qed

lemma progress_start:
  assumes "mem_same (s_blocks (w_sys w)) (m_of w) (m_of w1)" "a_descs w1 = a_descs (started w p (d\<lparr>io_retval := -1\<rparr>))" "w_srv w1 = w_srv w"
  shows "progress disk w p d (-1) 0 w1"
  using assms by (simp add: progress_def mem_read_def desc_update)

text \<open>A read of the block that a partial write starts or ends in is submitted.\<close>

lemma begun_read_block:
  assumes env: "writing_ok rm ops els rcap serve disk L bs nblk w d"
    and begun: "write_begun rm L q k (started w p (d\<lparr>io_retval := -1\<rparr>)) s req"
  obtains w1 resp pb where
    "submit_read_block rm (s_next (w_sys w)) req (io_offset d div bs) f g c p ((started w p (d\<lparr>io_retval := -1\<rparr>))\<lparr>w_sys := s\<rparr>) = Some (0, w1)"
    "pending q (Suc (Suc (Suc k))) w1 (s_next (w_sys w)) c p (cmd_bufs req resp [blk_buffer pb bs True f g])"
    "one_task w w1 (s_next (w_sys w)) (cmd_bufs req resp [blk_buffer pb bs True f g])"
    "request_ok (m_of w1) (own_buffer req sizeof_req False) False (io_offset d div bs) 1" "rm_room rm L 3 (s_blocks (w_sys w1))"
    "progress disk w p d (-1) 0 w1"
proof -
  let ?w0 = "started w p (d\<lparr>io_retval := -1\<rparr>)"
  note e = writing_okD [OF env]
  have geo: "geometry (a_dev ?w0) bs nblk" using e(4) by simp
  have b: "dev_ready q (Suc (Suc (Suc (Suc k)))) ?w0" "building (w_sys ?w0) s (s_next (w_sys ?w0)) 4 [own_buffer req sizeof_req False]"
    "mem_same (s_blocks (w_sys ?w0)) (m_of ?w0) (s_mem s)" "rm_room rm L 5 (s_blocks s)"
    using begun by (simp_all add: write_begun_def del: rm_room.simps)
  obtain w1 resp pb where w1:
    "submit_read_block rm (s_next (w_sys ?w0)) req (io_offset d div bs) f g c p (?w0\<lparr>w_sys := s\<rparr>) = Some (0, w1)"
    "pending q (Suc (Suc (Suc k))) w1 (s_next (w_sys ?w0)) c p (cmd_bufs req resp [blk_buffer pb bs True f g])"
    "one_task ?w0 w1 (s_next (w_sys ?w0)) (cmd_bufs req resp [blk_buffer pb bs True f g])"
    "request_ok (m_of w1) (own_buffer req sizeof_req False) False (io_offset d div bs) 1" "rm_room rm L 3 (s_blocks (w_sys w1))"
    "mem_same (s_blocks (w_sys ?w0)) (s_mem s) (m_of w1)" "a_descs w1 = a_descs ?w0" "w_srv w1 = w_srv ?w0"
    by (rule submit_read_block_ok [OF b(1,2) e(1) b(4) e(2,3) geo e(14)])
  have "progress disk w p d (-1) 0 w1"
    by (rule progress_start) (use mem_same_trans [OF b(3) w1(6)] w1(7,8) in simp_all)
  with w1 show ?thesis by (intro that [of w1 resp pb]) (simp_all del: rm_room.simps)
qed

text \<open>The three continuations, each run to its end.\<close>

lemma begun_first:
  assumes env: "writing_ok rm ops els rcap serve disk L bs nblk w d"
    and begun: "write_begun rm L q k (started w p (d\<lparr>io_retval := -1\<rparr>)) s req" and off: "io_offset d mod bs \<noteq> 0"
  shows "\<exists>w1 j w'. submit_read_block rm (s_next (w_sys w)) req (io_offset d div bs) (io_offset d mod bs)
      (io_offset d mod bs + first_bytes bs (io_offset d) (io_nbytes d)) blk_read_first_block_done p
      ((started w p (d\<lparr>io_retval := -1\<rparr>))\<lparr>w_sys := s\<rparr>) = Some (0, w1) \<and> j \<le> 4 \<and>
    poll_rounds (dev_callbacks rm ops) serve (Suc (Suc f)) j w1 = Some w' \<and> write_over els disk q k w p d w'"
proof -
  let ?i = "io_offset d mod bs" and ?r = "first_bytes bs (io_offset d) (io_nbytes d)"
  obtain w1 resp pb where w1:
    "submit_read_block rm (s_next (w_sys w)) req (io_offset d div bs) ?i (?i + ?r) blk_read_first_block_done p ((started w p (d\<lparr>io_retval := -1\<rparr>))\<lparr>w_sys := s\<rparr>) = Some (0, w1)"
    "pending q (Suc (Suc (Suc k))) w1 (s_next (w_sys w)) blk_read_first_block_done p (cmd_bufs req resp [blk_buffer pb bs True ?i (?i + ?r)])"
    "one_task w w1 (s_next (w_sys w)) (cmd_bufs req resp [blk_buffer pb bs True ?i (?i + ?r)])"
    "request_ok (m_of w1) (own_buffer req sizeof_req False) False (io_offset d div bs) 1" "rm_room rm L 3 (s_blocks (w_sys w1))"
    "progress disk w p d (-1) 0 w1"
    by (rule begun_read_block [OF env begun])
  from read_first_rounds [OF env w1(6) refl off refl w1(2,3,5,4)] w1(1) show ?thesis by blast
qed

lemma begun_last:
  assumes env: "writing_ok rm ops els rcap serve disk L bs nblk w d"
    and begun: "write_begun rm L q k (started w p (d\<lparr>io_retval := -1\<rparr>)) s req" and off: "io_offset d mod bs = 0" "io_nbytes d div bs = 0"
  shows "\<exists>w1 j w'. submit_read_block rm (s_next (w_sys w)) req (io_offset d div bs) 0 (io_nbytes d) blk_read_last_block_done p
      ((started w p (d\<lparr>io_retval := -1\<rparr>))\<lparr>w_sys := s\<rparr>) = Some (0, w1) \<and> j \<le> 4 \<and>
    poll_rounds (dev_callbacks rm ops) serve (Suc (Suc f)) j w1 = Some w' \<and> write_over els disk q k w p d w'"
proof -
  let ?n = "io_nbytes d" and ?off = "io_offset d"
  note e = writing_okD [OF env]
  have eq: "0 + ?n = ?n" "(-1 :: int) = int 0 \<or> (-1 :: int) < 0 \<and> (0 :: nat) = 0" "?off div bs * bs = ?off + 0" "?n < bs"
    using off e(8) by (auto simp: div_eq_0_iff)
  obtain w1 resp pb where w1:
    "submit_read_block rm (s_next (w_sys w)) req (?off div bs) 0 ?n blk_read_last_block_done p ((started w p (d\<lparr>io_retval := -1\<rparr>))\<lparr>w_sys := s\<rparr>) = Some (0, w1)"
    "pending q (Suc (Suc (Suc k))) w1 (s_next (w_sys w)) blk_read_last_block_done p (cmd_bufs req resp [blk_buffer pb bs True 0 ?n])"
    "one_task w w1 (s_next (w_sys w)) (cmd_bufs req resp [blk_buffer pb bs True 0 ?n])"
    "request_ok (m_of w1) (own_buffer req sizeof_req False) False (?off div bs) 1" "rm_room rm L 3 (s_blocks (w_sys w1))"
    "progress disk w p d (-1) 0 w1"
    by (rule begun_read_block [OF env begun])
  obtain w' where "poll_rounds (dev_callbacks rm ops) serve (Suc (Suc f)) 2 w1 = Some w'" "write_over els disk q (Suc (Suc k)) w p d w'"
    by (rule read_last_rounds [OF env w1(6,2,3,5,4) e(14) eq])
  with w1(1) write_over_less [OF write_over_less] show ?thesis by (intro exI [of _ w1] exI [of _ 2] exI [of _ w']) (simp del: poll_rounds.simps)
qed

text \<open>The whole blocks of an aligned write: their number, their size and their place.\<close>

lemma aligned_blocks:
  assumes env: "writing_ok rm ops els rcap serve disk L bs nblk w d" and off: "io_offset d mod bs = 0" "io_nbytes d div bs > 0"
    and c: "c = io_nbytes d div bs"
  shows "c * bs \<le> io_nbytes d" "io_nbytes d - c * bs < bs" "io_offset d div bs * bs = io_offset d" "io_offset d div bs + c \<le> nblk"
    "rw_fits (a_dev w) (io_offset d div bs) c" "c * bs < 2 ^ 31" "live_range (s_blocks (w_sys w)) (io_buf d) (c * bs)"
    "(io_offset d + c * bs) mod bs = 0"
proof -
  let ?n = "io_nbytes d" and ?off = "io_offset d"
  note e = writing_okD [OF env]
  show cb: "c * bs \<le> ?n" "?n - c * bs < bs" using e(8) by (simp_all add: c minus_div_mult_eq_mod)
  show blk_off: "?off div bs * bs = ?off" using off(1) by (metis add.right_neutral div_mult_mod_eq)
  have sum: "?off + c * bs = (?off div bs + c) * bs" unfolding distrib_right blk_off ..
  show "(?off + c * bs) mod bs = 0" unfolding sum by simp
  have "(?off div bs + c) * bs \<le> nblk * bs" using sum cb(1) e(10) mult.commute [of bs nblk] by linarith
  then show blk: "?off div bs + c \<le> nblk" using e(8) by simp
  have sz: "sizeof_resp + c * bs < 2 ^ 32" using e(13) cb(1) by linarith
  show "rw_fits (a_dev w) (?off div bs) c" by (rule rw_fits_block [OF e(4) blk _ _ sz]) (use off(2) e(12) c in auto)
  show "c * bs < 2 ^ 31" using cb(1) e(11) by linarith
  show "live_range (s_blocks (w_sys w)) (io_buf d) (c * bs)" using live_range_sub [OF e(7)] cb(1) by simp
qed

lemma begun_whole:
  assumes env: "writing_ok rm ops els rcap serve disk L bs nblk w d"
    and begun: "write_begun rm L q k (started w p (d\<lparr>io_retval := -1\<rparr>)) s req" and off: "io_offset d mod bs = 0" "io_nbytes d div bs > 0"
  shows "\<exists>w1 j w'. submit_write_blocks rm (s_next (w_sys w)) req (io_offset d div bs) (io_nbytes d div bs) (io_buf d) p
      ((started w p (d\<lparr>io_retval := -1\<rparr>))\<lparr>w_sys := s\<rparr>) = Some (0, w1) \<and> j \<le> 4 \<and>
    poll_rounds (dev_callbacks rm ops) serve (Suc (Suc f)) j w1 = Some w' \<and> write_over els disk q k w p d w'"
proof -
  let ?w0 = "started w p (d\<lparr>io_retval := -1\<rparr>)" and ?off = "io_offset d" and ?c = "io_nbytes d div bs"
  let ?data = "[user_buffer (io_buf d) (?c * bs) False]"
  note e = writing_okD [OF env] and al = aligned_blocks [OF env off refl]
  have geo: "geometry (a_dev ?w0) bs nblk" and fit: "rw_fits (a_dev ?w0) (?off div bs) ?c"
    and lv: "live_range (s_blocks (w_sys ?w0)) (io_buf d) (?c * bs)" using e(4) al(5,7) by simp_all
  have b: "dev_ready q (Suc (Suc (Suc (Suc k)))) ?w0" "building (w_sys ?w0) s (s_next (w_sys ?w0)) 4 [own_buffer req sizeof_req False]"
    "mem_same (s_blocks (w_sys ?w0)) (m_of ?w0) (s_mem s)" "rm_room rm L 5 (s_blocks s)"
    using begun by (simp_all add: write_begun_def del: rm_room.simps)
  have room1: "rm_room rm L 1 (s_blocks s)" by (rule rm_room_le [OF b(4)]) simp
  obtain w1 resp where w1: "submit_write_blocks rm (s_next (w_sys ?w0)) req (?off div bs) ?c (io_buf d) p (?w0\<lparr>w_sys := s\<rparr>) = Some (0, w1)"
    "pending q (Suc (Suc (Suc k))) w1 (s_next (w_sys ?w0)) blk_write_full_blocks_done p (write_cmd req resp ?data)"
    "one_task ?w0 w1 (s_next (w_sys ?w0)) (write_cmd req resp ?data)" "request_ok (m_of w1) (own_buffer req sizeof_req False) True (?off div bs) ?c"
    "gathered (m_of w1) ?data = mem_read (m_of ?w0) (io_buf d) (?c * bs)" "mem_same (s_blocks (w_sys ?w0)) (m_of ?w0) (m_of w1)"
    "a_descs w1 = a_descs ?w0" "w_srv w1 = w_srv ?w0"
    by (rule submit_write_blocks_ok [OF b(1,2) e(1) room1 e(2) b(3) geo fit al(6) lv])
  have pr: "progress disk w p d (-1) 0 w1" by (rule progress_start) (use w1(6-8) in simp_all)
  have one: "one_task w w1 (s_next (w_sys ?w0)) (write_cmd req resp ?data)" using w1(3) by simp
  have dat: "data_ok w ?data (?c * bs)" "\<forall>b \<in> set ?data. \<not> vb_response b" "?data \<noteq> []" "written_bytes (map Some ?data) 0 = Some (?c * bs)"
    using al(6,7) by (simp_all add: data_ok_def size_sub_id size_add_id)
  have patch: "disk_write (?off div bs * bs) (gathered (m_of w1) ?data) (disk (w_srv w1)) =
      disk_write ?off (mem_read (m_of w) (io_buf d) (?c * bs)) (disk (w_srv w1))" using w1(5) al(3) by simp
  from full_blocks_rounds [OF env pr w1(2) one w1(4) al(4) dat al(1,2) impI [OF al(8)] patch] obtain j w' where "j \<le> 3"
    "poll_rounds (dev_callbacks rm ops) serve (Suc (Suc f)) j w1 = Some w'" "write_over els disk q (Suc k) w p d w'" by blast
  with w1(1) write_over_less [of els disk q k w p d w'] show ?thesis
    by (intro exI [of _ w1] exI [of _ j] exI [of _ w']) (simp del: poll_rounds.simps)
qed

lemma write_async_ok:
  assumes env: "writing_ok rm ops els rcap serve disk L bs nblk w d" and d: "a_descs w p = Some d" and ready: "dev_ready q (4 + k) w"
  shows "\<exists>w1 j w'. write_virtio_dev_async rm p w = Some (0, w1) \<and> j \<le> 4 \<and>
    poll_rounds (dev_callbacks rm ops) serve (Suc (Suc f)) j w1 = Some w' \<and> write_over els disk q k w p d w'"
proof -
  let ?w0 = "started w p (d\<lparr>io_retval := -1\<rparr>)" and ?off = "io_offset d" and ?n = "io_nbytes d"
  note e = writing_okD [OF env]
  have ready0: "dev_ready q (Suc (Suc (Suc (Suc k)))) ?w0" and room: "rm_room rm L 6 (s_blocks (w_sys ?w0))"
    using ready e(5) by (simp_all add: numeral_eq_Suc del: rm_room.simps)
  obtain s2 s3 req where c: "virtio_task_create 4 (w_sys ?w0) = (s_next (w_sys ?w0), s2)" "s_next (w_sys ?w0) \<noteq> NULL"
    "virtio_task_alloc_buf rm (s_next (w_sys ?w0)) sizeof_req False True s2 = Some (req, s3)" "req \<noteq> NULL"
    "building (w_sys ?w0) s3 (s_next (w_sys ?w0)) 4 [own_buffer req sizeof_req False]" "mem_same (s_blocks (w_sys ?w0)) (m_of ?w0) (s_mem s3)"
    "rm_room rm L 5 (s_blocks s3)"
    by (rule write_start [OF ready0 e(1) room e(2)])
  then have begun: "write_begun rm L q k ?w0 s3 req" using ready0 by (simp add: write_begun_def del: rm_room.simps)
  have "bs * nblk < 2 ^ 64" using e(4) by (simp add: geometry_def)
  then have pos: "?off \<le> bs * nblk" "?off + ?n < 2 ^ 64" "?n = clip_range (bs * nblk) ?off ?n" using e(10) by (auto simp: clip_range_def)
  have run: "write_virtio_dev_async rm p w =
    (if ?off mod bs \<noteq> 0 then submit_read_block rm (s_next (w_sys w)) req (?off div bs) (?off mod bs)
         (?off mod bs + first_bytes bs ?off ?n) blk_read_first_block_done p (?w0\<lparr>w_sys := s3\<rparr>)
     else if ?n div bs > 0 then submit_write_blocks rm (s_next (w_sys w)) req (?off div bs) (?n div bs) (io_buf d) p (?w0\<lparr>w_sys := s3\<rparr>)
     else submit_read_block rm (s_next (w_sys w)) req (?off div bs) 0 ?n blk_read_last_block_done p (?w0\<lparr>w_sys := s3\<rparr>))"
    using write_async_cases [OF e(4) d pos(1) e(9) pos(2,3) e(11) refl c(1-4)] by simp
  consider "?off mod bs \<noteq> 0" | "?off mod bs = 0" "?n div bs > 0" | "?off mod bs = 0" "?n div bs = 0" by linarith
  then show ?thesis
  proof cases
    case 1 then show ?thesis using begun_first [OF env begun 1, of f] run by simp
  next
    case 2 then show ?thesis using begun_whole [OF env begun 2, of f] run by simp
  next
    case 3 then show ?thesis using begun_last [OF env begun 3, of f] run by simp
  qed
qed

end
