(* ===== verification/Async_Theorems.thy ===== *)
theory Async_Theorems
  imports Async_Submit Virtio_Theorems
begin

text \<open>What the asynchronous interface of the device guarantees, with concrete instances.\<close>

section \<open>A device for the instances\<close>

text \<open>An output ring of at most \<open>room\<close> pointers, kept as a list.\<close>

definition list_ring :: "nat \<Rightarrow> ptr list rte_ring_ops" where
  "list_ring room = \<lparr>rte_ring_sp_enqueue = (\<lambda>r x. if length r < room then (0, r @ [x]) else (-105, r)),
     rte_ring_mc_dequeue = (\<lambda>r. case r of [] \<Rightarrow> (-2, 0, []) | x # xs \<Rightarrow> (0, x, xs)),
     rte_ring_count = length\<rparr>"

lemma list_ring_spec: "rte_ring_spec (list_ring room) id room"
  by (simp add: rte_ring_spec_def list_ring_def)

definition io_request :: "int \<Rightarrow> nat \<Rightarrow> nat \<Rightarrow> async_io_desc" where
  "io_request ty off n = \<lparr>io_reserved = 0, io_type = ty, io_buf = 65600, io_offset = off, io_nbytes = n, io_user_ctx = 0, io_retval = 0\<rparr>"

text \<open>The device of eight blocks with four requests: a read, a write, a write that ends behind the device and a read of no bytes.\<close>

definition example_async :: "(nat \<Rightarrow> u8, ptr list) aworld" where
  "example_async = \<lparr>w_ring = example_ring, w_sys = \<lparr>s_mem = (\<lambda>a. of_nat (a div 2)), s_blocks = [(65536, 8192)], s_tasks = Map.empty,
       s_next = 200, s_nalloc = 0, s_oom = (\<lambda>_. False), s_efd = [3 \<mapsto> 0, 4 \<mapsto> 0, 9 \<mapsto> 0]\<rparr>,
     w_poller = example_poller, w_woken = [], w_srv = of_nat, a_self = 900, a_dev = example_dev,
     a_descs = [800 \<mapsto> io_request VIRTIO_TYPE_READ 700 1000, 801 \<mapsto> io_request VIRTIO_TYPE_WRITE 700 1000,
       802 \<mapsto> io_request VIRTIO_TYPE_WRITE 512 5120, 803 \<mapsto> io_request VIRTIO_TYPE_READ 0 0],
     a_outring = [], a_outfd = 9, a_event_high_wm = 0\<rparr>"

lemma example_async_ready: "k \<le> 100 \<Longrightarrow> async_ready bump_malloc (list_ring 4) id 4 (disk_server 512) id 512 8 empty_queue k example_async"
proof -
  assume k: "k \<le> 100"
  have "rm_room bump_malloc (max sizeof_resp 512) 6 [(65536, 8192)]" by (rule bump_room) (simp add: sizeof_resp_def)
  moreover have "dev_ready empty_queue k example_async"
    using example_rep k by (simp add: dev_ready_def example_async_def kick_room_def example_ring_def)
  moreover have "outfd_room example_async" by (simp add: outfd_room_def example_async_def example_ring_def)
  ultimately show ?thesis using list_ring_spec [of 4] example_geometry
    by (simp add: async_ready_def bump_malloc_spec disk_server_ok example_async_def del: rm_room.simps)
qed

lemma example_async_io:
  "async_io example_dev 512 8 700 1000" "write_io 512 8 (io_request VIRTIO_TYPE_WRITE 700 1000)"
  using example_geometry by (simp_all add: async_io_def write_io_def io_request_def clip_range_def sizeof_resp_def)


section \<open>Reads and writes\<close>

lemma async_ready_writing:
  assumes "async_ready rm ops els rcap serve disk bs nblk q k w" "write_io bs nblk d" "live_range (s_blocks (w_sys w)) (io_buf d) (io_nbytes d)"
  shows "writing_ok rm ops els rcap serve disk (max sizeof_resp bs) bs nblk w d"
  using assms by (simp add: async_ready_def writing_ok_def out_ready_def del: rm_room.simps)

text \<open>
  C27. An asynchronous read: \<open>virtio_submit\<close> returns 0, and when the server has completed the command one pass of
  the poller puts the descriptor into the output ring with the number of bytes (cut at the end of the device),
  leaves exactly the device's bytes in the caller's buffer, and gives back the blocks and the task of the
  request; the device and the rest of the caller's memory are unchanged.
\<close>

theorem async_read_correct:
  assumes "async_ready rm ops els rcap serve disk bs nblk q (Suc k) w" "async_io (a_dev w) bs nblk (io_offset d) (io_nbytes d)"
    "a_descs w p = Some d" "io_type d = VIRTIO_TYPE_READ" "N = min (io_nbytes d) (bs * nblk - io_offset d)"
    "live_range (s_blocks (w_sys w)) (io_buf d) N"
  shows "\<exists>w1 w2. virtio_submit rm p w = Some (0, w1) \<and>
    drain (Suc (Suc f)) (dev_callbacks rm ops) 0 (run_server serve w1) = Some (1, w2) \<and>
    els (a_outring w2) = els (a_outring w) @ [p] \<and>
    a_descs w2 = (a_descs w)(p \<mapsto> d\<lparr>io_reserved := a_self w, io_retval := int N\<rparr>) \<and>
    mem_read (s_mem (w_sys w2)) (io_buf d) N = map (disk (w_srv w)) [io_offset d..<io_offset d + N] \<and>
    mem_kept (s_blocks (w_sys w)) (io_buf d) N (s_mem (w_sys w)) (s_mem (w_sys w2)) \<and> disk (w_srv w2) = disk (w_srv w) \<and>
    s_blocks (w_sys w2) = s_blocks (w_sys w) \<and> s_tasks (w_sys w2) = s_tasks (w_sys w)"
proof -
  have N: "N = clip_range (bs * nblk) (io_offset d) (io_nbytes d)" using assms(5) by (simp add: clip_range_def)
  obtain w1 w2 where "read_virtio_dev_async rm p w = Some (0, w1)"
    "drain (Suc (Suc f)) (dev_callbacks rm ops) 0 (run_server serve w1) = Some (1, w2)"
    "els (a_outring w2) = els (a_outring w) @ [p]" "a_descs w2 = (a_descs w)(p \<mapsto> d\<lparr>io_reserved := a_self w, io_retval := int N\<rparr>)"
    "read_xfer disk (io_buf d) (io_offset d) N w w2"
    by (rule read_async_ok [OF assms(1-3) refl refl assms(6) N])
  then show ?thesis using assms(3,4) by (intro exI [of _ w1] exI [of _ w2]) (simp add: virtio_submit_def read_xfer_def disk_read_def)
qed

theorem async_read_correct_witness:
  "\<exists>w1 w2. virtio_submit bump_malloc 800 example_async = Some (0, w1) \<and>
    drain (Suc (Suc 0)) (dev_callbacks bump_malloc (list_ring 4)) 0 (run_server (disk_server 512) w1) = Some (1, w2) \<and>
    id (a_outring w2) = id (a_outring example_async) @ [800] \<and>
    a_descs w2 = (a_descs example_async)(800 \<mapsto> (io_request VIRTIO_TYPE_READ 700 1000)\<lparr>io_reserved := a_self example_async, io_retval := int 1000\<rparr>) \<and>
    mem_read (s_mem (w_sys w2)) (io_buf (io_request VIRTIO_TYPE_READ 700 1000)) 1000 =
      map (id (w_srv example_async)) [io_offset (io_request VIRTIO_TYPE_READ 700 1000)..<io_offset (io_request VIRTIO_TYPE_READ 700 1000) + 1000] \<and>
    mem_kept (s_blocks (w_sys example_async)) (io_buf (io_request VIRTIO_TYPE_READ 700 1000)) 1000 (s_mem (w_sys example_async)) (s_mem (w_sys w2)) \<and>
    id (w_srv w2) = id (w_srv example_async) \<and>
    s_blocks (w_sys w2) = s_blocks (w_sys example_async) \<and> s_tasks (w_sys w2) = s_tasks (w_sys example_async)"
  by (rule async_read_correct [OF example_async_ready [of "Suc 0"]])
    (use example_async_io in \<open>simp_all add: example_async_def io_request_def live_range_def\<close>)

text \<open>
  C28. An asynchronous write that ends on the device: after at most four rounds of server and poller the
  descriptor is in the output ring with the number of bytes, the device holds the caller's bytes in the
  range and is unchanged elsewhere, blocks and tasks are given back and the caller's memory is unchanged.
\<close>

theorem async_write_completes:
  assumes "async_ready rm ops els rcap serve disk bs nblk q (4 + k) w" "write_io bs nblk d"
    "a_descs w p = Some d" "io_type d = VIRTIO_TYPE_WRITE" "live_range (s_blocks (w_sys w)) (io_buf d) (io_nbytes d)"
  shows "\<exists>w1 j w'. virtio_submit rm p w = Some (0, w1) \<and> j \<le> 4 \<and>
    poll_rounds (dev_callbacks rm ops) serve (Suc (Suc f)) j w1 = Some w' \<and>
    els (a_outring w') = els (a_outring w) @ [p] \<and>
    a_descs w' = (a_descs w)(p \<mapsto> d\<lparr>io_reserved := a_self w, io_retval := int (io_nbytes d)\<rparr>) \<and>
    (\<forall>i. disk (w_srv w') i = (if io_offset d \<le> i \<and> i < io_offset d + io_nbytes d then s_mem (w_sys w) (io_buf d + (i - io_offset d))
       else disk (w_srv w) i)) \<and>
    mem_same (s_blocks (w_sys w)) (s_mem (w_sys w)) (s_mem (w_sys w')) \<and>
    s_blocks (w_sys w') = s_blocks (w_sys w) \<and> s_tasks (w_sys w') = s_tasks (w_sys w)"
proof -
  have ready: "dev_ready q (4 + k) w" using assms(1) by (simp add: async_ready_def)
  from write_async_ok [OF async_ready_writing [OF assms(1,2,5)] assms(3) ready, of f]
  obtain w1 j w' where "write_virtio_dev_async rm p w = Some (0, w1)" "j \<le> 4"
    "poll_rounds (dev_callbacks rm ops) serve (Suc (Suc f)) j w1 = Some w'" "write_over els disk q k w p d w'" by blast
  then show ?thesis using assms(3,4)
    by (intro exI [of _ w1] exI [of _ j] exI [of _ w'])
      (simp add: virtio_submit_def write_over_def finished_def progress_def VIRTIO_TYPE_READ_def VIRTIO_TYPE_WRITE_def disk_write_mem_read
        del: poll_rounds.simps)
qed

theorem async_write_completes_witness:
  "\<exists>w1 j w'. virtio_submit bump_malloc 801 example_async = Some (0, w1) \<and> j \<le> 4 \<and>
    poll_rounds (dev_callbacks bump_malloc (list_ring 4)) (disk_server 512) (Suc (Suc 0)) j w1 = Some w' \<and>
    id (a_outring w') = id (a_outring example_async) @ [801] \<and>
    a_descs w' = (a_descs example_async)(801 \<mapsto> (io_request VIRTIO_TYPE_WRITE 700 1000)\<lparr>io_reserved := a_self example_async,
      io_retval := int (io_nbytes (io_request VIRTIO_TYPE_WRITE 700 1000))\<rparr>) \<and>
    (\<forall>i. id (w_srv w') i = (if io_offset (io_request VIRTIO_TYPE_WRITE 700 1000) \<le> i \<and>
        i < io_offset (io_request VIRTIO_TYPE_WRITE 700 1000) + io_nbytes (io_request VIRTIO_TYPE_WRITE 700 1000)
      then s_mem (w_sys example_async) (io_buf (io_request VIRTIO_TYPE_WRITE 700 1000) + (i - io_offset (io_request VIRTIO_TYPE_WRITE 700 1000)))
      else id (w_srv example_async) i)) \<and>
    mem_same (s_blocks (w_sys example_async)) (s_mem (w_sys example_async)) (s_mem (w_sys w')) \<and>
    s_blocks (w_sys w') = s_blocks (w_sys example_async) \<and> s_tasks (w_sys w') = s_tasks (w_sys example_async)"
  by (rule async_write_completes [OF example_async_ready [of "4 + 0"] example_async_io(2)])
    (simp_all add: example_async_def io_request_def live_range_def VIRTIO_TYPE_READ_def)


text \<open>
  C29. The asynchronous read and \<open>read_virtio_dev\<close> are equivalent: from the same state they yield the same number of
  bytes, the same bytes in the caller's buffer and the same contents of the device.
\<close>

theorem async_read_equals_sync:
  assumes "async_ready rm ops els rcap serve disk bs nblk q (3 + k) w" "async_io (a_dev w) bs nblk (io_offset d) (io_nbytes d)"
    "a_descs w p = Some d" "io_type d = VIRTIO_TYPE_READ" "N = min (io_nbytes d) (bs * nblk - io_offset d)"
    "live_range (s_blocks (w_sys w)) (io_buf d) N" "env_ok e" "e_rm e = rm" "e_serve e = serve"
  shows "\<exists>w1 w2 w3 d'. virtio_submit rm p w = Some (0, w1) \<and>
    drain (Suc (Suc f)) (dev_callbacks rm ops) 0 (run_server serve w1) = Some (1, w2) \<and> a_descs w2 p = Some d' \<and>
    read_virtio_dev e (a_dev w) (io_buf d) (io_offset d) (io_nbytes d) w = Some (io_retval d', w3) \<and>
    mem_read (s_mem (w_sys w2)) (io_buf d) N = mem_read (s_mem (w_sys w3)) (io_buf d) N \<and> disk (w_srv w2) = disk (w_srv w3)"
proof -
  have N: "N = clip_range (bs * nblk) (io_offset d) (io_nbytes d)" using assms(5) by (simp add: clip_range_def)
  have ready: "async_ready rm ops els rcap serve disk bs nblk q (Suc (2 + k)) w" using assms(1) by (simp add: numeral_eq_Suc)
  obtain w1 w2 where a: "read_virtio_dev_async rm p w = Some (0, w1)"
    "drain (Suc (Suc f)) (dev_callbacks rm ops) 0 (run_server serve w1) = Some (1, w2)"
    "els (a_outring w2) = els (a_outring w) @ [p]"
    "a_descs w2 = (a_descs w)(p \<mapsto> d\<lparr>io_reserved := a_self w, io_retval := int N\<rparr>)" "read_xfer disk (io_buf d) (io_offset d) N w w2"
    by (rule read_async_ok [OF ready assms(2,3) refl refl assms(6) N])
  have room: "rm_room rm (max sizeof_resp bs) 3 (s_blocks (w_sys w))"
    by (rule rm_room_le [of _ _ 6]) (use assms(1) in \<open>simp_all add: async_ready_def del: rm_room.simps\<close>)
  have sync: "sync_ready e (a_dev w) disk bs nblk q (3 + k) w" "byte_io (a_dev w) bs nblk (io_offset d) (io_nbytes d)"
    using assms(1,2,7-9) room by (auto simp: sync_ready_def async_ready_def byte_io_def async_io_def simp del: rm_room.simps)
  obtain w3 where "read_virtio_dev e (a_dev w) (io_buf d) (io_offset d) (io_nbytes d) w = Some (int N, w3)" "read_xfer disk (io_buf d) (io_offset d) N w w3"
    using read_bytes_ok [OF sync] assms(5,6) by metis
  with a assms(3,4) show ?thesis by (intro exI [of _ w1] exI [of _ w2] exI [of _ w3]) (simp add: virtio_submit_def read_xfer_def)
qed

definition example_async_env :: "(nat \<Rightarrow> u8, _) env" where
  "example_async_env = \<lparr>e_rm = bump_malloc, e_cbs = dev_callbacks bump_malloc (list_ring 4), e_serve = disk_server 512, e_fuel = 2, e_sarg = 500\<rparr>"

theorem async_read_equals_sync_witness:
  "\<exists>w1 w2 w3 d'. virtio_submit bump_malloc 800 example_async = Some (0, w1) \<and>
    drain (Suc (Suc 0)) (dev_callbacks bump_malloc (list_ring 4)) 0 (run_server (disk_server 512) w1) = Some (1, w2) \<and> a_descs w2 800 = Some d' \<and>
    read_virtio_dev example_async_env (a_dev example_async) (io_buf (io_request VIRTIO_TYPE_READ 700 1000))
      (io_offset (io_request VIRTIO_TYPE_READ 700 1000)) (io_nbytes (io_request VIRTIO_TYPE_READ 700 1000)) example_async = Some (io_retval d', w3) \<and>
    mem_read (s_mem (w_sys w2)) (io_buf (io_request VIRTIO_TYPE_READ 700 1000)) 1000 =
      mem_read (s_mem (w_sys w3)) (io_buf (io_request VIRTIO_TYPE_READ 700 1000)) 1000 \<and> id (w_srv w2) = id (w_srv w3)"
proof (rule async_read_equals_sync [OF example_async_ready [of "3 + 0"], where e = example_async_env])
  have "dev_callbacks bump_malloc (list_ring 4) vring_submit_sync_callback = sync_callback" by (intro ext) (simp add: dev_callbacks_def)
  then show "env_ok example_async_env" by (simp add: env_ok_def example_async_env_def bump_malloc_spec)
qed (use example_async_io in \<open>simp_all add: example_async_def io_request_def live_range_def example_async_env_def\<close>)

text \<open>
  C30. A write that starts on a block boundary and goes past the end of the device to a later block boundary is
  accepted by \<open>virtio_submit\<close> although it cannot be carried out: the completion of its first command compares the
  bytes written with the full length of the request, goes on to the last block and fails its assertion,
  which aborts the program.
\<close>

theorem async_write_past_end_aborts:
  assumes "async_ready rm ops els rcap serve disk bs nblk q (Suc k) w" "a_descs w p = Some d" "io_type d = VIRTIO_TYPE_WRITE"
    "io_offset d mod bs = 0" "io_offset d < bs * nblk" "bs * nblk < io_offset d + io_nbytes d" "io_offset d + io_nbytes d < 2 ^ 64"
    "(io_offset d + io_nbytes d) mod bs = 0" "sizeof_resp + (bs * nblk - io_offset d) < 2 ^ 31" "nblk > 2 ^ 32 \<or> nblk < 2 ^ 16"
    "live_range (s_blocks (w_sys w)) (io_buf d) (bs * nblk - io_offset d)"
  shows "\<exists>w1. virtio_submit rm p w = Some (0, w1) \<and> drain (Suc (Suc f)) (dev_callbacks rm ops) 0 (run_server serve w1) = None"
proof -
  let ?w0 = "started w p (d\<lparr>io_retval := -1\<rparr>)" and ?off = "io_offset d" and ?L = "max sizeof_resp bs"
  define c where "c = nblk - ?off div bs"
  have rm: "rte_malloc_spec rm" and srv: "scsi_server serve disk bs nblk" and geo: "geometry (a_dev w) bs nblk"
    and room: "rm_room rm ?L 6 (s_blocks (w_sys ?w0))" and ready: "dev_ready q (Suc k) ?w0"
    using assms(1) by (simp_all add: async_ready_def del: rm_room.simps)
  have bs: "0 < bs" "bs_of (a_dev w) = bs" "sizeof_resp \<le> ?L" using geo geometry_bs by (auto simp: geometry_def)
  have off: "?off div bs * bs = ?off" using assms(4) by (metis add.right_neutral div_mult_mod_eq)
  have blk: "?off div bs < nblk" using assms(5) bs(1) by (simp add: less_mult_imp_div_less mult.commute)
  have cN: "c * bs = bs * nblk - ?off" unfolding c_def diff_mult_distrib off by (simp add: mult.commute)
  have "sizeof_resp + c * bs < 2 ^ 31" using assms(9) cN by simp
  then have c: "0 < c" "?off div bs + c = nblk" "c * bs < 2 ^ 31" "sizeof_resp + c * bs < 2 ^ 32" "c * bs div bs = c"
    using blk bs(1) by (simp_all add: c_def)
  have fit: "rw_fits (a_dev w) (?off div bs) c" by (rule rw_fits_block [OF geo _ c(1) _ c(4)]) (use c(2) assms(10) in auto)
  have N: "c * bs = clip_range (bs * nblk) ?off (io_nbytes d)" using assms(6) unfolding cN by (simp add: clip_range_def)
  obtain s2 s3 req where t: "virtio_task_create 4 (w_sys ?w0) = (s_next (w_sys ?w0), s2)" "s_next (w_sys ?w0) \<noteq> NULL"
    "virtio_task_alloc_buf rm (s_next (w_sys ?w0)) sizeof_req False True s2 = Some (req, s3)" "req \<noteq> NULL"
    "building (w_sys ?w0) s3 (s_next (w_sys ?w0)) 4 [own_buffer req sizeof_req False]" "mem_same (s_blocks (w_sys ?w0)) (m_of ?w0) (s_mem s3)"
    "rm_room rm ?L 5 (s_blocks s3)"
    by (rule write_start [OF ready rm room bs(3)])
  have pos: "?off \<le> bs * nblk" "0 < io_nbytes d" using assms(5,6) by simp_all
  note start = write_async_cases [OF geo assms(2) pos assms(7) N c(3) refl t(1-4)]
  have room1: "rm_room rm ?L 1 (s_blocks s3)" by (rule rm_room_le [OF t(7)]) simp
  have pre: "geometry (a_dev ?w0) bs nblk" "rw_fits (a_dev ?w0) (?off div bs) c" "live_range (s_blocks (w_sys ?w0)) (io_buf d) (c * bs)"
    using geo fit assms(11) cN by simp_all
  let ?data = "[user_buffer (io_buf d) (c * bs) False]"
  obtain w1 resp where w1: "submit_write_blocks rm (s_next (w_sys ?w0)) req (?off div bs) c (io_buf d) p (?w0\<lparr>w_sys := s3\<rparr>) = Some (0, w1)"
    "pending q k w1 (s_next (w_sys ?w0)) blk_write_full_blocks_done p (write_cmd req resp ?data)"
    "one_task ?w0 w1 (s_next (w_sys ?w0)) (write_cmd req resp ?data)" "request_ok (m_of w1) (own_buffer req sizeof_req False) True (?off div bs) c"
    "a_descs w1 = a_descs ?w0"
    by (rule submit_write_blocks_ok [OF ready t(5) rm room1 bs(3) t(6) pre(1,2) c(3) pre(3)])
  have dat: "?off div bs + c \<le> nblk" "data_ok w ?data (c * bs)" "\<forall>b \<in> set ?data. \<not> vb_response b" "?data \<noteq> []"
    "written_bytes (map Some ?data) 0 = Some (c * bs)"
    using c(2,3) pre(3) by (simp_all add: data_ok_def size_sub_id size_add_id)
  have one: "one_task w w1 (s_next (w_sys ?w0)) (write_cmd req resp ?data)" using w1(3) by simp
  let ?cbs = "dev_callbacks rm ops" and ?t = "s_next (w_sys ?w0)"
  obtain w2 l where w2: "drain (Suc (Suc f)) ?cbs 0 (run_server serve w1) = Option.bind (?cbs blk_write_full_blocks_done ?t p w2) (drain (Suc f) ?cbs (0 + 1))"
    "io_fetched q k w w2 ?t (write_cmd req resp ?data) l" "resp_good (m_of w2) resp" "resp \<noteq> NULL" "a_descs w2 = a_descs w1"
    by (rule write_stage [OF w1(2) one w1(4) dat(1-3) srv])
  let ?d = "d\<lparr>io_retval := -1, io_reserved := a_self w\<rparr>"
  have cbk: "at_callback rm ?L bs nblk q k w w2 ?t p ?d (write_cmd req resp ?data)"
    using rm geo w2(2,5) w1(5) by (auto simp: at_callback_def)
  have "blk_write_full_blocks_done_cb rm ops ?t p w2 = None"
    by (rule full_blocks_aborts [OF cbk w2(3,4) dat(4,5)]) (use assms(5-8) room cN in \<open>auto simp del: rm_room.simps\<close>)
  then have "drain (Suc (Suc f)) ?cbs 0 (run_server serve w1) = None" using w2(1) by (simp add: dev_callbacks_def del: drain.simps)
  moreover have "virtio_submit rm p w = Some (0, w1)"
    using start w1(1) c(1,5) assms(2-4) by (simp add: virtio_submit_def VIRTIO_TYPE_READ_def VIRTIO_TYPE_WRITE_def)
  ultimately show ?thesis by blast
qed


theorem async_write_past_end_aborts_witness:
  "\<exists>w1. virtio_submit bump_malloc 802 example_async = Some (0, w1) \<and>
    drain (Suc (Suc 0)) (dev_callbacks bump_malloc (list_ring 4)) 0 (run_server (disk_server 512) w1) = None"
  by (rule async_write_past_end_aborts [OF example_async_ready [of "Suc 0"], where d = "io_request VIRTIO_TYPE_WRITE 512 5120"])
    (simp_all add: example_async_def io_request_def live_range_def sizeof_resp_def)

section \<open>Results\<close>

definition rc_ok :: "(int \<times> 'w) option \<Rightarrow> bool" where
  "rc_ok m \<longleftrightarrow> (\<forall>rc w'. m = Some (rc, w') \<longrightarrow> rc = 0 \<or> rc = -1)"

lemma rc_ok_intros:
  "rc_ok (Some (0, w))" "rc_ok (Some (-1, w))" "rc_ok (w_destroy_return t (-1) w1)"
  "(\<And>x. rc_ok (f x)) \<Longrightarrow> rc_ok (Option.bind m f)" "rc_ok m1 \<Longrightarrow> rc_ok m2 \<Longrightarrow> rc_ok (if b then m1 else m2)"
  "(\<And>x y. rc_ok (g x y)) \<Longrightarrow> rc_ok (case pr of (x, y) \<Rightarrow> g x y)"
  by (auto simp: rc_ok_def w_destroy_return_def bind_eq_Some_conv split: prod.splits)

lemma submit_rc:
  "rc_ok (submit_or_destroy t c p w)" "rc_ok (submit_read_block rm t req lba f g c p w)" "rc_ok (submit_write_blocks rm t req lba n buf p w)"
  unfolding submit_read_block_def submit_write_blocks_def submit_or_destroy_def Let_def by (intro rc_ok_intros)+

lemma async_rc: "rc_ok (read_virtio_dev_async rm p w)" "rc_ok (write_virtio_dev_async rm p w)"
  unfolding read_virtio_dev_async_def write_virtio_dev_async_def Let_def by (intro rc_ok_intros submit_rc)+

text \<open>
  C31. The result of \<open>virtio_submit\<close> is 0 or -1, whatever the request, the state of the ring and the outcome of the
  allocations. A request of an unknown type or behind the device gets -1 and one of no bytes gets 0; in these cases
  nothing is changed, so nothing is ever put into the output ring for a request of no bytes that was accepted.
\<close>

theorem virtio_submit_result:
  assumes "virtio_submit rm p w = Some (rc, w')"
  shows "(rc = 0 \<or> rc = -1) \<and> (case a_descs w p of None \<Rightarrow> False | Some d \<Rightarrow>
    if io_type d = VIRTIO_TYPE_READ \<or> io_type d = VIRTIO_TYPE_WRITE
    then if io_offset d > cap (a_dev w) then rc = -1 \<and> w' = w else if io_nbytes d = 0 then rc = 0 \<and> w' = w else True
    else rc = -1 \<and> w' = w)"
proof -
  obtain d where d: "a_descs w p = Some d" using assms by (cases "a_descs w p") (simp_all add: virtio_submit_def)
  have "rc_ok (virtio_submit rm p w)" unfolding virtio_submit_def by (intro rc_ok_intros async_rc)
  with assms have "rc = 0 \<or> rc = -1" by (simp add: rc_ok_def)
  moreover have "read_virtio_dev_async rm p w = (if io_offset d > cap (a_dev w) then Some (-1, w) else Some (0, w))"
    "write_virtio_dev_async rm p w = (if io_offset d > cap (a_dev w) then Some (-1, w) else Some (0, w))"
    if "io_offset d > cap (a_dev w) \<or> io_nbytes d = 0"
    using that d by (auto simp: read_virtio_dev_async_def write_virtio_dev_async_def)
  ultimately show ?thesis using assms d by (auto simp: virtio_submit_def split: if_splits)
qed

theorem virtio_submit_result_witness:
  "virtio_submit bump_malloc 803 example_async = Some (0, example_async) \<and> (0 = (0 :: int) \<or> 0 = (-1 :: int))"
proof -
  have "virtio_submit bump_malloc 803 example_async = Some (0, example_async)"
    by (simp add: virtio_submit_def read_virtio_dev_async_def example_async_def io_request_def example_dev_def)
  from virtio_submit_result [OF this] this show ?thesis by simp
qed


section \<open>Waiting for completions\<close>

text \<open>One turn of the loop of \<open>virtio_completed\<close>: what the others do, then the poll.\<close>

definition wait_step :: "('d, 'r, 'z) aworld_scheme wait_input \<Rightarrow> ('d, 'r, 'z) aworld_scheme \<Rightarrow> ('d, 'r, 'z) aworld_scheme" where
  "wait_step i w = (let w1 = wi_others i w in w1\<lparr>w_sys := poll_outfd (wi_poll_fails i) (a_outfd w1) (w_sys w1)\<rparr>)"

definition out_count :: "'r rte_ring_ops \<Rightarrow> ('d, 'r, 'z) aworld_scheme \<Rightarrow> int" where
  "out_count ops w = to_int (int (rte_ring_count ops (a_outring w)))"

lemma completed_loop_step:
  "completed_loop ops mc timeout ins tt n w =
     (if timeout \<ge> 0 \<and> tt \<ge> timeout then Some (n, w)
      else case ins of [] \<Rightarrow> None
      | i # is \<Rightarrow> (if out_count ops (wait_step i w) < mc
          then completed_loop ops mc timeout is (to_int (tt + 100)) (out_count ops (wait_step i w)) (wait_step i w)
          else Some (out_count ops (wait_step i w), (wait_step i w)\<lparr>a_event_high_wm := 0\<rparr>)))"
  by (subst completed_loop.simps) (simp add: wait_step_def out_count_def Let_def split: list.split)

lemma out_count_wm [simp]: "out_count ops (w\<lparr>a_event_high_wm := v\<rparr>) = out_count ops w"
  by (simp add: out_count_def)

text \<open>The sum of the delays is a multiple of 100; below the largest one that an \<open>int\<close> holds it does not wrap around.\<close>

lemma total_time_next:
  assumes "0 \<le> tt" "100 dvd tt" "tt < timeout" "timeout \<le> 2147483600"
  shows "to_int (tt + 100) = tt + 100"
proof -
  have "tt + 100 \<le> 2147483600" using assms(2-4) by (auto elim!: dvdE)
  with assms(1) show ?thesis by (simp add: to_int_def)
qed

lemma completed_loop_returns:
  assumes "0 \<le> timeout" "timeout \<le> tt + 100 * int (length ins)" "n = out_count ops w" "n < mc" "0 \<le> tt" "100 dvd tt" "timeout \<le> 2147483600"
  shows "\<exists>n' w'. completed_loop ops mc timeout ins tt n w = Some (n', w') \<and> n' = out_count ops w' \<and>
    (mc \<le> n' \<and> a_event_high_wm w' = 0 \<or>
     n' < mc \<and> (\<exists>k. w' = fold wait_step (take k ins) w \<and> timeout \<le> tt + 100 * int k))"
  using assms
proof (induction ins arbitrary: tt n w)
  case Nil
  then show ?case by (subst completed_loop_step) (auto intro: exI [of _ 0])
next
  case (Cons i "is")
  show ?case
  proof (cases "timeout \<le> tt")
    case True
    then show ?thesis using Cons.prems by (subst completed_loop_step) (auto intro!: exI [of _ 0])
  next
    case False
    show ?thesis
    proof (cases "out_count ops (wait_step i w) < mc")
      case True
      have sum: "to_int (tt + 100) = tt + 100" using total_time_next [OF Cons.prems(5,6) _ Cons.prems(7)] False by simp
      have "100 dvd tt + 100" using Cons.prems(6) by simp
      from Cons.IH [OF Cons.prems(1) _ refl True _ this Cons.prems(7)] Cons.prems(2,5)
      obtain n' w' where r: "completed_loop ops mc timeout is (tt + 100) (out_count ops (wait_step i w)) (wait_step i w) = Some (n', w')"
        "n' = out_count ops w'" "mc \<le> n' \<and> a_event_high_wm w' = 0 \<or>
          n' < mc \<and> (\<exists>k. w' = fold wait_step (take k is) (wait_step i w) \<and> timeout \<le> tt + 100 + 100 * int k)" by auto
      have "\<exists>k. w' = fold wait_step (take k (i # is)) w \<and> timeout \<le> tt + 100 * int k"
        if "w' = fold wait_step (take k is) (wait_step i w)" "timeout \<le> tt + 100 + 100 * int k" for k
        using that by (intro exI [of _ "Suc k"]) simp
      with r True False show ?thesis by (subst completed_loop_step) (auto simp: sum)
    next
      case enough: False
      then show ?thesis using False by (subst completed_loop_step) (auto simp: not_less)
    qed
  qed
qed

lemma wait_steps_wm:
  assumes "\<forall>i \<in> set ins. \<forall>w. a_event_high_wm (wi_others i w) = a_event_high_wm w"
  shows "a_event_high_wm (fold wait_step ins w) = a_event_high_wm w"
  using assms by (induction ins arbitrary: w) (simp_all add: wait_step_def Let_def)

text \<open>
  C32. With a timeout of at most 2147483600 \<open>virtio_completed\<close> returns after at most \<open>timeout / 100\<close> polls (rounded up). It returns the number of
  descriptors in the output ring. When there are fewer than it waits for, the time is up, and the watermark
  that makes every completion signal the event descriptor stays set to \<open>mincount\<close>; otherwise it is reset. With a
  larger timeout the sum of the delays overflows before it is reached.
\<close>

theorem virtio_completed_returns:
  assumes "0 < mincount" "0 \<le> timeout" "timeout \<le> 2147483600" "timeout \<le> 100 * int (length ins)"
    "\<forall>i \<in> set ins. \<forall>w. a_event_high_wm (wi_others i w) = a_event_high_wm w"
  shows "\<exists>n w'. virtio_completed ops mincount timeout ins w = Some (n, w') \<and> n = to_int (int (rte_ring_count ops (a_outring w'))) \<and>
    (if mincount \<le> n then a_event_high_wm w' = 0
     else a_event_high_wm w' = mincount \<and> (\<exists>k. w' = fold wait_step (take k ins) (w\<lparr>a_event_high_wm := mincount\<rparr>) \<and> timeout \<le> 100 * int k))"
proof (cases "mincount \<le> out_count ops w")
  case True
  then show ?thesis using assms(1) by (simp add: virtio_completed_def out_count_def Let_def)
next
  case False
  let ?w0 = "w\<lparr>a_event_high_wm := mincount\<rparr>"
  have n: "out_count ops w = out_count ops ?w0" "out_count ops w < mincount" using False by simp_all
  have le: "timeout \<le> 0 + 100 * int (length ins)" using assms(4) by simp
  obtain n' w' where r: "completed_loop ops mincount timeout ins 0 (out_count ops w) ?w0 = Some (n', w')" "n' = out_count ops w'"
    "mincount \<le> n' \<and> a_event_high_wm w' = 0 \<or> n' < mincount \<and> (\<exists>k. w' = fold wait_step (take k ins) ?w0 \<and> timeout \<le> 0 + 100 * int k)"
    using completed_loop_returns [OF assms(2) le n _ _ assms(3)] by auto
  have "a_event_high_wm w' = mincount" if "w' = fold wait_step (take k ins) ?w0" for k
    using that wait_steps_wm [of "take k ins" ?w0] assms(5) by (auto dest: in_set_takeD)
  moreover have "virtio_completed ops mincount timeout ins w = completed_loop ops mincount timeout ins 0 (out_count ops w) ?w0"
    using assms(1) False by (simp add: virtio_completed_def out_count_def Let_def del: completed_loop.simps)
  ultimately show ?thesis using r by (auto simp: out_count_def simp del: completed_loop.simps)
qed

lemma total_time_wraps: "to_int (2147483600 + 100) = - 2147483596"
  by (simp add: to_int_def)

definition idle_input :: "('d, 'r, 'z) aworld_scheme wait_input" where
  "idle_input = \<lparr>wi_others = (\<lambda>w. w), wi_poll_fails = False\<rparr>"

theorem virtio_completed_returns_witness:
  "\<exists>n w'. virtio_completed (list_ring 4) 1 150 [idle_input, idle_input] example_async = Some (n, w') \<and>
    n = to_int (int (rte_ring_count (list_ring 4) (a_outring w'))) \<and>
    (if 1 \<le> n then a_event_high_wm w' = 0
     else a_event_high_wm w' = 1 \<and> (\<exists>k. w' = fold wait_step (take k [idle_input, idle_input]) (example_async\<lparr>a_event_high_wm := 1\<rparr>) \<and> 150 \<le> 100 * int k))"
  by (rule virtio_completed_returns) (simp_all add: idle_input_def)

lemma completed_loop_waits:
  assumes "timeout < 0" "k < length ins" "mc \<le> out_count ops (fold wait_step (take (Suc k) ins) w)"
  shows "\<exists>n' w'. completed_loop ops mc timeout ins tt n w = Some (n', w') \<and> mc \<le> n' \<and> n' = out_count ops w' \<and> a_event_high_wm w' = 0"
  using assms(2,3)
proof (induction ins arbitrary: k tt n w)
  case (Cons i "is")
  show ?case
  proof (cases "out_count ops (wait_step i w) < mc")
    case True
    then obtain k' where k: "k = Suc k'" using Cons.prems(2) by (cases k) auto
    with Cons.prems have "k' < length is" "mc \<le> out_count ops (fold wait_step (take (Suc k') is) (wait_step i w))" by simp_all
    from Cons.IH [OF this, of "to_int (tt + 100)" "out_count ops (wait_step i w)"] True assms(1) show ?thesis
      by (subst completed_loop_step) (auto simp del: completed_loop.simps)
  next
    case False
    then show ?thesis using assms(1) by (subst completed_loop_step) (simp add: not_less)
  qed
qed simp

text \<open>
  C33. With a negative timeout \<open>virtio_completed\<close> waits for as long as it takes: when enough descriptors are in the output
  ring at one of the polls it returns at that poll at the latest, with at least \<open>mincount\<close>.
\<close>

theorem virtio_completed_waits:
  assumes "0 < mincount" "timeout < 0" "k < length ins"
    "mincount \<le> to_int (int (rte_ring_count ops (a_outring (fold wait_step (take (Suc k) ins) (w\<lparr>a_event_high_wm := mincount\<rparr>)))))"
  shows "\<exists>n w'. virtio_completed ops mincount timeout ins w = Some (n, w') \<and> mincount \<le> n \<and>
    n = to_int (int (rte_ring_count ops (a_outring w'))) \<and> a_event_high_wm w' = 0"
proof (cases "mincount \<le> out_count ops w")
  case True
  then show ?thesis using assms(1) by (simp add: virtio_completed_def out_count_def Let_def)
next
  case False
  then have "virtio_completed ops mincount timeout ins w = completed_loop ops mincount timeout ins 0 (out_count ops w) (w\<lparr>a_event_high_wm := mincount\<rparr>)"
    using assms(1) by (simp add: virtio_completed_def out_count_def Let_def del: completed_loop.simps)
  with completed_loop_waits [OF assms(2,3) assms(4) [folded out_count_def], of 0 "out_count ops w"] show ?thesis
    by (simp add: out_count_def del: completed_loop.simps)
qed

definition push_input :: "ptr \<Rightarrow> ('d, ptr list) aworld wait_input" where
  "push_input p = \<lparr>wi_others = (\<lambda>w. w\<lparr>a_outring := a_outring w @ [p]\<rparr>), wi_poll_fails = False\<rparr>"

theorem virtio_completed_waits_witness:
  "\<exists>n w'. virtio_completed (list_ring 4) 1 (-1) [idle_input, push_input 800] example_async = Some (n, w') \<and> 1 \<le> n \<and>
    n = to_int (int (rte_ring_count (list_ring 4) (a_outring w'))) \<and> a_event_high_wm w' = 0"
  by (rule virtio_completed_waits [where k = 1])
    (simp_all add: idle_input_def push_input_def wait_step_def example_async_def list_ring_def to_int_def Let_def)

fun get_completed_n :: "'r rte_ring_ops \<Rightarrow> nat \<Rightarrow> ('d, 'r, 'z) aworld_scheme \<Rightarrow> ptr list \<times> ('d, 'r, 'z) aworld_scheme" where
  "get_completed_n ops 0 w = ([], w)"
| "get_completed_n ops (Suc k) w =
     (let (p, w1) = virtio_get_completed ops w; (ps, w2) = get_completed_n ops k w1 in (p # ps, w2))"

lemma get_completed_all:
  assumes "rte_ring_spec ops els rcap"
  shows "\<exists>w'. get_completed_n ops (length (els (a_outring w)) + k) w = (els (a_outring w) @ replicate k NULL, w') \<and> els (a_outring w') = []"
proof (induction "els (a_outring w)" arbitrary: w)
  case Nil
  then have "\<exists>w'. get_completed_n ops k w = (replicate k NULL, w') \<and> els (a_outring w') = []"
  proof (induction k arbitrary: w)
    case (Suc k)
    obtain rc p r where deq: "rte_ring_mc_dequeue ops (a_outring w) = (rc, p, r)" by (cases "rte_ring_mc_dequeue ops (a_outring w)")
    with Suc.prems assms have "rc < 0" "els r = []" by (metis rte_ring_spec_def fst_conv snd_conv)+
    with deq Suc.IH [of "w\<lparr>a_outring := r\<rparr>"] show ?case by (auto simp: virtio_get_completed_def)
  qed simp
  with Nil show ?case by simp
next
  case (Cons x xs)
  then obtain r where "rte_ring_mc_dequeue ops (a_outring w) = (0, x, r)" "els r = xs"
    using assms unfolding rte_ring_spec_def by (metis (no_types))
  with Cons(1) [of "w\<lparr>a_outring := r\<rparr>"] Cons(2) show ?case by (auto simp: virtio_get_completed_def simp flip: Cons(2))
qed

text \<open>A sequence of requests that finish: each is put into the output ring.\<close>

fun push_all :: "'r rte_ring_ops \<Rightarrow> ptr list \<Rightarrow> ('d, 'r, 'z) aworld_scheme \<Rightarrow> ('d, 'r, 'z) aworld_scheme option" where
  "push_all ops [] w = Some w"
| "push_all ops (p # ps) w = do { w1 \<leftarrow> push_to_outring ops p w; push_all ops ps w1 }"

text \<open>Those that meet the watermark \<open>m\<close>, with \<open>k\<close> in the ring before, signal the event descriptor.\<close>

lemma push_signals:
  assumes spec: "rte_ring_spec ops els rcap" and len: "length (els (a_outring w)) < rcap"
    and c: "s_efd (w_sys w) (a_outfd w) = Some c" "c + 1 \<le> 2 ^ 64 - 2" and m: "a_event_high_wm w = int m" "0 < m"
  obtains r where "push_to_outring ops p w = Some (w\<lparr>a_outring := r, w_sys := (w_sys w)\<lparr>s_efd := (s_efd (w_sys w))
      (a_outfd w \<mapsto> c + (if m \<le> Suc (length (els (a_outring w))) then 1 else 0))\<rparr>\<rparr>)" "els r = els (a_outring w) @ [p]"
proof -
  obtain rc r where enq: "rte_ring_sp_enqueue ops (a_outring w) p = (rc, r)" by fastforce
  have "fst (rte_ring_sp_enqueue ops (a_outring w) p) = 0 \<and> els (snd (rte_ring_sp_enqueue ops (a_outring w) p)) = els (a_outring w) @ [p]"
    using spec len unfolding rte_ring_spec_def by blast
  then have r: "rc = 0" "els r = els (a_outring w) @ [p]" using enq by simp_all
  have "rte_ring_count ops r = Suc (length (els (a_outring w)))" using spec r(2) by (simp add: rte_ring_spec_def)
  with enq r c m show ?thesis
    by (intro that [of r]) (auto simp: push_to_outring_def eventfd_write_def Let_def fun_upd_idem)
qed

lemma push_all_signals:
  assumes "rte_ring_spec ops els rcap" "length (els (a_outring w)) + length ps \<le> rcap"
    "s_efd (w_sys w) (a_outfd w) = Some c" "c + length ps \<le> 2 ^ 64 - 2" "a_event_high_wm w = int m" "0 < m"
  shows "\<exists>r. push_all ops ps w = Some (w\<lparr>a_outring := r, w_sys := (w_sys w)\<lparr>s_efd := (s_efd (w_sys w))
      (a_outfd w \<mapsto> c + (length ps - (m - 1 - length (els (a_outring w)))))\<rparr>\<rparr>) \<and> els r = els (a_outring w) @ ps"
  using assms(2-5)
proof (induction ps arbitrary: w c)
  case Nil
  then show ?case by (intro exI [of _ "a_outring w"]) (simp add: fun_upd_idem)
next
  case (Cons p ps)
  have pre: "length (els (a_outring w)) < rcap" "c + 1 \<le> 2 ^ 64 - 2" using Cons.prems(1,3) by simp_all
  let ?l = "length (els (a_outring w))"
  let ?c = "c + (if m \<le> Suc ?l then 1 else 0)"
  obtain r where r: "push_to_outring ops p w = Some (w\<lparr>a_outring := r, w_sys := (w_sys w)\<lparr>s_efd := (s_efd (w_sys w))(a_outfd w \<mapsto> ?c)\<rparr>\<rparr>)"
    "els r = els (a_outring w) @ [p]"
    by (rule push_signals [OF assms(1) pre(1) Cons.prems(2) pre(2) Cons.prems(4) assms(6)])
  let ?w1 = "w\<lparr>a_outring := r, w_sys := (w_sys w)\<lparr>s_efd := (s_efd (w_sys w))(a_outfd w \<mapsto> ?c)\<rparr>\<rparr>"
  have "?c + length ps \<le> 2 ^ 64 - 2" using Cons.prems(3) by simp
  then have "\<exists>r'. push_all ops ps ?w1 = Some (?w1\<lparr>a_outring := r', w_sys := (w_sys ?w1)\<lparr>s_efd := (s_efd (w_sys ?w1))
      (a_outfd ?w1 \<mapsto> ?c + (length ps - (m - 1 - length (els (a_outring ?w1)))))\<rparr>\<rparr>) \<and> els r' = els (a_outring ?w1) @ ps"
    using r(2) Cons.prems(1,4) by (intro Cons.IH) simp_all
  then obtain r' where
    r': "push_all ops ps ?w1 = Some (w\<lparr>a_outring := r', w_sys := (w_sys w)\<lparr>s_efd := (s_efd (w_sys w))(a_outfd w \<mapsto> ?c + (length ps - (m - 1 - Suc ?l)))\<rparr>\<rparr>)"
    "els r' = els (a_outring w) @ p # ps" using r(2) by (elim exE conjE) (simp del: push_all.simps)
  have cnt: "?c + (length ps - (m - 1 - Suc ?l)) = c + (length (p # ps) - (m - 1 - ?l))" by auto
  from r'(1) have "push_all ops (p # ps) w = Some (w\<lparr>a_outring := r', w_sys := (w_sys w)\<lparr>s_efd := (s_efd (w_sys w))
      (a_outfd w \<mapsto> c + (length (p # ps) - (m - 1 - ?l)))\<rparr>\<rparr>)"
    unfolding cnt using r(1) by simp
  then show ?case using r'(2) by blast
qed

text \<open>
  C34. The way of finished requests to the thread that waits for them. The requests \<open>ps\<close>, at least \<open>mincount\<close>, finish in this order while
  \<open>virtio_completed\<close> waits: each goes into the output ring, and those from the \<open>mincount\<close>-th on signal the event descriptor
  (\<open>c\<close> is its counter before). The wait sees the signal at its next poll, takes it back, resets the watermark and returns their number, and
  \<open>virtio_get_completed\<close> then gives exactly these requests, in the order in which they finished, and \<open>NULL\<close> afterwards.
\<close>

theorem completions_delivered:
  assumes "rte_ring_spec ops els rcap" "els (a_outring w) = []" "length ps \<le> rcap" "length ps < 2 ^ 31"
    "s_efd (w_sys w) (a_outfd w) = Some c" "c + length ps \<le> 2 ^ 64 - 2" "0 < mincount" "mincount \<le> length ps" "timeout \<noteq> 0"
  shows "\<exists>w1 w2 w3. push_all ops ps (w\<lparr>a_event_high_wm := int mincount\<rparr>) = Some w1 \<and>
    s_efd (w_sys w1) (a_outfd w) = Some (c + (length ps - (mincount - 1))) \<and>
    virtio_completed ops (int mincount) timeout [\<lparr>wi_others = (\<lambda>v. the (push_all ops ps v)), wi_poll_fails = False\<rparr>] w = Some (int (length ps), w2) \<and>
    a_event_high_wm w2 = 0 \<and> s_efd (w_sys w2) (a_outfd w) = Some 0 \<and>
    get_completed_n ops (length ps + k) w2 = (ps @ replicate k NULL, w3) \<and> els (a_outring w3) = []"
proof -
  let ?w0 = "w\<lparr>a_event_high_wm := int mincount\<rparr>" and ?e = "c + (length ps - (mincount - 1))"
  let ?i = "\<lparr>wi_others = (\<lambda>v. the (push_all ops ps v)), wi_poll_fails = False\<rparr>"
  have cnt: "rte_ring_count ops r = length (els r)" for r using assms(1) by (simp add: rte_ring_spec_def)
  obtain r where r: "push_all ops ps ?w0 = Some (?w0\<lparr>a_outring := r, w_sys := (w_sys w)\<lparr>s_efd := (s_efd (w_sys w))(a_outfd w \<mapsto> ?e)\<rparr>\<rparr>)" "els r = ps"
    using push_all_signals [OF assms(1), of ?w0 ps c mincount] assms(2,3,5-7) by auto
  let ?w1 = "?w0\<lparr>a_outring := r, w_sys := (w_sys w)\<lparr>s_efd := (s_efd (w_sys w))(a_outfd w \<mapsto> ?e)\<rparr>\<rparr>"
  let ?w2 = "w\<lparr>a_event_high_wm := 0, a_outring := r, w_sys := (w_sys w)\<lparr>s_efd := (s_efd (w_sys w))(a_outfd w \<mapsto> 0)\<rparr>\<rparr>"
  have e: "0 < ?e" using assms(7,8) by simp
  have step: "wait_step ?i ?w0 = ?w2\<lparr>a_event_high_wm := int mincount\<rparr>" using r(1) e by (simp add: wait_step_def poll_outfd_def Let_def)
  have on: "\<not> (0 \<le> timeout \<and> timeout \<le> 0)" using assms(9) by simp
  have len: "to_int (int (length ps)) = int (length ps)" using assms(4) by (simp add: to_int_of_nat)
  have "virtio_completed ops (int mincount) timeout [?i] w = completed_loop ops (int mincount) timeout [?i] 0 0 ?w0"
    using assms(2,7) cnt by (simp add: virtio_completed_def to_int_def Let_def del: completed_loop.simps)
  also have "\<dots> = Some (int (length ps), ?w2)"
    by (subst completed_loop_step, subst if_not_P [OF on]) (use assms(8) step len r(2) cnt in \<open>simp add: out_count_def del: completed_loop.simps\<close>)
  finally have done': "virtio_completed ops (int mincount) timeout [?i] w = Some (int (length ps), ?w2)" .
  obtain w3 where "get_completed_n ops (length ps + k) ?w2 = (ps @ replicate k NULL, w3)" "els (a_outring w3) = []"
    using get_completed_all [OF assms(1), of ?w2 k] r(2) by auto
  with r(1) done' show ?thesis by (intro exI [of _ ?w1] exI [of _ ?w2] exI [of _ w3]) simp
qed

theorem completions_delivered_witness:
  "\<exists>w1 w2 w3. push_all (list_ring 4) [801, 800, 802] (example_async\<lparr>a_event_high_wm := int 2\<rparr>) = Some w1 \<and>
    s_efd (w_sys w1) (a_outfd example_async) = Some (0 + (length [801, 800, 802 :: ptr] - (2 - 1))) \<and>
    virtio_completed (list_ring 4) (int 2) 150 [\<lparr>wi_others = (\<lambda>v. the (push_all (list_ring 4) [801, 800, 802] v)), wi_poll_fails = False\<rparr>] example_async
      = Some (int (length [801, 800, 802 :: ptr]), w2) \<and>
    a_event_high_wm w2 = 0 \<and> s_efd (w_sys w2) (a_outfd example_async) = Some 0 \<and>
    get_completed_n (list_ring 4) (length [801, 800, 802 :: ptr] + 1) w2 = ([801, 800, 802] @ replicate 1 NULL, w3) \<and> id (a_outring w3) = []"
  by (rule completions_delivered [OF list_ring_spec]) (simp_all add: example_async_def)

end
