(* ===== verification/Virtio_Open.thy ===== *)
theory Virtio_Open
  imports Virtio_Async Vhost_Client
begin

text \<open>
  \<open>src/virtio_dev.c\<close>, life cycle of a device: \<open>open_virtio_dev\<close> with its error path and \<open>close_virtio_dev\<close>, and
  \<open>vring_poller_destroy\<close> of \<open>src/vring_poller.c\<close>, which only they call.

  The world of the device is extended by the connection and by what the structure \<open>virtio_dev\<close> points to: \<open>d_client\<close> and the
  entries of \<open>d_vring\<close> are \<open>None\<close>, \<open>d_poller\<close> and \<open>d_has_outring\<close> are \<open>False\<close> as long as the pointer is \<open>NULL\<close>; \<open>d_live\<close> says
  that the structure itself is allocated. The request ring is used through the poller: from its creation on it is the
  ring of the world, and the entry of \<open>d_vring\<close> keeps the addresses and descriptors that \<open>vring_destroy\<close> needs.
  What is not in the sources is in \<open>open_env\<close>: the huge page regions found by \<open>init_shared_mem\<close>, the padding of the
  memory table, the results of \<open>rte_ring_create\<close> and \<open>pthread_create\<close>, and what happens while the poller is stopped.
\<close>

definition VIRTIO_SCSI_REQUESTQ :: nat where "VIRTIO_SCSI_REQUESTQ = 2"
definition VIRTIO_SCSI_QCOUNT :: nat where "VIRTIO_SCSI_QCOUNT = 3"

record ('d, 'r) dworld = "('d, 'r) aworld" +
  d_live :: bool
  d_net :: netos
  d_client :: "vhost_client option"
  d_vring :: "vring option list"
  d_poller :: bool
  d_has_outring :: bool

record ('d, 'z, 'r) open_env =
  oe_env :: "('d, 'z) env"
  oe_st :: shm_state
  oe_pad :: u32
  oe_ring :: "'r option"
  oe_tid :: "nat option"
  oe_locals :: poll_locals
  oe_stop :: "('d, 'z) pworld_scheme poll_input list"

text \<open>The parameters are those of \<open>init_shared_mem\<close>: DPDK's initialisation, the maps file and the process id.\<close>

definition libvirtio_dev_init ::
  "(string list \<Rightarrow> int) \<Rightarrow> string list option \<Rightarrow> int \<Rightarrow> int \<Rightarrow> int
    \<Rightarrow> shm_state \<Rightarrow> (int \<times> shm_state) option" where
  "libvirtio_dev_init eal_init maps pid mem_mb core_mask st = init_shared_mem eal_init maps pid mem_mb core_mask st"

text \<open>The structure as \<open>calloc\<close> returns it.\<close>

definition zero_dev :: "('d, 'r, 'z) dworld_scheme \<Rightarrow> ('d, 'r, 'z) dworld_scheme" where
  "zero_dev w = w\<lparr>d_live := True, d_client := None, d_vring := replicate VIRTIO_SCSI_QCOUNT None, d_poller := False, d_has_outring := False,
     a_dev := \<lparr>block_size = 0, num_blocks = 0, cap = 0\<rparr>, a_outfd := 0, a_event_high_wm := 0\<rparr>"


section \<open>Giving up the parts of a device\<close>

definition vring_poller_destroy :: "('d, 'z) callbacks \<Rightarrow> poll_locals \<Rightarrow> ('d, 'z) pworld_scheme poll_input list \<Rightarrow> ('d, 'z) pworld_scheme
    \<Rightarrow> ('d, 'z) pworld_scheme option" where
  "vring_poller_destroy cbs l is w =
     (if tid (w_poller w) \<noteq> 0 then map_option snd (vring_poller_stop cbs is (l, w)) else Some w)"

definition d_end_client :: "shm_state \<Rightarrow> ('d, 'r, 'z) dworld_scheme \<Rightarrow> ('d, 'r, 'z) dworld_scheme option" where
  "d_end_client st w = (case d_client w of
      None \<Rightarrow> Some w
    | Some c \<Rightarrow> do {
        (c1, os) \<leftarrow> end_vhost_client st c (d_net w);
        Some (w\<lparr>d_client := c1, d_net := os\<rparr>)
      })"

fun destroy_vrings :: "vring option list \<Rightarrow> sys \<Rightarrow> sys" where
  "destroy_vrings [] s = s"
| "destroy_vrings (None # vrs) s = destroy_vrings vrs s"
| "destroy_vrings (Some vr # vrs) s = destroy_vrings vrs (vring_destroy vr s)"

text \<open>
  The label \<open>error\<close>. A client that \<open>end_vhost_client\<close> does not free stays in \<open>d_client\<close>, though nothing points to it
  any more.
\<close>

definition open_error :: "('d, _, 'r) open_env \<Rightarrow> ('d, 'r, 'z) dworld_scheme \<Rightarrow> (bool \<times> ('d, 'r, 'z) dworld_scheme) option" where
  "open_error oe w = do {
     w1 \<leftarrow> (if d_poller w then vring_poller_destroy (e_cbs (oe_env oe)) (oe_locals oe) (oe_stop oe) w else Some w);
     w2 \<leftarrow> d_end_client (oe_st oe) w1;
     let s3 = destroy_vrings (d_vring w2) (w_sys w2);
     let s4 = (if a_outfd w2 > 0 then close_efd (a_outfd w2) s3 else s3);
     Some (False, w2\<lparr>w_sys := s4, d_vring := replicate VIRTIO_SCSI_QCOUNT None, d_poller := False, d_has_outring := False, d_live := False\<rparr>)
   }"


section \<open>Opening\<close>

fun create_vrings :: "rte_malloc \<Rightarrow> nat list \<Rightarrow> ('d, 'r, 'z) dworld_scheme \<Rightarrow> bool \<times> ('d, 'r, 'z) dworld_scheme" where
  "create_vrings rm [] w = (True, w)"
| "create_vrings rm (i # is) w = (case vring_create rm (w_sys w) of
      (None, s) \<Rightarrow> (False, w\<lparr>w_sys := s\<rparr>)
    | (Some vr, s) \<Rightarrow> create_vrings rm is (w\<lparr>w_sys := s, d_vring := (d_vring w)[i := Some vr]\<rparr>))"

text \<open>\<open>None\<close> is a ring that does not exist.\<close>

fun announce_vrings :: "shm_state \<Rightarrow> nat list \<Rightarrow> ('d, 'r, 'z) dworld_scheme \<Rightarrow> (bool \<times> ('d, 'r, 'z) dworld_scheme) option" where
  "announce_vrings st [] w = Some (True, w)"
| "announce_vrings st (i # is) w = do {
     vr \<leftarrow> d_vring w ! i;
     (rc, os) \<leftarrow> set_vhost_vring st vr (of_nat i) (d_net w);
     let w1 = w\<lparr>d_net := os\<rparr>;
     if rc \<noteq> 0 then Some (False, w1) else announce_vrings st is w1
   }"

text \<open>From the new client to the rings that are announced to the server.\<close>

definition open_session :: "('d, _, 'r) open_env \<Rightarrow> string \<Rightarrow> ('d, 'r, 'z) dworld_scheme \<Rightarrow> (bool \<times> ('d, 'r, 'z) dworld_scheme) option" where
  "open_session oe path w =
     (let (c, s) = new_vhost_client path (w_sys w);
          w1 = w\<lparr>w_sys := s, d_client := c\<rparr>
      in case c of
        None \<Rightarrow> Some (False, w1)
      | Some cl \<Rightarrow>
          (let (ok, w2) = create_vrings (e_rm (oe_env oe)) [0..<VIRTIO_SCSI_QCOUNT] w1
           in if \<not> ok then Some (False, w2)
              else do {
                (rc, cl2, os) \<leftarrow> init_vhost_client (oe_st oe) (oe_pad oe) cl (d_net w2);
                let w3 = w2\<lparr>d_client := Some cl2, d_net := os\<rparr>;
                if rc \<noteq> 0 then Some (False, w3)
                else announce_vrings (oe_st oe) [0..<VIRTIO_SCSI_QCOUNT] w3
              }))"

text \<open>The output ring, its event descriptor and the poller.\<close>

definition open_poller :: "('d, _, 'r) open_env \<Rightarrow> ('d, 'r, 'z) dworld_scheme \<Rightarrow> (bool \<times> ('d, 'r, 'z) dworld_scheme) option" where
  "open_poller oe w = (case oe_ring oe of
      None \<Rightarrow> Some (False, w)
    | Some r \<Rightarrow>
        (let w1 = w\<lparr>a_outring := r, d_has_outring := True, a_event_high_wm := 0\<rparr>;
             (fd, s) = eventfd (w_sys w1);
             w2 = w1\<lparr>w_sys := s, a_outfd := fd\<rparr>
         in if fd < 0 then Some (False, w2)
            else let (p, s2) = vring_poller_create (w_sys w2); w3 = w2\<lparr>w_sys := s2\<rparr>
                 in case p of
                      None \<Rightarrow> Some (False, w3)
                    | Some pl \<Rightarrow> do {
                        vr \<leftarrow> d_vring w3 ! VIRTIO_SCSI_REQUESTQ;
                        let (rc, pl2) = vring_poller_start (oe_tid oe) pl;
                        Some (rc = 0, w3\<lparr>w_ring := vr, w_poller := pl2, d_poller := True\<rparr>)
                      }))"

definition open_setup :: "('d, _, 'r) open_env \<Rightarrow> string \<Rightarrow> ('d, 'r, 'z) dworld_scheme \<Rightarrow> (bool \<times> ('d, 'r, 'z) dworld_scheme) option" where
  "open_setup oe path w = do {
     (ok, w1) \<leftarrow> open_session oe path w;
     if \<not> ok then Some (False, w1) else open_poller oe w1
   }"

text \<open>The three commands that find out what the device is.\<close>

definition open_probe :: "('d, _, 'r) open_env \<Rightarrow> ('d, 'r, 'z) dworld_scheme \<Rightarrow> (bool \<times> ('d, 'r, 'z) dworld_scheme) option" where
  "open_probe oe w = do {
     (rc1, w1) \<leftarrow> send_inquiry (oe_env oe) w;
     if rc1 \<noteq> 0 then Some (False, w1)
     else do {
       (rc2, w2) \<leftarrow> send_test_unit_ready (oe_env oe) w1;
       if rc2 \<noteq> 0 then Some (False, w2)
       else do {
         (rc3, dev, w3) \<leftarrow> send_read_cap (oe_env oe) (a_dev w2) w2;
         Some (rc3 = 0, w3\<lparr>a_dev := dev\<rparr>)
       }
     }
   }"

text \<open>The result is whether a device is returned, \<open>False\<close> for \<open>NULL\<close>.\<close>

definition open_virtio_dev :: "('d, _, 'r) open_env \<Rightarrow> string \<Rightarrow> ('d, 'r, 'z) dworld_scheme \<Rightarrow> (bool \<times> ('d, 'r, 'z) dworld_scheme) option" where
  "open_virtio_dev oe path w =
     (let (ok, s) = c_alloc (w_sys w)
      in if \<not> ok then Some (False, w\<lparr>w_sys := s\<rparr>)
         else do {
           (ok1, w1) \<leftarrow> open_setup oe path (zero_dev (w\<lparr>w_sys := s\<rparr>));
           if \<not> ok1 then open_error oe w1
           else do {
             (ok2, w2) \<leftarrow> open_probe oe w1;
             if \<not> ok2 then open_error oe w2 else Some (True, w2)
           }
         })"


section \<open>Closing\<close>

definition close_virtio_dev :: "('d, _, 'r) open_env \<Rightarrow> ('d, 'r, 'z) dworld_scheme \<Rightarrow> ('d, 'r, 'z) dworld_scheme option" where
  "close_virtio_dev oe w = do {
     c_assert (d_poller w \<and> d_client w \<noteq> None \<and> None \<notin> set (d_vring w));
     w1 \<leftarrow> vring_poller_destroy (e_cbs (oe_env oe)) (oe_locals oe) (oe_stop oe) w;
     w2 \<leftarrow> d_end_client (oe_st oe) w1;
     let s3 = close_efd (a_outfd w2) (destroy_vrings (d_vring w2) (w_sys w2));
     Some (w2\<lparr>w_sys := s3, d_vring := replicate VIRTIO_SCSI_QCOUNT None, d_poller := False, d_has_outring := False, d_live := False\<rparr>)
   }"

end
