(* ===== verification/Open_Release.thy ===== *)
theory Open_Release
  imports Virtio_Open Virtio_Theorems Vhost_Theorems
begin

text \<open>
  What an unfinished \<open>open_virtio_dev\<close> holds and what its error path gives back. The rings own a
  shared block and two event descriptors each; \<open>holds\<close> says that a state is an earlier one but
  for what the rings of a device own.
\<close>

section \<open>The resources of the rings\<close>

definition rings_of :: "vring option list \<Rightarrow> vring set" where
  "rings_of vrs = {vr. Some vr \<in> set vrs}"

definition ring_fds :: "vring option list \<Rightarrow> int set" where
  "ring_fds vrs = kickfd ` rings_of vrs \<union> callfd ` rings_of vrs"

definition holds :: "vring option list \<Rightarrow> sys \<Rightarrow> sys \<Rightarrow> bool" where
  "holds vrs s0 s \<longleftrightarrow> NULL \<notin> vring_shm ` rings_of vrs \<and> s_efd s |` (- ring_fds vrs) = s_efd s0 \<and>
     filter (\<lambda>(q, k). q \<notin> vring_shm ` rings_of vrs) (s_blocks s) = s_blocks s0 \<and> vring_shm ` rings_of vrs \<subseteq> fst ` set (s_blocks s)"

lemma rings_of_simps [simp]:
  "rings_of [] = {}" "rings_of (None # vrs) = rings_of vrs" "rings_of (Some vr # vrs) = insert vr (rings_of vrs)"
  "rings_of (replicate n None) = {}"
  by (auto simp: rings_of_def)

lemma rings_of_fill: "i < length vrs \<Longrightarrow> vrs ! i = None \<Longrightarrow> rings_of (vrs[i := Some vr]) = insert vr (rings_of vrs)"
  unfolding rings_of_def set_eq_iff mem_Collect_eq insert_iff in_set_conv_nth length_list_update
  by (metis nth_list_update_eq nth_list_update_neq option.distinct(1) option.inject)

lemma ring_fds_fill:
  "i < length vrs \<Longrightarrow> vrs ! i = None \<Longrightarrow> ring_fds (vrs[i := Some vr]) = insert (kickfd vr) (insert (callfd vr) (ring_fds vrs))"
  by (auto simp: ring_fds_def rings_of_fill)

lemma destroy_vrings_blocks:
  "NULL \<notin> vring_shm ` rings_of vrs \<Longrightarrow>
   s_blocks (destroy_vrings vrs s) = filter (\<lambda>(q, k). q \<notin> vring_shm ` rings_of vrs) (s_blocks s)"
  by (induction vrs s rule: destroy_vrings.induct)
    (auto simp: vring_destroy_def close_efd_def free_shared_buf_def intro!: filter_cong)

lemma destroy_vrings_efd: "s_efd (destroy_vrings vrs s) = s_efd s |` (- ring_fds vrs)"
  by (induction vrs s rule: destroy_vrings.induct)
    (auto simp: ring_fds_def vring_destroy_def close_efd_def restrict_map_def)

lemma destroy_vrings_releases:
  "holds vrs s0 s \<Longrightarrow> s_blocks (destroy_vrings vrs s) = s_blocks s0 \<and> s_efd (destroy_vrings vrs s) = s_efd s0"
  by (simp add: holds_def destroy_vrings_blocks destroy_vrings_efd)

lemma holds_nothing: "holds (replicate n None) s s"
  by (auto simp: holds_def ring_fds_def)

lemma holds_cong: "holds vrs s0 s \<Longrightarrow> s_blocks s' = s_blocks s \<Longrightarrow> s_efd s' = s_efd s \<Longrightarrow> holds vrs s0 s'"
  by (simp add: holds_def)

text \<open>A descriptor that the earlier state does not have, closed again.\<close>

lemma holds_close:
  assumes "holds vrs s0 (s\<lparr>s_efd := e\<rparr>)" "e fd = None" "s_efd s = e(fd \<mapsto> n)"
  shows "s_blocks (close_efd fd (destroy_vrings vrs s)) = s_blocks s0" "s_efd (close_efd fd (destroy_vrings vrs s)) = s_efd s0"
proof -
  have "(s_efd s |` (- ring_fds vrs))(fd := None) = e |` (- ring_fds vrs)"
    unfolding assms(3) using assms(2) by (simp add: restrict_map_def fun_eq_iff)
  moreover have "e |` (- ring_fds vrs) = s_efd s0" using assms(1) by (simp add: holds_def)
  ultimately show "s_efd (close_efd fd (destroy_vrings vrs s)) = s_efd s0"
    unfolding close_efd_def destroy_vrings_efd by (simp del: restrict_fun_upd)
  show "s_blocks (close_efd fd (destroy_vrings vrs s)) = s_blocks s0"
    using assms(1) by (simp add: close_efd_def destroy_vrings_blocks holds_def)
qed

lemma holds_new_ring:
  assumes "holds vrs s0 s" "i < length vrs" "vrs ! i = None" "s_efd s (kickfd vr) = None" "s_efd s (callfd vr) = None"
    "vring_shm vr \<noteq> NULL" "vring_shm vr \<notin> fst ` set (s_blocks s)"
    "s_blocks s' = (vring_shm vr, n) # s_blocks s" "s_efd s' = (s_efd s)(kickfd vr \<mapsto> a, callfd vr \<mapsto> b)"
  shows "holds (vrs[i := Some vr]) s0 s'"
proof -
  have "s_efd s' |` (- insert (kickfd vr) (insert (callfd vr) A)) = s_efd s |` (- A)" for A
    using assms(4,5,9) by (auto simp: restrict_map_def fun_eq_iff)
  moreover have "filter (\<lambda>(q, k). q \<notin> insert (vring_shm vr) A) (s_blocks s') = filter (\<lambda>(q, k). q \<notin> A) (s_blocks s)" for A
    using assms(7,8) by (auto intro!: filter_cong) force
  moreover have "NULL \<notin> insert (vring_shm vr) (vring_shm ` rings_of vrs)" using assms(1,6) by (simp add: holds_def)
  moreover have "insert (vring_shm vr) (vring_shm ` rings_of vrs) \<subseteq> fst ` set (s_blocks s')" using assms(1,8) by (auto simp: holds_def)
  ultimately show ?thesis
    using assms(1) by (simp add: holds_def rings_of_fill [OF assms(2,3)] ring_fds_fill [OF assms(2,3)] image_insert del: insert_iff)
qed

text \<open>The creation of rings changes the rings and the resources, but no task.\<close>

definition only_rings :: "('d, 'r, 'z) dworld_scheme \<Rightarrow> ('d, 'r, 'z) dworld_scheme \<Rightarrow> bool" where
  "only_rings w w' \<longleftrightarrow> w' = w\<lparr>w_sys := w_sys w', d_vring := d_vring w'\<rparr> \<and> length (d_vring w') = length (d_vring w) \<and>
     s_tasks (w_sys w') = s_tasks (w_sys w) \<and> s_next (w_sys w') = s_next (w_sys w) \<and> s_oom (w_sys w') = s_oom (w_sys w)"

lemma only_rings_sel:
  assumes "only_rings w w'"
  shows "d_net w' = d_net w" "d_client w' = d_client w" "d_poller w' = d_poller w" "a_outfd w' = a_outfd w" "w_srv w' = w_srv w"
proof -
  have w': "w' = w\<lparr>w_sys := w_sys w', d_vring := d_vring w'\<rparr>" using assms by (simp add: only_rings_def)
  show "d_net w' = d_net w" "d_client w' = d_client w" "d_poller w' = d_poller w" "a_outfd w' = a_outfd w" "w_srv w' = w_srv w"
    by (subst w', simp)+
qed

lemma only_rings_trans: "only_rings w1 w2 \<Longrightarrow> only_rings w2 w3 \<Longrightarrow> only_rings w1 w3"
  unfolding only_rings_def by (cases w1, cases w2, cases w3) simp

lemma vring_create_frame:
  assumes "vring_create rm s = (r, s')"
  shows "s_tasks s' = s_tasks s" "s_next s' = s_next s" "s_oom s' = s_oom s"
  using assms
  by (auto simp: vring_create_def c_alloc_def zalloc_shared_buf_def alloc_shared_buf_def eventfd_def free_shared_buf_def
      close_efd_def Let_def split: prod.splits if_splits list.splits)

lemma create_vrings_ok:
  assumes "rte_malloc_spec rm" "holds (d_vring w) s0 (w_sys w)" "distinct idxs"
    "\<And>i. i \<in> set idxs \<Longrightarrow> i < length (d_vring w) \<and> d_vring w ! i = None" "create_vrings rm idxs w = (ok, w')"
  shows "holds (d_vring w') s0 (w_sys w') \<and> only_rings w w'"
  using assms(2-)
proof (induction idxs arbitrary: w)
  case Nil
  then show ?case by (simp add: only_rings_def)
next
  case (Cons i idxs)
  obtain r s where r: "vring_create rm (w_sys w) = (r, s)" by fastforce
  note frame = vring_create_frame [OF r]
  from assms(1) r show ?case
  proof (cases rule: vring_create_cases)
    case failed
    with r Cons.prems frame show ?thesis by (auto simp: only_rings_def intro: holds_cong)
  next
    case (created vr m)
    let ?w1 = "w\<lparr>w_sys := s, d_vring := (d_vring w)[i := Some vr]\<rparr>"
    have i: "i < length (d_vring w)" "d_vring w ! i = None" "i \<notin> set idxs" using Cons.prems(2,3) by auto
    have "create_vrings rm idxs ?w1 = (ok, w')" using Cons.prems(4) r created(1) by simp
    moreover have "holds (d_vring ?w1) s0 (w_sys ?w1)"
      using holds_new_ring [OF Cons.prems(1) i(1,2) created(3,4,6,7)] created(8) by simp
    moreover have "j < length (d_vring ?w1) \<and> d_vring ?w1 ! j = None" if "j \<in> set idxs" for j
      using Cons.prems(3) [of j] that i(3) by (cases "j = i") auto
    ultimately have "holds (d_vring w') s0 (w_sys w') \<and> only_rings ?w1 w'" using Cons.prems(2) by (intro Cons.IH) auto
    moreover have "only_rings w ?w1" using frame by (simp add: only_rings_def)
    ultimately show ?thesis using only_rings_trans by blast
  qed
qed


section \<open>The error path\<close>

text \<open>The state of a device that is given up before its poller runs.\<close>

definition setup_held :: "sys \<Rightarrow> ('d, 'r, 'z) dworld_scheme \<Rightarrow> bool" where
  "setup_held s0 w \<longleftrightarrow> (d_poller w \<longrightarrow> tid (w_poller w) = 0) \<and> (\<exists>s. holds (d_vring w) s0 s \<and> s_blocks (w_sys w) = s_blocks s \<and>
     (if a_outfd w > 0 then s_efd s (a_outfd w) = None \<and> (\<exists>n. s_efd (w_sys w) = (s_efd s)(a_outfd w \<mapsto> n))
      else s_efd (w_sys w) = s_efd s))"

text \<open>The next message is taken or refused: sending does not block for ever.\<close>

definition send_returns :: "netos \<Rightarrow> bool" where
  "send_returns os \<longleftrightarrow> send_loop VHOST_USER_HDR_SIZE (n_sends os) \<noteq> None"

lemma end_vhost_client_returns:
  assumes "send_returns os"
  shows "\<exists>c' os'. end_vhost_client st c os = Some (c', os') \<and> (c' = None \<or> c' = Some c \<and> status c \<noteq> INSTANCE_INITIALIZED)"
proof -
  obtain ret rs where "send_loop 12 (n_sends os) = Some (ret, rs)"
    using assms by (auto simp: send_returns_def VHOST_USER_HDR_SIZE_def)
  then show ?thesis
    by (simp add: end_vhost_client_def vhost_ioctl_def ioctl_prepare_def vhost_user_send_fds_def ioctl_reply_def need_reply_def
        VHOST_USER_HDR_SIZE_def sizeof_VhostUserMsg_def Let_def)
qed

lemma open_error_releases:
  assumes "setup_held s0 w" "send_returns (d_net w)"
  shows "\<exists>w'. open_error oe w = Some (False, w') \<and> s_blocks (w_sys w') = s_blocks s0 \<and> s_efd (w_sys w') = s_efd s0 \<and> \<not> d_live w' \<and>
    (d_client w' = None \<or> d_client w' = d_client w \<and> status (the (d_client w)) \<noteq> INSTANCE_INITIALIZED)"
proof -
  obtain c os where e: "d_end_client (oe_st oe) w = Some (w\<lparr>d_client := c, d_net := os\<rparr>)"
    "c = None \<or> c = d_client w \<and> status (the (d_client w)) \<noteq> INSTANCE_INITIALIZED"
  proof (cases "d_client w")
    case None
    then show ?thesis by (intro that [where c = None and os = "d_net w"]) (simp_all add: d_end_client_def)
  next
    case (Some cl)
    with end_vhost_client_returns [OF assms(2), of "oe_st oe" cl] show ?thesis
      by (auto simp: d_end_client_def intro: that)
  qed
  obtain s where h: "holds (d_vring w) s0 s" "s_blocks (w_sys w) = s_blocks s"
    and fd: "if a_outfd w > 0 then s_efd s (a_outfd w) = None \<and> (\<exists>n. s_efd (w_sys w) = (s_efd s)(a_outfd w \<mapsto> n))
      else s_efd (w_sys w) = s_efd s"
    using assms(1) unfolding setup_held_def by blast
  let ?s = "if a_outfd w > 0 then close_efd (a_outfd w) (destroy_vrings (d_vring w) (w_sys w)) else destroy_vrings (d_vring w) (w_sys w)"
  have s: "s_blocks ?s = s_blocks s0 \<and> s_efd ?s = s_efd s0"
  proof (cases "a_outfd w > 0")
    case True
    then obtain n where "s_efd s (a_outfd w) = None" "s_efd (w_sys w) = (s_efd s)(a_outfd w \<mapsto> n)" using fd by auto
    moreover have "holds (d_vring w) s0 ((w_sys w)\<lparr>s_efd := s_efd s\<rparr>)" using h by (auto intro: holds_cong)
    ultimately show ?thesis using holds_close [where s = "w_sys w" and e = "s_efd s" and fd = "a_outfd w"] True by simp
  next
    case False
    with fd h have "holds (d_vring w) s0 (w_sys w)" by (auto intro: holds_cong)
    from destroy_vrings_releases [OF this] False show ?thesis by simp
  qed
  have "(if d_poller w then vring_poller_destroy (e_cbs (oe_env oe)) (oe_locals oe) (oe_stop oe) w else Some w) = Some w"
    using assms(1) by (simp add: setup_held_def vring_poller_destroy_def)
  with e(1) have "open_error oe w = Some (False, w\<lparr>d_client := c, d_net := os, w_sys := ?s,
      d_vring := replicate VIRTIO_SCSI_QCOUNT None, d_poller := False, d_has_outring := False, d_live := False\<rparr>)"
    by (simp add: open_error_def Let_def)
  with s e(2) show ?thesis by simp
qed


section \<open>Setting up\<close>

lemma announce_vrings_frame: "announce_vrings st idxs w = Some (ok, w') \<Longrightarrow> \<exists>os. w' = w\<lparr>d_net := os\<rparr>"
proof (induction idxs arbitrary: w)
  case Nil
  then show ?case by (intro exI [of _ "d_net w"]) simp
next
  case (Cons i idxs)
  from Cons.prems obtain os where "w' = w\<lparr>d_net := os\<rparr> \<or> announce_vrings st idxs (w\<lparr>d_net := os\<rparr>) = Some (ok, w')"
    by (auto simp: bind_eq_Some_conv Let_def split: if_splits)
  with Cons.IH [of "w\<lparr>d_net := os\<rparr>"] show ?case by auto
qed

lemma open_session_holds:
  assumes "rte_malloc_spec (e_rm (oe_env oe))" "open_session oe path w = Some (ok, w')"
    "d_vring w = replicate VIRTIO_SCSI_QCOUNT None" "s_blocks (w_sys w) = s_blocks s0" "s_efd (w_sys w) = s_efd s0"
  shows "holds (d_vring w') s0 (w_sys w') \<and> d_poller w' = d_poller w \<and> a_outfd w' = a_outfd w \<and> length (d_vring w') = VIRTIO_SCSI_QCOUNT"
proof -
  let ?w1 = "w\<lparr>w_sys := snd (new_vhost_client path (w_sys w)), d_client := fst (new_vhost_client path (w_sys w))\<rparr>"
  have "holds (replicate VIRTIO_SCSI_QCOUNT None) s0 s0" by (rule holds_nothing)
  then have h1: "holds (d_vring ?w1) s0 (w_sys ?w1)"
    unfolding assms(3) [symmetric] using assms(4,5)
    by (auto simp: new_vhost_client_def c_alloc_def Let_def intro: holds_cong)
  obtain ok2 w2 where w2: "create_vrings (e_rm (oe_env oe)) [0..<VIRTIO_SCSI_QCOUNT] ?w1 = (ok2, w2)" by fastforce
  have "holds (d_vring w2) s0 (w_sys w2) \<and> only_rings ?w1 w2"
    by (rule create_vrings_ok [OF assms(1) h1 distinct_upt _ w2]) (simp add: assms(3))
  then have h2: "holds (d_vring w2) s0 (w_sys w2)" "d_poller w2 = d_poller w" "a_outfd w2 = a_outfd w" "length (d_vring w2) = VIRTIO_SCSI_QCOUNT"
    using only_rings_sel [of ?w1 w2] assms(3) by (auto simp: only_rings_def)
  have "w' = ?w1 \<or> w' = w2 \<or> (\<exists>c os. w' = w2\<lparr>d_client := c, d_net := os\<rparr> \<or>
      announce_vrings (oe_st oe) [0..<VIRTIO_SCSI_QCOUNT] (w2\<lparr>d_client := c, d_net := os\<rparr>) = Some (ok, w'))"
    using assms(2) w2
    by (auto simp: open_session_def Let_def case_prod_unfold bind_eq_Some_conv split: if_splits option.splits)
  then have "w' = ?w1 \<or> w' = w2 \<or> (\<exists>c os. w' = w2\<lparr>d_client := c, d_net := os\<rparr>)"
    using announce_vrings_frame by fastforce
  with h1 h2 assms(3) show ?thesis by auto
qed

text \<open>The client of a session that is set up is initialised.\<close>

lemma init_vhost_client_initialised:
  "init_vhost_client st pad c os = Some (0, c', os') \<Longrightarrow> status c' = INSTANCE_INITIALIZED"
  by (auto simp: init_vhost_client_def vhost_handshake_def Let_def bind_eq_Some_conv split: prod.splits if_splits)

lemma open_session_client:
  assumes "open_session oe path w = Some (True, w')"
  shows "\<exists>c. d_client w' = Some c \<and> status c = INSTANCE_INITIALIZED"
proof -
  obtain cl cl2 os os' w2 where "init_vhost_client (oe_st oe) (oe_pad oe) cl os = Some (0, cl2, os')"
    "announce_vrings (oe_st oe) [0..<VIRTIO_SCSI_QCOUNT] (w2\<lparr>d_client := Some cl2, d_net := os'\<rparr>) = Some (True, w')"
    using assms by (auto simp: open_session_def Let_def bind_eq_Some_conv split: prod.splits if_splits option.splits)
  with init_vhost_client_initialised announce_vrings_frame show ?thesis by fastforce
qed


lemma open_poller_held:
  assumes "open_poller oe w = Some (False, w')" "holds (d_vring w) s0 (w_sys w)" "\<not> d_poller w" "a_outfd w = 0" "s_efd s0 0 \<noteq> None"
  shows "setup_held s0 w'"
proof (cases "oe_ring oe")
  case None
  with assms show ?thesis by (auto simp: open_poller_def setup_held_def)
next
  case (Some r)
  let ?w1 = "w\<lparr>a_outring := r, d_has_outring := True, a_event_high_wm := 0\<rparr>"
  obtain fd s where e: "eventfd (w_sys w) = (fd, s)" by fastforce
  then show ?thesis
  proof (cases rule: eventfd_cases)
    case failed
    with assms Some e show ?thesis by (auto simp: open_poller_def setup_held_def Let_def)
  next
    case opened
    have "s_efd s0 0 = (s_efd (w_sys w) |` (- ring_fds (d_vring w))) 0" using assms(2) by (simp add: holds_def)
    then have "s_efd (w_sys w) 0 \<noteq> None" using assms(5) by (auto simp: restrict_map_def split: if_splits)
    with opened have fd: "0 < fd" by (cases "fd = 0") auto
    let ?s = "s\<lparr>s_nalloc := Suc (s_nalloc s)\<rparr>"
    have w': "w_sys w' = ?s" "a_outfd w' = fd" "d_vring w' = d_vring w" "d_poller w' \<longrightarrow> tid (w_poller w') = 0"
      using assms(1,3) Some e opened(1)
      by (auto simp: open_poller_def vring_poller_create_def vring_poller_start_def c_alloc_def Let_def bind_eq_Some_conv
          split: if_splits option.splits)
    then show ?thesis using assms(2) opened fd unfolding setup_held_def by (intro conjI exI [of _ "w_sys w"]) auto
  qed
qed

lemma open_setup_held:
  assumes "rte_malloc_spec (e_rm (oe_env oe))" "open_setup oe path (zero_dev w) = Some (False, w')"
    "s_blocks (w_sys w) = s_blocks s0" "s_efd (w_sys w) = s_efd s0" "s_efd s0 0 \<noteq> None"
  shows "setup_held s0 w'"
proof -
  obtain ok w1 where s: "open_session oe path (zero_dev w) = Some (ok, w1)"
    and p: "if ok then open_poller oe w1 = Some (False, w') else w' = w1"
    using assms(2) by (auto simp: open_setup_def bind_eq_Some_conv split: if_splits)
  have "holds (d_vring w1) s0 (w_sys w1) \<and> d_poller w1 = d_poller (zero_dev w) \<and> a_outfd w1 = a_outfd (zero_dev w) \<and>
      length (d_vring w1) = VIRTIO_SCSI_QCOUNT"
    by (rule open_session_holds [OF assms(1) s]) (simp_all add: zero_dev_def assms(3,4))
  then have "holds (d_vring w1) s0 (w_sys w1)" "\<not> d_poller w1" "a_outfd w1 = 0" by (simp_all add: zero_dev_def)
  moreover from this have "setup_held s0 w1" by (auto simp: setup_held_def)
  ultimately show ?thesis using p open_poller_held [OF _ _ _ _ assms(5), of oe w1 w'] by (cases ok) simp_all
qed

end
