(* ===== verification/Open_Probe.thy ===== *)
theory Open_Probe
  imports Virtio_Open Async_Stage Disk_Server
begin

text \<open>
  The three commands that \<open>open_virtio_dev\<close> sends, against a server that answers them the way the SCSI
  primary and block commands document: a disk that is connected, ready, and tells its capacity.
  The commands never destroy their task when they succeed, so their blocks stay live.
\<close>

section \<open>What the server promises\<close>

definition cmd_request :: "mem \<Rightarrow> virtio_buffer \<Rightarrow> bool" where
  "cmd_request m b \<longleftrightarrow> vb_size b = sizeof_req \<and> \<not> vb_response b \<and> m (vb_buf b) = TARGET_ID \<and> m (vb_buf b + 1) = LUN_ID"

text \<open>
  A command that only reads: \<open>cmd\<close> recognises its command block, \<open>sizes\<close> are those of the data buffers,
  \<open>reply\<close> is what they hold afterwards.
\<close>

definition answers :: "'d server \<Rightarrow> ('d \<Rightarrow> nat \<Rightarrow> u8) \<Rightarrow> (mem \<Rightarrow> ptr \<Rightarrow> bool) \<Rightarrow> nat list \<Rightarrow> (mem \<Rightarrow> ptr list \<Rightarrow> bool) \<Rightarrow> bool" where
  "answers serve disk cmd sizes reply \<longleftrightarrow> (\<forall>d m breq bresp bdata.
     cmd_request m breq \<longrightarrow> cmd m (vb_buf breq + 19) \<longrightarrow> vb_size bresp = sizeof_resp \<longrightarrow> vb_response bresp \<longrightarrow>
     (\<forall>b \<in> set bdata. vb_response b) \<longrightarrow> map vb_size bdata = sizes \<longrightarrow> bufs_ok (breq # bresp # bdata) \<longrightarrow>
     (\<exists>l m' d'. serves serve (breq # bresp # bdata) m d l m' d' \<and> resp_good m' (vb_buf bresp) \<and>
        reply m' (map vb_buf bdata) \<and> disk d' = disk d))"

definition is_inquiry :: "mem \<Rightarrow> ptr \<Rightarrow> bool" where
  "is_inquiry m p \<longleftrightarrow> m p = SPDK_SPC_INQUIRY \<and> m (p + 1) = 0 \<and> m (p + 2) = 0 \<and> from_be16 m (p + 3) = 256"

definition is_test_unit_ready :: "mem \<Rightarrow> ptr \<Rightarrow> bool" where
  "is_test_unit_ready m p \<longleftrightarrow> m p = SPDK_SPC_TEST_UNIT_READY"

definition is_read_capacity :: "mem \<Rightarrow> ptr \<Rightarrow> bool" where
  "is_read_capacity m p \<longleftrightarrow> m p = SPDK_SPC_SERVICE_ACTION_IN_16 \<and> m (p + 1) = SPDK_SBC_SAI_READ_CAPACITY_16 \<and> from_be32 m (p + 10) = 32"

text \<open>
  The first byte of INQUIRY data holds the peripheral qualifier and the device type, both 0 for a connected
  disk; READ CAPACITY (16) returns the address of the last block and the block length.
\<close>

definition scsi_probe :: "'d server \<Rightarrow> ('d \<Rightarrow> nat \<Rightarrow> u8) \<Rightarrow> nat \<Rightarrow> nat \<Rightarrow> bool" where
  "scsi_probe serve disk bs nblk \<longleftrightarrow>
     answers serve disk is_inquiry [256] (\<lambda>m ps. m (hd ps) = 0) \<and>
     answers serve disk is_test_unit_ready [] (\<lambda>m ps. True) \<and>
     answers serve disk is_read_capacity [32]
       (\<lambda>m ps. from_be64 m (hd ps) = of_nat (nblk - 1) \<and> from_be32 m (hd ps + 8) = of_nat bs)"


section \<open>One command\<close>

lemma build_command:
  assumes ready: "dev_ready q k w" and rm: "rte_malloc_spec rm" and room: "rm_room rm L (Suc (Suc j)) (s_blocks (w_sys w))" "sizeof_resp \<le> L"
    and lim: "2 \<le> lim"
  obtains s2 s3 s4 req resp where "virtio_task_create lim (w_sys w) = (s_next (w_sys w), s2)" "s_next (w_sys w) \<noteq> NULL"
    "virtio_task_alloc_buf rm (s_next (w_sys w)) sizeof_req False True s2 = Some (req, s3)" "req \<noteq> NULL"
    "virtio_task_alloc_buf rm (s_next (w_sys w)) sizeof_resp True True s3 = Some (resp, s4)" "resp \<noteq> NULL"
    "building (w_sys w) s4 (s_next (w_sys w)) lim [own_buffer req sizeof_req False, own_buffer resp sizeof_resp True]"
    "rm_room rm L j (s_blocks s4)"
proof -
  let ?t = "s_next (w_sys w)"
  have t: "?t \<noteq> NULL" and oom: "s_oom (w_sys w) = (\<lambda>_. False)" and Lq: "sizeof_req \<le> L"
    using ready room(2) by (auto simp: dev_ready_def sizeof_req_def sizeof_resp_def)
  obtain s2 where c: "virtio_task_create lim (w_sys w) = (?t, s2)" "building (w_sys w) s2 ?t lim []"
    using build_create [OF oom] by blast
  have len: "length ([] :: virtio_buffer list) < lim" "length ([] @ [x :: virtio_buffer]) < lim" for x using lim by simp_all
  have room2: "rm_room rm L (Suc (Suc j)) (s_blocks s2)" using room(1) building_owns [OF c(2)] by (simp del: rm_room.simps)
  obtain req s3 where r: "virtio_task_alloc_buf rm ?t sizeof_req False True s2 = Some (req, s3)" "req \<noteq> NULL"
    "building (w_sys w) s3 ?t lim ([] @ [own_buffer req sizeof_req False])" "rm_room rm L (Suc j) (s_blocks s3)"
    by (rule alloc_cmd [OF c(2) len(1) rm room2 Lq cmd_sizes(1), where r = False])
  obtain resp s4 where "virtio_task_alloc_buf rm ?t sizeof_resp True True s3 = Some (resp, s4)" "resp \<noteq> NULL"
    "building (w_sys w) s4 ?t lim (([] @ [own_buffer req sizeof_req False]) @ [own_buffer resp sizeof_resp True])" "rm_room rm L j (s_blocks s4)"
    by (rule alloc_cmd [OF r(3) len(2) rm r(4) room(2) cmd_sizes(2), where r = True])
  with c(1) t r(1,2) show ?thesis by (intro that [of s2 req s3 resp s4]) simp_all
qed

lemma run_probe:
  assumes e: "env_ok e" and ready: "dev_ready q (Suc k) w"
    and b: "building (w_sys w) s t lim (own_buffer req sizeof_req False # own_buffer resp sizeof_resp True # data)"
    and data: "\<forall>x \<in> set data. vb_copy x \<and> vb_response x \<and> vb_size x < 2 ^ 32" "length data \<le> 3"
    and srv: "answers (e_serve e) disk cmd (map vb_size data) reply"
    and req: "cmd_request (s_mem s) (own_buffer req sizeof_req False)" "cmd (s_mem s) (req + 19)"
  obtains w5 where "w_submit_sync e t (w\<lparr>w_sys := s\<rparr>) = Some (0, w5)" "dev_ready q k w5" "resp_good (m_of w5) resp"
    "reply (m_of w5) (map vb_buf data)" "disk (w_srv w5) = disk (w_srv w)" "s_blocks (w_sys w5) = s_blocks s" "dev_frame w w5"
proof -
  let ?bufs = "own_buffer req sizeof_req False # own_buffer resp sizeof_resp True # data"
  have "filter (\<lambda>b. \<not> vb_copy b) data = []" using data(1) by (simp add: filter_empty_conv)
  then have ok: "bufs_ok ?bufs"
    using building_owns [OF b] data(1) by (intro bufs_ok_owned [of "s_blocks (w_sys w)"]) (auto simp: owns_def sizeof_req_def sizeof_resp_def)
  obtain l m' d' where r: "serves (e_serve e) ?bufs (s_mem s) (w_srv w) l m' d'" "resp_good m' resp" "reply m' (map vb_buf data)"
    "disk d' = disk (w_srv w)"
    using srv [unfolded answers_def, rule_format, of "s_mem s" "own_buffer req sizeof_req False" "own_buffer resp sizeof_resp True" data "w_srv w"]
      req data(1) ok by auto
  obtain task where task: "s_tasks s = (s_tasks (w_sys w))(t \<mapsto> task)" "task_wf task" "task_bufs task = ?bufs" and t: "t = s_next (w_sys w)"
    "s_next s = Suc (s_next (w_sys w))" "s_oom s = s_oom (w_sys w)" "s_efd s = s_efd (w_sys w)"
    using b by (auto simp: building_def)
  have "count task = Suc (Suc (length data))" using length_task_bufs [OF task(2)] task(3) by simp
  then have cnt: "0 < count task" "count task \<le> 5" using data(2) by simp_all
  obtain w5 vr' idx efd where w5: "w_submit_sync e (s_next (w_sys w)) (w\<lparr>w_sys := s\<rparr>) = Some (0, w5)" "dev_ready q k w5" "dev_frame w w5"
    "w5 = w\<lparr>w_ring := vr', w_sys := s\<lparr>s_mem := m', s_tasks := (s_tasks s)(s_next (w_sys w) \<mapsto>
        task\<lparr>cb := Some vring_submit_sync_callback, arg := e_sarg e, vring_idx := idx, used_bytes := l\<rparr>), s_efd := efd\<rparr>,
      w_srv := d', w_woken := removeAll (e_sarg e) (w_woken w)\<rparr>"
    by (rule submit_built [OF e ready refl task(1) [unfolded t(1)] t(2-4) task(2) cnt r(1) [folded task(3)]])
  with w5 r show ?thesis by (intro that [of w5]) (simp_all add: t(1))
qed


section \<open>The three commands\<close>

lemma w_ops_sys:
  "virtio_task_create n s = (t, s') \<Longrightarrow> w_create n (w\<lparr>w_sys := s\<rparr>) = (t, w\<lparr>w_sys := s'\<rparr>)"
  "virtio_task_alloc_buf rm t sz r z s = Some (p, s') \<Longrightarrow> w_alloc rm t sz r z (w\<lparr>w_sys := s\<rparr>) = Some (p, w\<lparr>w_sys := s'\<rparr>)"
  "w_mem f (w\<lparr>w_sys := s\<rparr>) = w\<lparr>w_sys := s\<lparr>s_mem := f (s_mem s)\<rparr>\<rparr>"
  by (simp_all add: w_create_def w_alloc_def w_mem_def)

lemma dev_ready_mem: "dev_ready q k (w_mem f w) = dev_ready q k w"
proof -
  have "vring_rep vr (s\<lparr>s_mem := m\<rparr>) q = vring_rep vr s q" for vr s m
    using vring_rep_tasks_cong [of vr s q "s\<lparr>s_mem := m\<rparr>"] vring_rep_tasks_cong [of vr "s\<lparr>s_mem := m\<rparr>" q s] by auto
  then show ?thesis by (simp add: dev_ready_def w_mem_def kick_room_def)
qed

text \<open>What a command leaves behind: \<open>n\<close> blocks more, because its task is not destroyed.\<close>

definition probed :: "('d \<Rightarrow> nat \<Rightarrow> u8) \<Rightarrow> vqueue \<Rightarrow> nat \<Rightarrow> nat \<Rightarrow> ('d, 'z) pworld_scheme \<Rightarrow> ('d, 'z) pworld_scheme \<Rightarrow> bool" where
  "probed disk q k n w w' \<longleftrightarrow> dev_ready q k w' \<and> disk (w_srv w') = disk (w_srv w) \<and> dev_frame w w' \<and>
     (\<exists>own. length own = n \<and> fst ` set own \<inter> fst ` set (s_blocks (w_sys w)) = {} \<and> s_blocks (w_sys w') = own @ s_blocks (w_sys w))"

lemma building_blocks:
  assumes "building s0 s t lim bufs" "\<forall>b \<in> set bufs. vb_copy b" "length bufs = n"
  shows "\<exists>own. length own = n \<and> fst ` set own \<inter> fst ` set (s_blocks s0) = {} \<and> s_blocks s = own @ s_blocks s0"
proof (intro exI conjI)
  have "filter vb_copy bufs = bufs" using assms(2) by simp
  then have owns: "owns (s_blocks s0) bufs (s_blocks s)" using building_owns [OF assms(1)] by simp
  then show "s_blocks s = rev (map blk_of bufs) @ s_blocks s0" by (simp add: owns_def)
  have "vb_buf ` set bufs \<inter> fst ` set (s_blocks s0) = {}" using owns by (auto simp: owns_def fresh_bufs_def)
  then show "fst ` set (rev (map blk_of bufs)) \<inter> fst ` set (s_blocks s0) = {}" by simp
qed (use assms(3) in simp)

lemma send_test_unit_ready_ok:
  assumes e: "env_ok e" and ready: "dev_ready q (Suc k) w" and srv: "scsi_probe (e_serve e) disk bs nblk"
    and room: "rm_room (e_rm e) L (Suc (Suc j)) (s_blocks (w_sys w))" "sizeof_resp \<le> L"
  obtains w' where "send_test_unit_ready e w = Some (0, w')" "probed disk q k 2 w w'" "rm_room (e_rm e) L j (s_blocks (w_sys w'))"
proof -
  let ?t = "s_next (w_sys w)"
  have rm: "rte_malloc_spec (e_rm e)" using e by (simp add: env_ok_def)
  obtain s2 s3 s4 req resp where c: "virtio_task_create 2 (w_sys w) = (?t, s2)" "?t \<noteq> NULL"
    "virtio_task_alloc_buf (e_rm e) ?t sizeof_req False True s2 = Some (req, s3)" "req \<noteq> NULL"
    "virtio_task_alloc_buf (e_rm e) ?t sizeof_resp True True s3 = Some (resp, s4)" "resp \<noteq> NULL"
    "building (w_sys w) s4 ?t 2 [own_buffer req sizeof_req False, own_buffer resp sizeof_resp True]" "rm_room (e_rm e) L j (s_blocks s4)"
    by (rule build_command [OF ready rm room order_refl])
  let ?s = "s4\<lparr>s_mem := (set_lun req (s_mem s4))(req_cdb req 0 := SPDK_SPC_TEST_UNIT_READY)\<rparr>"
  have pre: "building (w_sys w) ?s ?t 2 [own_buffer req sizeof_req False, own_buffer resp sizeof_resp True]"
    "answers (e_serve e) disk is_test_unit_ready (map vb_size []) (\<lambda>m ps. True)"
    "cmd_request (s_mem ?s) (own_buffer req sizeof_req False)" "is_test_unit_ready (s_mem ?s) (req + 19)"
    using c(7) srv by (simp_all add: scsi_probe_def cmd_request_def is_test_unit_ready_def req_cdb_def set_lun_def)
  obtain w5 where w5: "w_submit_sync e ?t (w\<lparr>w_sys := ?s\<rparr>) = Some (0, w5)" "dev_ready q k w5" "resp_good (m_of w5) resp"
    "disk (w_srv w5) = disk (w_srv w)" "s_blocks (w_sys w5) = s_blocks ?s" "dev_frame w w5"
    by (rule run_probe [OF e ready pre(1) _ _ pre(2-4)]) auto
  have "send_test_unit_ready e w = Some (0, w5)"
    using c(2-6) w5(1,3) w_ops_sys(1) [OF c(1), of w] by (simp add: send_test_unit_ready_def Let_def w_ops_sys)
  moreover have "probed disk q k 2 w w5"
    unfolding probed_def using w5(2,4-6) building_blocks [OF pre(1), of 2] by simp
  ultimately show ?thesis using w5(5) c(8) by (intro that [of w5]) simp_all
qed


text \<open>The data buffer of a command.\<close>

lemma alloc_data:
  assumes b: "building s0 s t lim bufs" and len: "length bufs < lim" and rm: "rte_malloc_spec rm"
    and room: "rm_room rm L (Suc j) (s_blocks s)" "sz \<le> L" and sz: "sz < 2 ^ 31"
  obtains p s' where "virtio_task_alloc_buf rm t sz r z s = Some (p, s')" "p \<noteq> NULL"
    "building s0 s' t lim (bufs @ [own_buffer p sz r])" "rm_room rm L j (s_blocks s')"
  unfolding virtio_task_alloc_buf_def own_buffer_blk
  by (rule build_alloc [OF b len rm room sz, of r z 0 sz]) (auto intro: that [unfolded virtio_task_alloc_buf_def own_buffer_blk])

lemma probe_with_data:
  assumes e: "env_ok e" and ready: "dev_ready q (Suc k) w" and srv: "answers (e_serve e) disk cmd [n] reply"
    and room: "rm_room (e_rm e) L (Suc (Suc (Suc j))) (s_blocks (w_sys w))" "sizeof_resp \<le> L" "n \<le> L" "n < 2 ^ 31"
    and req: "\<And>m req. cmd_request (f req m) (own_buffer req sizeof_req False) \<and> cmd (f req m) (req + 19)"
  obtains s2 s3 s4 s5 req resp p w5 where "virtio_task_create 3 (w_sys w) = (s_next (w_sys w), s2)" "s_next (w_sys w) \<noteq> NULL"
    "virtio_task_alloc_buf (e_rm e) (s_next (w_sys w)) sizeof_req False True s2 = Some (req, s3)" "req \<noteq> NULL"
    "virtio_task_alloc_buf (e_rm e) (s_next (w_sys w)) sizeof_resp True True s3 = Some (resp, s4)" "resp \<noteq> NULL"
    "virtio_task_alloc_buf (e_rm e) (s_next (w_sys w)) n True z s4 = Some (p, s5)" "p \<noteq> NULL"
    "w_submit_sync e (s_next (w_sys w)) (w\<lparr>w_sys := s5\<lparr>s_mem := f req (s_mem s5)\<rparr>\<rparr>) = Some (0, w5)"
    "resp_good (m_of w5) resp" "reply (m_of w5) [p]" "probed disk q k 3 w w5" "rm_room (e_rm e) L j (s_blocks (w_sys w5))"
proof -
  let ?t = "s_next (w_sys w)"
  have rm: "rte_malloc_spec (e_rm e)" using e by (simp add: env_ok_def)
  obtain s2 s3 s4 req resp where c: "virtio_task_create 3 (w_sys w) = (?t, s2)" "?t \<noteq> NULL"
    "virtio_task_alloc_buf (e_rm e) ?t sizeof_req False True s2 = Some (req, s3)" "req \<noteq> NULL"
    "virtio_task_alloc_buf (e_rm e) ?t sizeof_resp True True s3 = Some (resp, s4)" "resp \<noteq> NULL"
    "building (w_sys w) s4 ?t 3 [own_buffer req sizeof_req False, own_buffer resp sizeof_resp True]" "rm_room (e_rm e) L (Suc j) (s_blocks s4)"
    by (rule build_command [OF ready rm room(1,2), of 3]) auto
  obtain p s5 where d: "virtio_task_alloc_buf (e_rm e) ?t n True z s4 = Some (p, s5)" "p \<noteq> NULL"
    "building (w_sys w) s5 ?t 3 ([own_buffer req sizeof_req False, own_buffer resp sizeof_resp True] @ [own_buffer p n True])"
    "rm_room (e_rm e) L j (s_blocks s5)"
    by (rule alloc_data [OF c(7) _ rm c(8) room(3,4), where r = True and z = z]) auto
  let ?s = "s5\<lparr>s_mem := f req (s_mem s5)\<rparr>"
  have pre: "building (w_sys w) ?s ?t 3 (own_buffer req sizeof_req False # own_buffer resp sizeof_resp True # [own_buffer p n True])"
    "answers (e_serve e) disk cmd (map vb_size [own_buffer p n True]) reply"
    "cmd_request (s_mem ?s) (own_buffer req sizeof_req False)" "cmd (s_mem ?s) (req + 19)"
    using d(3) srv req by simp_all
  obtain w5 where w5: "w_submit_sync e ?t (w\<lparr>w_sys := ?s\<rparr>) = Some (0, w5)" "dev_ready q k w5" "resp_good (m_of w5) resp"
    "reply (m_of w5) (map vb_buf [own_buffer p n True])" "disk (w_srv w5) = disk (w_srv w)" "s_blocks (w_sys w5) = s_blocks ?s" "dev_frame w w5"
    by (rule run_probe [OF e ready pre(1) _ _ pre(2-4)]) (use room(4) in auto)
  have "probed disk q k 3 w w5"
    unfolding probed_def using w5(2,5-7) building_blocks [OF pre(1), of 3] by simp
  with w5 c(1-6) d(1,2,4) show ?thesis by (intro that [of s2 req s3 resp s4 p s5 w5]) simp_all
qed

lemma probed_mem: "probed disk q k n w w' \<Longrightarrow> probed disk q k n w (w_mem f w')"
  unfolding probed_def dev_frame_mem dev_ready_mem by (simp add: w_mem_def)

lemma send_inquiry_ok:
  assumes e: "env_ok e" and ready: "dev_ready q (Suc k) w" and srv: "scsi_probe (e_serve e) disk bs nblk"
    and room: "rm_room (e_rm e) L (Suc (Suc (Suc j))) (s_blocks (w_sys w))" "256 \<le> L"
  obtains w' where "send_inquiry e w = Some (0, w')" "probed disk q k 3 w w'" "rm_room (e_rm e) L j (s_blocks (w_sys w'))"
proof -
  let ?t = "s_next (w_sys w)"
  define f where "f req m = to_be16 (req_cdb req 0 + 3) (of_nat VIRTIO_SCAN_PAYLOAD_SIZE)
    ((set_lun req m)(req_cdb req 0 := SPDK_SPC_INQUIRY, req_cdb req 0 + 1 := 0, req_cdb req 0 + 2 := 0))" for req and m :: mem
  have spec: "answers (e_serve e) disk is_inquiry [VIRTIO_SCAN_PAYLOAD_SIZE] (\<lambda>m ps. m (hd ps) = 0)"
    using srv by (simp add: scsi_probe_def VIRTIO_SCAN_PAYLOAD_SIZE_def)
  have req: "cmd_request (f req m) (own_buffer req sizeof_req False) \<and> is_inquiry (f req m) (req + 19)" for req m
    by (simp add: f_def cmd_request_def is_inquiry_def req_cdb_def set_lun_def be_frames be16.load_store VIRTIO_SCAN_PAYLOAD_SIZE_def)
  have sz: "sizeof_resp \<le> L" "VIRTIO_SCAN_PAYLOAD_SIZE \<le> L" "VIRTIO_SCAN_PAYLOAD_SIZE < 2 ^ 31"
    using room(2) by (simp_all add: sizeof_resp_def VIRTIO_SCAN_PAYLOAD_SIZE_def)
  obtain s2 s3 s4 s5 req resp p w5 where c: "virtio_task_create 3 (w_sys w) = (?t, s2)" "?t \<noteq> NULL"
    "virtio_task_alloc_buf (e_rm e) ?t sizeof_req False True s2 = Some (req, s3)" "req \<noteq> NULL"
    "virtio_task_alloc_buf (e_rm e) ?t sizeof_resp True True s3 = Some (resp, s4)" "resp \<noteq> NULL"
    "virtio_task_alloc_buf (e_rm e) ?t VIRTIO_SCAN_PAYLOAD_SIZE True False s4 = Some (p, s5)" "p \<noteq> NULL"
    and w5: "w_submit_sync e ?t (w\<lparr>w_sys := s5\<lparr>s_mem := f req (s_mem s5)\<rparr>\<rparr>) = Some (0, w5)"
    "resp_good (m_of w5) resp" "m_of w5 (hd [p]) = 0" "probed disk q k 3 w w5" "rm_room (e_rm e) L j (s_blocks (w_sys w5))"
    by (rule probe_with_data [OF e ready spec room(1) sz req, where z = False])
  have "send_inquiry e w = Some (0, w_mem (\<lambda>m. m(p + 31 := 0, p + 15 := 0)) w5)"
    using c(2-8) w5(1-3) w_ops_sys(1) [OF c(1), of w]
    by (simp add: send_inquiry_def Let_def w_ops_sys f_def SPDK_SPC_PERIPHERAL_DEVICE_TYPE_DISK_def SPDK_SPC_PERIPHERAL_QUALIFIER_CONNECTED_def)
  moreover have "s_blocks (w_sys (w_mem g w5)) = s_blocks (w_sys w5)" for g by (simp add: w_mem_def)
  ultimately show ?thesis using w5(5) by (intro that [OF _ probed_mem [OF w5(4)]]) simp_all
qed

lemma send_read_cap_ok:
  assumes e: "env_ok e" and ready: "dev_ready q (Suc k) w" and srv: "scsi_probe (e_serve e) disk bs nblk"
    and room: "rm_room (e_rm e) L (Suc (Suc (Suc j))) (s_blocks (w_sys w))" "256 \<le> L"
    and geo: "0 < bs" "bs < 2 ^ 30" "0 < nblk" "bs * nblk < 2 ^ 64"
  obtains dev' w' where "send_read_cap e dev w = Some (0, dev', w')" "probed disk q k 3 w w'" "rm_room (e_rm e) L j (s_blocks (w_sys w'))"
    "geometry dev' bs nblk"
proof -
  let ?t = "s_next (w_sys w)"
  define f where "f req m = to_be32 (req_cdb req 10) 32 ((set_lun req m)
    (req_cdb req 0 := SPDK_SPC_SERVICE_ACTION_IN_16, req_cdb req 1 := SPDK_SBC_SAI_READ_CAPACITY_16))" for req and m :: mem
  have spec: "answers (e_serve e) disk is_read_capacity [32]
      (\<lambda>m ps. from_be64 m (hd ps) = of_nat (nblk - 1) \<and> from_be32 m (hd ps + 8) = of_nat bs)"
    using srv by (simp add: scsi_probe_def)
  have req: "cmd_request (f req m) (own_buffer req sizeof_req False) \<and> is_read_capacity (f req m) (req + 19)" for req m
    by (simp add: f_def cmd_request_def is_read_capacity_def req_cdb_def set_lun_def be_frames be32.load_store add.assoc)
  have sz: "sizeof_resp \<le> L" "32 \<le> L" "(32::nat) < 2 ^ 31" using room(2) by (simp_all add: sizeof_resp_def)
  obtain s2 s3 s4 s5 req resp p w5 where c: "virtio_task_create 3 (w_sys w) = (?t, s2)" "?t \<noteq> NULL"
    "virtio_task_alloc_buf (e_rm e) ?t sizeof_req False True s2 = Some (req, s3)" "req \<noteq> NULL"
    "virtio_task_alloc_buf (e_rm e) ?t sizeof_resp True True s3 = Some (resp, s4)" "resp \<noteq> NULL"
    "virtio_task_alloc_buf (e_rm e) ?t 32 True True s4 = Some (p, s5)" "p \<noteq> NULL"
    and w5: "w_submit_sync e ?t (w\<lparr>w_sys := s5\<lparr>s_mem := f req (s_mem s5)\<rparr>\<rparr>) = Some (0, w5)" "resp_good (m_of w5) resp"
    "from_be64 (m_of w5) (hd [p]) = of_nat (nblk - 1) \<and> from_be32 (m_of w5) (hd [p] + 8) = of_nat bs"
    "probed disk q k 3 w w5" "rm_room (e_rm e) L j (s_blocks (w_sys w5))"
    by (rule probe_with_data [OF e ready spec room(1) sz req, where z = True])
  let ?dev = "dev\<lparr>num_blocks := nblk, block_size := int bs, cap := bs * nblk\<rparr>"
  have "nblk \<le> bs * nblk" using geo(1) by simp
  then have "nblk < 2 ^ 64" using geo(4) by linarith
  moreover have "of_nat (nblk - 1) + 1 = (of_nat nblk :: u64)" using geo(3) by (cases nblk) simp_all
  ultimately have nb: "unat (of_nat (nblk - 1) + 1 :: u64) = nblk" by (simp add: unat_of_nat)
  have "uint (of_nat bs :: u32) = int bs" using geo(2) by (simp add: uint_nat unat_of_nat)
  then have b: "to_int (uint (of_nat bs :: u32)) = int bs" using geo(2) by (simp add: to_int_of_nat)
  have "size_mul (to_size (int bs)) nblk = bs * nblk" using geo(2,4) by (simp add: to_size_of_nat size_mul_id)
  then have "send_read_cap e dev w = Some (0, ?dev, w5)"
    using c(2-8) w5(1-3) w_ops_sys(1) [OF c(1), of w] nb b
    by (simp add: send_read_cap_def Let_def w_ops_sys f_def)
  moreover have "geometry ?dev bs nblk" using geo by (simp add: geometry_def)
  ultimately show ?thesis using w5(4,5) by (intro that)
qed


lemma probed_trans:
  assumes "probed disk q j n w1 w2" "probed disk q k m w2 w3"
  shows "probed disk q k (m + n) w1 w3"
proof -
  obtain own1 own2 where own: "length own1 = n" "fst ` set own1 \<inter> fst ` set (s_blocks (w_sys w1)) = {}" "s_blocks (w_sys w2) = own1 @ s_blocks (w_sys w1)"
    "length own2 = m" "fst ` set own2 \<inter> fst ` set (s_blocks (w_sys w2)) = {}" "s_blocks (w_sys w3) = own2 @ s_blocks (w_sys w2)"
    using assms by (auto simp: probed_def)
  then have "length (own2 @ own1) = m + n" "fst ` set (own2 @ own1) \<inter> fst ` set (s_blocks (w_sys w1)) = {}"
    "s_blocks (w_sys w3) = (own2 @ own1) @ s_blocks (w_sys w1)" by auto
  moreover have "dev_frame w1 w3" using assms dev_frame_trans by (auto simp: probed_def)
  ultimately show ?thesis using assms unfolding probed_def by auto
qed

lemma open_probe_ok:
  assumes e: "env_ok (oe_env oe)" and ready: "dev_ready q (3 + k) w" and srv: "scsi_probe (e_serve (oe_env oe)) disk bs nblk"
    and room: "rm_room (e_rm (oe_env oe)) L (8 + j) (s_blocks (w_sys w))" "256 \<le> L"
    and geo: "0 < bs" "bs < 2 ^ 30" "0 < nblk" "bs * nblk < 2 ^ 64"
  obtains w' dev' where "open_probe oe w = Some (True, w'\<lparr>a_dev := dev'\<rparr>)" "geometry dev' bs nblk" "probed disk q k 8 w w'"
    "rm_room (e_rm (oe_env oe)) L j (s_blocks (w_sys w'))"
proof -
  let ?e = "oe_env oe"
  have k: "3 + k = Suc (Suc (Suc k))" and j: "8 + j = Suc (Suc (Suc (5 + j)))" "5 + j = Suc (Suc (3 + j))" "3 + j = Suc (Suc (Suc j))"
    and L: "sizeof_resp \<le> L" using room(2) by (simp_all add: sizeof_resp_def)
  obtain w1 where w1: "send_inquiry ?e w = Some (0, w1)" "probed disk q (Suc (Suc k)) 3 w w1" "rm_room (e_rm ?e) L (5 + j) (s_blocks (w_sys w1))"
    by (rule send_inquiry_ok [OF e ready [unfolded k] srv room(1) [unfolded j(1)] room(2)])
  then have r1: "dev_ready q (Suc (Suc k)) w1" by (simp add: probed_def)
  obtain w2 where w2: "send_test_unit_ready ?e w1 = Some (0, w2)" "probed disk q (Suc k) 2 w1 w2" "rm_room (e_rm ?e) L (3 + j) (s_blocks (w_sys w2))"
    by (rule send_test_unit_ready_ok [OF e r1 srv w1(3) [unfolded j(2)] L])
  then have r2: "dev_ready q (Suc k) w2" by (simp add: probed_def)
  obtain dev w3 where w3: "send_read_cap ?e (a_dev w2) w2 = Some (0, dev, w3)" "probed disk q k 3 w2 w3" "rm_room (e_rm ?e) L j (s_blocks (w_sys w3))"
    "geometry dev bs nblk"
    by (rule send_read_cap_ok [OF e r2 srv w2(3) [unfolded j(3)] room(2) geo])
  have "probed disk q k (3 + (2 + 3)) w w3" by (rule probed_trans [OF probed_trans [OF w1(2) w2(2)] w3(2)])
  moreover have "open_probe oe w = Some (True, w3\<lparr>a_dev := dev\<rparr>)" using w1(1) w2(1) w3(1) by (simp add: open_probe_def)
  ultimately show ?thesis using w3(3,4) by (intro that [where w' = w3 and dev' = dev]) simp_all
qed

end
