(* ===== verification/Open_Success.thy ===== *)
theory Open_Success
  imports Open_Release Open_Probe
begin

text \<open>
  Opening a device when nothing fails: memory, descriptors and threads are available, the server takes
  the messages and answers. The rings are created and announced, the poller runs, and the probe commands
  find the geometry of the disk.
\<close>

section \<open>Descriptors\<close>

definition fds_free :: "nat \<Rightarrow> sys \<Rightarrow> bool" where
  "fds_free n s \<longleftrightarrow> n \<le> length (filter (\<lambda>fd. s_efd s fd = None) [0..FD_LIMIT - 1]) \<and> s_efd s 0 \<noteq> None"

lemma eventfd_ok:
  assumes "fds_free (Suc n) s"
  obtains fd where "eventfd s = (fd, s\<lparr>s_efd := (s_efd s)(fd \<mapsto> 0)\<rparr>)" "0 < fd" "s_efd s fd = None"
    "fds_free n (s\<lparr>s_efd := (s_efd s)(fd \<mapsto> 0)\<rparr>)"
proof (cases "filter (\<lambda>fd. s_efd s fd = None) [0..FD_LIMIT - 1]")
  case Nil
  with assms show ?thesis by (simp add: fds_free_def)
next
  case (Cons fd fds)
  then have "fd \<in> set (filter (\<lambda>fd. s_efd s fd = None) [0..FD_LIMIT - 1])" by simp
  then have fd: "0 \<le> fd" "s_efd s fd = None" by auto
  with assms have pos: "0 < fd" by (cases "fd = 0") (auto simp: fds_free_def)
  have "distinct (fd # fds)" unfolding Cons [symmetric] by simp
  then have "filter (\<lambda>x. x \<noteq> fd) (fd # fds) = fds" by (auto intro: filter_True)
  then have "filter (\<lambda>x. ((s_efd s)(fd \<mapsto> 0)) x = None) [0..FD_LIMIT - 1] = fds"
    unfolding Cons [symmetric] by (simp add: filter_filter conj_commute cong: conj_cong)
  moreover have "eventfd s = (fd, s\<lparr>s_efd := (s_efd s)(fd \<mapsto> 0)\<rparr>)" using Cons by (simp add: eventfd_def)
  ultimately show ?thesis using assms pos fd(2) Cons by (intro that [of fd]) (simp_all add: fds_free_def)
qed


section \<open>The rings\<close>

text \<open>A ring that was created and not used yet.\<close>

definition ring_new :: "vring \<Rightarrow> sys \<Rightarrow> bool" where
  "ring_new vr s \<longleftrightarrow> 0 < kickfd vr \<and> 0 < callfd vr \<and> vring_rep vr s empty_queue \<and>
     callfd vr \<noteq> kickfd vr \<and> s_efd s (kickfd vr) = Some 0 \<and> s_efd s (callfd vr) = Some 0"

lemma vring_rep_empty: "vring_rep vr s empty_queue \<Longrightarrow> vring_rep vr s' empty_queue"
  by (rule vring_rep_tasks_cong) (auto simp: empty_queue_def)

lemma ring_new_mono:
  "ring_new vr s \<Longrightarrow> s_efd s' (kickfd vr) = s_efd s (kickfd vr) \<Longrightarrow> s_efd s' (callfd vr) = s_efd s (callfd vr) \<Longrightarrow> ring_new vr s'"
  by (auto simp: ring_new_def intro: vring_rep_empty)

definition efd_grows :: "sys \<Rightarrow> sys \<Rightarrow> bool" where
  "efd_grows s s' \<longleftrightarrow> (\<forall>fd. s_efd s fd \<noteq> None \<longrightarrow> s_efd s' fd = s_efd s fd)"

lemma vring_create_ok:
  assumes rm: "rte_malloc_spec rm" and room: "rm_room rm L (Suc j) (s_blocks s)" "sizeof_vhost_vring \<le> L"
    and s: "s_oom s = (\<lambda>_. False)" "fds_free (Suc (Suc n)) s"
  obtains vr s' where "vring_create rm s = (Some vr, s')" "ring_new vr s'" "rm_room rm L j (s_blocks s')" "fds_free n s'" "efd_grows s s'"
proof -
  define p where "p = rm (s_blocks s) sizeof_vhost_vring 0"
  have p: "p \<noteq> NULL" "rm_room rm L j ((p, sizeof_vhost_vring) # s_blocks s)" using room by (simp_all add: p_def)
  let ?s2 = "s\<lparr>s_nalloc := Suc (s_nalloc s), s_blocks := (p, sizeof_vhost_vring) # s_blocks s, s_mem := memset p 0 sizeof_vhost_vring (s_mem s)\<rparr>"
  have "to_size (int sizeof_vhost_vring) = sizeof_vhost_vring" by (simp add: sizeof_vhost_vring_def to_size_def)
  then have z: "zalloc_shared_buf rm (int sizeof_vhost_vring) 0 (s\<lparr>s_nalloc := Suc (s_nalloc s)\<rparr>) = (p, ?s2)"
    using p(1) by (simp add: zalloc_shared_buf_def alloc_shared_buf_def to_uint_def p_def Let_def)
  have "fds_free (Suc (Suc n)) ?s2" using s(2) by (simp add: fds_free_def)
  then obtain k where k: "eventfd ?s2 = (k, ?s2\<lparr>s_efd := (s_efd ?s2)(k \<mapsto> 0)\<rparr>)" "0 < k" "s_efd ?s2 k = None"
    "fds_free (Suc n) (?s2\<lparr>s_efd := (s_efd ?s2)(k \<mapsto> 0)\<rparr>)" by (rule eventfd_ok)
  let ?s3 = "?s2\<lparr>s_efd := (s_efd ?s2)(k \<mapsto> 0)\<rparr>"
  obtain c where c: "eventfd ?s3 = (c, ?s3\<lparr>s_efd := (s_efd ?s3)(c \<mapsto> 0)\<rparr>)" "0 < c" "s_efd ?s3 c = None"
    "fds_free n (?s3\<lparr>s_efd := (s_efd ?s3)(c \<mapsto> 0)\<rparr>)" using k(4) by (rule eventfd_ok)
  let ?s4 = "?s3\<lparr>s_efd := (s_efd ?s3)(c \<mapsto> 0)\<rparr>"
  obtain vr where vr: "vring_create rm s = (Some vr, ?s4)" "kickfd vr = k" "callfd vr = c"
    using s(1) z p(1) k(1,2) c(1,2) by (simp add: vring_create_def c_alloc_def)
  have "vring_rep vr ?s4 empty_queue" using rm vr(1) by (cases rule: vring_create_cases) auto
  moreover have "c \<noteq> k" using c(3) by auto
  ultimately have "ring_new vr ?s4" using vr(2,3) k(2) c(2) by (simp add: ring_new_def)
  moreover have "efd_grows s ?s4" using k(3) c(3) by (auto simp: efd_grows_def)
  ultimately show ?thesis using vr(1) p(2) c(4) by (intro that [of vr ?s4]) simp_all
qed

lemma create_vrings_succeeds:
  assumes rm: "rte_malloc_spec rm" "sizeof_vhost_vring \<le> L"
    and "s_oom (w_sys w) = (\<lambda>_. False)" "rm_room rm L (length idxs + j) (s_blocks (w_sys w))"
    "fds_free (2 * length idxs + n) (w_sys w)" "distinct idxs" "\<forall>i \<in> set idxs. i < length (d_vring w)"
  shows "\<exists>w'. create_vrings rm idxs w = (True, w') \<and> only_rings w w' \<and> rm_room rm L j (s_blocks (w_sys w')) \<and> fds_free n (w_sys w') \<and>
    efd_grows (w_sys w) (w_sys w') \<and> (\<forall>i. i \<notin> set idxs \<longrightarrow> d_vring w' ! i = d_vring w ! i) \<and>
    (\<forall>i \<in> set idxs. \<exists>vr. d_vring w' ! i = Some vr \<and> ring_new vr (w_sys w'))"
  using assms(3-)
proof (induction idxs arbitrary: w)
  case Nil
  then show ?case by (simp add: only_rings_def efd_grows_def)
next
  case (Cons i idxs)
  have room: "rm_room rm L (Suc (length idxs + j)) (s_blocks (w_sys w))" "fds_free (Suc (Suc (2 * length idxs + n))) (w_sys w)"
    using Cons.prems(2,3) by (simp_all del: rm_room.simps)
  obtain vr s' where v: "vring_create rm (w_sys w) = (Some vr, s')" "ring_new vr s'" "rm_room rm L (length idxs + j) (s_blocks s')"
    "fds_free (2 * length idxs + n) s'" "efd_grows (w_sys w) s'"
    by (rule vring_create_ok [OF rm(1) room(1) rm(2) Cons.prems(1) room(2)])
  let ?w1 = "w\<lparr>w_sys := s', d_vring := (d_vring w)[i := Some vr]\<rparr>"
  have one: "only_rings w ?w1" using vring_create_frame [OF v(1)] by (simp add: only_rings_def)
  have "\<exists>w'. create_vrings rm idxs ?w1 = (True, w') \<and> only_rings ?w1 w' \<and> rm_room rm L j (s_blocks (w_sys w')) \<and> fds_free n (w_sys w') \<and>
    efd_grows (w_sys ?w1) (w_sys w') \<and> (\<forall>i. i \<notin> set idxs \<longrightarrow> d_vring w' ! i = d_vring ?w1 ! i) \<and>
    (\<forall>i \<in> set idxs. \<exists>vr. d_vring w' ! i = Some vr \<and> ring_new vr (w_sys w'))"
    using Cons.prems(1,4,5) v(3,4) vring_create_frame(3) [OF v(1)] by (intro Cons.IH) simp_all
  then obtain w' where w': "create_vrings rm idxs ?w1 = (True, w')" "only_rings ?w1 w'" "rm_room rm L j (s_blocks (w_sys w'))" "fds_free n (w_sys w')"
    "efd_grows s' (w_sys w')" "\<forall>h. h \<notin> set idxs \<longrightarrow> d_vring w' ! h = (d_vring w)[i := Some vr] ! h"
    "\<forall>i \<in> set idxs. \<exists>vr. d_vring w' ! i = Some vr \<and> ring_new vr (w_sys w')" by auto
  have "ring_new vr (w_sys w')" using v(2) w'(5) by (intro ring_new_mono [OF v(2)]) (simp_all add: efd_grows_def ring_new_def)
  moreover have "d_vring w' ! i = Some vr" using w'(6) Cons.prems(4,5) by simp
  ultimately have "\<forall>i \<in> set (i # idxs). \<exists>vr. d_vring w' ! i = Some vr \<and> ring_new vr (w_sys w')" using w'(7) by simp
  moreover have "efd_grows (w_sys w) (w_sys w')" using v(5) w'(5) by (simp add: efd_grows_def)
  ultimately show ?case using w'(1-4,6) v(1) only_rings_trans [OF one w'(2)] by (intro exI [of _ w']) auto
qed


section \<open>The session\<close>

text \<open>A server that accepts the connection, takes \<open>n\<close> messages and answers GET_FEATURES; the huge pages can be opened.\<close>

definition peer_ready :: "shm_state \<Rightarrow> nat \<Rightarrow> netos \<Rightarrow> bool" where
  "peer_ready st n os \<longleftrightarrow> shm_wf st \<and> (\<exists>fd os1 os2 fds os3 v rs ds. os_socket os = (fd, os1) \<and> 0 \<le> fd \<and> os_connect os1 = (True, os2) \<and>
     opens_fresh os2 \<and> get_memory_fds VHOST_MEMORY_MAX_NREGIONS st os2 = (0, fds, os3) \<and> peer_takes n (n_sends os2) \<and>
     n_recvs os2 = RecvBytes (mem_read (reply_u64 VHOST_USER_GET_FEATURES v) 0 12) False [] # rs \<and>
     n_reads os2 = Some (mem_read (reply_u64 VHOST_USER_GET_FEATURES v) 12 8) # ds)"

definition handshake_requests :: "VhostUserRequest list" where
  "handshake_requests = [VHOST_USER_SET_OWNER, VHOST_USER_GET_FEATURES, VHOST_USER_SET_FEATURES, VHOST_USER_SET_MEM_TABLE]"

lemma init_vhost_client_ok:
  assumes "peer_ready st (4 + k) os" "status c = INSTANCE_CREATED" "features c = 0" "length (sock_path c) < SUN_PATH_SIZE"
  obtains c' os' ms where "init_vhost_client st pad c os = Some (0, c', os')" "n_sent os' = n_sent os @ ms"
    "map (\<lambda>(bs, _). msg_request (received bs)) ms = map request_code handshake_requests" "peer_takes k (n_sends os')"
proof -
  obtain fd os1 os2 fds os3 v rs ds where p: "shm_wf st" "os_socket os = (fd, os1)" "0 \<le> fd" "os_connect os1 = (True, os2)"
    "opens_fresh os2" "get_memory_fds VHOST_MEMORY_MAX_NREGIONS st os2 = (0, fds, os3)" "peer_takes (4 + k) (n_sends os2)"
    "n_recvs os2 = RecvBytes (mem_read (reply_u64 VHOST_USER_GET_FEATURES v) 0 12) False [] # rs"
    "n_reads os2 = Some (mem_read (reply_u64 VHOST_USER_GET_FEATURES v) 12 8) # ds"
    using assms(1) unfolding peer_ready_def by blast
  have sent: "n_sent os2 = n_sent os"
    using p(2,4) by (auto simp: os_socket_def os_connect_def split: list.splits if_splits)
  have feat: "features (c\<lparr>sock := fd\<rparr>) = 0" using assms(3) by simp
  obtain ms os' where h: "vhost_handshake st pad (c\<lparr>sock := fd\<rparr>) os2 = Some (0, c\<lparr>sock := fd, status := INSTANCE_INITIALIZED\<rparr>, os')"
    "n_sent os' = n_sent os2 @ ms" "map (\<lambda>(bs, _). msg_request (received bs)) ms = map request_code handshake_requests"
    "peer_takes k (n_sends os')"
    using handshake_ok [OF p(1,5,6,7) feat p(8,9), of pad] unfolding handshake_requests_def by auto
  have "init_vhost_client st pad c os = vhost_handshake st pad (c\<lparr>sock := fd\<rparr>) os2"
    using assms(2,4) p(2-4) by (simp add: init_vhost_client_def)
  then show ?thesis using h sent that by auto
qed

lemma set_vhost_vring_ok:
  assumes "ring_new vr s" "peer_takes (5 + k) (n_sends os)"
  obtains ms os' where "set_vhost_vring st vr idx os = Some (0, os')" "n_sent os' = n_sent os @ ms"
    "list_all2 peer_view (vring_requests vr idx) ms" "peer_takes k (n_sends os')"
proof -
  have "\<forall>(r, a) \<in> set (vring_requests vr idx). arg_ok r a" using assms(1) by (intro vring_requests_ok) (simp_all add: ring_new_def)
  moreover have "peer_takes (length (vring_requests vr idx) + k) (n_sends os)" using assms(2) by (simp add: vring_requests_def numeral_eq_Suc)
  ultimately show ?thesis using ioctl_seq_ok [of "vring_requests vr idx" k os st] that by (auto simp: set_vhost_vring_def)
qed

definition ring_requests :: "vring option list \<Rightarrow> nat list \<Rightarrow> (VhostUserRequest \<times> ioctl_arg) list" where
  "ring_requests vrs idxs = concat (map (\<lambda>i. vring_requests (the (vrs ! i)) (of_nat i)) idxs)"

lemma server_learns_rings:
  assumes "list_all2 peer_view (ring_requests vrs idxs) ms" "distinct idxs"
    "\<forall>i \<in> set idxs. i < 256 \<and> 0 < kickfd (the (vrs ! i)) \<and> 0 < callfd (the (vrs ! i))" "k < 256"
  shows "fold server_learns ms known (of_nat k) = (if k \<in> set idxs then ring_config_of (the (vrs ! k)) else known (of_nat k))"
  using assms(1-3)
proof (induction idxs arbitrary: ms known)
  case Nil
  then show ?case by (simp add: ring_requests_def)
next
  case (Cons i idxs)
  then obtain ms1 ms2 where ms: "ms = ms1 @ ms2" "list_all2 peer_view (vring_requests (the (vrs ! i)) (of_nat i)) ms1"
    "list_all2 peer_view (ring_requests vrs idxs) ms2" by (auto simp: ring_requests_def list_all2_append1)
  have "(of_nat i :: u32) < 256" using Cons.prems(3) by (simp add: word_less_nat_alt unat_of_nat)
  then have one: "fold server_learns ms1 known = known(of_nat i := ring_config_of (the (vrs ! i)))" for known
    using server_learns_ring(1) [OF ms(2)] Cons.prems(3) by simp
  have "(of_nat k :: u32) = of_nat i \<longleftrightarrow> k = i"
    using assms(4) Cons.prems(3) by (auto simp: word_unat_eq_iff unat_of_nat)
  with Cons.IH [OF ms(3)] Cons.prems(2,3) show ?case by (auto simp: ms(1) one)
qed

lemma announce_vrings_ok:
  assumes "\<forall>i \<in> set idxs. \<exists>vr. d_vring w ! i = Some vr \<and> ring_new vr (w_sys w)" "peer_takes (5 * length idxs + k) (n_sends (d_net w))"
  shows "\<exists>ms os'. announce_vrings st idxs w = Some (True, w\<lparr>d_net := os'\<rparr>) \<and> n_sent os' = n_sent (d_net w) @ ms \<and>
    list_all2 peer_view (ring_requests (d_vring w) idxs) ms \<and> peer_takes k (n_sends os')"
  using assms
proof (induction idxs arbitrary: w)
  case Nil
  then show ?case by (intro exI [of _ "[]"] exI [of _ "d_net w"]) (simp add: ring_requests_def)
next
  case (Cons i idxs)
  then obtain vr where vr: "d_vring w ! i = Some vr" "ring_new vr (w_sys w)" by auto
  have "peer_takes (5 + (5 * length idxs + k)) (n_sends (d_net w))" using Cons.prems(2) by (simp add: add.assoc)
  then obtain ms1 os1 where o: "set_vhost_vring st vr (of_nat i) (d_net w) = Some (0, os1)" "n_sent os1 = n_sent (d_net w) @ ms1"
    "list_all2 peer_view (vring_requests vr (of_nat i)) ms1" "peer_takes (5 * length idxs + k) (n_sends os1)"
    by (rule set_vhost_vring_ok [OF vr(2)])
  have "\<exists>ms os'. announce_vrings st idxs (w\<lparr>d_net := os1\<rparr>) = Some (True, w\<lparr>d_net := os1\<rparr>\<lparr>d_net := os'\<rparr>) \<and>
      n_sent os' = n_sent (d_net (w\<lparr>d_net := os1\<rparr>)) @ ms \<and> list_all2 peer_view (ring_requests (d_vring (w\<lparr>d_net := os1\<rparr>)) idxs) ms \<and>
      peer_takes k (n_sends os')"
    using Cons.prems(1) o(4) by (intro Cons.IH) simp_all
  then obtain ms2 os' where "announce_vrings st idxs (w\<lparr>d_net := os1\<rparr>) = Some (True, w\<lparr>d_net := os'\<rparr>)"
    "n_sent os' = n_sent os1 @ ms2" "list_all2 peer_view (ring_requests (d_vring w) idxs) ms2" "peer_takes k (n_sends os')" by auto
  with o vr(1) show ?case
    by (intro exI [of _ "ms1 @ ms2"] exI [of _ os']) (simp add: ring_requests_def list_all2_appendI Let_def)
qed


text \<open>The state after the session is set up: the rings exist and the server knows them.\<close>

definition announced :: "('d, 'r, 'z) dworld_scheme \<Rightarrow> ('d, 'r, 'z) dworld_scheme \<Rightarrow> bool" where
  "announced w w' \<longleftrightarrow> (\<forall>i < VIRTIO_SCSI_QCOUNT. \<exists>vr. d_vring w' ! i = Some vr \<and> ring_new vr (w_sys w')) \<and>
     (\<exists>ms1 ms2. n_sent (d_net w') = n_sent (d_net w) @ ms1 @ ms2 \<and>
        map (\<lambda>(bs, _). msg_request (received bs)) ms1 = map request_code handshake_requests \<and>
        list_all2 peer_view (ring_requests (d_vring w') [0..<VIRTIO_SCSI_QCOUNT]) ms2 \<and>
        (\<forall>known. list_all (\<lambda>i. fold server_learns ms2 known (of_nat i) = ring_config_of (the (d_vring w' ! i))) [0..<3]))"

lemma open_session_ok:
  assumes rm: "rte_malloc_spec (e_rm (oe_env oe))" "sizeof_vhost_vring \<le> L" and s: "s_oom (w_sys w) = (\<lambda>_. False)"
    and room: "rm_room (e_rm (oe_env oe)) L (3 + j) (s_blocks (w_sys w))" "fds_free (6 + n) (w_sys w)"
    and peer: "peer_ready (oe_st oe) (19 + m) (d_net w)" and path: "length path < SUN_PATH_SIZE" and vrs: "d_vring w = replicate VIRTIO_SCSI_QCOUNT None"
  obtains w' where "open_session oe path w = Some (True, w')" "announced w w'" "rm_room (e_rm (oe_env oe)) L j (s_blocks (w_sys w'))"
    "fds_free n (w_sys w')" "w_srv w' = w_srv w" "s_oom (w_sys w') = s_oom (w_sys w)"
    "s_tasks (w_sys w') = s_tasks (w_sys w)" "s_next (w_sys w') = s_next (w_sys w)" "peer_takes m (n_sends (d_net w'))"
proof -
  let ?is = "[0..<VIRTIO_SCSI_QCOUNT]"
  have q: "length ?is = 3" by (simp add: VIRTIO_SCSI_QCOUNT_def)
  let ?c = "\<lparr>sock_path = take PATH_MAX path, status = INSTANCE_CREATED, sock = 0, features = 0\<rparr>"
  let ?w1 = "w\<lparr>w_sys := (w_sys w)\<lparr>s_nalloc := Suc (s_nalloc (w_sys w))\<rparr>, d_client := Some ?c\<rparr>"
  have n: "new_vhost_client path (w_sys w) = (Some ?c, (w_sys w)\<lparr>s_nalloc := Suc (s_nalloc (w_sys w))\<rparr>)"
    using s by (simp add: new_vhost_client_def c_alloc_def)
  have "\<exists>w2. create_vrings (e_rm (oe_env oe)) ?is ?w1 = (True, w2) \<and> only_rings ?w1 w2 \<and> rm_room (e_rm (oe_env oe)) L j (s_blocks (w_sys w2)) \<and>
      fds_free n (w_sys w2) \<and> efd_grows (w_sys ?w1) (w_sys w2) \<and> (\<forall>i. i \<notin> set ?is \<longrightarrow> d_vring w2 ! i = d_vring ?w1 ! i) \<and>
      (\<forall>i \<in> set ?is. \<exists>vr. d_vring w2 ! i = Some vr \<and> ring_new vr (w_sys w2))"
    by (rule create_vrings_succeeds [OF rm]) (use s room q vrs in \<open>simp_all add: fds_free_def del: rm_room.simps\<close>)
  then obtain w2 where w2: "create_vrings (e_rm (oe_env oe)) ?is ?w1 = (True, w2)" "only_rings ?w1 w2" "rm_room (e_rm (oe_env oe)) L j (s_blocks (w_sys w2))"
    "fds_free n (w_sys w2)" "\<forall>i \<in> set ?is. \<exists>vr. d_vring w2 ! i = Some vr \<and> ring_new vr (w_sys w2)" by blast
  have net: "d_net w2 = d_net w" using only_rings_sel(1) [OF w2(2)] by simp
  have peer4: "peer_ready (oe_st oe) (4 + (15 + m)) (d_net w2)" using peer net by (simp add: add.assoc [symmetric])
  obtain c' os' ms1 where i: "init_vhost_client (oe_st oe) (oe_pad oe) ?c (d_net w2) = Some (0, c', os')" "n_sent os' = n_sent (d_net w2) @ ms1"
    "map (\<lambda>(bs, _). msg_request (received bs)) ms1 = map request_code handshake_requests" "peer_takes (15 + m) (n_sends os')"
    by (rule init_vhost_client_ok [OF peer4, of ?c "oe_pad oe"]) (use path in auto)
  let ?w3 = "w2\<lparr>d_client := Some c', d_net := os'\<rparr>"
  obtain ms2 os2 where a: "announce_vrings (oe_st oe) ?is ?w3 = Some (True, ?w3\<lparr>d_net := os2\<rparr>)" "n_sent os2 = n_sent os' @ ms2"
    "list_all2 peer_view (ring_requests (d_vring w2) ?is) ms2" "peer_takes m (n_sends os2)"
    using announce_vrings_ok [of ?is ?w3 m "oe_st oe"] w2(5) i(4) by (auto simp: VIRTIO_SCSI_QCOUNT_def)
  let ?w' = "?w3\<lparr>d_net := os2\<rparr>"
  have run: "open_session oe path w = Some (True, ?w')" using n w2(1) i(1) a(1) by (simp add: open_session_def Let_def)
  have "\<forall>i \<in> set ?is. i < 256 \<and> 0 < kickfd (the (d_vring w2 ! i)) \<and> 0 < callfd (the (d_vring w2 ! i))"
    using w2(5) by (auto simp: ring_new_def VIRTIO_SCSI_QCOUNT_def)
  from server_learns_rings [OF a(3) _ this]
  have learnt: "list_all (\<lambda>i. fold server_learns ms2 known (of_nat i) = ring_config_of (the (d_vring w2 ! i))) [0..<3]" for known
    by (auto simp: list_all_iff VIRTIO_SCSI_QCOUNT_def simp del: upt.simps upt_rec_numeral)
  then have "announced w ?w'"
    using w2(5) a i(2,3) net unfolding announced_def by (intro conjI exI [of _ ms1] exI [of _ ms2]) simp_all
  moreover have "w_srv w2 = w_srv w" "s_oom (w_sys w2) = s_oom (w_sys w)" "s_tasks (w_sys w2) = s_tasks (w_sys w)" "s_next (w_sys w2) = s_next (w_sys w)"
    using w2(2) only_rings_sel(5) [OF w2(2)] by (simp_all add: only_rings_def)
  ultimately show ?thesis using run w2(3,4) a(4) by (intro that [of ?w']) simp_all
qed


lemma open_poller_ok:
  assumes "oe_ring oe = Some r" "oe_tid oe = Some i" "fds_free (Suc n) (w_sys w)" "s_oom (w_sys w) = (\<lambda>_. False)"
    "d_vring w ! VIRTIO_SCSI_REQUESTQ = Some vr" "ring_new vr (w_sys w)"
  obtains w' where "open_poller oe w = Some (True, w')" "w_ring w' = vr" "ring_new vr (w_sys w')" "d_net w' = d_net w" "d_vring w' = d_vring w"
    "w_srv w' = w_srv w" "s_blocks (w_sys w') = s_blocks (w_sys w)" "s_oom (w_sys w') = s_oom (w_sys w)"
    "s_tasks (w_sys w') = s_tasks (w_sys w)" "s_next (w_sys w') = s_next (w_sys w)" "d_poller w'" "tid (w_poller w') = i"
    "\<forall>vr'. ring_new vr' (w_sys w) \<longrightarrow> ring_new vr' (w_sys w')" "d_client w' = d_client w"
    "s_efd (w_sys w) (a_outfd w') = None" "s_efd (w_sys w') = (s_efd (w_sys w))(a_outfd w' \<mapsto> 0)"
proof -
  obtain fd where fd: "eventfd (w_sys w) = (fd, (w_sys w)\<lparr>s_efd := (s_efd (w_sys w))(fd \<mapsto> 0)\<rparr>)" "0 < fd" "s_efd (w_sys w) fd = None"
    by (rule eventfd_ok [OF assms(3)])
  let ?s = "(w_sys w)\<lparr>s_efd := (s_efd (w_sys w))(fd \<mapsto> 0), s_nalloc := Suc (s_nalloc (w_sys w))\<rparr>"
  have new: "ring_new vr' ?s" if "ring_new vr' (w_sys w)" for vr'
    using that fd(3) by (intro ring_new_mono [OF that]) (auto simp: ring_new_def)
  obtain w' where w': "open_poller oe w = Some (True, w')" "w' = w\<lparr>a_outring := r, d_has_outring := True, a_event_high_wm := 0,
      w_sys := ?s, a_outfd := fd, w_ring := vr, w_poller := w_poller w', d_poller := True\<rparr>" "tid (w_poller w') = i"
    using assms(1,2,4,5) fd(1,2)
    by (auto simp: open_poller_def vring_poller_create_def vring_poller_start_def c_alloc_def Let_def)
  have sel: "w_ring w' = vr" "w_sys w' = ?s" "d_net w' = d_net w" "d_vring w' = d_vring w" "w_srv w' = w_srv w" "d_poller w'"
    "d_client w' = d_client w" "a_outfd w' = fd" by (subst w'(2), simp)+
  show ?thesis by (rule that [OF w'(1) sel(1)]) (use sel w'(3) new assms(6) fd(3) in simp_all)
qed

end
