(* ===== verification/Open_Theorems.thy ===== *)
theory Open_Theorems
  imports Open_Success Async_Theorems
begin

text \<open>What opening a device guarantees, in success and in failure, with concrete instances.\<close>

section \<open>A server that answers the probe commands\<close>

text \<open>The server of \<open>Disk_Server\<close>, which also knows INQUIRY, TEST UNIT READY and READ CAPACITY.\<close>

definition probe_server :: "nat \<Rightarrow> nat \<Rightarrow> (nat \<Rightarrow> u8) server" where
  "probe_server bs nblk vr m d =
     (let chain = walk_chain 1024 (desc (shm vr)) (last_announced vr);
          p = fst (hd chain) + 19;
          writable = filter (\<lambda>(p, n, wr). wr) chain;
          data = fst (hd (tl writable));
          m1 = memset (fst (hd writable)) 0 sizeof_resp m;
          vr1 = used_push (ucast (last_announced vr)) (of_nat sizeof_resp) vr
      in if is_inquiry m p then (vr1, memset data 0 36 m1, d)
         else if is_test_unit_ready m p then (vr1, m1, d)
         else if is_read_capacity m p then (vr1, to_be32 (data + 8) (of_nat bs) (to_be64 data (of_nat (nblk - 1)) m1), d)
         else disk_server bs vr m d)"

lemmas probe_cmds = is_inquiry_def is_test_unit_ready_def is_read_capacity_def SPDK_SPC_INQUIRY_def SPDK_SPC_TEST_UNIT_READY_def
  SPDK_SPC_SERVICE_ACTION_IN_16_def SPDK_SBC_SAI_READ_CAPACITY_16_def

lemma probe_server_rw:
  assumes "serves (disk_server bs) (b # bs') m d l m' d'" "decode_cdb m (vb_buf b + 19) = Some x" "bufs_ok (b # bs')"
  shows "serves (probe_server bs nblk) (b # bs') m d l m' d'"
  unfolding serves_def
proof (intro allI impI)
  fix vr assume a: "announces vr (b # bs')"
  have "\<not> is_inquiry m (vb_buf b + 19)" "\<not> is_test_unit_ready m (vb_buf b + 19)" "\<not> is_read_capacity m (vb_buf b + 19)"
    using assms(2) by (auto simp: decode_cdb_def probe_cmds opcode_defs split: if_splits)
  then have "probe_server bs nblk vr m d = disk_server bs vr m d"
    using announces_walk [OF a assms(3)] by (simp add: probe_server_def Let_def view_def)
  then show "probe_server bs nblk vr m d = (used_push (ucast (last_announced vr)) l vr, m', d')"
    using assms(1) a by (simp add: serves_def)
qed

lemma probe_server_disk: "scsi_server (probe_server bs nblk) id bs nblk"
proof -
  have "scsi_read_spec (probe_server bs nblk) id bs nblk"
    using disk_server_reads [of bs nblk] unfolding scsi_read_spec_def request_ok_def by (blast intro: probe_server_rw)
  moreover have "scsi_write_spec (probe_server bs nblk) id bs nblk"
    using disk_server_writes [of bs nblk] unfolding scsi_write_spec_def request_ok_def by (blast intro: probe_server_rw)
  ultimately show ?thesis by (simp add: scsi_server_def)
qed

lemma resp_good_other:
  "disjoint_range p sizeof_resp q n \<Longrightarrow> k \<le> n \<Longrightarrow> resp_good m p \<Longrightarrow> resp_good (memset q v k m) p"
  "disjoint_range p sizeof_resp q n \<Longrightarrow> 12 \<le> n \<Longrightarrow> resp_good m p \<Longrightarrow> resp_good (to_be32 (q + 8) x (to_be64 q y m)) p"
  by (auto simp: resp_good_def resp_response_def resp_status_def sizeof_resp_def disjoint_range_def memset_outside be_frames)

lemma answersI:
  assumes "\<And>d vr m breq bresp bdata. announces vr (breq # bresp # bdata) \<Longrightarrow> bufs_ok (breq # bresp # bdata) \<Longrightarrow> cmd m (vb_buf breq + 19) \<Longrightarrow>
      \<not> vb_response breq \<Longrightarrow> vb_response bresp \<Longrightarrow> \<forall>b \<in> set bdata. vb_response b \<Longrightarrow> map vb_size bdata = sizes \<Longrightarrow>
      serve vr m d = (used_push (ucast (last_announced vr)) l vr, f (map vb_buf bdata) (memset (vb_buf bresp) 0 sizeof_resp m), d)"
    and "\<And>m p (bdata :: virtio_buffer list). map vb_size bdata = sizes \<Longrightarrow> \<forall>b \<in> set bdata. disjoint_range p sizeof_resp (vb_buf b) (vb_size b) \<Longrightarrow>
      resp_good m p \<Longrightarrow> resp_good (f (map vb_buf bdata) m) p \<and> reply (f (map vb_buf bdata) m) (map vb_buf bdata)"
  shows "answers serve disk cmd sizes reply"
  unfolding answers_def
proof (intro allI impI)
  fix d m breq bresp and bdata :: "virtio_buffer list"
  assume req: "cmd_request m breq" "cmd m (vb_buf breq + 19)" and resp: "vb_size bresp = sizeof_resp" "vb_response bresp"
    and data: "\<forall>b \<in> set bdata. vb_response b" "map vb_size bdata = sizes" and ok: "bufs_ok (breq # bresp # bdata)"
  let ?m = "f (map vb_buf bdata) (memset (vb_buf bresp) 0 sizeof_resp m)"
  have "serves serve (breq # bresp # bdata) m d l ?m d"
    unfolding serves_def using assms(1) [OF _ ok req(2) _ resp(2) data] req(1) by (simp add: cmd_request_def)
  moreover have "\<forall>b \<in> set bdata. disjoint_range (vb_buf bresp) sizeof_resp (vb_buf b) (vb_size b)"
    using ok resp(1) by (auto simp: bufs_ok_Cons)
  ultimately show "\<exists>l m' d'. serves serve (breq # bresp # bdata) m d l m' d' \<and> resp_good m' (vb_buf bresp) \<and>
      reply m' (map vb_buf bdata) \<and> disk d' = disk d"
    using assms(2) [OF data(2) _ resp_good_memset, of "vb_buf bresp" m] by blast
qed

lemma probe_server_probes: "scsi_probe (probe_server bs nblk) id bs nblk"
proof -
  have walk: "fst (hd (walk_chain 1024 (desc (shm vr)) (last_announced vr))) = vb_buf breq"
    "filter (\<lambda>(p, n, wr). wr) (walk_chain 1024 (desc (shm vr)) (last_announced vr)) = view bresp # map view bdata"
    if "announces vr (breq # bresp # bdata)" "bufs_ok (breq # bresp # bdata)" "\<not> vb_response breq" "vb_response bresp" "\<forall>b \<in> set bdata. vb_response b"
    for vr breq bresp bdata
    using announces_walk [OF that(1,2)] that(3-5) by (auto simp: view_def filter_view(1) [unfolded view_def])
  have "answers (probe_server bs nblk) id is_inquiry [256] (\<lambda>m ps. m (hd ps) = 0)"
    by (rule answersI [where l = "of_nat sizeof_resp" and f = "\<lambda>ps. memset (hd ps) 0 36"])
      (auto simp: probe_server_def walk Let_def view_def map_eq_Cons_conv memset_inside intro: resp_good_other)
  moreover have "answers (probe_server bs nblk) id is_test_unit_ready [] (\<lambda>m ps. True)"
    by (rule answersI [where l = "of_nat sizeof_resp" and f = "\<lambda>ps m. m"])
      (auto simp: probe_server_def walk Let_def view_def probe_cmds)
  moreover have "answers (probe_server bs nblk) id is_read_capacity [32]
      (\<lambda>m ps. from_be64 m (hd ps) = of_nat (nblk - 1) \<and> from_be32 m (hd ps + 8) = of_nat bs)"
    by (rule answersI [where l = "of_nat sizeof_resp" and f = "\<lambda>ps m. to_be32 (hd ps + 8) (of_nat bs) (to_be64 (hd ps) (of_nat (nblk - 1)) m)"])
      (auto simp: probe_server_def walk Let_def view_def probe_cmds map_eq_Cons_conv be64.load_store be32.load_store be64_over_be32
        intro: resp_good_other)
  ultimately show ?thesis by (simp add: scsi_probe_def)
qed


section \<open>A process for the instances\<close>

text \<open>One huge page region, the standard descriptors in use, and a server that takes 19 messages.\<close>

definition open_net :: netos where
  "open_net = example_net\<lparr>n_sends := replicate 19 (SendCount 276)\<rparr>"

definition open_world :: "(nat \<Rightarrow> u8, ptr list) dworld" where
  "open_world = \<lparr>w_ring = example_ring, w_sys = \<lparr>s_mem = (\<lambda>a. 0), s_blocks = [(65536, 4096)], s_tasks = Map.empty,
       s_next = 200, s_nalloc = 0, s_oom = (\<lambda>_. False), s_efd = [0 \<mapsto> 0, 1 \<mapsto> 0, 2 \<mapsto> 0]\<rparr>,
     w_poller = example_poller, w_woken = [], w_srv = of_nat, a_self = 900, a_dev = example_dev, a_descs = Map.empty,
     a_outring = [], a_outfd = 0, a_event_high_wm = 0,
     d_live = False, d_net = open_net, d_client = None, d_vring = [], d_poller = False, d_has_outring = False\<rparr>"

definition open_example :: "(nat \<Rightarrow> u8, (ptr list, unit dworld_ext) aworld_ext, ptr list) open_env" where
  "open_example = \<lparr>oe_env = \<lparr>e_rm = bump_malloc, e_cbs = dev_callbacks bump_malloc (list_ring 4096), e_serve = probe_server 512 8,
       e_fuel = 2, e_sarg = 500\<rparr>, oe_st = example_shm, oe_pad = 0, oe_ring = Some [], oe_tid = Some 77,
     oe_locals = \<lparr>iocount_per_sec = 0, second = 0\<rparr>, oe_stop = []\<rparr>"


lemma peer_ready_example: "peer_ready example_shm n (example_net\<lparr>n_sends := replicate n (SendCount 276)\<rparr>)"
proof -
  let ?net = "example_net\<lparr>n_sends := replicate n (SendCount 276)\<rparr>"
  let ?os = "?net\<lparr>n_sockets := [], o_open := [9, 3, 4], n_connects := []\<rparr>"
  have "os_socket ?net = (9, ?net\<lparr>n_sockets := [], o_open := [9, 3, 4]\<rparr>)" "os_connect (?net\<lparr>n_sockets := [], o_open := [9, 3, 4]\<rparr>) = (True, ?os)"
    by (simp_all add: os_socket_def os_connect_def example_net_def)
  moreover have "\<exists>os3. get_memory_fds VHOST_MEMORY_MAX_NREGIONS example_shm ?os = (0, [10], os3)" "opens_fresh ?os"
    by (simp_all add: example_shm_def VHOST_MEMORY_MAX_NREGIONS_def opens_fresh_def example_net_def get_memory_fds_def
        to_uint_def os_open_def upt_rec)
  moreover have "peer_takes n (n_sends ?os)" by (simp add: peer_takes_replicate)
  moreover have "n_recvs ?os = [RecvBytes (mem_read (reply_u64 VHOST_USER_GET_FEATURES 0x140000000) 0 12) False []]"
    "n_reads ?os = [Some (mem_read (reply_u64 VHOST_USER_GET_FEATURES 0x140000000) 12 8)]"
    by (simp_all add: example_net_def example_reply_def)
  ultimately show ?thesis using example_shm_facts(1) unfolding peer_ready_def by fastforce
qed

lemma open_peer: "peer_ready example_shm 19 open_net"
  unfolding open_net_def by (rule peer_ready_example)

text \<open>The same process with a server that takes one more message and a poller that is stopped.\<close>

definition close_world :: "(nat \<Rightarrow> u8, ptr list) dworld" where
  "close_world = open_world\<lparr>d_net := example_net\<lparr>n_sends := replicate 20 (SendCount 276)\<rparr>\<rparr>"

definition close_example :: "(nat \<Rightarrow> u8, (ptr list, unit dworld_ext) aworld_ext, ptr list) open_env" where
  "close_example = open_example\<lparr>oe_stop := [quiet_input]\<rparr>"

lemma open_fds: "fds_free 7 (w_sys open_world)"
proof -
  let ?xs = "filter (\<lambda>fd. s_efd (w_sys open_world) fd = None) [0..FD_LIMIT - 1]"
  have "{3..9} \<subseteq> set ?xs" by (auto simp: open_world_def FD_LIMIT_def)
  then have "card {3..9 :: int} \<le> card (set ?xs)" by (rule card_mono [OF finite_set])
  also have "\<dots> = length ?xs" by (intro distinct_card) simp
  finally show ?thesis by (simp add: fds_free_def open_world_def)
qed

lemma open_env_ok: "env_ok (oe_env open_example)"
proof -
  have "dev_callbacks bump_malloc (list_ring 4096) vring_submit_sync_callback = sync_callback" by (intro ext) (simp add: dev_callbacks_def)
  then show ?thesis by (simp add: env_ok_def open_example_def bump_malloc_spec)
qed

lemma open_room: "rm_room (e_rm (oe_env open_example)) (max sizeof_vhost_vring 512) 14 (s_blocks (w_sys open_world))"
proof -
  have "rm_room bump_malloc (max sizeof_vhost_vring 512) 14 [(65536, 4096)]" by (rule bump_room) (simp add: sizeof_vhost_vring_def)
  then show ?thesis by (simp add: open_example_def open_world_def del: rm_room.simps)
qed

lemma close_facts: "env_ok (oe_env close_example)" "peer_ready (oe_st close_example) 20 (d_net close_world)"
  "rm_room (e_rm (oe_env close_example)) (max sizeof_vhost_vring 512) 11 (s_blocks (w_sys close_world))"
proof -
  show "env_ok (oe_env close_example)" using open_env_ok by (simp add: close_example_def)
  show "peer_ready (oe_st close_example) 20 (d_net close_world)" by (simp add: close_example_def close_world_def open_example_def peer_ready_example)
  have "rm_room bump_malloc (max sizeof_vhost_vring 512) 11 [(65536, 4096)]" by (rule bump_room) (simp add: sizeof_vhost_vring_def)
  then show "rm_room (e_rm (oe_env close_example)) (max sizeof_vhost_vring 512) 11 (s_blocks (w_sys close_world))"
    by (simp add: close_example_def close_world_def open_example_def open_world_def del: rm_room.simps)
qed


section \<open>Theorems\<close>

lemma rm_room_smaller: "rm_room rm L k b \<Longrightarrow> M \<le> L \<Longrightarrow> rm_room rm M k b"
  by (induction k arbitrary: b) auto

text \<open>
  What an open device holds: its three rings and the event descriptor of its output ring, on top of what the earlier state
  \<open>s0\<close> had, and the blocks \<open>own\<close> that nothing points to any more.
\<close>

definition device_holds :: "sys \<Rightarrow> (ptr \<times> nat) list \<Rightarrow> ('d, 'r, 'z) dworld_scheme \<Rightarrow> bool" where
  "device_holds s0 own w \<longleftrightarrow> NULL \<notin> vring_shm ` rings_of (d_vring w) \<and>
     (s_efd (w_sys w) |` (- ring_fds (d_vring w)))(a_outfd w := None) = s_efd s0 \<and>
     filter (\<lambda>(q, k). q \<notin> vring_shm ` rings_of (d_vring w)) (s_blocks (w_sys w)) = own @ s_blocks s0"

definition device_open :: "sys \<Rightarrow> (ptr \<times> nat) list \<Rightarrow> ('d, 'r, 'z) dworld_scheme \<Rightarrow> bool" where
  "device_open s0 own w \<longleftrightarrow> device_holds s0 own w \<and> d_poller w \<and> None \<notin> set (d_vring w) \<and>
     (\<exists>c. d_client w = Some c \<and> status c = INSTANCE_INITIALIZED) \<and>
     kickfd (w_ring w) \<in> ring_fds (d_vring w) \<and> callfd (w_ring w) \<in> ring_fds (d_vring w) \<and> callfd (w_ring w) \<noteq> kickfd (w_ring w) \<and>
     s_efd (w_sys w) (callfd (w_ring w)) = Some 0"

lemma same_rest_dev:
  assumes "same_rest w w'"
  shows "d_net w' = d_net w" "d_vring w' = d_vring w" "d_client w' = d_client w" "d_poller w' = d_poller w" "a_outfd w' = a_outfd w"
    "w_poller w' = w_poller w" "a_dev w' = a_dev w"
proof -
  have w': "w' = w\<lparr>w_ring := w_ring w', w_sys := w_sys w', w_srv := w_srv w', w_woken := w_woken w'\<rparr>" using assms by (simp add: same_rest_def)
  show "d_net w' = d_net w" "d_vring w' = d_vring w" "d_client w' = d_client w" "d_poller w' = d_poller w" "a_outfd w' = a_outfd w"
    "w_poller w' = w_poller w" "a_dev w' = a_dev w" by (subst w', simp)+
qed

lemma device_open_frame:
  assumes "device_open s0 own w" "dev_frame w w'" "s_blocks (w_sys w') = lost @ s_blocks (w_sys w)"
    "fst ` set lost \<inter> vring_shm ` rings_of (d_vring w) = {}"
  shows "device_open s0 (lost @ own) w'"
proof -
  have same: "same_rest w w'" "kickfd (w_ring w') = kickfd (w_ring w)" "callfd (w_ring w') = callfd (w_ring w)"
    "\<forall>fd. fd \<noteq> kickfd (w_ring w) \<longrightarrow> s_efd (w_sys w') fd = s_efd (w_sys w) fd"
    using assms(2) by (auto simp: dev_frame_def)
  note sel = same_rest_dev [OF same(1)]
  have kick: "kickfd (w_ring w) \<in> ring_fds (d_vring w)" using assms(1) by (simp add: device_open_def)
  have "s_efd (w_sys w') x = s_efd (w_sys w) x" if "x \<notin> ring_fds (d_vring w)" for x using kick same(4) that by metis
  then have "s_efd (w_sys w') |` (- ring_fds (d_vring w)) = s_efd (w_sys w) |` (- ring_fds (d_vring w))"
    by (auto simp: restrict_map_def)
  moreover have "filter (\<lambda>(q, k). q \<notin> vring_shm ` rings_of (d_vring w)) lost = lost"
    using assms(4) by (intro filter_True) force
  ultimately show ?thesis using assms(1,3) same sel unfolding device_open_def device_holds_def by simp
qed

text \<open>The poller has been started on the last ring of a session that is set up.\<close>

lemma device_open_start:
  assumes "holds (d_vring w1) s0 (w_sys w1)" "d_vring w2 = d_vring w1" "s_blocks (w_sys w2) = s_blocks (w_sys w1)" "d_poller w2"
    "\<exists>c. d_client w2 = Some c \<and> status c = INSTANCE_INITIALIZED" "None \<notin> set (d_vring w1)" "Some (w_ring w2) \<in> set (d_vring w1)"
    "ring_new (w_ring w2) (w_sys w2)" "s_efd (w_sys w1) (a_outfd w2) = None" "s_efd (w_sys w2) = (s_efd (w_sys w1))(a_outfd w2 \<mapsto> 0)"
  shows "device_open s0 [] w2"
proof -
  have "(s_efd (w_sys w2) |` (- ring_fds (d_vring w1)))(a_outfd w2 := None) = s_efd (w_sys w1) |` (- ring_fds (d_vring w1))"
    unfolding assms(10) using assms(9) by (simp add: restrict_map_def fun_eq_iff)
  moreover have "w_ring w2 \<in> rings_of (d_vring w1)" using assms(7) by (simp add: rings_of_def)
  then have "kickfd (w_ring w2) \<in> ring_fds (d_vring w1)" "callfd (w_ring w2) \<in> ring_fds (d_vring w1)" by (simp_all add: ring_fds_def)
  ultimately show ?thesis using assms(1-6,8) by (simp add: device_open_def device_holds_def holds_def ring_new_def)
qed

lemma close_ok:
  assumes "device_open s0 own w" "send_returns (d_net w)" "oe_stop oe = i # is" "\<forall>v. pi_others i v = v"
  shows "\<exists>w'. close_virtio_dev oe w = Some w' \<and> s_blocks (w_sys w') = own @ s_blocks s0 \<and> s_efd (w_sys w') = s_efd s0 \<and>
    \<not> d_live w' \<and> d_client w' = None \<and> w_srv w' = w_srv w"
proof -
  let ?call = "callfd (w_ring w)"
  obtain c where c: "d_client w = Some c" "status c = INSTANCE_INITIALIZED" using assms(1) by (auto simp: device_open_def)
  have call: "s_efd (w_sys w) ?call = Some 0" "?call \<in> ring_fds (d_vring w)" using assms(1) by (simp_all add: device_open_def)
  define w1 where "w1 = (if tid (w_poller w) = 0 then w else w\<lparr>w_poller := (w_poller w)\<lparr>end_flag := True, tid := 0\<rparr>,
    w_sys := (w_sys w)\<lparr>s_efd := (s_efd (w_sys w))(?call \<mapsto> 1)\<rparr>\<rparr>)"
  have stop: "vring_poller_destroy (e_cbs (oe_env oe)) (oe_locals oe) (oe_stop oe) w = Some w1"
    using call(1) assms(3,4) by (simp add: vring_poller_destroy_def vring_poller_stop_def vring_poller_request_stop_def eventfd_write_def Let_def w1_def)
  have "send_returns (d_net w1)" using assms(2) by (simp add: w1_def)
  then obtain os where e: "end_vhost_client (oe_st oe) c (d_net w1) = Some (None, os)"
    using end_vhost_client_returns [of "d_net w1" "oe_st oe" c] c(2) by auto
  have same: "s_efd (w_sys w1) |` (- ring_fds (d_vring w)) = s_efd (w_sys w) |` (- ring_fds (d_vring w))" "s_blocks (w_sys w1) = s_blocks (w_sys w)"
    "d_vring w1 = d_vring w" "a_outfd w1 = a_outfd w" "d_client w1 = Some c" "w_srv w1 = w_srv w"
    using call(2) c(1) by (auto simp: w1_def restrict_map_def fun_eq_iff)
  let ?s = "close_efd (a_outfd w) (destroy_vrings (d_vring w) (w_sys w1))"
  have "s_efd ?s = s_efd s0" "s_blocks ?s = own @ s_blocks s0"
    using assms(1) same(1,2) unfolding device_open_def device_holds_def
    by (simp_all add: close_efd_def destroy_vrings_efd destroy_vrings_blocks del: fun_upd_None_restrict restrict_fun_upd)
  moreover have "d_poller w" "None \<notin> set (d_vring w)" using assms(1) by (simp_all add: device_open_def)
  ultimately show ?thesis using stop e same(3-6) by (simp add: close_virtio_dev_def d_end_client_def Let_def c(1))
qed

lemma peer_takes_returns: "peer_takes 1 (n_sends os) \<Longrightarrow> send_returns os"
  by (auto simp: send_returns_def sends_all_def send_loop_interrupted)

text \<open>Opening when everything is available: \<open>j\<close> more blocks, \<open>m\<close> more messages and \<open>k\<close> more commands can follow.\<close>

lemma open_ok:
  assumes env: "env_ok (oe_env oe)" "scsi_server (e_serve (oe_env oe)) disk bs nblk" "scsi_probe (e_serve (oe_env oe)) disk bs nblk"
    and geo: "0 < bs" "bs < 2 ^ 30" "0 < nblk" "bs * nblk < 2 ^ 64" and oe: "oe_ring oe = Some r" "oe_tid oe = Some i"
    and w: "s_oom (w_sys w) = (\<lambda>_. False)" "0 < s_next (w_sys w)" "\<forall>t \<ge> s_next (w_sys w). s_tasks (w_sys w) t = None" "fds_free 7 (w_sys w)"
    and room: "rm_room (e_rm (oe_env oe)) L (11 + j) (s_blocks (w_sys w))" "sizeof_vhost_vring \<le> L" "bs \<le> L"
    and peer: "peer_ready (oe_st oe) (19 + m) (d_net w)" "length path < SUN_PATH_SIZE" and k: "k \<le> 2 ^ 32"
  obtains w' ms1 ms2 own where "open_virtio_dev oe path w = Some (True, w')" "dev_ready empty_queue k w'" "geometry (a_dev w') bs nblk"
    "rm_room (e_rm (oe_env oe)) L j (s_blocks (w_sys w'))" "disk (w_srv w') = disk (w_srv w)" "n_sent (d_net w') = n_sent (d_net w) @ ms1 @ ms2"
    "map (\<lambda>(bs, _). msg_request (received bs)) ms1 = map request_code handshake_requests"
    "list_all2 peer_view (ring_requests (d_vring w') [0..<VIRTIO_SCSI_QCOUNT]) ms2"
    "\<forall>known. list_all (\<lambda>i. fold server_learns ms2 known (of_nat i) = ring_config_of (the (d_vring w' ! i))) [0..<3]"
    "peer_takes m (n_sends (d_net w'))" "length own = 8" "device_open (w_sys w) own w'"
proof -
  let ?s = "snd (c_alloc (w_sys w))" and ?rm = "e_rm (oe_env oe)"
  let ?w0 = "zero_dev (w\<lparr>w_sys := ?s\<rparr>)"
  have rm: "rte_malloc_spec ?rm" using env(1) by (simp add: env_ok_def)
  have L: "256 \<le> L" using room(2) by (simp add: sizeof_vhost_vring_def)
  have w0: "s_oom (w_sys ?w0) = (\<lambda>_. False)" "rm_room ?rm L (3 + (8 + j)) (s_blocks (w_sys ?w0))" "fds_free (6 + 1) (w_sys ?w0)"
    "peer_ready (oe_st oe) (19 + m) (d_net ?w0)" "d_vring ?w0 = replicate VIRTIO_SCSI_QCOUNT None" "w_srv ?w0 = w_srv w" "d_net ?w0 = d_net w"
    "s_tasks (w_sys ?w0) = s_tasks (w_sys w)" "s_next (w_sys ?w0) = s_next (w_sys w)" "s_blocks (w_sys ?w0) = s_blocks (w_sys w)" "s_efd (w_sys ?w0) = s_efd (w_sys w)"
    using w room(1) peer(1) by (simp_all add: zero_dev_def c_alloc_def fds_free_def add.assoc [symmetric] del: rm_room.simps)
  obtain w1 where w1: "open_session oe path ?w0 = Some (True, w1)" "announced ?w0 w1" "rm_room ?rm L (8 + j) (s_blocks (w_sys w1))" "fds_free 1 (w_sys w1)"
    "w_srv w1 = w_srv ?w0" "s_oom (w_sys w1) = s_oom (w_sys ?w0)" "s_tasks (w_sys w1) = s_tasks (w_sys ?w0)" "s_next (w_sys w1) = s_next (w_sys ?w0)"
    "peer_takes m (n_sends (d_net w1))"
    by (rule open_session_ok [OF rm room(2) w0(1-4) peer(2) w0(5)])
  note held = open_session_holds [OF rm w1(1) w0(5,10,11)]
  note client = open_session_client [OF w1(1)]
  obtain vr where vr: "d_vring w1 ! VIRTIO_SCSI_REQUESTQ = Some vr" "ring_new vr (w_sys w1)"
    using w1(2) unfolding announced_def by (metis VIRTIO_SCSI_QCOUNT_def VIRTIO_SCSI_REQUESTQ_def lessI eval_nat_numeral(3))
  have one: "fds_free (Suc 0) (w_sys w1)" and oom: "s_oom (w_sys w1) = (\<lambda>_. False)" using w1(4,6) w0(1) by simp_all
  obtain w2 where w2: "open_poller oe w1 = Some (True, w2)" "w_ring w2 = vr" "ring_new vr (w_sys w2)" "d_net w2 = d_net w1" "d_vring w2 = d_vring w1"
    "w_srv w2 = w_srv w1" "s_blocks (w_sys w2) = s_blocks (w_sys w1)" "s_oom (w_sys w2) = s_oom (w_sys w1)"
    "s_tasks (w_sys w2) = s_tasks (w_sys w1)" "s_next (w_sys w2) = s_next (w_sys w1)" "d_poller w2" "d_client w2 = d_client w1"
    "s_efd (w_sys w1) (a_outfd w2) = None" "s_efd (w_sys w2) = (s_efd (w_sys w1))(a_outfd w2 \<mapsto> 0)"
    by (rule open_poller_ok [OF oe one oom vr])
  have ready: "dev_ready empty_queue (3 + k) w2"
    using w2 w1(6-8) w0(1,8,9) w(2,3) k by (simp add: dev_ready_def ring_new_def kick_room_def empty_queue_def queue_slots_def)
  have room2: "rm_room ?rm L (8 + j) (s_blocks (w_sys w2))" using w1(3) w2(7) by (simp del: rm_room.simps)
  obtain w3 dev where w3: "open_probe oe w2 = Some (True, w3\<lparr>a_dev := dev\<rparr>)" "geometry dev bs nblk" "probed disk empty_queue k 8 w2 w3"
    "rm_room ?rm L j (s_blocks (w_sys w3))"
    by (rule open_probe_ok [OF env(1) ready env(3) room2 L geo])
  have "None \<notin> set (d_vring w1)" "Some vr \<in> set (d_vring w1)"
    using w1(2) held vr(1) nth_mem [of VIRTIO_SCSI_REQUESTQ "d_vring w1"]
    by (auto simp: announced_def in_set_conv_nth VIRTIO_SCSI_QCOUNT_def VIRTIO_SCSI_REQUESTQ_def)
  then have open2: "device_open (w_sys w) [] w2"
    using held client w2 by (intro device_open_start [of w1 "w_sys w" w2]) auto
  have shm: "vring_shm ` rings_of (d_vring w2) \<subseteq> fst ` set (s_blocks (w_sys w2))" using held w2(5,7) by (simp add: holds_def)
  obtain own where own: "length own = 8" "fst ` set own \<inter> fst ` set (s_blocks (w_sys w2)) = {}" "s_blocks (w_sys w3) = own @ s_blocks (w_sys w2)"
    using w3(3) by (auto simp: probed_def)
  have p: "dev_ready empty_queue k w3" "disk (w_srv w3) = disk (w_srv w2)" "dev_frame w2 w3" using w3(3) by (auto simp: probed_def)
  have "device_open (w_sys w) (own @ []) w3" using own(2) shm by (intro device_open_frame [OF open2 p(3) own(3)]) blast
  then have op: "device_open (w_sys w) own (w3\<lparr>a_dev := dev\<rparr>)" by (simp add: device_open_def device_holds_def)
  have "open_virtio_dev oe path w = Some (True, w3\<lparr>a_dev := dev\<rparr>)"
    using w1(1) w2(1) w3(1) w(1) by (simp add: open_virtio_dev_def open_setup_def c_alloc_def)
  moreover have "d_net w3 = d_net w2" "d_vring w3 = d_vring w2" using p(3) same_rest_dev by (auto simp: dev_frame_def)
  ultimately show ?thesis
    using w1(2,5,9) w2(4-6) p w0(6,7) w3(2,4) own(1) op
    by (elim announced_def [THEN iffD1, THEN conjunct2, THEN exE] exE conjE) (rule that [of "w3\<lparr>a_dev := dev\<rparr>"]; simp add: dev_ready_def)
qed

text \<open>
  C35. Opening works: when memory, event descriptors and a thread are available and the server takes the 19 messages,
  answers GET_FEATURES and the three SCSI commands, \<open>open_virtio_dev\<close> returns a device. The server has got the
  four requests of the session set-up and then, for each of the three rings in order, the five that
  announce it, from which it knows the size, the descriptors and the addresses of each ring; the geometry is that of the server's disk, whose contents did not change, and the device
  is in the state in which \<open>read_virtio_dev\<close> and \<open>write_virtio_dev\<close> are correct.
\<close>

theorem open_virtio_dev_succeeds:
  assumes "env_ok (oe_env oe)" "scsi_server (e_serve (oe_env oe)) disk bs nblk" "scsi_probe (e_serve (oe_env oe)) disk bs nblk"
    "0 < bs" "bs < 2 ^ 30" "0 < nblk" "bs * nblk < 2 ^ 64" "oe_ring oe = Some r" "oe_tid oe = Some i"
    "s_oom (w_sys w) = (\<lambda>_. False)" "0 < s_next (w_sys w)" "\<forall>t \<ge> s_next (w_sys w). s_tasks (w_sys w) t = None" "fds_free 7 (w_sys w)"
    "rm_room (e_rm (oe_env oe)) (max sizeof_vhost_vring bs) 14 (s_blocks (w_sys w))"
    "peer_ready (oe_st oe) 19 (d_net w)" "length path < SUN_PATH_SIZE" "k \<le> 2 ^ 32"
  shows "\<exists>w' ms1 ms2. open_virtio_dev oe path w = Some (True, w') \<and> sync_ready (oe_env oe) (a_dev w') disk bs nblk empty_queue k w' \<and>
    disk (w_srv w') = disk (w_srv w) \<and> n_sent (d_net w') = n_sent (d_net w) @ ms1 @ ms2 \<and>
    map (\<lambda>(bs, _). msg_request (received bs)) ms1 = map request_code handshake_requests \<and>
    list_all2 peer_view (ring_requests (d_vring w') [0..<VIRTIO_SCSI_QCOUNT]) ms2 \<and>
    list_all (\<lambda>i. fold server_learns ms2 known (of_nat i) = ring_config_of (the (d_vring w' ! i))) [0..<3]"
proof -
  have L: "sizeof_vhost_vring \<le> max sizeof_vhost_vring bs" "bs \<le> max sizeof_vhost_vring bs" "max sizeof_resp bs \<le> max sizeof_vhost_vring bs"
    by (simp_all add: sizeof_vhost_vring_def sizeof_resp_def)
  have more: "rm_room (e_rm (oe_env oe)) (max sizeof_vhost_vring bs) (11 + 3) (s_blocks (w_sys w))" "peer_ready (oe_st oe) (19 + 0) (d_net w)"
    using assms(14,15) by (simp_all del: rm_room.simps)
  show ?thesis
    by (rule open_ok [OF assms(1-13) more(1) L(1,2) more(2) assms(16,17)])
      (use assms(1,2) rm_room_smaller [OF _ L(3)] in \<open>auto simp: sync_ready_def simp del: rm_room.simps\<close>)
qed

theorem open_virtio_dev_succeeds_witness:
  "\<exists>w' ms1 ms2. open_virtio_dev open_example ''/tmp/vhost.0'' open_world = Some (True, w') \<and>
    sync_ready (oe_env open_example) (a_dev w') id 512 8 empty_queue 100 w' \<and> id (w_srv w') = id (w_srv open_world) \<and>
    n_sent (d_net w') = n_sent (d_net open_world) @ ms1 @ ms2 \<and>
    map (\<lambda>(bs, _). msg_request (received bs)) ms1 = map request_code handshake_requests \<and>
    list_all2 peer_view (ring_requests (d_vring w') [0..<VIRTIO_SCSI_QCOUNT]) ms2 \<and>
    list_all (\<lambda>i. fold server_learns ms2 (\<lambda>_. ring_config_of example_ring) (of_nat i) = ring_config_of (the (d_vring w' ! i))) [0..<3]"
  by (rule open_virtio_dev_succeeds [OF open_env_ok, where r = "[]" and i = 77])
    (use probe_server_disk probe_server_probes open_fds open_room open_peer in
      \<open>simp_all add: open_example_def open_world_def SUN_PATH_SIZE_def del: rm_room.simps\<close>)

text \<open>
  C36. Closing gives back what opening took: a device opened as in the theorem before and closed again leaves the event
  descriptors as they were, the connection closed and the structure freed. Of the shared memory the eight blocks of the
  three probe commands stay allocated, whose tasks are never destroyed. The poller stops at its next test of \<open>end\<close>.
\<close>

theorem close_virtio_dev_releases:
  assumes "env_ok (oe_env oe)" "scsi_server (e_serve (oe_env oe)) disk bs nblk" "scsi_probe (e_serve (oe_env oe)) disk bs nblk"
    "0 < bs" "bs < 2 ^ 30" "0 < nblk" "bs * nblk < 2 ^ 64" "oe_ring oe = Some r" "oe_tid oe = Some i"
    "s_oom (w_sys w) = (\<lambda>_. False)" "0 < s_next (w_sys w)" "\<forall>t \<ge> s_next (w_sys w). s_tasks (w_sys w) t = None" "fds_free 7 (w_sys w)"
    "rm_room (e_rm (oe_env oe)) (max sizeof_vhost_vring bs) 11 (s_blocks (w_sys w))"
    "peer_ready (oe_st oe) 20 (d_net w)" "length path < SUN_PATH_SIZE" "oe_stop oe = inp # inps" "\<forall>v. pi_others inp v = v"
  shows "\<exists>w1 w2 lost. open_virtio_dev oe path w = Some (True, w1) \<and> close_virtio_dev oe w1 = Some w2 \<and>
    s_efd (w_sys w2) = s_efd (w_sys w) \<and> s_blocks (w_sys w2) = lost @ s_blocks (w_sys w) \<and> length lost = 8 \<and>
    d_client w2 = None \<and> \<not> d_live w2"
proof -
  let ?L = "max sizeof_vhost_vring bs"
  have more: "rm_room (e_rm (oe_env oe)) ?L (11 + 0) (s_blocks (w_sys w))" "peer_ready (oe_st oe) (19 + 1) (d_net w)"
    "sizeof_vhost_vring \<le> ?L" "bs \<le> ?L" "(0 :: nat) \<le> 2 ^ 32" using assms(14,15) by (simp_all del: rm_room.simps)
  obtain w1 own where w1: "open_virtio_dev oe path w = Some (True, w1)" "peer_takes 1 (n_sends (d_net w1))" "length own = 8"
    "device_open (w_sys w) own w1"
    by (rule open_ok [OF assms(1-13) more(1,3,4,2) assms(16) more(5)])
  from close_ok [OF w1(4) peer_takes_returns [OF w1(2)] assms(17,18)] w1(1,3) show ?thesis by blast
qed

theorem close_virtio_dev_releases_witness:
  "\<exists>w1 w2 lost. open_virtio_dev close_example ''/tmp/vhost.0'' close_world = Some (True, w1) \<and> close_virtio_dev close_example w1 = Some w2 \<and>
    s_efd (w_sys w2) = s_efd (w_sys close_world) \<and> s_blocks (w_sys w2) = lost @ s_blocks (w_sys close_world) \<and> length lost = 8 \<and>
    d_client w2 = None \<and> \<not> d_live w2"
  by (rule close_virtio_dev_releases [where disk = id and bs = 512 and nblk = 8 and r = "[]" and i = 77 and inp = quiet_input and inps = "[]"])
    (use close_facts probe_server_disk probe_server_probes open_fds in
      \<open>simp_all add: close_example_def close_world_def open_example_def open_world_def SUN_PATH_SIZE_def quiet_input_def del: rm_room.simps\<close>)


text \<open>
  C40. A failure while the device is set up, up to the start of the poller, gives everything back: \<open>open_virtio_dev\<close>
  returns \<open>NULL\<close>, the live shared blocks and the open event descriptors are those from before, the structure is
  freed, and the client is freed unless it was not initialised. Descriptor 0 has to be in use, since the
  error path does not close an \<open>outfd\<close> of 0; the last message must be taken or refused.
\<close>

theorem open_virtio_dev_failure_releases:
  assumes "rte_malloc_spec (e_rm (oe_env oe))" "s_efd (w_sys w) 0 \<noteq> None" "\<not> s_oom (w_sys w) (s_nalloc (w_sys w))"
    "open_setup oe path (zero_dev (w\<lparr>w_sys := (w_sys w)\<lparr>s_nalloc := Suc (s_nalloc (w_sys w))\<rparr>\<rparr>)) = Some (False, w1)" "send_returns (d_net w1)"
  shows "\<exists>w'. open_virtio_dev oe path w = Some (False, w') \<and> s_blocks (w_sys w') = s_blocks (w_sys w) \<and> s_efd (w_sys w') = s_efd (w_sys w) \<and>
    \<not> d_live w' \<and> (d_client w' = None \<or> d_client w' = d_client w1 \<and> status (the (d_client w1)) \<noteq> INSTANCE_INITIALIZED)"
proof -
  have "setup_held (w_sys w) w1" by (rule open_setup_held [OF assms(1,4) _ _ assms(2)]) simp_all
  from open_error_releases [OF this assms(5), of oe] show ?thesis
    using assms(3,4) by (auto simp: open_virtio_dev_def c_alloc_def)
qed

text \<open>The instance: the three rings are created, then the socket cannot be opened.\<close>

lemma open_setup_no_socket:
  "\<exists>w1. open_setup open_example path (zero_dev (open_world\<lparr>d_net := open_net\<lparr>n_sockets := []\<rparr>, w_sys := (w_sys open_world)\<lparr>s_nalloc := 1\<rparr>\<rparr>)) =
    Some (False, w1) \<and> d_net w1 = open_net\<lparr>n_sockets := []\<rparr>"
proof -
  let ?w = "zero_dev (open_world\<lparr>d_net := open_net\<lparr>n_sockets := []\<rparr>, w_sys := (w_sys open_world)\<lparr>s_nalloc := 1\<rparr>\<rparr>)"
  let ?c = "\<lparr>sock_path = take PATH_MAX path, status = INSTANCE_CREATED, sock = 0, features = 0\<rparr>"
  let ?w1 = "?w\<lparr>w_sys := (w_sys ?w)\<lparr>s_nalloc := 2\<rparr>, d_client := Some ?c\<rparr>"
  have "new_vhost_client path (w_sys ?w) = (Some ?c, (w_sys ?w)\<lparr>s_nalloc := 2\<rparr>)"
    by (simp add: new_vhost_client_def c_alloc_def zero_dev_def open_world_def)
  moreover obtain ok w2 where w2: "create_vrings bump_malloc [0..<VIRTIO_SCSI_QCOUNT] ?w1 = (ok, w2)" by fastforce
  moreover have "holds (d_vring ?w1) (w_sys ?w1) (w_sys ?w1)" using holds_nothing by (simp add: zero_dev_def)
  then have "only_rings ?w1 w2"
    by (rule create_vrings_ok [OF bump_malloc_spec _ _ _ w2, THEN conjunct2]) (simp_all add: zero_dev_def)
  then have "d_net w2 = open_net\<lparr>n_sockets := []\<rparr>" using only_rings_sel(1) [of ?w1 w2] by (simp add: zero_dev_def)
  moreover have "init_vhost_client st pad ?c (open_net\<lparr>n_sockets := []\<rparr>) = Some (-1, ?c\<lparr>sock := -1\<rparr>, open_net\<lparr>n_sockets := []\<rparr>)" for st pad
    by (simp add: init_vhost_client_def os_socket_def)
  ultimately show ?thesis
    by (cases ok) (auto simp: open_setup_def open_session_def open_example_def Let_def)
qed

theorem open_virtio_dev_failure_releases_witness:
  "\<exists>w'. open_virtio_dev open_example ''/tmp/vhost.0'' (open_world\<lparr>d_net := open_net\<lparr>n_sockets := []\<rparr>\<rparr>) = Some (False, w') \<and>
    s_blocks (w_sys w') = [(65536, 4096)] \<and> s_efd (w_sys w') = [0 \<mapsto> 0, 1 \<mapsto> 0, 2 \<mapsto> 0] \<and> \<not> d_live w'"
proof -
  let ?w = "open_world\<lparr>d_net := open_net\<lparr>n_sockets := []\<rparr>\<rparr>"
  have "(w_sys ?w)\<lparr>s_nalloc := Suc (s_nalloc (w_sys ?w))\<rparr> = (w_sys open_world)\<lparr>s_nalloc := 1\<rparr>" by (simp add: open_world_def)
  with open_setup_no_socket [of "''/tmp/vhost.0''"] obtain w1 where
    w1: "open_setup open_example ''/tmp/vhost.0'' (zero_dev (?w\<lparr>w_sys := (w_sys ?w)\<lparr>s_nalloc := Suc (s_nalloc (w_sys ?w))\<rparr>\<rparr>)) = Some (False, w1)"
    "d_net w1 = open_net\<lparr>n_sockets := []\<rparr>" by auto
  have "replicate 19 x = x # replicate 18 x" for x :: send_result by (simp flip: replicate_Suc)
  then have "send_returns (d_net w1)" using w1(2) by (simp add: send_returns_def open_net_def)
  moreover have "rte_malloc_spec (e_rm (oe_env open_example))" "s_efd (w_sys ?w) 0 \<noteq> None" "\<not> s_oom (w_sys ?w) (s_nalloc (w_sys ?w))"
    by (simp_all add: open_example_def open_world_def bump_malloc_spec)
  ultimately show ?thesis using open_virtio_dev_failure_releases [of open_example ?w, OF _ _ _ w1(1)] by (auto simp: open_world_def)
qed

end
