(* ===== verification/Fio_Plugin.thy ===== *)
theory Fio_Plugin
  imports Virtio_Open
begin

text \<open>
  \<open>src/fio_plugin.c\<close>: the library as an I/O engine of fio. Of fio's structures only the members that
  the plugin uses are here. The state \<open>fio\<close> holds the two globals of the plugin, the huge page regions that
  \<open>libvirtio_dev_init\<close> found, and fio's I/O units by address; the device itself is in the world. There is
  one device, so a pointer to it is a flag: \<open>g_hdl\<close>, the \<open>engine_data\<close> of a file, and that of the
  file of an I/O unit. The result \<open>None\<close> is a failed assertion or a null pointer that is dereferenced.
\<close>

datatype fio_ddir = DDIR_READ | DDIR_WRITE | DDIR_TRIM | DDIR_OTHER

text \<open>The results of the queue functions; \<open>FIO_Q_ERROR\<close> is the value -1.\<close>

datatype fio_q_status = FIO_Q_COMPLETED | FIO_Q_QUEUED | FIO_Q_BUSY | FIO_Q_ERROR

record virtio_fio_options =
  opt_mem_mb :: nat
  opt_core_mask :: nat

record fio_file =
  file_name :: string
  real_file_size :: nat
  file_dev :: bool

record thread_data =
  td_eo :: virtio_fio_options
  td_use_thread :: bool
  td_files :: "fio_file list"
  td_orig_buffer :: ptr
  td_cur_depth :: nat

record io_u =
  u_ddir :: fio_ddir
  u_buf :: ptr
  u_offset :: nat
  u_xfer_buflen :: nat
  u_dev :: bool
  u_engine_data :: ptr

record fio =
  g_hdl :: bool
  g_virtio_env_initialized :: bool
  f_shm :: shm_state
  f_io_us :: "ptr \<rightharpoonup> io_u"

record ('d, 'z, 'r) fio_env =
  fe_open :: "('d, 'z, 'r) open_env"
  fe_eal_init :: "string list \<Rightarrow> int"
  fe_maps :: "string list option"
  fe_pid :: int


section \<open>Set-up\<close>

text \<open>The size of a file and its device, from the device that is open.\<close>

definition attach_file :: "('d, 'r, 'z) dworld_scheme \<Rightarrow> fio_file \<Rightarrow> fio_file" where
  "attach_file w f = f\<lparr>real_file_size := size_mul (virtio_dev_block_size (a_dev w)) (virtio_dev_blocks_num (a_dev w)), file_dev := True\<rparr>"

text \<open>The loop over the files; \<open>filename\<close> is the local variable, \<open>done\<close> the files before.\<close>

fun setup_files :: "('d, _, 'r) fio_env \<Rightarrow> string option \<Rightarrow> fio_file list \<Rightarrow> fio_file list \<Rightarrow> fio \<Rightarrow> ('d, 'r, 'z) dworld_scheme
    \<Rightarrow> (int \<times> fio_file list \<times> fio \<times> ('d, 'r, 'z) dworld_scheme) option" where
  "setup_files e filename fdone [] fs w = Some (0, fdone, fs, w)"
| "setup_files e filename fdone (f # files) fs w =
     (if filename \<noteq> None \<and> filename \<noteq> Some (file_name f) then Some (-1, fdone @ f # files, fs, w)
      else if \<not> g_hdl fs then do {
        (ok, w1) \<leftarrow> open_virtio_dev ((fe_open e)\<lparr>oe_st := f_shm fs\<rparr>) (file_name f) w;
        if \<not> ok then Some (-1, fdone @ f # files, fs, w1)
        else setup_files e (Some (file_name f)) (fdone @ [attach_file w1 f]) files (fs\<lparr>g_hdl := True\<rparr>) w1
      }
      else setup_files e filename (fdone @ [attach_file w f]) files fs w)"

definition virtio_fio_setup :: "('d, _, 'r) fio_env \<Rightarrow> thread_data \<Rightarrow> fio \<Rightarrow> ('d, 'r, 'z) dworld_scheme
    \<Rightarrow> (int \<times> thread_data \<times> fio \<times> ('d, 'r, 'z) dworld_scheme) option" where
  "virtio_fio_setup e td fs w = do {
     let mem_mb = (if opt_mem_mb (td_eo td) = 0 then 1024 else to_int (int (opt_mem_mb (td_eo td))));
     let core_mask = (if opt_core_mask (td_eo td) = 0 then 1 else to_int (int (opt_core_mask (td_eo td))));
     if \<not> td_use_thread td then Some (-1, td, fs, w)
     else do {
       (rc, fs1) \<leftarrow> (if g_virtio_env_initialized fs then Some (0, fs)
         else do {
           (rc, st) \<leftarrow> libvirtio_dev_init (fe_eal_init e) (fe_maps e) (fe_pid e) mem_mb core_mask (f_shm fs);
           Some (rc, fs\<lparr>f_shm := st, g_virtio_env_initialized := rc = 0\<rparr>)
         });
       if rc \<noteq> 0 then Some (-1, td, fs1, w)
       else do {
         (rc, files, fs2, w1) \<leftarrow> setup_files e None [] (td_files td) fs1 w;
         Some (rc, td\<lparr>td_files := files\<rparr>, fs2, w1)
       }
     }
   }"

definition virtio_fio_open :: "thread_data \<Rightarrow> fio_file \<Rightarrow> int" where "virtio_fio_open td f = 0"

definition virtio_fio_close :: "thread_data \<Rightarrow> fio_file \<Rightarrow> int" where "virtio_fio_close td f = 0"

definition virtio_fio_invalidate :: "thread_data \<Rightarrow> fio_file \<Rightarrow> int" where "virtio_fio_invalidate td f = 0"

definition unregister_close :: "('d, _, 'r) fio_env \<Rightarrow> fio \<Rightarrow> ('d, 'r, 'z) dworld_scheme \<Rightarrow> (fio \<times> ('d, 'r, 'z) dworld_scheme) option" where
  "unregister_close e fs w =
     (if \<not> g_virtio_env_initialized fs then Some (fs, w)
      else if \<not> g_hdl fs then Some (fs\<lparr>g_virtio_env_initialized := False\<rparr>, w)
      else do {
        w1 \<leftarrow> close_virtio_dev ((fe_open e)\<lparr>oe_st := f_shm fs\<rparr>) w;
        Some (fs\<lparr>g_hdl := False, g_virtio_env_initialized := False\<rparr>, w1)
      })"


section \<open>Memory\<close>

text \<open>The size goes through an \<open>int\<close>. The result 1 is a failure.\<close>

definition virtio_fio_iomem_alloc :: "rte_malloc \<Rightarrow> nat \<Rightarrow> thread_data \<Rightarrow> fio \<Rightarrow> ('d, 'r, 'z) aworld_scheme
    \<Rightarrow> (int \<times> thread_data \<times> ('d, 'r, 'z) aworld_scheme) option" where
  "virtio_fio_iomem_alloc rm total_mem td fs w = do {
     c_assert (g_hdl fs);
     let (p, w1) = virtio_buf_alloc rm (to_int (int total_mem)) w;
     Some (if p = NULL then 1 else 0, td\<lparr>td_orig_buffer := p\<rparr>, w1)
   }"

definition virtio_fio_iomem_free :: "thread_data \<Rightarrow> ('d, 'r, 'z) aworld_scheme \<Rightarrow> ('d, 'r, 'z) aworld_scheme" where
  "virtio_fio_iomem_free td w = virtio_buf_free (td_orig_buffer td) w"

text \<open>The descriptor of an I/O unit comes from \<open>calloc\<close>.\<close>

definition zero_desc :: async_io_desc where
  "zero_desc = \<lparr>io_reserved = NULL, io_type = 0, io_buf = NULL, io_offset = 0, io_nbytes = 0, io_user_ctx = NULL, io_retval = 0\<rparr>"

definition virtio_fio_io_u_init :: "ptr \<Rightarrow> fio \<Rightarrow> ('d, 'r, 'z) aworld_scheme \<Rightarrow> (int \<times> fio \<times> ('d, 'r, 'z) aworld_scheme) option" where
  "virtio_fio_io_u_init u fs w = do {
     iou \<leftarrow> f_io_us fs u;
     let (ok, s) = c_alloc (w_sys w);
     let p = s_next s;
     if \<not> ok then Some (1, fs, w\<lparr>w_sys := s\<rparr>)
     else Some (0, fs\<lparr>f_io_us := (f_io_us fs)(u \<mapsto> iou\<lparr>u_engine_data := p\<rparr>)\<rparr>,
       w\<lparr>w_sys := s\<lparr>s_next := Suc p\<rparr>, a_descs := (a_descs w)(p \<mapsto> zero_desc\<lparr>io_user_ctx := u\<rparr>)\<rparr>)
   }"

definition virtio_fio_io_u_free :: "ptr \<Rightarrow> fio \<Rightarrow> ('d, 'r, 'z) aworld_scheme \<Rightarrow> (fio \<times> ('d, 'r, 'z) aworld_scheme) option" where
  "virtio_fio_io_u_free u fs w = do {
     iou \<leftarrow> f_io_us fs u;
     if u_engine_data iou = NULL then Some (fs, w)
     else Some (fs\<lparr>f_io_us := (f_io_us fs)(u \<mapsto> iou\<lparr>u_engine_data := NULL\<rparr>)\<rparr>, w\<lparr>a_descs := (a_descs w)(u_engine_data iou := None)\<rparr>)
   }"


section \<open>Requests\<close>

definition virtio_fio_queue_sync :: "('d, _) env \<Rightarrow> ptr \<Rightarrow> fio \<Rightarrow> ('d, 'r, 'z) aworld_scheme \<Rightarrow> (fio_q_status \<times> ('d, 'r, 'z) aworld_scheme) option" where
  "virtio_fio_queue_sync e u fs w = do {
     iou \<leftarrow> f_io_us fs u;
     if \<not> u_dev iou then Some (FIO_Q_ERROR, w)
     else do {
       (rc, w1) \<leftarrow> (case u_ddir iou of
            DDIR_READ \<Rightarrow> read_virtio_dev e (a_dev w) (u_buf iou) (u_offset iou) (u_xfer_buflen iou) w
          | DDIR_WRITE \<Rightarrow> write_virtio_dev e (a_dev w) (u_buf iou) (u_offset iou) (u_xfer_buflen iou) w
          | DDIR_TRIM \<Rightarrow> Some (0, w)
          | DDIR_OTHER \<Rightarrow> None);
       Some (if rc < 0 then FIO_Q_BUSY else FIO_Q_COMPLETED, w1)
     }
   }"

definition virtio_fio_queue :: "rte_malloc \<Rightarrow> ptr \<Rightarrow> fio \<Rightarrow> ('d, 'r, 'z) aworld_scheme \<Rightarrow> (fio_q_status \<times> ('d, 'r, 'z) aworld_scheme) option" where
  "virtio_fio_queue rm u fs w = do {
     iou \<leftarrow> f_io_us fs u;
     let io_desc = u_engine_data iou;
     if \<not> u_dev iou then Some (FIO_Q_ERROR, w)
     else do {
       d \<leftarrow> a_descs w io_desc;
       let d1 = d\<lparr>io_buf := u_buf iou, io_offset := u_offset iou, io_nbytes := u_xfer_buflen iou\<rparr>;
       (rc, w1) \<leftarrow> (case u_ddir iou of
            DDIR_READ \<Rightarrow> virtio_submit rm io_desc (w\<lparr>a_descs := (a_descs w)(io_desc \<mapsto> d1\<lparr>io_type := VIRTIO_TYPE_READ\<rparr>)\<rparr>)
          | DDIR_WRITE \<Rightarrow> virtio_submit rm io_desc (w\<lparr>a_descs := (a_descs w)(io_desc \<mapsto> d1\<lparr>io_type := VIRTIO_TYPE_WRITE\<rparr>)\<rparr>)
          | DDIR_TRIM \<Rightarrow> Some (0, w\<lparr>a_descs := (a_descs w)(io_desc \<mapsto> d1)\<rparr>)
          | DDIR_OTHER \<Rightarrow> None);
       Some (if rc < 0 then FIO_Q_BUSY else FIO_Q_QUEUED, w1)
     }
   }"


section \<open>Completions\<close>

definition virtio_fio_event :: "'r rte_ring_ops \<Rightarrow> fio \<Rightarrow> int \<Rightarrow> ('d, 'r, 'z) aworld_scheme \<Rightarrow> (ptr \<times> ('d, 'r, 'z) aworld_scheme) option" where
  "virtio_fio_event ops fs event w = do {
     c_assert (event \<ge> 0);
     c_assert (g_hdl fs);
     let (io_desc, w1) = virtio_get_completed ops w;
     if io_desc = NULL then Some (NULL, w1)
     else do {
       d \<leftarrow> a_descs w1 io_desc;
       Some (io_user_ctx d, w1)
     }
   }"

text \<open>
  The minimum that fio asks for is not used. The time is computed in milliseconds in 64 bits and passed as an
  \<open>int\<close>; without one it is -1.
\<close>

definition virtio_fio_getevents :: "'r rte_ring_ops \<Rightarrow> thread_data \<Rightarrow> (int \<times> int) option \<Rightarrow> ('d, 'r, 'z) aworld_scheme wait_input list
    \<Rightarrow> fio \<Rightarrow> ('d, 'r, 'z) aworld_scheme \<Rightarrow> (int \<times> ('d, 'r, 'z) aworld_scheme) option" where
  "virtio_fio_getevents ops td t ins fs w = do {
     c_assert (g_hdl fs);
     let n = (if td_cur_depth td < 10 then td_cur_depth td else 10);
     let ms = (case t of None \<Rightarrow> -1 | Some (tv_sec, tv_nsec) \<Rightarrow> tv_sec * 1000 + tv_nsec div 1000000);
     virtio_completed ops (int n) (to_int ms) ins w
   }"


section \<open>The tables of the engine\<close>

text \<open>The two options of the engine, each with the member of \<open>virtio_fio_options\<close> that fio stores it in.\<close>

datatype fio_opt_type = FIO_OPT_INT

datatype fio_opt_member = Opt_mem_mb | Opt_core_mask

datatype fio_opt_class = FIO_OPT_C_ENGINE | FIO_OPT_G_INVALID

record fio_option =
  fo_name :: string
  fo_lname :: string
  fo_type :: fio_opt_type
  fo_off1 :: fio_opt_member
  fo_help :: string
  fo_category :: fio_opt_class
  fo_group :: fio_opt_class

definition options :: "fio_option list" where
  "options =
     [\<lparr>fo_name = ''hugepage_mem'', fo_lname = ''Memory to allocate for virtio from huge pages in MB'', fo_type = FIO_OPT_INT,
        fo_off1 = Opt_mem_mb, fo_help = ''Memory to allocate for virtio from huge pages in MB'',
        fo_category = FIO_OPT_C_ENGINE, fo_group = FIO_OPT_G_INVALID\<rparr>,
      \<lparr>fo_name = ''core_mask'', fo_lname = ''core mask'', fo_type = FIO_OPT_INT, fo_off1 = Opt_core_mask, fo_help = ''core mask'',
        fo_category = FIO_OPT_C_ENGINE, fo_group = FIO_OPT_G_INVALID\<rparr>]"

text \<open>
  The functions of the plugin as entries of the tables; a member that is not set is \<open>None\<close>. The version, a constant of fio's
  headers, is the same in both tables and left out.
\<close>

datatype fio_fn = Virtio_fio_setup | Virtio_fio_queue | Virtio_fio_queue_sync | Virtio_fio_getevents | Virtio_fio_event | Virtio_fio_open
  | Virtio_fio_close | Virtio_fio_invalidate | Virtio_fio_iomem_alloc | Virtio_fio_iomem_free | Virtio_fio_io_u_init | Virtio_fio_io_u_free

datatype fio_flag = FIO_SYNCIO | FIO_RAWIO | FIO_NOEXTEND | FIO_NODISKUTIL | FIO_MEMALIGN

record ioengine_ops =
  eng_name :: string
  eng_flags :: "fio_flag list"
  eng_setup :: "fio_fn option"
  eng_queue :: "fio_fn option"
  eng_getevents :: "fio_fn option"
  eng_event :: "fio_fn option"
  eng_open_file :: "fio_fn option"
  eng_close_file :: "fio_fn option"
  eng_invalidate :: "fio_fn option"
  eng_iomem_alloc :: "fio_fn option"
  eng_iomem_free :: "fio_fn option"
  eng_io_u_init :: "fio_fn option"
  eng_io_u_free :: "fio_fn option"
  eng_option_struct_size :: nat
  eng_options :: "fio_option list"

definition ioengine :: ioengine_ops where
  "ioengine = \<lparr>eng_name = ''virtio_async'', eng_flags = [FIO_RAWIO, FIO_NOEXTEND, FIO_NODISKUTIL, FIO_MEMALIGN],
     eng_setup = Some Virtio_fio_setup, eng_queue = Some Virtio_fio_queue, eng_getevents = Some Virtio_fio_getevents,
     eng_event = Some Virtio_fio_event, eng_open_file = Some Virtio_fio_open, eng_close_file = Some Virtio_fio_close,
     eng_invalidate = Some Virtio_fio_invalidate, eng_iomem_alloc = Some Virtio_fio_iomem_alloc, eng_iomem_free = Some Virtio_fio_iomem_free,
     eng_io_u_init = Some Virtio_fio_io_u_init, eng_io_u_free = Some Virtio_fio_io_u_free, eng_option_struct_size = 16, eng_options = options\<rparr>"

definition sync_ioengine :: ioengine_ops where
  "sync_ioengine = \<lparr>eng_name = ''virtio_sync'', eng_flags = [FIO_SYNCIO],
     eng_setup = Some Virtio_fio_setup, eng_queue = Some Virtio_fio_queue_sync, eng_getevents = None,
     eng_event = None, eng_open_file = Some Virtio_fio_open, eng_close_file = Some Virtio_fio_close,
     eng_invalidate = Some Virtio_fio_invalidate, eng_iomem_alloc = Some Virtio_fio_iomem_alloc, eng_iomem_free = Some Virtio_fio_iomem_free,
     eng_io_u_init = None, eng_io_u_free = None, eng_option_struct_size = 16, eng_options = options\<rparr>"

text \<open>\<open>register_ioengine\<close> and \<open>unregister_ioengine\<close> are fio's and work on its list of engines; they are parameters.\<close>

definition virtio_fio_register :: "(ioengine_ops \<Rightarrow> 'l \<Rightarrow> 'l) \<Rightarrow> 'l \<Rightarrow> 'l" where
  "virtio_fio_register register_ioengine engines = register_ioengine ioengine engines"

definition virtio_fio_unregister :: "(ioengine_ops \<Rightarrow> 'l \<Rightarrow> 'l) \<Rightarrow> ('d, _, 'r) fio_env \<Rightarrow> fio \<times> 'l \<Rightarrow> ('d, 'r, 'z) dworld_scheme
    \<Rightarrow> ((fio \<times> 'l) \<times> ('d, 'r, 'z) dworld_scheme) option" where
  "virtio_fio_unregister unregister_ioengine e = (\<lambda>(fs, engines) w. do {
     (fs1, w1) \<leftarrow> unregister_close e fs w;
     Some ((fs1, unregister_ioengine ioengine engines), w1)
   })"

text \<open>
  When removing an engine undoes adding it, the plugin leaves it as it found it. The
  synchronous engine is never in it: of the two queue functions only the asynchronous one can be reached.
\<close>

lemma register_exit:
  assumes laws: "\<And>engine engines. unregister_ioengine engine (register_ioengine engine engines) = engines"
    and run: "virtio_fio_unregister unregister_ioengine e (fs, virtio_fio_register register_ioengine engines) w = Some ((fs1, engines1), w1)"
  shows "engines1 = engines" "\<not> g_virtio_env_initialized fs1"
  using run by (auto simp: laws virtio_fio_unregister_def virtio_fio_register_def unregister_close_def bind_eq_Some_conv split: if_splits)

lemma only_async_engine:
  assumes "\<And>engine engines. known (register_ioengine engine engines) = insert engine (known engines)"
  shows "sync_ioengine \<in> known (virtio_fio_register register_ioengine engines) \<longleftrightarrow> sync_ioengine \<in> known engines"
  by (simp add: assms virtio_fio_register_def ioengine_def sync_ioengine_def)

end
