(* ===== verification/Fio_Theorems.thy ===== *)
theory Fio_Theorems
  imports Fio_Plugin Async_Theorems
begin

text \<open>The engine on top of the library: a request that fio queues comes back to it.\<close>

section \<open>I/O units\<close>

text \<open>Allocating a descriptor keeps the device ready; what a descriptor holds does not matter to the device.\<close>

lemma async_ready_descs: "async_ready rm ops els rcap serve disk bs nblk q k (w\<lparr>a_descs := ds\<rparr>) = async_ready rm ops els rcap serve disk bs nblk q k w"
  by (simp add: async_ready_def outfd_room_def dev_ready_def del: rm_room.simps)

lemma async_ready_alloc:
  assumes "async_ready rm ops els rcap serve disk bs nblk q k w"
  shows "async_ready rm ops els rcap serve disk bs nblk q k (w\<lparr>w_sys := (w_sys w)\<lparr>s_nalloc := n, s_next := Suc (s_next (w_sys w))\<rparr>\<rparr>)"
proof -
  have rep: "vring_rep (w_ring w) (w_sys w) q" using assms by (simp add: async_ready_def dev_ready_def)
  have "vring_rep (w_ring w) ((w_sys w)\<lparr>s_nalloc := n, s_next := Suc (s_next (w_sys w))\<rparr>) q"
    by (rule vring_rep_tasks_cong [OF rep]) simp
  with assms show ?thesis by (simp add: async_ready_def outfd_room_def dev_ready_def kick_room_def del: rm_room.simps)
qed

lemma io_u_init_ok:
  assumes "async_ready rm ops els rcap serve disk bs nblk q k w" "f_io_us fs u = Some iou"
  defines "p \<equiv> s_next (w_sys w)"
  shows "p \<noteq> NULL" and "virtio_fio_io_u_init u fs w = Some (0, fs\<lparr>f_io_us := (f_io_us fs)(u \<mapsto> iou\<lparr>u_engine_data := p\<rparr>)\<rparr>,
    w\<lparr>w_sys := (w_sys w)\<lparr>s_nalloc := Suc (s_nalloc (w_sys w)), s_next := Suc p\<rparr>, a_descs := (a_descs w)(p \<mapsto> zero_desc\<lparr>io_user_ctx := u\<rparr>)\<rparr>)"
  using assms by (simp_all add: virtio_fio_io_u_init_def c_alloc_def Let_def async_ready_def dev_ready_def)

lemma get_completed_only:
  assumes "rte_ring_spec ops els room" "els (a_outring w) = [p]"
  obtains r where "virtio_get_completed ops w = (p, w\<lparr>a_outring := r\<rparr>)" "els r = []"
proof -
  from assms obtain r where "rte_ring_mc_dequeue ops (a_outring w) = (0, p, r)" "els r = []" unfolding rte_ring_spec_def by metis
  then show ?thesis by (intro that [of r]) (simp_all add: virtio_get_completed_def)
qed


section \<open>A read\<close>

text \<open>
  C39. The life of a read in fio: \<open>virtio_fio_io_u_init\<close> gives the I/O unit a descriptor, \<open>virtio_fio_queue\<close> accepts it, and after
  one round of server and poller \<open>virtio_fio_getevents\<close> reports one event without waiting and \<open>virtio_fio_event\<close> returns
  this I/O unit. Its buffer then holds the bytes of the device, nothing else is in the output ring, and the
  device, the shared blocks and the tasks are as before.
\<close>

theorem fio_read_round_trip:
  assumes "async_ready rm ops els rcap serve disk bs nblk q (Suc k) w" "els (a_outring w) = []" "g_hdl fs"
    "f_io_us fs u = Some iou" "u_ddir iou = DDIR_READ" "u_dev iou" "async_io (a_dev w) bs nblk (u_offset iou) (u_xfer_buflen iou)"
    "N = min (u_xfer_buflen iou) (bs * nblk - u_offset iou)" "live_range (s_blocks (w_sys w)) (u_buf iou) N" "td_cur_depth td = 1"
  shows "\<exists>fs1 w0 w1 w2 w3 w4. virtio_fio_io_u_init u fs w = Some (0, fs1, w0) \<and> virtio_fio_queue rm u fs1 w0 = Some (FIO_Q_QUEUED, w1) \<and>
    drain (Suc (Suc f)) (dev_callbacks rm ops) 0 (run_server serve w1) = Some (1, w2) \<and>
    virtio_fio_getevents ops td t ins fs1 w2 = Some (1, w3) \<and> virtio_fio_event ops fs1 0 w3 = Some (u, w4) \<and>
    els (a_outring w4) = [] \<and> mem_read (s_mem (w_sys w4)) (u_buf iou) N = map (disk (w_srv w)) [u_offset iou..<u_offset iou + N] \<and>
    disk (w_srv w4) = disk (w_srv w) \<and> s_blocks (w_sys w4) = s_blocks (w_sys w) \<and> s_tasks (w_sys w4) = s_tasks (w_sys w)"
proof -
  let ?p = "s_next (w_sys w)" and ?d0 = "zero_desc\<lparr>io_user_ctx := u\<rparr>"
  let ?fs = "fs\<lparr>f_io_us := (f_io_us fs)(u \<mapsto> iou\<lparr>u_engine_data := ?p\<rparr>)\<rparr>"
  let ?w0 = "w\<lparr>w_sys := (w_sys w)\<lparr>s_nalloc := Suc (s_nalloc (w_sys w)), s_next := Suc ?p\<rparr>, a_descs := (a_descs w)(?p \<mapsto> ?d0)\<rparr>"
  note ini = io_u_init_ok [OF assms(1,4)]
  let ?d = "?d0\<lparr>io_buf := u_buf iou, io_offset := u_offset iou, io_nbytes := u_xfer_buflen iou, io_type := VIRTIO_TYPE_READ\<rparr>"
  let ?wq = "?w0\<lparr>a_descs := (a_descs ?w0)(?p \<mapsto> ?d)\<rparr>"
  have ready: "async_ready rm ops els rcap serve disk bs nblk q (Suc k) ?wq" using async_ready_alloc [OF assms(1)] by (simp add: async_ready_descs)
  have pre: "async_io (a_dev ?wq) bs nblk (io_offset ?d) (io_nbytes ?d)" "a_descs ?wq ?p = Some ?d" "live_range (s_blocks (w_sys ?wq)) (io_buf ?d) N"
    "N = clip_range (bs * nblk) (io_offset ?d) (io_nbytes ?d)"
    using assms(7-9) by (simp_all add: clip_range_def)
  obtain w1 w2 where r: "read_virtio_dev_async rm ?p ?wq = Some (0, w1)"
    "drain (Suc (Suc f)) (dev_callbacks rm ops) 0 (run_server serve w1) = Some (1, w2)" "els (a_outring w2) = els (a_outring ?wq) @ [?p]"
    "a_descs w2 = (a_descs ?wq)(?p \<mapsto> ?d\<lparr>io_reserved := a_self ?wq, io_retval := int N\<rparr>)" "read_xfer disk (io_buf ?d) (io_offset ?d) N ?wq w2"
    by (rule read_async_ok [OF ready pre(1,2) refl refl pre(3,4)])
  have queued: "virtio_fio_queue rm u ?fs ?w0 = Some (FIO_Q_QUEUED, w1)"
    using r(1) assms(5,6) by (simp add: virtio_fio_queue_def virtio_submit_def Let_def)
  have ring: "rte_ring_spec ops els rcap" using assms(1) by (simp add: async_ready_def)
  have out: "els (a_outring w2) = [?p]" using r(3) assms(2) by simp
  moreover have "rte_ring_count ops r = length (els r)" for r using ring by (simp add: rte_ring_spec_def)
  ultimately have events: "virtio_fio_getevents ops td t ins ?fs w2 = Some (1, w2\<lparr>a_event_high_wm := 0\<rparr>)"
    using assms(3,10) by (simp add: virtio_fio_getevents_def virtio_completed_def to_int_def Let_def)
  obtain rr where "virtio_get_completed ops (w2\<lparr>a_event_high_wm := 0\<rparr>) = (?p, w2\<lparr>a_event_high_wm := 0, a_outring := rr\<rparr>)" "els rr = []"
    by (rule get_completed_only [OF ring, of "w2\<lparr>a_event_high_wm := 0\<rparr>" ?p]) (use out in auto)
  then have "virtio_fio_event ops ?fs 0 (w2\<lparr>a_event_high_wm := 0\<rparr>) = Some (u, w2\<lparr>a_event_high_wm := 0, a_outring := rr\<rparr>)" "els rr = []"
    using assms(3) ini(1) r(4) by (simp_all add: virtio_fio_event_def)
  with ini(2) queued r(2,5) events show ?thesis
    by (intro exI [of _ ?fs] exI [of _ ?w0] exI [of _ w1] exI [of _ w2] exI [of _ "w2\<lparr>a_event_high_wm := 0\<rparr>"]
        exI [of _ "w2\<lparr>a_event_high_wm := 0, a_outring := rr\<rparr>"]) (simp add: read_xfer_def disk_read_def)
qed

text \<open>The instance: an I/O unit of 1000 bytes at offset 700 on the example device.\<close>

definition example_io_u :: io_u where
  "example_io_u = \<lparr>u_ddir = DDIR_READ, u_buf = 65600, u_offset = 700, u_xfer_buflen = 1000, u_dev = True, u_engine_data = NULL\<rparr>"

definition example_fio :: fio where
  "example_fio = \<lparr>g_hdl = True, g_virtio_env_initialized = True, f_shm = \<lparr>nregions = 0, huges = []\<rparr>, f_io_us = [55 \<mapsto> example_io_u]\<rparr>"

definition example_td :: thread_data where
  "example_td = \<lparr>td_eo = \<lparr>opt_mem_mb = 0, opt_core_mask = 0\<rparr>, td_use_thread = True, td_files = [], td_orig_buffer = 65600, td_cur_depth = 1\<rparr>"

theorem fio_read_round_trip_witness:
  "\<exists>fs1 w0 w1 w2 w3 w4. virtio_fio_io_u_init 55 example_fio example_async = Some (0, fs1, w0) \<and>
    virtio_fio_queue bump_malloc 55 fs1 w0 = Some (FIO_Q_QUEUED, w1) \<and>
    drain (Suc (Suc 0)) (dev_callbacks bump_malloc (list_ring 4)) 0 (run_server (disk_server 512) w1) = Some (1, w2) \<and>
    virtio_fio_getevents (list_ring 4) example_td None [] fs1 w2 = Some (1, w3) \<and> virtio_fio_event (list_ring 4) fs1 0 w3 = Some (55, w4) \<and>
    id (a_outring w4) = [] \<and>
    mem_read (s_mem (w_sys w4)) (u_buf example_io_u) 1000 = map (id (w_srv example_async)) [u_offset example_io_u..<u_offset example_io_u + 1000] \<and>
    id (w_srv w4) = id (w_srv example_async) \<and> s_blocks (w_sys w4) = s_blocks (w_sys example_async) \<and> s_tasks (w_sys w4) = s_tasks (w_sys example_async)"
  by (rule fio_read_round_trip [OF example_async_ready [of "Suc 0"]])
    (use example_async_io in \<open>simp_all add: example_async_def io_request_def live_range_def example_fio_def example_io_u_def example_td_def\<close>)

end
