(* ===== verification/Vring_Conc.thy ===== *)
theory Vring_Conc
  imports Vring_Theorems
begin

text \<open>
  \<open>src/vring.c\<close> with several threads. The source calls \<open>vring_put_task\<close> MT-safe; here any number of
  threads run it at once, one access to the shared ring at a time, in any order. A producer is such a
  thread: its task, the slots it has claimed and the place in the code where it stands. The theory
  shows that producers never disturb each other. The loop of \<open>vring_get_task\<close> that frees a chain runs in
  the same pool; the theory \<open>Vring_Race\<close> shows what it and a producer can do to each other.

  The writes of \<open>vring_set_desc\<close> to a descriptor that belongs to the thread are one step, as is a
  compare-and-swap. The memory is sequentially consistent.
\<close>

section \<open>Threads\<close>

text \<open>
  The places are the shared accesses: reading the hint \<open>task_idx\<close> (or leaving the loop over the buffers), reading a
  slot, the compare-and-swap on a slot, storing the hint, linking the previous descriptor, filling
  the descriptor, releasing a slot, the four accesses of \<open>vring_flush\<close> to the indices, the notification.
\<close>

datatype pc = Pick | Scan u16 u16 | Swap u16 u16 | Hint u16 | Link u16 | Describe u16 | Undo nat
  | FlushRead | FlushTake u16 | FlushStore u16 | FlushPublish u16 | Kick | Returned int

record producer =
  p_ptr :: ptr
  p_task :: virtio_task
  p_slots :: "u16 list"
  p_pc :: pc

definition avail_store :: "vring \<Rightarrow> u16 \<Rightarrow> u16 \<Rightarrow> vring" where
  "avail_store vr idx d = vr\<lparr>shm := (shm vr)\<lparr>avail := (avail (shm vr))\<lparr>
     a_ring := (a_ring (avail (shm vr)))[unat (idx AND vring_mask vr) := d]\<rparr>\<rparr>\<rparr>"

definition avail_advance :: "vring \<Rightarrow> u16 \<Rightarrow> vring" where
  "avail_advance vr idx = vr\<lparr>shm := (shm vr)\<lparr>avail := (avail (shm vr))\<lparr>a_idx := idx + 1\<rparr>\<rparr>\<rparr>"

text \<open>One access of a thread in \<open>vring_put_task\<close>; a failed assertion and a wild read are \<open>None\<close>.\<close>

definition put_access :: "producer \<Rightarrow> vring \<Rightarrow> sys \<Rightarrow> (producer \<times> vring \<times> sys) option" where
  "put_access p vr s = (let slots = p_slots p; i = length slots - 1 in case p_pc p of
      Pick \<Rightarrow> Some (p\<lparr>p_pc := if length slots < count (p_task p) then Scan (task_idx vr) (task_idx vr) else FlushRead\<rparr>, vr, s)
    | Scan saved d \<Rightarrow>
        if unat d \<ge> length (tasks vr) then None
        else if tasks vr ! unat d = NULL then Some (p\<lparr>p_pc := Swap saved d\<rparr>, vr, s)
        else let d' = (d + 1) AND vring_mask vr in Some (p\<lparr>p_pc := if d' = saved then Undo 0 else Scan saved d'\<rparr>, vr, s)
    | Swap saved d \<Rightarrow>
        if tasks vr ! unat d = NULL
        then Some (p\<lparr>p_slots := slots @ [d], p_pc := Hint d\<rparr>, vr\<lparr>tasks := (tasks vr)[unat d := p_ptr p]\<rparr>, s)
        else Some (p\<lparr>p_pc := Scan saved d\<rparr>, vr, s)
    | Hint d \<Rightarrow> Some (p\<lparr>p_pc := Link d\<rparr>, vr\<lparr>task_idx := (d + 1) AND vring_mask vr\<rparr>, s)
    | Link d \<Rightarrow>
        if i = 0 then Some (p\<lparr>p_task := (p_task p)\<lparr>vring_idx := d\<rparr>, p_pc := Describe d\<rparr>, vr, s)
        else Some (p\<lparr>p_pc := Describe d\<rparr>, set_desc_next vr (slots ! (i - 1)) d, s)
    | Describe d \<Rightarrow>
        (case vbufs (p_task p) ! i of
           None \<Rightarrow> None
         | Some vbuf \<Rightarrow> Some (p\<lparr>p_pc := Pick\<rparr>, vring_set_desc vr d vbuf (i = count (p_task p) - 1), s))
    | Undo j \<Rightarrow>
        if j < length slots then Some (p\<lparr>p_pc := Undo (Suc j)\<rparr>, vr\<lparr>tasks := (tasks vr)[unat (slots ! j) := NULL]\<rparr>, s)
        else Some (p\<lparr>p_pc := Returned (-1)\<rparr>, vr, s)
    | FlushRead \<Rightarrow> Some (p\<lparr>p_pc := FlushTake (last_avail_idx vr)\<rparr>, vr, s)
    | FlushTake idx \<Rightarrow>
        if last_avail_idx vr = idx then Some (p\<lparr>p_pc := FlushStore idx\<rparr>, vr\<lparr>last_avail_idx := idx + 1\<rparr>, s)
        else Some (p\<lparr>p_pc := FlushRead\<rparr>, vr, s)
    | FlushStore idx \<Rightarrow> Some (p\<lparr>p_pc := FlushPublish idx\<rparr>, avail_store vr idx (vring_idx (p_task p)), s)
    | FlushPublish idx \<Rightarrow>
        if a_idx (avail (shm vr)) = idx then Some (p\<lparr>p_pc := Kick\<rparr>, avail_advance vr idx, s) else Some (p, vr, s)
    | Kick \<Rightarrow>
        if u_flags (used (shm vr)) AND VRING_USED_F_NO_NOTIFY = 0
        then map_option (\<lambda>s'. (p\<lparr>p_pc := Returned 0\<rparr>, vr, s')) (eventfd_write (kickfd vr) s)
        else Some (p\<lparr>p_pc := Returned 0\<rparr>, vr, s)
    | Returned rc \<Rightarrow> None)"

text \<open>The loop of \<open>vring_get_task\<close> that frees the slots of a chain; \<open>Idle\<close> is outside of it.\<close>

datatype getter = Idle | Test u16 | Clear u16 | Advance u16 | Finish u16

definition free_access :: "getter \<Rightarrow> vring \<Rightarrow> (getter \<times> vring) option" where
  "free_access g vr = (case g of
      Test i \<Rightarrow>
        if unat i \<ge> length (desc (shm vr)) then None
        else Some (if d_flags (desc (shm vr) ! unat i) AND VIRTIO_DESC_F_NEXT \<noteq> 0 then Clear i else Finish i, vr)
    | Clear i \<Rightarrow>
        if unat i \<ge> length (tasks vr) \<or> tasks vr ! unat i = NULL then None
        else Some (Advance i, vr\<lparr>tasks := (tasks vr)[unat i := NULL]\<rparr>)
    | Advance i \<Rightarrow> Some (Test (d_next (desc (shm vr) ! unat i)), vr)
    | Finish i \<Rightarrow>
        if unat i \<ge> length (tasks vr) then None else Some (Idle, vr\<lparr>tasks := (tasks vr)[unat i := NULL]\<rparr>)
    | Idle \<Rightarrow> None)"

text \<open>The producers, the thread that frees and the server, which writes the used ring and reads the event counters.\<close>

type_synonym pool = "vring \<times> sys \<times> getter \<times> producer list"

inductive pool_step :: "pool \<Rightarrow> pool \<Rightarrow> bool" where
  put: "k < length ps \<Longrightarrow> put_access (ps ! k) vr s = Some (p', vr', s') \<Longrightarrow> pool_step (vr, s, g, ps) (vr', s', g, ps[k := p'])"
| get: "free_access g vr = Some (g', vr') \<Longrightarrow> pool_step (vr, s, g, ps) (vr', s, g', ps)"
| server: "length (u_ring u) = length (u_ring (used (shm vr))) \<Longrightarrow>
    pool_step (vr, s, g, ps) (vr\<lparr>shm := (shm vr)\<lparr>used := u\<rparr>\<rparr>, s\<lparr>s_efd := e\<rparr>, g, ps)"

inductive_cases pool_stepE: "pool_step (vr, s, g, ps) c"


section \<open>What a producer holds\<close>

text \<open>A thread that found the ring full gives its slots back one after the other and returns with none.\<close>

definition undoing :: "producer \<Rightarrow> bool" where
  "undoing p \<longleftrightarrow> (case p_pc p of Undo j \<Rightarrow> True | Returned rc \<Rightarrow> rc \<noteq> 0 | _ \<Rightarrow> False)"

definition owned :: "producer \<Rightarrow> u16 list" where
  "owned p = (case p_pc p of Undo j \<Rightarrow> drop j (p_slots p) | Returned rc \<Rightarrow> if rc = 0 then p_slots p else [] | _ \<Rightarrow> p_slots p)"

text \<open>How many of its descriptors a thread has filled, and how many are linked to their predecessor.\<close>

definition filled :: "producer \<Rightarrow> nat" where
  "filled p = (if undoing p then 0 else case p_pc p of
      Hint d \<Rightarrow> length (p_slots p) - 1 | Link d \<Rightarrow> length (p_slots p) - 1 | Describe d \<Rightarrow> length (p_slots p) - 1
    | _ \<Rightarrow> length (p_slots p))"

definition linked :: "producer \<Rightarrow> nat" where
  "linked p = (if undoing p then 0 else case p_pc p of
      Hint d \<Rightarrow> length (p_slots p) - 1 | Link d \<Rightarrow> length (p_slots p) - 1 | _ \<Rightarrow> length (p_slots p))"

definition at_place :: "producer \<Rightarrow> bool" where
  "at_place p \<longleftrightarrow> (let n = length (p_slots p); c = count (p_task p) in case p_pc p of
      Pick \<Rightarrow> n \<le> c | Scan saved d \<Rightarrow> n < c \<and> unat d < 1024 | Swap saved d \<Rightarrow> n < c \<and> unat d < 1024
    | Hint d \<Rightarrow> p_slots p \<noteq> [] \<and> List.last (p_slots p) = d \<and> n \<le> c
    | Link d \<Rightarrow> p_slots p \<noteq> [] \<and> List.last (p_slots p) = d \<and> n \<le> c
    | Describe d \<Rightarrow> p_slots p \<noteq> [] \<and> List.last (p_slots p) = d \<and> n \<le> c
    | Undo j \<Rightarrow> True | Returned rc \<Rightarrow> rc = 0 \<longrightarrow> n = c | _ \<Rightarrow> n = c)"

text \<open>The descriptors of a thread and the head it will announce.\<close>

definition describes :: "vring_desc list \<Rightarrow> producer \<Rightarrow> bool" where
  "describes ds p \<longleftrightarrow> (let c = p_slots p; task = p_task p in
     (\<forall>k < filled p. desc_holds (ds ! unat (c ! k)) (task_bufs task ! k) (Suc k = count task)) \<and>
     (\<forall>k. Suc k < linked p \<longrightarrow> d_next (ds ! unat (c ! k)) = c ! Suc k) \<and>
     (0 < filled p \<or> (\<exists>d. p_pc p = Describe d) \<longrightarrow> vring_idx task = hd c))"

definition producer_ok :: "vring \<Rightarrow> vring \<Rightarrow> producer \<Rightarrow> bool" where
  "producer_ok vr0 vr p \<longleftrightarrow> p_ptr p \<noteq> NULL \<and> task_wf (p_task p) \<and> 0 < count (p_task p) \<and>
     at_place p \<and> distinct (owned p) \<and>
     (\<forall>i \<in> set (owned p). unat i < 1024 \<and> tasks vr0 ! unat i = NULL \<and> tasks vr ! unat i = p_ptr p) \<and>
     describes (desc (shm vr)) p"

lemmas pc_defs = undoing_def owned_def filled_def linked_def at_place_def

lemma owned_slots: "\<not> undoing p \<Longrightarrow> owned p = p_slots p"
  by (auto simp: undoing_def owned_def split: pc.splits)

lemma filled_le: "filled p \<le> length (owned p)" and linked_le: "linked p \<le> length (owned p)"
  by (auto simp: filled_def linked_def undoing_def owned_def split: pc.splits)

text \<open>What other threads do to slots that a thread does not own does not matter to it.\<close>

lemma describes_cong:
  assumes "describes ds p" "\<And>i. i \<in> set (owned p) \<Longrightarrow> ds' ! unat i = ds ! unat i"
  shows "describes ds' p"
proof (cases "undoing p")
  case True
  then show ?thesis using assms(1) by (simp add: describes_def filled_def linked_def Let_def)
next
  case False
  then have "ds' ! unat (p_slots p ! k) = ds ! unat (p_slots p ! k)" if "k < length (p_slots p)" for k
    using assms(2) that by (simp add: owned_slots)
  moreover have "filled p \<le> length (p_slots p)" "linked p \<le> length (p_slots p)"
    using filled_le [of p] linked_le [of p] owned_slots [OF False] by simp_all
  ultimately show ?thesis using assms(1) by (auto simp: describes_def Let_def)
qed

lemma producer_ok_cong:
  assumes "producer_ok vr0 vr p" "\<And>i. i \<in> set (owned p) \<Longrightarrow> tasks vr' ! unat i = tasks vr ! unat i"
    "\<And>i. i \<in> set (owned p) \<Longrightarrow> desc (shm vr') ! unat i = desc (shm vr) ! unat i"
  shows "producer_ok vr0 vr' p"
  using assms describes_cong [of "desc (shm vr)" p "desc (shm vr')"] by (auto simp: producer_ok_def)


section \<open>One access\<close>

lemma set_desc_next_sel [simp]:
  "tasks (set_desc_next vr a d) = tasks vr" "vring_sizes (set_desc_next vr a d) = vring_sizes vr"
  "avail (shm (set_desc_next vr a d)) = avail (shm vr)" "last_avail_idx (set_desc_next vr a d) = last_avail_idx vr"
  "desc (shm (set_desc_next vr a d)) = (desc (shm vr))[unat a := (desc (shm vr) ! unat a)\<lparr>d_next := d\<rparr>]"
  by (simp_all add: set_desc_next_def vring_sizes_def)

lemma vring_set_desc_sel [simp]:
  "tasks (vring_set_desc vr d b l) = tasks vr" "vring_sizes (vring_set_desc vr d b l) = vring_sizes vr"
  "avail (shm (vring_set_desc vr d b l)) = avail (shm vr)" "last_avail_idx (vring_set_desc vr d b l) = last_avail_idx vr"
  by (simp_all add: vring_set_desc_def vring_sizes_def Let_def)

lemma vring_set_desc_nth:
  assumes "unat d < length (desc (shm vr))"
  shows "desc_holds (desc (shm (vring_set_desc vr d b l)) ! unat d) b l"
    and "d_next (desc (shm (vring_set_desc vr d b l)) ! unat d) = d_next (desc (shm vr) ! unat d)"
    and "i \<noteq> unat d \<Longrightarrow> desc (shm (vring_set_desc vr d b l)) ! i = desc (shm vr) ! i"
  using assms by (auto simp: vring_set_desc_def Let_def desc_holds_def)

lemma avail_sel [simp]:
  "tasks (avail_store vr x d) = tasks vr" "desc (shm (avail_store vr x d)) = desc (shm vr)"
  "last_avail_idx (avail_store vr x d) = last_avail_idx vr" "a_idx (avail (shm (avail_store vr x d))) = a_idx (avail (shm vr))"
  "tasks (avail_advance vr x) = tasks vr" "desc (shm (avail_advance vr x)) = desc (shm vr)"
  "last_avail_idx (avail_advance vr x) = last_avail_idx vr" "a_idx (avail (shm (avail_advance vr x))) = x + 1"
  "a_ring (avail (shm (avail_advance vr x))) = a_ring (avail (shm vr))"
  "vring_sizes (avail_store vr x d) = vring_sizes vr" "vring_sizes (avail_advance vr x) = vring_sizes vr"
  by (simp_all add: avail_store_def avail_advance_def vring_sizes_def)

lemma masked_sizes: "vring_sizes vr \<Longrightarrow> vring_sizes (vr\<lparr>task_idx := (d + 1) AND vring_mask vr\<rparr>)"
  using unat_next_slot [of d] by (simp add: vring_sizes_def vring_mask_def)

lemmas access_simps = put_access_def Let_def masked_sizes

lemma put_access_ring:
  assumes "put_access p vr s = Some (p', vr', s')" "vring_sizes vr" "producer_ok vr0 vr p"
  shows "vring_sizes vr'" and "p_ptr p' = p_ptr p" and "at_place p'"
    and "task_wf (p_task p') = task_wf (p_task p)" and "count (p_task p') = count (p_task p)"
proof -
  show "vring_sizes vr'" using assms(1,2)
    by (cases "p_pc p") (auto simp: access_simps split: if_splits option.splits, auto simp: vring_sizes_def)
  show "p_ptr p' = p_ptr p" "task_wf (p_task p') = task_wf (p_task p)" "count (p_task p') = count (p_task p)"
    using assms(1) by (cases "p_pc p"; auto simp: access_simps split: if_splits option.splits)+
  have "at_place p" using assms(3) by (simp add: producer_ok_def)
  moreover have "unat (task_idx vr) < 1024" "unat ((d + 1) AND vring_mask vr) < 1024" for d
    using assms(2) vring_mask_1023 [OF assms(2)] by (simp_all add: vring_sizes_def unat_next_slot)
  ultimately show "at_place p'" using assms(1)
    by (cases "p_pc p") (auto simp: access_simps at_place_def split: if_splits option.splits)
qed

text \<open>A thread takes a free slot, gives back its first one, or leaves the slots alone.\<close>

lemma put_access_tasks:
  assumes "put_access p vr s = Some (p', vr', s')" "vring_sizes vr" "at_place p"
  obtains (same) "tasks vr' = tasks vr" "owned p' = owned p"
    | (claim) d where "unat d < 1024" "tasks vr ! unat d = NULL" "tasks vr' = (tasks vr)[unat d := p_ptr p]" "owned p' = owned p @ [d]"
    | (release) d where "owned p = d # owned p'" "tasks vr' = (tasks vr)[unat d := NULL]"
proof -
  have other: "tasks vr' = tasks vr \<and> owned p' = owned p" if "\<forall>saved d j. p_pc p \<noteq> Swap saved d \<and> p_pc p \<noteq> Undo j"
    using assms(1) that by (cases "p_pc p") (auto simp: access_simps owned_def split: if_splits option.splits)
  consider d saved where "p_pc p = Swap saved d" | j where "p_pc p = Undo j" | "\<forall>saved d j. p_pc p \<noteq> Swap saved d \<and> p_pc p \<noteq> Undo j" by blast
  then show ?thesis
  proof cases
    case (1 d)
    then have "unat d < 1024" using assms(3) by (simp add: at_place_def)
    with 1 assms(1) same claim [of d] show ?thesis by (auto simp: access_simps owned_def split: if_splits)
  next
    case (2 j)
    then show ?thesis using assms(1) same release [of "p_slots p ! j"]
      by (auto simp: access_simps owned_def Cons_nth_drop_Suc split: if_splits)
  qed (use other same in blast)
qed

lemma put_access_desc:
  assumes "put_access p vr s = Some (p', vr', s')" "vring_sizes vr" "producer_ok vr0 vr p" "i \<notin> unat ` set (owned p)"
  shows "desc (shm vr') ! i = desc (shm vr) ! i"
proof (cases "\<exists>d. p_pc p = Link d \<or> p_pc p = Describe d")
  case True
  then have at: "p_slots p \<noteq> []" "owned p = p_slots p" "p_pc p = Link d \<or> p_pc p = Describe d \<Longrightarrow> d = List.last (p_slots p)" for d
    using assms(3) by (auto simp: producer_ok_def at_place_def owned_def)
  have ne: "i \<noteq> unat (List.last (p_slots p))" "i \<noteq> unat (p_slots p ! (length (p_slots p) - 1 - 1))"
    using assms(4) at(1,2) by (auto simp: image_iff dest: bspec [OF _ nth_mem])
  from True show ?thesis using assms(1) at(3) ne
    by (auto simp: access_simps vring_set_desc_def split: if_splits option.splits)
next
  case False
  then show ?thesis using assms(1) by (cases "p_pc p") (auto simp: access_simps split: if_splits option.splits)
qed


lemma distinct_nth_iff: "distinct c \<Longrightarrow> k < length c \<Longrightarrow> j < length c \<Longrightarrow> unat (c ! k) = unat (c ! j) \<longleftrightarrow> k = j" for c :: "u16 list"
  by (simp add: nth_eq_iff_index_eq flip: word_unat_eq_iff)

lemma describes_link:
  assumes "describes (desc (shm vr)) p" "p_pc p = Link d" "producer_ok vr0 vr p" "vring_sizes vr" "put_access p vr s = Some (p', vr', s')"
  shows "describes (desc (shm vr')) p'"
proof -
  let ?c = "p_slots p" and ?n = "length (p_slots p)"
  have c: "?c \<noteq> []" "d = ?c ! (?n - 1)" "distinct ?c" "\<And>k. k < ?n \<Longrightarrow> unat (?c ! k) < 1024"
    using assms(2,3) by (auto simp: producer_ok_def at_place_def owned_def last_conv_nth)
  have len: "length (desc (shm vr)) = 1024" using assms(4) by (simp add: vring_sizes_def)
  show ?thesis
  proof (cases "?n - 1 = 0")
    case True
    then have "length ?c = 1" using c(1) by (cases ?c) auto
    then show ?thesis using assms(1,2,5) c(1,2) by (auto simp: access_simps describes_def filled_def linked_def undoing_def hd_conv_nth)
  next
    case False
    then obtain m where m: "?n = Suc (Suc m)" by (cases ?n rule: nat.exhaust; cases "?n - 1") auto
    let ?a = "unat (?c ! m)"
    have new: "desc (shm vr') = (desc (shm vr))[?a := (desc (shm vr) ! ?a)\<lparr>d_next := ?c ! Suc m\<rparr>]" "p' = p\<lparr>p_pc := Describe d\<rparr>"
      using assms(2,5) c(2) m by (auto simp: access_simps)
    have at: "desc (shm vr') ! unat (?c ! k) = (if k = m then (desc (shm vr) ! ?a)\<lparr>d_next := ?c ! Suc m\<rparr> else desc (shm vr) ! unat (?c ! k))"
      if "k < ?n" for k using distinct_nth_iff [OF c(3) that, of m] c(4) [of m] m len by (auto simp: new(1) nth_list_update)
    have old: "\<And>k. k < Suc m \<Longrightarrow> desc_holds (desc (shm vr) ! unat (?c ! k)) (task_bufs (p_task p) ! k) (Suc k = count (p_task p))"
      "\<And>k. Suc k < Suc m \<Longrightarrow> d_next (desc (shm vr) ! unat (?c ! k)) = ?c ! Suc k" "vring_idx (p_task p) = hd ?c"
      using assms(1,2) m by (auto simp: describes_def filled_def linked_def undoing_def Let_def)
    have "desc_holds (desc (shm vr') ! unat (?c ! k)) (task_bufs (p_task p) ! k) (Suc k = count (p_task p))" if "k < Suc m" for k
      using old(1) [OF that] at [of k] that m by (auto simp: desc_holds_def)
    moreover have "d_next (desc (shm vr') ! unat (?c ! k)) = ?c ! Suc k" if "Suc k < Suc (Suc m)" for k
      using old(2) [of k] at [of k] that m by auto
    ultimately show ?thesis using old(3) m by (simp add: new(2) describes_def filled_def linked_def undoing_def Let_def)
  qed
qed

lemma describes_fill:
  assumes "describes (desc (shm vr)) p" "p_pc p = Describe d" "producer_ok vr0 vr p" "vring_sizes vr" "put_access p vr s = Some (p', vr', s')"
  shows "describes (desc (shm vr')) p'"
proof -
  let ?c = "p_slots p" and ?n = "length (p_slots p)" and ?task = "p_task p"
  have c: "?c \<noteq> []" "d = ?c ! (?n - 1)" "distinct ?c" "unat d < 1024" "?n \<le> count ?task" "task_wf ?task"
    using assms(2,3) by (auto simp: producer_ok_def at_place_def owned_def last_conv_nth)
  have len: "unat d < length (desc (shm vr))" using assms(4) c(4) by (simp add: vring_sizes_def)
  have "0 < ?n" using c(1) by simp
  then have n: "?n - 1 < count ?task" "?n - 1 < ?n" using c(5) by linarith+
  have p': "p' = p\<lparr>p_pc := Pick\<rparr>" "vr' = vring_set_desc vr d (task_bufs ?task ! (?n - 1)) (?n - 1 = count ?task - 1)"
    using assms(2,5) nth_task_bufs [OF c(6) n(1)] by (auto simp: access_simps)
  note new = vring_set_desc_nth [OF len, where b = "task_bufs ?task ! (?n - 1)" and l = "?n - 1 = count ?task - 1", folded p'(2)]
  have other: "unat (?c ! k) \<noteq> unat d" if "k < ?n" "k \<noteq> ?n - 1" for k
    using distinct_nth_iff [OF c(3) that(1) n(2)] that(2) c(2) by simp
  have old: "\<And>k. k < ?n - 1 \<Longrightarrow> desc_holds (desc (shm vr) ! unat (?c ! k)) (task_bufs ?task ! k) (Suc k = count ?task)"
    "\<And>k. Suc k < ?n \<Longrightarrow> d_next (desc (shm vr) ! unat (?c ! k)) = ?c ! Suc k" "vring_idx ?task = hd ?c"
    using assms(1,2) by (auto simp: describes_def filled_def linked_def undoing_def Let_def)
  have "desc_holds (desc (shm vr') ! unat (?c ! k)) (task_bufs ?task ! k) (Suc k = count ?task)" if "k < ?n" for k
  proof (cases "k = ?n - 1")
    case True
    then have "(Suc k = count ?task) = (?n - 1 = count ?task - 1)" using that n by auto
    with True new(1) c(2) show ?thesis by simp
  qed (use that old(1) new(3) other in auto)
  moreover have "d_next (desc (shm vr') ! unat (?c ! k)) = ?c ! Suc k" if "Suc k < ?n" for k
    using that old(2) new(2,3) other [of k] by auto
  ultimately show ?thesis using old(3) by (simp add: p'(1) describes_def filled_def linked_def undoing_def Let_def)
qed

lemma put_access_describes:
  assumes "put_access p vr s = Some (p', vr', s')" "vring_sizes vr" "producer_ok vr0 vr p"
  shows "describes (desc (shm vr')) p'"
proof (cases "\<exists>d. p_pc p = Link d \<or> p_pc p = Describe d")
  case True
  then show ?thesis using describes_link describes_fill assms unfolding producer_ok_def by metis
next
  case False
  have old: "describes (desc (shm vr)) p" "at_place p" using assms(3) by (auto simp: producer_ok_def)
  have same: "desc (shm vr') = desc (shm vr)" "p_task p' = p_task p" "\<forall>d. p_pc p' \<noteq> Describe d"
    using assms(1) False by (cases "p_pc p"; auto simp: access_simps split: if_splits option.splits)+
  have "undoing p' \<or> filled p' = filled p \<and> linked p' = linked p" using assms(1) False old(2)
    by (cases "p_pc p") (auto simp: access_simps pc_defs split: if_splits option.splits)
  moreover have "\<exists>c. p_slots p' = p_slots p @ c" using assms(1) False
    by (cases "p_pc p") (auto simp: access_simps split: if_splits option.splits)
  moreover have "filled p \<le> length (p_slots p)" "linked p \<le> length (p_slots p)"
    by (auto simp: filled_def linked_def split: pc.splits)
  ultimately show ?thesis using old(1) same
    by (cases "undoing p'") (auto simp: describes_def filled_def linked_def nth_append hd_append Let_def)
qed

text \<open>The thread that moves keeps its invariant.\<close>

lemma put_access_ok:
  assumes "put_access p vr s = Some (p', vr', s')" "vring_sizes vr" "producer_ok vr0 vr p"
    "\<forall>i < 1024. tasks vr0 ! i \<noteq> NULL \<longrightarrow> tasks vr ! i = tasks vr0 ! i"
  shows "producer_ok vr0 vr' p'"
proof -
  have len: "length (tasks vr) = 1024" using assms(2) by (simp add: vring_sizes_def)
  have at: "at_place p" and own: "distinct (owned p)" "p_ptr p \<noteq> NULL"
    "\<forall>i \<in> set (owned p). unat i < 1024 \<and> tasks vr0 ! unat i = NULL \<and> tasks vr ! unat i = p_ptr p"
    using assms(3) by (auto simp: producer_ok_def)
  from assms(1,2) at
  have "distinct (owned p') \<and> (\<forall>i \<in> set (owned p'). unat i < 1024 \<and> tasks vr0 ! unat i = NULL \<and> tasks vr' ! unat i = p_ptr p)"
  proof (cases rule: put_access_tasks)
    case (claim d)
    then have "d \<notin> set (owned p)" using own(2,3) by auto
    moreover have "tasks vr0 ! unat d = NULL" using claim(1,2) assms(4) by (cases "tasks vr0 ! unat d = NULL") auto
    ultimately show ?thesis using claim own(1,3) len by (auto simp: nth_list_update)
  next
    case (release d)
    then have "tasks vr' ! unat i = tasks vr ! unat i" if "i \<in> set (owned p')" for i
      using own(1) that by (metis distinct.simps(2) nth_list_update_neq word_unat_eq_iff)
    then show ?thesis using release(1) own(1,3) by auto
  qed (use own in auto)
  then show ?thesis
    using put_access_ring [OF assms(1-3)] put_access_describes [OF assms(1-3)] assms(3) by (auto simp: producer_ok_def)
qed


section \<open>The pool\<close>

text \<open>What was in flight stays as it was, and every slot that changed belongs to a producer.\<close>

definition kept :: "vring \<Rightarrow> vring \<Rightarrow> bool" where
  "kept vr0 vr \<longleftrightarrow> (\<forall>i < 1024. tasks vr0 ! i \<noteq> NULL \<longrightarrow> tasks vr ! i = tasks vr0 ! i \<and> desc (shm vr) ! i = desc (shm vr0) ! i)"

definition accounted :: "vring \<Rightarrow> vring \<Rightarrow> producer list \<Rightarrow> bool" where
  "accounted vr0 vr ps \<longleftrightarrow> (\<forall>i < 1024. tasks vr ! i \<noteq> tasks vr0 ! i \<longrightarrow> (\<exists>k < length ps. i \<in> unat ` set (owned (ps ! k))))"

definition slots_ok :: "vring \<Rightarrow> vring \<Rightarrow> producer list \<Rightarrow> bool" where
  "slots_ok vr0 vr ps \<longleftrightarrow> vring_sizes vr \<and> distinct (map p_ptr ps) \<and> (\<forall>k < length ps. producer_ok vr0 vr (ps ! k)) \<and>
     kept vr0 vr \<and> accounted vr0 vr ps"

lemma slots_ok_disjoint:
  assumes "slots_ok vr0 vr ps" "k < length ps" "j < length ps" "k \<noteq> j" "i \<in> set (owned (ps ! j))"
  shows "tasks vr ! unat i \<noteq> p_ptr (ps ! k)" and "unat i \<notin> unat ` set (owned (ps ! k))"
proof -
  have "p_ptr (ps ! j) \<noteq> p_ptr (ps ! k)" using assms(1-4) by (auto simp: slots_ok_def distinct_conv_nth)
  moreover have own: "tasks vr ! unat i = p_ptr (ps ! l)" if "l < length ps" "i \<in> set (owned (ps ! l))" for i l
    using assms(1) that by (auto simp: slots_ok_def producer_ok_def)
  ultimately show "tasks vr ! unat i \<noteq> p_ptr (ps ! k)" using assms(3,5) by simp
  then show "unat i \<notin> unat ` set (owned (ps ! k))" using own [OF assms(2)] by auto
qed

lemma put_access_others:
  assumes "slots_ok vr0 vr ps" "k < length ps" "put_access (ps ! k) vr s = Some (p', vr', s')" "j < length ps" "j \<noteq> k"
  shows "producer_ok vr0 vr' (ps ! j)"
proof (rule producer_ok_cong)
  show ok: "producer_ok vr0 vr (ps ! j)" using assms(1,4) by (simp add: slots_ok_def)
  have p: "vring_sizes vr" "producer_ok vr0 vr (ps ! k)" "at_place (ps ! k)" using assms(1,2) by (auto simp: slots_ok_def producer_ok_def)
  fix i assume i: "i \<in> set (owned (ps ! j))"
  note dis = slots_ok_disjoint [OF assms(1,2,4) assms(5) [symmetric] i]
  show "desc (shm vr') ! unat i = desc (shm vr) ! unat i" by (rule put_access_desc [OF assms(3) p(1,2) dis(2)])
  have taken: "tasks vr ! unat i \<noteq> NULL" using ok i by (auto simp: producer_ok_def)
  from assms(3) p(1,3) show "tasks vr' ! unat i = tasks vr ! unat i"
  proof (cases rule: put_access_tasks)
    case (claim d)
    then show ?thesis using taken by (metis nth_list_update_neq)
  next
    case (release d)
    then have "unat i \<noteq> unat d" using dis(2) by auto
    then show ?thesis using release by simp
  qed simp
qed

lemma put_access_kept:
  assumes "slots_ok vr0 vr ps" "k < length ps" "put_access (ps ! k) vr s = Some (p', vr', s')"
  shows "kept vr0 vr'"
  unfolding kept_def
proof (intro allI impI conjI)
  have p: "vring_sizes vr" "producer_ok vr0 vr (ps ! k)" "at_place (ps ! k)" using assms(1,2) by (auto simp: slots_ok_def producer_ok_def)
  fix i :: nat assume i: "i < 1024" "tasks vr0 ! i \<noteq> NULL"
  have own: "i \<notin> unat ` set (owned (ps ! k))" using p(2) i(2) by (auto simp: producer_ok_def)
  have old: "tasks vr ! i = tasks vr0 ! i" "desc (shm vr) ! i = desc (shm vr0) ! i" using assms(1) i by (auto simp: slots_ok_def kept_def)
  show "desc (shm vr') ! i = desc (shm vr0) ! i" using put_access_desc [OF assms(3) p(1,2) own] old(2) by simp
  from assms(3) p(1,3) show "tasks vr' ! i = tasks vr0 ! i"
  proof (cases rule: put_access_tasks)
    case (claim d)
    then show ?thesis using old(1) i(2) by (metis nth_list_update_neq)
  next
    case (release d)
    then have "i \<noteq> unat d" using own by auto
    then show ?thesis using release old(1) by simp
  qed (use old in simp)
qed

lemma put_access_accounted:
  assumes "slots_ok vr0 vr ps" "k < length ps" "put_access (ps ! k) vr s = Some (p', vr', s')"
  shows "accounted vr0 vr' (ps[k := p'])"
  unfolding accounted_def
proof (intro allI impI)
  have p: "vring_sizes vr" "producer_ok vr0 vr (ps ! k)" "at_place (ps ! k)" using assms(1,2) by (auto simp: slots_ok_def producer_ok_def)
  have len: "length (tasks vr) = 1024" using p(1) by (simp add: vring_sizes_def)
  fix i :: nat assume i: "i < 1024" "tasks vr' ! i \<noteq> tasks vr0 ! i"
  have old: "\<exists>j < length ps. i \<in> unat ` set (owned (ps ! j))" if "tasks vr ! i \<noteq> tasks vr0 ! i"
    using assms(1) i(1) that by (simp add: slots_ok_def accounted_def)
  have "i \<in> unat ` set (owned p') \<or> tasks vr ! i \<noteq> tasks vr0 ! i \<and> i \<notin> unat ` set (owned (ps ! k))"
    using assms(3) p(1,3)
  proof (cases rule: put_access_tasks)
    case (claim d)
    then show ?thesis using i len by (cases "i = unat d") auto
  next
    case (release d)
    have "tasks vr0 ! unat d = NULL" using p(2) release(1) by (auto simp: producer_ok_def)
    then have "i \<noteq> unat d" using i release(2) len by auto
    then show ?thesis using release i(2) by auto
  qed (use i in auto)
  then show "\<exists>j < length (ps[k := p']). i \<in> unat ` set (owned (ps[k := p'] ! j))"
    using old assms(2) by (metis length_list_update nth_list_update_eq nth_list_update_neq)
qed

lemma put_access_slots_ok:
  assumes "slots_ok vr0 vr ps" "k < length ps" "put_access (ps ! k) vr s = Some (p', vr', s')"
  shows "slots_ok vr0 vr' (ps[k := p'])"
proof -
  have p: "vring_sizes vr" "producer_ok vr0 vr (ps ! k)" "\<forall>i < 1024. tasks vr0 ! i \<noteq> NULL \<longrightarrow> tasks vr ! i = tasks vr0 ! i"
    using assms(1,2) by (auto simp: slots_ok_def kept_def)
  note ring = put_access_ring [OF assms(3) p(1,2)]
  have "map p_ptr (ps[k := p']) = map p_ptr ps" using ring(2) assms(2) by (simp add: map_update list_update_same_conv)
  moreover have "producer_ok vr0 vr' (ps[k := p'] ! j)" if "j < length (ps[k := p'])" for j
    using put_access_others [OF assms] put_access_ok [OF assms(3) p] that by (cases "j = k") auto
  ultimately show ?thesis
    using assms(1) ring(1) put_access_kept [OF assms] put_access_accounted [OF assms] unfolding slots_ok_def by metis
qed

end
