(* ===== verification/Vring_Tickets.thy ===== *)
theory Vring_Tickets
  imports Vring_Conc
begin

text \<open>
  The order in which concurrent calls of \<open>vring_put_task\<close> publish their chains, and with it the invariant of
  the whole pool of producers.
\<close>

section \<open>The avail ring\<close>

text \<open>
  \<open>vring_flush\<close> is a ticket lock: the value that a thread takes from \<open>last_avail_idx\<close> is the number of its
  ticket, and \<open>avail->idx\<close> says whose turn it is. \<open>ord\<close> lists the threads by their tickets, the first
  \<open>m\<close> of them have published their entry.
\<close>

definition ticketed :: "producer \<Rightarrow> bool" where
  "ticketed p \<longleftrightarrow> (case p_pc p of FlushStore x \<Rightarrow> True | FlushPublish x \<Rightarrow> True | Kick \<Rightarrow> True | Returned rc \<Rightarrow> rc = 0 | _ \<Rightarrow> False)"

definition holds_ticket :: "u16 \<Rightarrow> bool \<Rightarrow> u16 list \<Rightarrow> producer \<Rightarrow> bool" where
  "holds_ticket x pub ring p \<longleftrightarrow> (case p_pc p of
      FlushStore y \<Rightarrow> \<not> pub \<and> y = x
    | FlushPublish y \<Rightarrow> \<not> pub \<and> y = x \<and> ring ! unat (x AND 1023) = hd (p_slots p)
    | Kick \<Rightarrow> pub \<and> ring ! unat (x AND 1023) = hd (p_slots p)
    | Returned rc \<Rightarrow> rc = 0 \<and> pub \<and> ring ! unat (x AND 1023) = hd (p_slots p)
    | _ \<Rightarrow> False)"

definition tickets_ok :: "u16 \<Rightarrow> nat list \<Rightarrow> nat \<Rightarrow> vring \<Rightarrow> producer list \<Rightarrow> bool" where
  "tickets_ok base ord m vr ps \<longleftrightarrow> distinct ord \<and> set ord = {k. k < length ps \<and> ticketed (ps ! k)} \<and> m \<le> length ord \<and>
     last_avail_idx vr = base + of_nat (length ord) \<and> a_idx (avail (shm vr)) = base + of_nat m \<and>
     (\<forall>j < length ord. holds_ticket (base + of_nat j) (j < m) (a_ring (avail (shm vr))) (ps ! (ord ! j)))"

text \<open>Each ticket stands for a slot, so there are at most as many as slots.\<close>

lemma tickets_bound:
  assumes "slots_ok vr0 vr ps" "distinct ord" "\<And>k. k \<in> set ord \<Longrightarrow> k < length ps \<and> owned (ps ! k) \<noteq> []"
  shows "length ord \<le> 1024"
proof -
  let ?f = "\<lambda>k. unat (hd (owned (ps ! k)))"
  have "inj_on ?f (set ord)"
  proof (rule inj_onI, rule ccontr)
    fix k j assume kj: "k \<in> set ord" "j \<in> set ord" "?f k = ?f j" "k \<noteq> j"
    then have "?f j \<notin> unat ` set (owned (ps ! k))" using slots_ok_disjoint(2) [OF assms(1), of k j "hd (owned (ps ! j))"] assms(3) by simp
    moreover have "?f k \<in> unat ` set (owned (ps ! k))" using assms(3) [OF kj(1)] by simp
    ultimately show False using kj(3) by simp
  qed
  moreover have "?f ` set ord \<subseteq> {..<1024}"
    using assms(1,3) by (fastforce simp: slots_ok_def producer_ok_def)
  ultimately have "card (set ord) \<le> card {..<1024::nat}" by (metis card_inj_on_le finite_lessThan)
  then show ?thesis by (simp add: distinct_card [OF assms(2)])
qed

lemma ticketed_owned:
  assumes "producer_ok vr0 vr p" "ticketed p \<or> (\<exists>x. p_pc p = FlushTake x)"
  shows "owned p \<noteq> []" and "owned p = p_slots p" and "vring_idx (p_task p) = hd (p_slots p)"
  using assms by (auto simp: producer_ok_def at_place_def ticketed_def owned_def describes_def filled_def undoing_def Let_def split: pc.splits)

lemma holds_ticketed: "holds_ticket x b ring p \<Longrightarrow> ticketed p"
  by (auto simp: holds_ticket_def ticketed_def split: pc.splits)

text \<open>Threads that are not at the avail ring leave the tickets alone.\<close>

lemma put_access_unticketed:
  assumes "put_access p vr s = Some (p', vr', s')" "\<forall>x. p_pc p \<noteq> FlushTake x \<and> p_pc p \<noteq> FlushStore x \<and> p_pc p \<noteq> FlushPublish x"
  shows "avail (shm vr') = avail (shm vr)" and "last_avail_idx vr' = last_avail_idx vr" and "ticketed p' = ticketed p"
    and "holds_ticket x b ring p \<Longrightarrow> holds_ticket x b ring p'"
  using assms by (cases "p_pc p"; auto simp: access_simps ticketed_def holds_ticket_def split: if_splits option.splits)+


section \<open>One access to the avail ring\<close>

lemma tickets_same:
  assumes "tickets_ok base ord m vr ps" "k < length ps" "avail (shm vr') = avail (shm vr)" "last_avail_idx vr' = last_avail_idx vr"
    "ticketed p' = ticketed (ps ! k)" "\<And>x b ring. holds_ticket x b ring (ps ! k) \<Longrightarrow> holds_ticket x b ring p'"
  shows "tickets_ok base ord m vr' (ps[k := p'])"
proof -
  have "ticketed (ps[k := p'] ! j) = ticketed (ps ! j)" if "j < length ps" for j using that assms(2,5) by (simp add: nth_list_update)
  moreover have "holds_ticket x b ring (ps[k := p'] ! j)" if "holds_ticket x b ring (ps ! j)" for x b ring j
    using that assms(2,6) by (cases "j = k") auto
  ultimately show ?thesis using assms(1,3,4) by (auto simp: tickets_ok_def)
qed

lemma tickets_take:
  assumes "tickets_ok base ord m vr ps" "k < length ps" "p_pc (ps ! k) = FlushTake x" "last_avail_idx vr = x"
  shows "tickets_ok base (ord @ [k]) m (vr\<lparr>last_avail_idx := x + 1\<rparr>) (ps[k := (ps ! k)\<lparr>p_pc := FlushStore x\<rparr>])"
proof -
  let ?ps = "ps[k := (ps ! k)\<lparr>p_pc := FlushStore x\<rparr>]"
  have new: "\<not> ticketed (ps ! k)" "ticketed ((ps ! k)\<lparr>p_pc := FlushStore x\<rparr>)" using assms(3) by (simp_all add: ticketed_def)
  have old: "distinct ord" "set ord = {k. k < length ps \<and> ticketed (ps ! k)}" "m \<le> length ord" "x = base + of_nat (length ord)"
    "a_idx (avail (shm vr)) = base + of_nat m"
    "\<And>j. j < length ord \<Longrightarrow> holds_ticket (base + of_nat j) (j < m) (a_ring (avail (shm vr))) (ps ! (ord ! j))"
    using assms(1,4) by (auto simp: tickets_ok_def)
  have k: "k \<notin> set ord" using old(2) new(1) by simp
  have "holds_ticket (base + of_nat j) (j < m) (a_ring (avail (shm vr))) (?ps ! ((ord @ [k]) ! j))" if "j < length (ord @ [k])" for j
  proof (cases "j < length ord")
    case True
    then have "ord ! j \<noteq> k" using k by (auto dest: nth_mem)
    with True old(6) show ?thesis by (simp add: nth_append)
  next
    case False
    then have "j = length ord" using that by simp
    then show ?thesis using assms(2) old(3,4) by (simp add: holds_ticket_def)
  qed
  moreover have "set (ord @ [k]) = {j. j < length ?ps \<and> ticketed (?ps ! j)}"
    using old(2) new assms(2) by (auto simp: nth_list_update)
  ultimately show ?thesis using old k by (simp add: tickets_ok_def)
qed

lemma tickets_store:
  assumes "tickets_ok base ord m vr ps" "vring_sizes vr" "length ord \<le> 1024" "k < length ps" "p_pc (ps ! k) = FlushStore x"
    "d = hd (p_slots (ps ! k))"
  shows "tickets_ok base ord m (avail_store vr x d) (ps[k := (ps ! k)\<lparr>p_pc := FlushPublish x\<rparr>])"
proof -
  let ?ps = "ps[k := (ps ! k)\<lparr>p_pc := FlushPublish x\<rparr>]"
  have old: "distinct ord" "set ord = {k. k < length ps \<and> ticketed (ps ! k)}"
    "\<And>j. j < length ord \<Longrightarrow> holds_ticket (base + of_nat j) (j < m) (a_ring (avail (shm vr))) (ps ! (ord ! j))"
    using assms(1) by (auto simp: tickets_ok_def)
  have "k \<in> set ord" using old(2) assms(4,5) by (simp add: ticketed_def)
  then obtain i where i: "i < length ord" "ord ! i = k" by (auto simp: in_set_conv_nth)
  have x: "x = base + of_nat i" "\<not> i < m" using old(3) [OF i(1)] assms(5) i(2) by (auto simp: holds_ticket_def)
  have ring: "a_ring (avail (shm (avail_store vr x d))) = (a_ring (avail (shm vr)))[unat (x AND 1023) := d]"
    using vring_mask_1023 [OF assms(2)] by (simp add: avail_store_def)
  have len: "length (a_ring (avail (shm vr))) = 1024" using assms(2) by (simp add: vring_sizes_def)
  have "holds_ticket (base + of_nat j) (j < m) (a_ring (avail (shm (avail_store vr x d)))) (?ps ! (ord ! j))" if j: "j < length ord" for j
  proof (cases "j = i")
    case True
    then show ?thesis using i x ring len assms(4,6) by (simp add: holds_ticket_def unat_and_1023)
  next
    case False
    then have "ord ! j \<noteq> k" using old(1) i j by (auto simp: nth_eq_iff_index_eq)
    moreover have "unat ((base + of_nat j) AND 1023) \<noteq> unat (x AND 1023)"
      using masked_index_add [of j i base] False i(1) j assms(3) x(1) by auto
    ultimately show ?thesis using old(3) [OF j] ring by (auto simp: holds_ticket_def split: pc.splits)
  qed
  moreover have "ticketed (?ps ! j) = ticketed (ps ! j)" for j using assms(4,5) by (cases "j = k") (simp_all add: ticketed_def)
  ultimately show ?thesis using assms(1) by (simp add: tickets_ok_def)
qed

lemma tickets_publish:
  assumes "tickets_ok base ord m vr ps" "length ord \<le> 1024" "k < length ps" "p_pc (ps ! k) = FlushPublish x" "a_idx (avail (shm vr)) = x"
  shows "tickets_ok base ord (Suc m) (avail_advance vr x) (ps[k := (ps ! k)\<lparr>p_pc := Kick\<rparr>])"
proof -
  let ?ps = "ps[k := (ps ! k)\<lparr>p_pc := Kick\<rparr>]"
  have old: "distinct ord" "set ord = {k. k < length ps \<and> ticketed (ps ! k)}" "m \<le> length ord" "x = base + of_nat m"
    "\<And>j. j < length ord \<Longrightarrow> holds_ticket (base + of_nat j) (j < m) (a_ring (avail (shm vr))) (ps ! (ord ! j))"
    using assms(1,5) by (auto simp: tickets_ok_def)
  have "k \<in> set ord" using old(2) assms(3,4) by (simp add: ticketed_def)
  then obtain i where i: "i < length ord" "ord ! i = k" by (auto simp: in_set_conv_nth)
  have x: "x = base + of_nat i" "a_ring (avail (shm vr)) ! unat (x AND 1023) = hd (p_slots (ps ! k))"
    using old(5) [OF i(1)] assms(4) i(2) by (auto simp: holds_ticket_def)
  then have "unat (of_nat i :: u16) = unat (of_nat m :: u16)" using old(4) by simp
  then have m: "i = m" using i(1) old(3) assms(2) by (simp add: unat_of_nat)
  have "holds_ticket (base + of_nat j) (j < Suc m) (a_ring (avail (shm vr))) (?ps ! (ord ! j))" if j: "j < length ord" for j
  proof (cases "j = i")
    case True
    then show ?thesis using i m x assms(3) by (simp add: holds_ticket_def)
  next
    case False
    then have "ord ! j \<noteq> k" using old(1) i j by (auto simp: nth_eq_iff_index_eq)
    moreover have "(j < Suc m) = (j < m)" using False m by auto
    ultimately show ?thesis using old(5) [OF j] by simp
  qed
  moreover have "ticketed (?ps ! j) = ticketed (ps ! j)" for j using assms(3,4) by (cases "j = k") (simp_all add: ticketed_def)
  ultimately show ?thesis using assms(1) i(1) m x(1) by (simp add: tickets_ok_def add_ac)
qed

lemma put_access_tickets:
  assumes "slots_ok vr0 vr ps" "tickets_ok base ord m vr ps" "k < length ps" "put_access (ps ! k) vr s = Some (p', vr', s')"
  shows "\<exists>ord m. tickets_ok base ord m vr' (ps[k := p'])"
proof -
  let ?p = "ps ! k"
  have ok: "producer_ok vr0 vr (ps ! j)" if "j < length ps" for j using assms(1) that by (simp add: slots_ok_def)
  have sizes: "vring_sizes vr" using assms(1) by (simp add: slots_ok_def)
  have ord: "distinct ord" "\<And>j. j \<in> set ord \<Longrightarrow> j < length ps \<and> ticketed (ps ! j)" using assms(2) by (auto simp: tickets_ok_def)
  have len: "length ord \<le> 1024" using ord ok ticketed_owned(1) by (intro tickets_bound [OF assms(1)]) blast+
  consider x where "p_pc ?p = FlushTake x" | x where "p_pc ?p = FlushStore x" | x where "p_pc ?p = FlushPublish x"
    | "\<forall>x. p_pc ?p \<noteq> FlushTake x \<and> p_pc ?p \<noteq> FlushStore x \<and> p_pc ?p \<noteq> FlushPublish x" by blast
  then show ?thesis
  proof cases
    case (1 x)
    show ?thesis
    proof (cases "last_avail_idx vr = x")
      case True
      then show ?thesis using tickets_take [OF assms(2,3) 1] assms(4) 1 by (auto simp: access_simps)
    next
      case False
      then have "p' = ?p\<lparr>p_pc := FlushRead\<rparr>" "vr' = vr" using assms(4) 1 by (auto simp: access_simps)
      then show ?thesis using tickets_same [OF assms(2,3), of vr p'] 1 by (auto simp: ticketed_def holds_ticket_def)
    qed
  next
    case (2 x)
    then have "ticketed ?p" by (simp add: ticketed_def)
    then have "vring_idx (p_task ?p) = hd (p_slots ?p)" using ticketed_owned(3) [OF ok [OF assms(3)]] by blast
    then show ?thesis using tickets_store [OF assms(2) sizes len assms(3) 2 refl] assms(4) 2 by (auto simp: access_simps)
  next
    case (3 x)
    show ?thesis
    proof (cases "a_idx (avail (shm vr)) = x")
      case True
      then show ?thesis using tickets_publish [OF assms(2) len assms(3) 3] assms(4) 3 by (auto simp: access_simps)
    next
      case False
      then have "p' = ?p" "vr' = vr" using assms(4) 3 by (auto simp: access_simps)
      then show ?thesis using assms(2) by auto
    qed
  next
    case 4
    note put_access_unticketed [OF assms(4) 4]
    then show ?thesis using tickets_same [OF assms(2,3)] by blast
  qed
qed


section \<open>Any number of producers\<close>

definition entering :: "producer \<Rightarrow> bool" where
  "entering p \<longleftrightarrow> p_slots p = [] \<and> p_pc p = Pick \<and> p_ptr p \<noteq> NULL \<and> task_wf (p_task p) \<and> 0 < count (p_task p)"

definition pool_start :: "vring \<Rightarrow> pool \<Rightarrow> bool" where
  "pool_start vr0 c \<longleftrightarrow> (case c of (vr, s, g, ps) \<Rightarrow> vr = vr0 \<and> g = Idle \<and> vring_sizes vr \<and>
     a_idx (avail (shm vr)) = last_avail_idx vr \<and> distinct (map p_ptr ps) \<and> (\<forall>p \<in> set ps. entering p))"

definition pool_inv :: "vring \<Rightarrow> pool \<Rightarrow> bool" where
  "pool_inv vr0 c \<longleftrightarrow> (case c of (vr, s, g, ps) \<Rightarrow> g = Idle \<and> slots_ok vr0 vr ps \<and>
     (\<exists>ord m. tickets_ok (last_avail_idx vr0) ord m vr ps))"

interpretation pool: inductive_invariant "pool_start vr0" pool_step "pool_inv vr0" for vr0
proof
  fix c :: pool
  obtain vr s g ps where c: "c = (vr, s, g, ps)" by (cases c) auto
  assume *: "pool_start vr0 c"
  then have "\<forall>k < length ps. entering (ps ! k)" by (simp add: c pool_start_def)
  then have "\<forall>k < length ps. producer_ok vr0 vr0 (ps ! k)" "\<forall>k < length ps. \<not> ticketed (ps ! k)"
    by (simp_all add: entering_def producer_ok_def at_place_def owned_def describes_def filled_def linked_def undoing_def ticketed_def)
  then show "pool_inv vr0 c" using *
    by (auto simp: c pool_start_def pool_inv_def slots_ok_def kept_def accounted_def tickets_ok_def intro!: exI [of _ "[]"] exI [of _ 0])
next
  fix c c' :: pool
  assume inv: "pool_inv vr0 c" and step: "pool_step c c'"
  from step show "pool_inv vr0 c'"
  proof (cases rule: pool_step.cases)
    case (put k ps vr s p' vr' s' g)
    then show ?thesis using inv put_access_slots_ok put_access_tickets by (fastforce simp: pool_inv_def)
  next
    case (get g vr g' vr' s ps)
    then show ?thesis using inv by (simp add: pool_inv_def free_access_def)
  next
    case (server u vr s g ps e)
    let ?vr = "vr\<lparr>shm := (shm vr)\<lparr>used := u\<rparr>\<rparr>"
    have "producer_ok vr0 ?vr p" if "producer_ok vr0 vr p" for p using that by (rule producer_ok_cong) simp_all
    then show ?thesis using inv server
      by (auto simp: pool_inv_def slots_ok_def kept_def accounted_def tickets_ok_def vring_sizes_def)
  qed
qed

text \<open>
  What the users of the ring can rely on while producers run: no two threads hold the same slot, tasks that were in
  flight keep their slots and descriptors, a slot that changed hands belongs to a thread, and the entries that the
  avail ring has gained are the heads of complete chains, one for each thread that has published, among
  them all threads that have returned 0. A thread that has returned -1 holds nothing.
\<close>

definition chain_announced :: "vring \<Rightarrow> vring \<Rightarrow> nat \<Rightarrow> producer \<Rightarrow> bool" where
  "chain_announced vr0 vr j p \<longleftrightarrow>
     a_ring (avail (shm vr)) ! unat ((a_idx (avail (shm vr0)) + of_nat j) AND 1023) = hd (p_slots p) \<and>
     desc_chain (desc (shm vr)) (p_slots p) (task_bufs (p_task p)) \<and>
     (\<forall>i \<in> set (p_slots p). tasks vr ! unat i = p_ptr p \<and> tasks vr0 ! unat i = NULL)"

definition producers_safe :: "vring \<Rightarrow> vring \<Rightarrow> producer list \<Rightarrow> bool" where
  "producers_safe vr0 vr ps \<longleftrightarrow>
     (\<forall>k < length ps. \<forall>j < length ps. k \<noteq> j \<longrightarrow> set (owned (ps ! k)) \<inter> set (owned (ps ! j)) = {}) \<and>
     kept vr0 vr \<and> accounted vr0 vr ps \<and>
     (\<exists>ord. distinct ord \<and> set ord \<subseteq> {..<length ps} \<and> {k. k < length ps \<and> p_pc (ps ! k) = Returned 0} \<subseteq> set ord \<and>
        a_idx (avail (shm vr)) = a_idx (avail (shm vr0)) + of_nat (length ord) \<and>
        (\<forall>j < length ord. chain_announced vr0 vr j (ps ! (ord ! j))))"

text \<open>Some thread makes headway: its place in the code changes, it does not just spin.\<close>

definition headway :: "vring \<Rightarrow> sys \<Rightarrow> producer list \<Rightarrow> bool" where
  "headway vr s ps \<longleftrightarrow> (\<exists>k < length ps. \<exists>p' vr' s'. put_access (ps ! k) vr s = Some (p', vr', s') \<and> p_pc p' \<noteq> p_pc (ps ! k))"

lemma published_chain:
  assumes "producer_ok vr0 vr p" "ticketed p"
  shows "desc_chain (desc (shm vr)) (p_slots p) (task_bufs (p_task p))"
  using assms
  by (auto simp: producer_ok_def at_place_def describes_def filled_def linked_def undoing_def ticketed_def desc_chain_def Let_def split: pc.splits)

lemma pool_inv_safe:
  assumes "pool_inv vr0 (vr, s, g, ps)" "a_idx (avail (shm vr0)) = last_avail_idx vr0"
  shows "producers_safe vr0 vr ps"
proof -
  let ?base = "last_avail_idx vr0"
  from assms(1) obtain ord m where so: "slots_ok vr0 vr ps" and t: "tickets_ok ?base ord m vr ps" by (auto simp: pool_inv_def)
  have ok: "producer_ok vr0 vr (ps ! k)" if "k < length ps" for k using so that by (simp add: slots_ok_def)
  have ord: "distinct ord" "set ord = {k. k < length ps \<and> ticketed (ps ! k)}" "m \<le> length ord" "a_idx (avail (shm vr)) = ?base + of_nat m"
    "\<And>j. j < length ord \<Longrightarrow> holds_ticket (?base + of_nat j) (j < m) (a_ring (avail (shm vr))) (ps ! (ord ! j))"
    using t by (auto simp: tickets_ok_def)
  have "chain_announced vr0 vr j (ps ! (take m ord ! j))" if "j < length (take m ord)" for j
  proof -
    have j: "j < m" "j < length ord" "take m ord ! j = ord ! j" using that by simp_all
    then have k: "ord ! j < length ps" "ticketed (ps ! (ord ! j))" using ord(2) nth_mem [of j ord] by auto
    show ?thesis using published_chain [OF ok k(2)] ticketed_owned(2) [OF ok, of "ord ! j"] ok [OF k(1)] ord(5) [OF j(2)] k j assms(2)
      by (auto simp: chain_announced_def holds_ticket_def producer_ok_def split: pc.splits)
  qed
  moreover have "k \<in> set (take m ord)" if "k < length ps" "p_pc (ps ! k) = Returned 0" for k
  proof -
    have "k \<in> set ord" using that ord(2) by (simp add: ticketed_def)
    then obtain j where j: "j < length ord" "ord ! j = k" by (auto simp: in_set_conv_nth)
    then have "j < m" using ord(5) [OF j(1)] that(2) by (simp add: holds_ticket_def)
    then show ?thesis using j ord(3) by (auto simp: in_set_conv_nth)
  qed
  moreover have "set (take m ord) \<subseteq> {..<length ps}" using ord(2) set_take_subset [of m ord] by auto
  ultimately have "\<exists>ord. distinct ord \<and> set ord \<subseteq> {..<length ps} \<and> {k. k < length ps \<and> p_pc (ps ! k) = Returned 0} \<subseteq> set ord \<and>
        a_idx (avail (shm vr)) = a_idx (avail (shm vr0)) + of_nat (length ord) \<and>
        (\<forall>j < length ord. chain_announced vr0 vr j (ps ! (ord ! j)))"
    using ord(1,3,4) assms(2) by (intro exI [of _ "take m ord"]) auto
  moreover have "set (owned (ps ! k)) \<inter> set (owned (ps ! j)) = {}" if "k < length ps" "j < length ps" "k \<noteq> j" for k j
    using slots_ok_disjoint(2) [OF so that] by blast
  ultimately show ?thesis using so by (simp add: producers_safe_def slots_ok_def)
qed

lemma put_access_moves:
  assumes "producer_ok vr0 vr p" "vring_sizes vr" "kick_ready vr s" "\<forall>rc. p_pc p \<noteq> Returned rc"
    "\<forall>x. p_pc p = FlushPublish x \<longrightarrow> a_idx (avail (shm vr)) = x"
  shows "\<exists>p' vr' s'. put_access p vr s = Some (p', vr', s') \<and> p_pc p' \<noteq> p_pc p"
proof -
  have at: "at_place p" "task_wf (p_task p)" using assms(1) by (simp_all add: producer_ok_def)
  have "(d + 1) AND vring_mask vr \<noteq> d" if "unat d < 1024" for d :: u16
    using that unat_next_slot [of d] unfolding vring_mask_1023 [OF assms(2)] by (auto simp: mod_Suc split: if_splits)
  moreover have "\<exists>b. vbufs (p_task p) ! (length (p_slots p) - Suc 0) = Some b" if "p_pc p = Describe d" for d
  proof -
    have "length (p_slots p) - Suc 0 < count (p_task p)" using that at(1) by (cases "p_slots p") (auto simp: at_place_def)
    then show ?thesis using nth_task_bufs [OF at(2), of "length (p_slots p) - Suc 0"] by simp
  qed
  ultimately show ?thesis
    using assms(2-5) at(1) by (cases "p_pc p") (auto simp: access_simps at_place_def kick_ready_def eventfd_write_def vring_sizes_def)
qed

lemma pool_inv_headway:
  assumes "pool_inv vr0 (vr, s, g, ps)" "kick_ready vr s" "k < length ps" "\<forall>rc. p_pc (ps ! k) \<noteq> Returned rc"
  shows "headway vr s ps"
proof -
  from assms(1) obtain ord m where so: "slots_ok vr0 vr ps" and t: "tickets_ok (last_avail_idx vr0) ord m vr ps" by (auto simp: pool_inv_def)
  have sizes: "vring_sizes vr" using so by (simp add: slots_ok_def)
  have move: "headway vr s ps" if "j < length ps" "\<forall>rc. p_pc (ps ! j) \<noteq> Returned rc" "\<forall>x. p_pc (ps ! j) = FlushPublish x \<longrightarrow> a_idx (avail (shm vr)) = x" for j
    using put_access_moves [OF _ sizes assms(2) that(2,3), of vr0] so that(1) unfolding headway_def slots_ok_def by blast
  show ?thesis
  proof (cases "\<exists>x. p_pc (ps ! k) = FlushPublish x \<and> a_idx (avail (shm vr)) \<noteq> x")
    case False
    then show ?thesis using move assms(3,4) by blast
  next
    case True
    then obtain x where x: "p_pc (ps ! k) = FlushPublish x" by blast
    have ord: "set ord = {k. k < length ps \<and> ticketed (ps ! k)}" "m \<le> length ord" "a_idx (avail (shm vr)) = last_avail_idx vr0 + of_nat m"
      "\<And>j. j < length ord \<Longrightarrow> holds_ticket (last_avail_idx vr0 + of_nat j) (j < m) (a_ring (avail (shm vr))) (ps ! (ord ! j))"
      using t by (auto simp: tickets_ok_def)
    have "ticketed (ps ! k)" using x by (simp add: ticketed_def)
    then have "k \<in> set ord" using ord(1) assms(3) by simp
    then obtain i where i: "i < length ord" "ord ! i = k" by (auto simp: in_set_conv_nth)
    have "\<not> i < m" using ord(4) [OF i(1)] i(2) x by (simp add: holds_ticket_def)
    then have m: "m < length ord" using i(1) by simp
    then have "ord ! m < length ps" using ord(1) nth_mem by blast
    moreover have "\<forall>rc. p_pc (ps ! (ord ! m)) \<noteq> Returned rc" "\<forall>x. p_pc (ps ! (ord ! m)) = FlushPublish x \<longrightarrow> a_idx (avail (shm vr)) = x"
      using ord(4) [OF m] ord(3) by (auto simp: holds_ticket_def)
    ultimately show ?thesis by (rule move)
  qed
qed


text \<open>
  C5. \<open>vring_put_task\<close> is MT-safe. Let any number of threads enter it with different tasks and let their accesses to the
  ring interleave in any way, while the server writes the used ring. At every moment \<open>producers_safe\<close> holds:
  no slot is held by two threads, the tasks in flight are not touched, and the avail ring has grown by exactly the heads of
  complete chains, in the order of the tickets. The threads never block each other for good: as long as one has
  not returned and the kick descriptor can be written, some thread makes headway.
\<close>

theorem vring_put_task_mt_safe:
  assumes "vring_sizes vr0" "a_idx (avail (shm vr0)) = last_avail_idx vr0" "distinct (map p_ptr ps0)" "\<forall>p \<in> set ps0. entering p"
    "pool_step\<^sup>*\<^sup>* (vr0, s0, Idle, ps0) (vr, s, g, ps)"
  shows "producers_safe vr0 vr ps \<and> (headway vr s ps \<or> \<not> kick_ready vr s \<or> list_all (\<lambda>p. \<exists>rc. p_pc p = Returned rc) ps)"
proof -
  have "pool_inv vr0 (vr0, s0, Idle, ps0)" using assms(1-4) by (intro pool.inv_init) (simp add: pool_start_def)
  with assms(5) have inv: "pool_inv vr0 (vr, s, g, ps)" by (rule pool.run_inv)
  show ?thesis using pool_inv_safe [OF inv assms(2)] pool_inv_headway [OF inv] by (auto simp: list_all_length)
qed

text \<open>The instance: two threads that find the same free slot, of which one takes it, and that publish in the order of their tickets.\<close>

fun run_pool :: "nat list \<Rightarrow> pool \<Rightarrow> pool option" where
  "run_pool [] c = Some c"
| "run_pool (k # ks) (vr, s, g, ps) =
     (if k < length ps then case put_access (ps ! k) vr s of None \<Rightarrow> None | Some (p', vr', s') \<Rightarrow> run_pool ks (vr', s', g, ps[k := p'])
      else None)"

lemma run_pool_steps: "run_pool ks c = Some c' \<Longrightarrow> pool_step\<^sup>*\<^sup>* c c'"
proof (induction ks c rule: run_pool.induct)
  case (2 k ks vr s g ps)
  then show ?case by (auto split: if_splits option.splits intro: converse_rtranclp_into_rtranclp pool_step.put)
qed simp

definition example_producer :: "ptr \<Rightarrow> producer" where
  "example_producer t = \<lparr>p_ptr = t, p_task = \<lparr>vbufs = [Some (example_buffer 8192 51 False)], count = 1, limit = 1,
     vring_idx = 0, used_bytes = 0, cb = None, arg = NULL\<rparr>, p_slots = [], p_pc = Pick\<rparr>"

definition example_schedule :: "nat list" where
  "example_schedule = [0, 1, 0, 1, 0, 1, 1, 1, 1, 0, 0, 0, 0, 0, 1, 1, 1, 1, 1, 0, 1, 1, 1, 1, 1, 0, 0, 0, 1, 1]"


lemma example_schedule_runs: "\<exists>vr s ps. run_pool example_schedule (example_ring, example_sys, Idle, [example_producer 100, example_producer 101]) = Some (vr, s, Idle, ps) \<and>
    map p_pc ps = [Returned 0, Returned 0] \<and> map p_slots ps = [[0], [1]] \<and> a_idx (avail (shm vr)) = 2"
  by (simp add: example_schedule_def example_producer_def put_access_def Let_def example_ring_def example_sys_def vring_mask_def vhost_vring_zero_def VHOST_VRING_SIZE_def
   avail_store_def avail_advance_def vring_set_desc_def set_desc_next_def eventfd_write_def example_buffer_def VRING_USED_F_NO_NOTIFY_def)

theorem vring_put_task_mt_safe_witness:
  "\<exists>vr s ps. run_pool example_schedule (example_ring, example_sys, Idle, [example_producer 100, example_producer 101]) = Some (vr, s, Idle, ps) \<and>
    map p_pc ps = [Returned 0, Returned 0] \<and> map p_slots ps = [[0], [1]] \<and> a_idx (avail (shm vr)) = 2 \<and>
    producers_safe example_ring vr ps \<and> (headway vr s ps \<or> \<not> kick_ready vr s \<or> list_all (\<lambda>p. \<exists>rc. p_pc p = Returned rc) ps)"
proof -
  let ?ps = "[example_producer 100, example_producer 101]"
  obtain vr s ps where run: "run_pool example_schedule (example_ring, example_sys, Idle, ?ps) = Some (vr, s, Idle, ps)"
    "map p_pc ps = [Returned 0, Returned 0]" "map p_slots ps = [[0], [1]]" "a_idx (avail (shm vr)) = 2" using example_schedule_runs by (elim exE conjE) (rule that)
  have "producers_safe example_ring vr ps \<and> (headway vr s ps \<or> \<not> kick_ready vr s \<or> list_all (\<lambda>p. \<exists>rc. p_pc p = Returned rc) ps)"
  proof (rule vring_put_task_mt_safe [OF _ _ _ _ run_pool_steps [OF run(1)]])
    show "\<forall>p \<in> set ?ps. entering p" by (simp add: example_producer_def entering_def task_wf_def example_buffer_def)
  qed (simp_all add: example_ring_def vhost_vring_zero_def vring_sizes_def VHOST_VRING_SIZE_def example_producer_def)
  with run show ?thesis by (elim conjE) (intro exI conjI; assumption)
qed

end
