(* ===== verification/Vring_Race.thy ===== *)
theory Vring_Race
  imports Vring_Tickets
begin

text \<open>
  The sequential \<open>vring_put_task\<close> is the run of one thread that nobody interrupts. With it, what
  \<open>vring_get_task\<close> and a producer can do to each other: the loop that frees a chain clears a slot before it reads the link
  of its descriptor, and a producer that takes the slot in between overwrites the link.
\<close>

section \<open>A thread that is not interrupted\<close>

lemma pool_alone: "put_access p vr s = Some (p', vr', s') \<Longrightarrow> pool_step (vr, s, g, [p]) (vr', s', g, [p'])"
  using pool_step.put [of 0 "[p]" vr s p' vr' s' g] by simp

lemma pool_alone_star: "put_access p vr s = Some (p', vr', s') \<Longrightarrow> pool_step\<^sup>*\<^sup>* (vr, s, g, [p]) (vr', s', g, [p'])"
  by (rule r_into_rtranclp) (rule pool_alone)

lemma pool_alone_then:
  "put_access p vr s = Some (p', vr', s') \<Longrightarrow> pool_step\<^sup>*\<^sup>* (vr', s', g, [p']) c \<Longrightarrow> pool_step\<^sup>*\<^sup>* (vr, s, g, [p]) c"
  using pool_alone by (rule converse_rtranclp_into_rtranclp)

lemma claim_alone:
  assumes "claim_slot fuel (p_ptr p) (vring_mask vr) saved d (tasks vr) = Some (b, d', ts)" "p_pc p = Scan saved d"
  shows "pool_step\<^sup>*\<^sup>* (vr, s, g, [p])
    (vr\<lparr>tasks := ts\<rparr>, s, g, [if b then p\<lparr>p_slots := p_slots p @ [d'], p_pc := Hint d'\<rparr> else p\<lparr>p_pc := Undo 0\<rparr>])"
  using assms
proof (induction fuel arbitrary: p d)
  case (Suc fuel)
  have d: "unat d < length (tasks vr)" using Suc.prems(1) by (simp split: if_splits)
  show ?case
  proof (cases "tasks vr ! unat d = NULL")
    case True
    then have res: "b" "d' = d" "ts = (tasks vr)[unat d := p_ptr p]" using Suc.prems(1) d by auto
    have "put_access p vr s = Some (p\<lparr>p_pc := Swap saved d\<rparr>, vr, s)"
      "put_access (p\<lparr>p_pc := Swap saved d\<rparr>) vr s = Some (p\<lparr>p_slots := p_slots p @ [d'], p_pc := Hint d'\<rparr>, vr\<lparr>tasks := ts\<rparr>, s)"
      using True d Suc.prems(2) res by (simp_all add: access_simps)
    then show ?thesis using res(1) pool_alone_then pool_alone_star by simp
  next
    case False
    let ?d = "(d + 1) AND vring_mask vr"
    show ?thesis
    proof (cases "?d = saved")
      case True
      then have "\<not> b" "ts = tasks vr" using Suc.prems(1) d False by (auto simp: Let_def)
      then show ?thesis using True False d Suc.prems(2) by (intro pool_alone_star) (simp add: access_simps)
    next
      case ne: False
      let ?p = "p\<lparr>p_pc := Scan saved ?d\<rparr>"
      have "claim_slot fuel (p_ptr ?p) (vring_mask vr) saved ?d (tasks vr) = Some (b, d', ts)" using Suc.prems(1) d False ne by (simp add: Let_def)
      from Suc.IH [OF this] have "pool_step\<^sup>*\<^sup>* (vr, s, g, [?p])
        (vr\<lparr>tasks := ts\<rparr>, s, g, [if b then p\<lparr>p_slots := p_slots p @ [d'], p_pc := Hint d'\<rparr> else p\<lparr>p_pc := Undo 0\<rparr>])" by (simp cong: if_cong)
      moreover have "put_access p vr s = Some (?p, vr, s)" using False ne d Suc.prems(2) by (simp add: access_simps)
      ultimately show ?thesis by (rule pool_alone_then [rotated])
    qed
  qed
qed simp

lemma undo_alone:
  assumes "p_pc p = Undo j" "j \<le> length (p_slots p)"
  shows "pool_step\<^sup>*\<^sup>* (vr, s, g, [p]) (vr\<lparr>tasks := release_slots (drop j (p_slots p)) (tasks vr)\<rparr>, s, g, [p\<lparr>p_pc := Returned (-1)\<rparr>])"
  using assms
proof (induction "length (p_slots p) - j" arbitrary: j p vr)
  case 0
  then show ?case by (intro pool_alone_star) (simp add: access_simps release_slots_def)
next
  case (Suc n)
  let ?p = "p\<lparr>p_pc := Undo (Suc j)\<rparr>" and ?vr = "vr\<lparr>tasks := (tasks vr)[unat (p_slots p ! j) := NULL]\<rparr>"
  have j: "j < length (p_slots p)" using Suc.hyps(2) by simp
  have "pool_step\<^sup>*\<^sup>* (?vr, s, g, [?p]) (?vr\<lparr>tasks := release_slots (drop (Suc j) (p_slots ?p)) (tasks ?vr)\<rparr>, s, g, [?p\<lparr>p_pc := Returned (-1)\<rparr>])"
    using Suc.hyps(2) j by (intro Suc.hyps(1)) simp_all
  moreover have "release_slots (drop j (p_slots p)) (tasks vr) = release_slots (drop (Suc j) (p_slots p)) ((tasks vr)[unat (p_slots p ! j) := NULL])"
    using j by (simp add: release_slots_def flip: Cons_nth_drop_Suc)
  moreover have "put_access p vr s = Some (?p, ?vr, s)" using j Suc.prems(1) by (simp add: access_simps)
  ultimately show ?case using pool_alone_then by simp
qed

lemma flush_alone:
  assumes "vring_flush vr (vring_idx (p_task p)) s = Some (vr', s')" "p_pc p = FlushRead"
  shows "pool_step\<^sup>*\<^sup>* (vr, s, g, [p]) (vr', s', g, [p\<lparr>p_pc := Returned 0\<rparr>])"
proof -
  let ?x = "last_avail_idx vr" and ?d = "vring_idx (p_task p)"
  let ?vr1 = "vr\<lparr>last_avail_idx := ?x + 1\<rparr>"
  let ?vr2 = "avail_store ?vr1 ?x ?d"
  let ?vr3 = "avail_advance ?vr2 ?x"
  have turn: "a_idx (avail (shm vr)) = ?x" using assms(1) by (simp add: vring_flush_def Let_def split: if_splits)
  have "put_access p vr s = Some (p\<lparr>p_pc := FlushTake ?x\<rparr>, vr, s)"
    "put_access (p\<lparr>p_pc := FlushTake ?x\<rparr>) vr s = Some (p\<lparr>p_pc := FlushStore ?x\<rparr>, ?vr1, s)"
    "put_access (p\<lparr>p_pc := FlushStore ?x\<rparr>) ?vr1 s = Some (p\<lparr>p_pc := FlushPublish ?x\<rparr>, ?vr2, s)"
    "put_access (p\<lparr>p_pc := FlushPublish ?x\<rparr>) ?vr2 s = Some (p\<lparr>p_pc := Kick\<rparr>, ?vr3, s)"
    using assms(2) turn by (simp_all add: access_simps)
  moreover have "put_access (p\<lparr>p_pc := Kick\<rparr>) ?vr3 s = Some (p\<lparr>p_pc := Returned 0\<rparr>, vr', s')"
    using assms(1) by (auto simp: access_simps vring_flush_def avail_store_def avail_advance_def vring_mask_def split: if_splits)
  ultimately show ?thesis by (meson pool_alone_star pool_alone_then)
qed

lemma fill_alone:
  assumes "p_pc p = Hint d" "p_slots p = slots @ [d]" "vbufs (p_task p) ! length slots = Some vbuf" "slots \<noteq> [] \<Longrightarrow> prev_idx = List.last slots"
    "vr1 = vr\<lparr>task_idx := (d + 1) AND vring_mask vr\<rparr>"
  shows "pool_step\<^sup>*\<^sup>* (vr, s, g, [p])
    (vring_set_desc (if length slots = 0 then vr1 else set_desc_next vr1 prev_idx d) d vbuf (length slots = count (p_task p) - 1), s, g,
     [p\<lparr>p_task := if length slots = 0 then (p_task p)\<lparr>vring_idx := d\<rparr> else p_task p, p_pc := Pick\<rparr>])"
proof -
  let ?task = "if length slots = 0 then (p_task p)\<lparr>vring_idx := d\<rparr> else p_task p"
  let ?p = "p\<lparr>p_task := ?task, p_pc := Describe d\<rparr>" and ?vr = "if length slots = 0 then vr1 else set_desc_next vr1 prev_idx d"
  have prev: "slots @ [d] = slots' \<Longrightarrow> slots \<noteq> [] \<Longrightarrow> slots' ! (length slots - Suc 0) = prev_idx" for slots'
    using assms(4) by (auto simp: nth_append last_conv_nth)
  have "put_access p vr s = Some (p\<lparr>p_pc := Link d\<rparr>, vr1, s)" using assms(1) assms(5) by (simp add: access_simps)
  moreover have "put_access (p\<lparr>p_pc := Link d\<rparr>) vr1 s = Some (?p, ?vr, s)"
    using assms(2) prev [OF refl] by (simp add: access_simps)
  moreover have "put_access ?p ?vr s = Some (p\<lparr>p_task := ?task, p_pc := Pick\<rparr>, vring_set_desc ?vr d vbuf (length slots = count (p_task p) - 1), s)"
    using assms(2,3) by (cases "slots = []") (simp_all add: access_simps)
  ultimately show ?thesis by (meson pool_alone_star pool_alone_then)
qed

lemma put_loop_alone:
  assumes "put_loop (p_ptr p) [length (p_slots p)..<count (p_task p)] (p_slots p) prev_idx vr (p_task p) = Some (rc, vr', task')"
    "p_pc p = Pick" "p_slots p \<noteq> [] \<Longrightarrow> prev_idx = List.last (p_slots p)"
  shows "\<exists>p'. pool_step\<^sup>*\<^sup>* (vr, s, g, [p]) (vr', s, g, [p']) \<and> p_task p' = task' \<and>
    (if rc = 0 then p_pc p' = FlushRead else rc = -1 \<and> p_pc p' = Returned (-1))"
  using assms
proof (induction "count (p_task p) - length (p_slots p)" arbitrary: p prev_idx vr)
  case 0
  then have "put_access p vr s = Some (p\<lparr>p_pc := FlushRead\<rparr>, vr, s)" by (simp add: access_simps)
  then show ?case using 0 pool_alone_star by (intro exI [of _ "p\<lparr>p_pc := FlushRead\<rparr>"]) simp
next
  case (Suc n)
  let ?c = "p_slots p" and ?t = "p_ptr p"
  have i: "length ?c < count (p_task p)" using Suc.hyps(2) by simp
  then have upt: "[length ?c..<count (p_task p)] = length ?c # [Suc (length ?c)..<count (p_task p)]" by (simp add: upt_conv_Cons)
  let ?p0 = "p\<lparr>p_pc := Scan (task_idx vr) (task_idx vr)\<rparr>"
  have pick: "put_access p vr s = Some (?p0, vr, s)" using Suc.prems(2) i by (simp add: access_simps)
  from Suc.prems(1) obtain b d ts where claim: "claim_slot VHOST_VRING_SIZE (p_ptr ?p0) (vring_mask vr) (task_idx vr) (task_idx vr) (tasks vr) = Some (b, d, ts)"
    by (auto simp: upt split: option.splits)
  have run: "pool_step\<^sup>*\<^sup>* (vr, s, g, [p])
    (vr\<lparr>tasks := ts\<rparr>, s, g, [if b then p\<lparr>p_slots := ?c @ [d], p_pc := Hint d\<rparr> else p\<lparr>p_pc := Undo 0\<rparr>])"
    using pool_alone_then [OF pick claim_alone [OF claim]] by (simp cong: if_cong)
  show ?case
  proof (cases b)
    case False
    then have res: "rc = -1" "vr' = vr\<lparr>tasks := release_slots ?c ts\<rparr>" "task' = p_task p" using Suc.prems(1) claim by (auto simp: upt)
    have "pool_step\<^sup>*\<^sup>* (vr\<lparr>tasks := ts\<rparr>, s, g, [p\<lparr>p_pc := Undo 0\<rparr>]) (vr', s, g, [p\<lparr>p_pc := Returned (-1)\<rparr>])"
      using undo_alone [of "p\<lparr>p_pc := Undo 0\<rparr>" 0 "vr\<lparr>tasks := ts\<rparr>" s g] by (simp add: res(2))
    with run False res show ?thesis by (intro exI [of _ "p\<lparr>p_pc := Returned (-1)\<rparr>"]) simp
  next
    case True
    then obtain vbuf where vbuf: "vbufs (p_task p) ! length ?c = Some vbuf" using Suc.prems(1) claim by (auto simp: upt split: option.splits)
    let ?vr1 = "vr\<lparr>tasks := ts, task_idx := (d + 1) AND vring_mask vr\<rparr>"
    let ?vr = "vring_set_desc (if length ?c = 0 then ?vr1 else set_desc_next ?vr1 prev_idx d) d vbuf (length ?c = count (p_task p) - 1)"
    let ?task = "if length ?c = 0 then (p_task p)\<lparr>vring_idx := d\<rparr> else p_task p"
    let ?p = "p\<lparr>p_slots := ?c @ [d], p_task := ?task, p_pc := Pick\<rparr>"
    have "pool_step\<^sup>*\<^sup>* (vr\<lparr>tasks := ts\<rparr>, s, g, [p\<lparr>p_slots := ?c @ [d], p_pc := Hint d\<rparr>]) (?vr, s, g, [?p])"
      using fill_alone [of "p\<lparr>p_slots := ?c @ [d], p_pc := Hint d\<rparr>" d ?c vbuf prev_idx ?vr1 "vr\<lparr>tasks := ts\<rparr>" s g] vbuf Suc.prems(3)
      by (simp add: vring_mask_def cong: if_cong)
    then have here: "pool_step\<^sup>*\<^sup>* (vr, s, g, [p]) (?vr, s, g, [?p])" using run True by simp
    have "put_loop (p_ptr ?p) [length (p_slots ?p)..<count (p_task ?p)] (p_slots ?p) d ?vr (p_task ?p) = Some (rc, vr', task')"
      using Suc.prems(1) [unfolded upt] claim vbuf True by (cases "?c = []") (simp_all add: Let_def)
    then have "\<exists>p'. pool_step\<^sup>*\<^sup>* (?vr, s, g, [?p]) (vr', s, g, [p']) \<and> p_task p' = task' \<and>
      (if rc = 0 then p_pc p' = FlushRead else rc = -1 \<and> p_pc p' = Returned (-1))"
      by (rule Suc.hyps(1) [rotated]) (use Suc.hyps(2) in auto)
    then obtain p' where "pool_step\<^sup>*\<^sup>* (?vr, s, g, [?p]) (vr', s, g, [p'])" "p_task p' = task'"
      "if rc = 0 then p_pc p' = FlushRead else rc = -1 \<and> p_pc p' = Returned (-1)" by (elim exE conjE) (rule that)
    then show ?thesis by (intro exI [of _ p'] conjI rtranclp_trans [OF here])
  qed
qed

text \<open>The sequential semantics of \<open>vring_put_task\<close> is one of the runs.\<close>

lemma put_alone:
  assumes "vring_put_task vr t s = Some (rc, vr', s')" "s_tasks s t = Some task"
  shows "\<exists>p'. pool_step\<^sup>*\<^sup>* (vr, s, g, [\<lparr>p_ptr = t, p_task = task, p_slots = [], p_pc = Pick\<rparr>]) (vr', s\<lparr>s_efd := s_efd s'\<rparr>, g, [p']) \<and>
    p_pc p' = Returned rc \<and> s_tasks s' = (s_tasks s)(t \<mapsto> p_task p')"
proof -
  let ?p = "\<lparr>p_ptr = t, p_task = task, p_slots = [], p_pc = Pick\<rparr>"
  from assms obtain rc1 vr1 task1 where loop: "put_loop t [0..<count task] [] 0 vr task = Some (rc1, vr1, task1)"
    by (auto simp: vring_put_task_def bind_eq_Some_conv)
  with put_loop_alone [of ?p 0 vr rc1 vr1 task1 s g] obtain p1 where p1: "pool_step\<^sup>*\<^sup>* (vr, s, g, [?p]) (vr1, s, g, [p1])" "p_task p1 = task1"
    "if rc1 = 0 then p_pc p1 = FlushRead else rc1 = -1 \<and> p_pc p1 = Returned (-1)" by auto
  show ?thesis
  proof (cases "rc1 = 0")
    case False
    then show ?thesis using assms loop p1 by (intro exI [of _ p1]) (auto simp: vring_put_task_def)
  next
    case True
    then obtain vr2 s2 where "vring_flush vr1 (vring_idx task1) (s\<lparr>s_tasks := (s_tasks s)(t \<mapsto> task1)\<rparr>) = Some (vr2, s2)" "rc = 0" "vr' = vr2" "s' = s2"
      using assms loop by (auto simp: vring_put_task_def bind_eq_Some_conv)
    then have "vring_flush vr1 (vring_idx (p_task p1)) s = Some (vr', s\<lparr>s_efd := s_efd s'\<rparr>)" "s_tasks s' = (s_tasks s)(t \<mapsto> task1)"
      using p1(2) by (auto simp: vring_flush_def Let_def eventfd_write_def split: if_splits option.splits)
    moreover from flush_alone [OF this(1)] have "pool_step\<^sup>*\<^sup>* (vr1, s, g, [p1]) (vr', s\<lparr>s_efd := s_efd s'\<rparr>, g, [p1\<lparr>p_pc := Returned 0\<rparr>])"
      using p1(3) True by simp
    ultimately show ?thesis using p1(1,2) \<open>rc = 0\<close> by (intro exI [of _ "p1\<lparr>p_pc := Returned 0\<rparr>"]) simp
  qed
qed


section \<open>Freeing a chain\<close>

lemma pool_get_then:
  "free_access g vr = Some (g', vr') \<Longrightarrow> pool_step\<^sup>*\<^sup>* (vr', s, g', ps) c \<Longrightarrow> pool_step\<^sup>*\<^sup>* (vr, s, g, ps) c"
  using pool_step.get by (rule converse_rtranclp_into_rtranclp)

text \<open>Without interruption the thread that frees does what \<open>free_chain\<close> does.\<close>

lemma get_alone:
  assumes "free_chain (desc (shm vr)) i (tasks vr) = Some ts"
  shows "pool_step\<^sup>*\<^sup>* (vr, s, Test i, ps) (vr\<lparr>tasks := ts\<rparr>, s, Idle, ps)"
  using assms
proof (induction "desc (shm vr)" i "tasks vr" arbitrary: vr rule: free_chain.induct)
  case (1 i vr)
  let ?d = "desc (shm vr) ! unat i" and ?vr = "vr\<lparr>tasks := (tasks vr)[unat i := NULL]\<rparr>"
  have i: "unat i < length (desc (shm vr))" "unat i < length (tasks vr)"
    using "1.prems" by (auto simp: free_chain.simps [of _ i] split: if_splits)
  show ?case
  proof (cases "d_flags ?d AND VIRTIO_DESC_F_NEXT = 0")
    case True
    then have ts: "vr\<lparr>tasks := ts\<rparr> = ?vr" using "1.prems" i by (simp add: free_chain.simps [of _ i])
    have "free_access (Test i) vr = Some (Finish i, vr)" "free_access (Finish i) vr = Some (Idle, ?vr)"
      using True i by (simp_all add: free_access_def)
    then show ?thesis unfolding ts by (meson pool_get_then rtranclp.rtrancl_refl)
  next
    case False
    have taken: "tasks vr ! unat i \<noteq> NULL" using "1.prems" i False by (auto simp: free_chain.simps [of _ i] split: if_splits)
    then have "free_chain (desc (shm ?vr)) (d_next ?d) (tasks ?vr) = Some ts" using "1.prems" i False by (simp add: free_chain.simps [of _ i])
    moreover have "\<not> (length (desc (shm vr)) \<le> unat i \<or> length (tasks vr) \<le> unat i)" using i by simp
    ultimately have "pool_step\<^sup>*\<^sup>* (?vr, s, Test (d_next ?d), ps) (?vr\<lparr>tasks := ts\<rparr>, s, Idle, ps)"
      by (intro "1.hyps" [OF _ False taken]) simp_all
    then have run: "pool_step\<^sup>*\<^sup>* (?vr, s, Test (d_next ?d), ps) (vr\<lparr>tasks := ts\<rparr>, s, Idle, ps)" by simp
    have acc: "free_access (Test i) vr = Some (Clear i, vr)" "free_access (Clear i) vr = Some (Advance i, ?vr)"
      "free_access (Advance i) ?vr = Some (Test (d_next ?d), ?vr)"
      using False i taken by (simp_all add: free_access_def)
    show ?thesis by (rule pool_get_then [OF acc(1) pool_get_then [OF acc(2) pool_get_then [OF acc(3) run]]])
  qed
qed


section \<open>Freeing while another thread puts\<close>

text \<open>A put whose hint is a free slot starts its chain there.\<close>

lemma put_at_hint:
  assumes "vring_sizes vr" "tasks vr ! unat (task_idx vr) = NULL" "task_wf task" "0 < count task" "t \<noteq> NULL" "count task \<le> card (free_slots vr)"
  shows "\<exists>c vr'. put_loop t [0..<count task] [] 0 vr task = Some (0, vr', task\<lparr>vring_idx := task_idx vr\<rparr>) \<and> put_inv vr t task c vr' \<and>
    length c = count task \<and> hd c = task_idx vr"
proof -
  let ?a = "task_idx vr" and ?vr = "put_step t task 0 0 (task_idx vr) vr" and ?task = "task\<lparr>vring_idx := task_idx vr\<rparr>"
  obtain f where f: "VHOST_VRING_SIZE = Suc f" by (cases VHOST_VRING_SIZE) (simp_all add: VHOST_VRING_SIZE_def)
  have a: "unat ?a < 1024" "length (tasks vr) = 1024" using assms(1) by (simp_all add: vring_sizes_def)
  have claim: "claim_slot VHOST_VRING_SIZE t (vring_mask vr) ?a ?a (tasks vr) = Some (True, ?a, (tasks vr)[unat ?a := t])"
    using a assms(2) by (simp add: f)
  have "put_inv vr t task ([] @ [?a]) ?vr"
    using a(1) assms(2,4) by (intro put_inv_step [OF put_inv_start [OF assms(1)] _ assms(5)]) (simp_all add: free_slots_def)
  then have "put_inv vr t ?task [?a] ?vr" by simp
  from put_loop_success [OF this, of ?a] assms(3-6) obtain c vr' where
    c: "put_loop t [Suc 0..<count task] [?a] ?a ?vr ?task = Some (0, vr', ?task)" "put_inv vr t task c vr'" "length c = count task" "take (Suc 0) c = [?a]"
    by (auto simp: Suc_le_eq)
  have "[0..<count task] = 0 # [Suc 0..<count task]" using assms(4) by (simp add: upt_conv_Cons)
  then have "put_loop t [0..<count task] [] 0 vr task = Some (0, vr', ?task)"
    using put_loop_claimed [OF assms(3,4) claim, of "[Suc 0..<count task]" "[]" 0] c(1) by simp
  moreover have "hd c = ?a" using c(4) by (cases c) auto
  ultimately show ?thesis using c by blast
qed

text \<open>The whole put on such a ring, and what a thread that then frees from the second descriptor on does to it.\<close>

lemma put_then_free:
  assumes "vring_sizes vr" "a_idx (avail (shm vr)) = last_avail_idx vr" "tasks vr ! unat (task_idx vr) = NULL" "task_wf task" "2 \<le> count task"
    "t \<noteq> NULL" "count task \<le> card (free_slots vr)" "kick_ready vr s" "s_tasks s t = Some task"
  obtains d c vr1 s1 where "vring_put_task vr t s = Some (0, vr1, s1)" "vring_sizes vr1" "last_announced vr1 = task_idx vr"
    "desc_chain (desc (shm vr1)) (task_idx vr # d # c) (task_bufs task)" "unat ` set (d # c) \<subseteq> free_slots vr"
    "\<And>i. i < 1024 \<Longrightarrow> i \<notin> free_slots vr \<Longrightarrow> tasks vr1 ! i = tasks vr ! i"
    "free_chain (desc (shm vr1)) d (tasks vr1) = Some (release_slots (d # c) (tasks vr1))"
proof -
  let ?a = "task_idx vr"
  from put_at_hint [OF assms(1,3,4) _ assms(6,7)] assms(5) obtain l vr' where
    l: "put_loop t [0..<count task] [] 0 vr task = Some (0, vr', task\<lparr>vring_idx := ?a\<rparr>)" "put_inv vr t task l vr'" "length l = count task" "hd l = ?a" by auto
  from l(3,4) assms(5) obtain d c where dc: "l = ?a # d # c" by (cases l; cases "tl l") auto
  have inv: "same_rings vr vr'" "vring_sizes vr'" "distinct (d # c)" "unat ` set (d # c) \<subseteq> free_slots vr"
    "\<And>i. i < 1024 \<Longrightarrow> tasks vr' ! i = (if i \<in> unat ` set l then t else tasks vr ! i)" "unat ` set l \<subseteq> free_slots vr"
    using l(2) dc by (auto simp: put_inv_def)
  let ?s = "s\<lparr>s_tasks := (s_tasks s)(t \<mapsto> task\<lparr>vring_idx := ?a\<rparr>)\<rparr>"
  obtain e where flush: "vring_flush vr' ?a ?s = Some (published ?a vr', ?s\<lparr>s_efd := e\<rparr>)"
    using vring_flush_published [OF inv(2), of ?s] inv(1) assms(2,8) by (auto simp: same_rings_def kick_ready_def)
  have chain: "desc_chain (desc (shm vr')) (?a # d # c) (task_bufs task)" using put_inv_chain [OF l(2,3) assms(4)] dc by simp
  obtain b bs where bs: "task_bufs task = b # bs" using chain by (cases "task_bufs task") (simp_all add: desc_chain_def)
  have "free_chain (desc (shm vr')) (hd (d # c)) (tasks vr') = Some (release_slots (d # c) (tasks vr'))"
  proof (rule free_chain_chain)
    show "desc_chain (desc (shm vr')) (d # c) bs" using desc_chain_Cons(3) [OF chain [unfolded bs]] .
    have "unat i < 1024" "unat i \<in> unat ` set l" if "i \<in> set (d # c)" for i using inv(4) that dc by (auto simp: free_slots_def)
    then show "\<forall>i \<in> set (d # c). unat i < length (desc (shm vr')) \<and> unat i < length (tasks vr') \<and> tasks vr' ! unat i \<noteq> NULL"
      using inv(2,5) assms(6) by (simp add: vring_sizes_def)
  qed (use inv(3) in auto)
  moreover have "vring_put_task vr t s = Some (0, published ?a vr', ?s\<lparr>s_efd := e\<rparr>)" using l(1) flush assms(9) by (simp add: vring_put_task_def)
  moreover have "unat (last_avail_idx vr' AND 1023) < length (a_ring (avail (shm vr')))" using inv(2) by (simp add: vring_sizes_def unat_and_1023)
  ultimately show ?thesis using inv chain
    by (intro that [where d = d and c = c and ?vr1.0 = "published ?a vr'" and ?s1.0 = "?s\<lparr>s_efd := e\<rparr>"])
      (auto simp: published_def last_announced_def vring_sizes_def)
qed

text \<open>
  C37. \<open>vring_put_task\<close> is not safe against \<open>vring_get_task\<close>, which runs in the thread of the poller. The task \<open>A\<close> whose chain
  starts with the slots \<open>a\<close> and \<open>b\<close> is being freed; the hint stands at \<open>a\<close>. After \<open>tasks[a]\<close> was cleared another
  thread puts a task: it takes slot \<open>a\<close>, writes its own link there, announces the chain to the server and returns
  0. The loop then follows this link. In the end the task that was announced owns none of its slots behind the first, so they
  can be handed out again while the server uses them, and slot \<open>b\<close> stays taken by \<open>A\<close>.
\<close>

theorem get_put_race:
  assumes "vring_rep vr s q" "(A, a # b # rest) \<in> set (inflight q)" "task_idx vr = a" "s_tasks s t = Some task" "task_wf task"
    "2 \<le> count task" "t \<noteq> NULL" "kick_ready vr s" "queue_slots q + count task \<le> 1024"
  shows "\<exists>c vr' s' p'. pool_step\<^sup>*\<^sup>* (vr, s, Test a, [\<lparr>p_ptr = t, p_task = task, p_slots = [], p_pc = Pick\<rparr>]) (vr', s', Idle, [p']) \<and>
    p_pc p' = Returned 0 \<and> last_announced vr' = a \<and> desc_chain (desc (shm vr')) (a # c) (task_bufs task) \<and> c \<noteq> [] \<and>
    list_all (\<lambda>i. tasks vr' ! unat i = NULL) c \<and> tasks vr' ! unat b = A"
proof -
  let ?vr = "vr\<lparr>tasks := (tasks vr)[unat a := NULL]\<rparr>" and ?p = "\<lparr>p_ptr = t, p_task = task, p_slots = [], p_pc = Pick\<rparr>"
  have sizes: "vring_sizes vr" and av: "a_idx (avail (shm vr)) = last_avail_idx vr" and sr: "slots_rep vr s (inflight q)"
    using assms(1) by (auto simp: vring_rep_def)
  have A: "A \<noteq> NULL" "unat a < 1024" "unat b < 1024" "tasks vr ! unat a = A" "tasks vr ! unat b = A" "unat a \<noteq> unat b"
    using slots_repD [OF sr assms(2)] by (auto simp: task_in_ring_def word_unat_eq_iff)
  obtain bs where "desc_chain (desc (shm vr)) (a # b # rest) bs" using slots_repD(1) [OF sr assms(2)] by (auto simp: task_in_ring_def)
  then have nxt: "d_flags (desc (shm vr) ! unat a) AND VIRTIO_DESC_F_NEXT \<noteq> 0" using desc_chain_Cons(1) [of _ a b rest] by (cases bs) (auto simp: desc_chain_def)
  have len: "length (tasks vr) = 1024" "length (desc (shm vr)) = 1024" using sizes by (simp_all add: vring_sizes_def)
  have acc: "free_access (Test a) vr = Some (Clear a, vr)" "free_access (Clear a) vr = Some (Advance a, ?vr)"
    using nxt A len by (simp_all add: free_access_def)
  have free: "free_slots vr \<subseteq> free_slots ?vr" "unat b \<notin> free_slots ?vr" using A len by (auto simp: free_slots_def nth_list_update)
  have room: "count task \<le> card (free_slots ?vr)" using card_mono [OF finite_free_slots free(1)] card_free_slots [OF assms(1)] assms(9) by simp
  obtain d c vr1 s1 where put: "vring_put_task ?vr t s = Some (0, vr1, s1)" "vring_sizes vr1" "last_announced vr1 = a"
    "desc_chain (desc (shm vr1)) (a # d # c) (task_bufs task)" "unat ` set (d # c) \<subseteq> free_slots ?vr"
    "\<And>i. i < 1024 \<Longrightarrow> i \<notin> free_slots ?vr \<Longrightarrow> tasks vr1 ! i = tasks ?vr ! i"
    "free_chain (desc (shm vr1)) d (tasks vr1) = Some (release_slots (d # c) (tasks vr1))"
    by (rule put_then_free [of ?vr task t s]) (use sizes av A len room assms(3-8) in \<open>auto simp: vring_sizes_def kick_ready_def\<close>)
  obtain p' where p': "pool_step\<^sup>*\<^sup>* (?vr, s, Advance a, [?p]) (vr1, s\<lparr>s_efd := s_efd s1\<rparr>, Advance a, [p'])" "p_pc p' = Returned 0"
    using put_alone [OF put(1) assms(4)] by blast
  let ?vr2 = "vr1\<lparr>tasks := release_slots (d # c) (tasks vr1)\<rparr>" and ?s = "s\<lparr>s_efd := s_efd s1\<rparr>"
  obtain x xs where "task_bufs task = x # xs" using put(4) by (cases "task_bufs task") (simp_all add: desc_chain_def)
  then have "free_access (Advance a) vr1 = Some (Test d, vr1)" using desc_chain_Cons(2) [of _ a d c x xs] put(4) by (simp add: free_access_def)
  from pool_get_then [OF this get_alone [OF put(7)]]
  have "pool_step\<^sup>*\<^sup>* (vr1, ?s, Advance a, [p']) (?vr2, ?s, Idle, [p'])" .
  then have run: "pool_step\<^sup>*\<^sup>* (vr, s, Test a, [?p]) (?vr2, ?s, Idle, [p'])"
    using rtranclp_trans [OF p'(1)] pool_get_then [OF acc(1)] pool_get_then [OF acc(2)] by blast
  have "unat b \<notin> unat ` set (d # c)" using free(2) put(5) by blast
  then have "tasks ?vr2 ! unat b = A" using put(2) put(6) [OF A(3) free(2)] A by (simp add: nth_release_slots vring_sizes_def)
  moreover have "tasks ?vr2 ! unat i = NULL" if "i \<in> set (d # c)" for i
    using that put(2,5) by (auto simp: nth_release_slots vring_sizes_def free_slots_def)
  ultimately show ?thesis using run p'(2) put(3,4)
    by (intro exI [of _ "d # c"] exI [of _ ?vr2] exI [of _ ?s] exI [of _ p']) (simp add: last_announced_def list_all_iff)
qed

text \<open>The instance: the completed task of the example ring in slots 5 and 6, while task 102 is put.\<close>

definition race_ring :: vring where "race_ring = example_done_ring\<lparr>task_idx := 5\<rparr>"

definition race_sys :: sys where
  "race_sys = example_done_sys\<lparr>s_tasks := (s_tasks example_done_sys)(102 \<mapsto> example_task)\<rparr>"

lemma race_rep: "vring_rep race_ring race_sys example_done_queue"
proof -
  have "vring_rep example_done_ring race_sys example_done_queue"
    by (rule vring_rep_update_task [OF example_done_rep, of 102]) (simp_all add: example_done_queue_def race_sys_def)
  then have "vring_sizes race_ring" "slots_rep race_ring race_sys (inflight example_done_queue)"
    using slots_rep_cong [of example_done_ring race_sys "inflight example_done_queue" race_ring race_sys]
    by (simp_all add: vring_rep_def vring_sizes_def race_ring_def)
  with \<open>vring_rep example_done_ring race_sys example_done_queue\<close> show ?thesis
    by (simp add: vring_rep_def used_rep_def race_ring_def)
qed

theorem get_put_race_witness:
  "\<exists>c vr' s' p'. pool_step\<^sup>*\<^sup>* (race_ring, race_sys, Test 5, [\<lparr>p_ptr = 102, p_task = example_task, p_slots = [], p_pc = Pick\<rparr>]) (vr', s', Idle, [p']) \<and>
    p_pc p' = Returned 0 \<and> last_announced vr' = 5 \<and> desc_chain (desc (shm vr')) (5 # c) (task_bufs example_task) \<and> c \<noteq> [] \<and>
    list_all (\<lambda>i. tasks vr' ! unat i = NULL) c \<and> tasks vr' ! unat (6 :: u16) = 100"
proof (rule get_put_race [OF race_rep, of _ _ _ "[]"])
  show "(100, [5, 6]) \<in> set (inflight example_done_queue)" "queue_slots example_done_queue + count example_task \<le> 1024"
    by (simp_all add: example_done_queue_def queue_slots_def example_task_def)
  show "kick_ready race_ring race_sys"
    by (simp add: kick_ready_def race_ring_def race_sys_def example_done_ring_def example_ring_def example_done_sys_def example_sys_def)
qed (use example_task_facts in \<open>simp_all add: race_ring_def race_sys_def\<close>)

end
