(* ===== verification/Test_Program.thy ===== *)
theory Test_Program
  imports Virtio_Open
begin

text \<open>
  \<open>src/test.c\<close>: the test program. It writes a pattern to the device, reads it back and compares, in a loop, with
  the synchronous or the asynchronous interface. The I/O descriptor of an asynchronous call is a local variable of
  \<open>write_async\<close> or \<open>read_async\<close>: its address and the members that the code does not set are
  inputs, and it is gone when the function returns. What the other threads do while the program waits and whether a
  signal has cleared \<open>app_running\<close> are inputs as well; for the whole program the signals are those that arrive, and the
  options are those that \<open>getopt\<close> finds. The result \<open>None\<close> is a failed assertion,
  an access to a descriptor that is gone, or a division by zero.
\<close>

definition wait_for_io :: "'r rte_ring_ops \<Rightarrow> ('d, 'r, 'z) aworld_scheme wait_input list \<Rightarrow> nat \<Rightarrow> ('d, 'r, 'z) aworld_scheme
    \<Rightarrow> (int \<times> ('d, 'r, 'z) aworld_scheme) option" where
  "wait_for_io ops ins io_num w = do {
     (n, w1) \<leftarrow> virtio_completed ops 1 1000 ins w;
     if n = 0 then Some (-1, w1)
     else do {
       let (io_desc, w2) = virtio_get_completed ops w1;
       c_assert (io_desc \<noteq> NULL);
       d \<leftarrow> a_descs w2 io_desc;
       if io_user_ctx d \<noteq> io_num then Some (-1, w2) else Some (io_retval d, w2)
     }
   }"

text \<open>
  The common body of \<open>write_async\<close> and \<open>read_async\<close>; \<open>frame\<close> is the local descriptor. The \<open>ssize_t\<close> of
  \<open>wait_for_io\<close> is returned as an \<open>int\<close>.
\<close>

definition submit_and_wait :: "int \<Rightarrow> rte_malloc \<Rightarrow> 'r rte_ring_ops \<Rightarrow> ('d, 'r, 'z) aworld_scheme wait_input list \<Rightarrow> ptr \<times> async_io_desc
    \<Rightarrow> ptr \<Rightarrow> nat \<Rightarrow> nat \<Rightarrow> nat \<Rightarrow> ('d, 'r, 'z) aworld_scheme \<Rightarrow> (int \<times> ('d, 'r, 'z) aworld_scheme) option" where
  "submit_and_wait ty rm ops ins frame data offset bufsiz io_id w = do {
     let (p, d0) = frame;
     let d = d0\<lparr>io_type := ty, io_buf := data, io_offset := offset, io_nbytes := bufsiz, io_user_ctx := io_id\<rparr>;
     (rc, w1) \<leftarrow> virtio_submit rm p (w\<lparr>a_descs := (a_descs w)(p \<mapsto> d)\<rparr>);
     (rc, w2) \<leftarrow> (if rc \<noteq> 0 then Some (-1, virtio_buf_free data w1) else wait_for_io ops ins io_id w1);
     Some (to_int rc, w2\<lparr>a_descs := (a_descs w2)(p := None)\<rparr>)
   }"

definition write_async :: "rte_malloc \<Rightarrow> 'r rte_ring_ops \<Rightarrow> ('d, 'r, 'z) aworld_scheme wait_input list \<Rightarrow> ptr \<times> async_io_desc
    \<Rightarrow> ptr \<Rightarrow> nat \<Rightarrow> nat \<Rightarrow> nat \<Rightarrow> ('d, 'r, 'z) aworld_scheme \<Rightarrow> (int \<times> ('d, 'r, 'z) aworld_scheme) option" where
  "write_async = submit_and_wait VIRTIO_TYPE_WRITE"

definition read_async :: "rte_malloc \<Rightarrow> 'r rte_ring_ops \<Rightarrow> ('d, 'r, 'z) aworld_scheme wait_input list \<Rightarrow> ptr \<times> async_io_desc
    \<Rightarrow> ptr \<Rightarrow> nat \<Rightarrow> nat \<Rightarrow> nat \<Rightarrow> ('d, 'r, 'z) aworld_scheme \<Rightarrow> (int \<times> ('d, 'r, 'z) aworld_scheme) option" where
  "read_async = submit_and_wait VIRTIO_TYPE_READ"

text \<open>The pattern \<open>i % 0xff\<close>, and the comparison of a buffer with it.\<close>

definition test_pattern :: "nat \<Rightarrow> u8 list" where
  "test_pattern n = map (\<lambda>i. of_nat (i mod 255)) [0..<n]"

definition data_matches :: "ptr \<Rightarrow> nat \<Rightarrow> mem \<Rightarrow> bool" where
  "data_matches data n m \<longleftrightarrow> list_all (\<lambda>i. m (data + i) = of_nat (i mod 255)) [0..<n]"

text \<open>The inputs of a run; those of an iteration depend on its number.\<close>

record ('r, 'w) test_input =
  t_ops :: "'r rte_ring_ops"
  t_running :: "nat \<Rightarrow> bool"
  t_write_wait :: "nat \<Rightarrow> 'w wait_input list"
  t_read_wait :: "nat \<Rightarrow> 'w wait_input list"
  t_write_frame :: "nat \<Rightarrow> ptr \<times> async_io_desc"
  t_read_frame :: "nat \<Rightarrow> ptr \<times> async_io_desc"

text \<open>One iteration: \<open>Inl\<close> is the result of a return, \<open>Inr\<close> the offset of the next iteration.\<close>

definition test_iter :: "('d, _) env \<Rightarrow> ('r, ('d, 'r, 'z) aworld_scheme) test_input \<Rightarrow> virtio_dev \<Rightarrow> bool \<Rightarrow> ptr \<Rightarrow> nat \<Rightarrow> int \<Rightarrow> nat \<Rightarrow> nat
    \<Rightarrow> ('d, 'r, 'z) aworld_scheme \<Rightarrow> ((int + nat) \<times> ('d, 'r, 'z) aworld_scheme) option" where
  "test_iter e x dev async data capacity bufsiz iter offset w = do {
     (write_len, w1) \<leftarrow> (if async
       then write_async (e_rm e) (t_ops x) (t_write_wait x iter) (t_write_frame x iter) data offset (to_size bufsiz) iter w
       else write_virtio_dev e dev data offset (to_size bufsiz) w);
     if write_len < 0 then Some (Inl (-1), virtio_buf_free data w1)
     else if write_len \<noteq> bufsiz \<and> to_size write_len \<noteq> size_sub capacity offset then Some (Inl (-1), virtio_buf_free data w1)
     else do {
       let w2 = w_mem (memset data 0 (to_size bufsiz)) w1;
       (read_len, w3) \<leftarrow> (if async
         then read_async (e_rm e) (t_ops x) (t_read_wait x iter) (t_read_frame x iter) data offset (to_size write_len) iter w2
         else read_virtio_dev e dev data offset (to_size write_len) w2);
       if read_len < 0 then Some (Inl (-1), virtio_buf_free data w3)
       else if read_len \<noteq> write_len then Some (Inl (-1), virtio_buf_free data w3)
       else if \<not> data_matches data (nat read_len) (m_of w3) then Some (Inl (-1), virtio_buf_free data w3)
       else do {
         c_assert (capacity \<noteq> 0);
         Some (Inr (size_add offset (to_size bufsiz) mod capacity), w3)
       }
     }
   }"

text \<open>The loop with the number of iterations that are left and the number of the last one.\<close>

fun test_loop :: "('d, _) env \<Rightarrow> ('r, ('d, 'r, 'z) aworld_scheme) test_input \<Rightarrow> virtio_dev \<Rightarrow> bool \<Rightarrow> ptr \<Rightarrow> nat \<Rightarrow> int \<Rightarrow> nat \<Rightarrow> nat \<Rightarrow> nat
    \<Rightarrow> ('d, 'r, 'z) aworld_scheme \<Rightarrow> (int \<times> ('d, 'r, 'z) aworld_scheme) option" where
  "test_loop e x dev async data capacity bufsiz 0 iter offset w = Some (0, virtio_buf_free data w)"
| "test_loop e x dev async data capacity bufsiz (Suc k) iter offset w =
     (if \<not> t_running x iter then Some (0, virtio_buf_free data w)
      else do {
        (r, w1) \<leftarrow> test_iter e x dev async data capacity bufsiz (Suc iter) offset w;
        case r of
          Inl rc \<Rightarrow> Some (rc, w1)
        | Inr offset' \<Rightarrow> test_loop e x dev async data capacity bufsiz k (Suc iter) offset' w1
      })"

definition test_io :: "('d, _) env \<Rightarrow> ('r, ('d, 'r, 'z) aworld_scheme) test_input \<Rightarrow> int \<Rightarrow> nat \<Rightarrow> int \<Rightarrow> bool
    \<Rightarrow> ('d, 'r, 'z) aworld_scheme \<Rightarrow> (int \<times> ('d, 'r, 'z) aworld_scheme) option" where
  "test_io e x iters offset bufsiz async w = do {
     let dev = a_dev w;
     let capacity = size_mul (virtio_dev_block_size dev) (virtio_dev_blocks_num dev);
     let (data, w1) = virtio_buf_alloc (e_rm e) bufsiz w;
     if data = NULL then Some (-1, w1)
     else test_loop e x dev async data capacity bufsiz (to_size iters) 0 offset
       (w_mem (mem_write data (test_pattern (nat bufsiz))) w1)
   }"


section \<open>The program\<close>

definition MEM_MB :: int where "MEM_MB = 100"

text \<open>The signals of the handler, by their numbers.\<close>

definition SIGINT :: int where "SIGINT = 2"
definition SIGKILL :: int where "SIGKILL = 9"
definition SIGTERM :: int where "SIGTERM = 15"

definition signal_handler :: "int \<Rightarrow> bool \<Rightarrow> bool" where
  "signal_handler sig app_running = (if sig = SIGINT \<or> sig = SIGKILL \<or> sig = SIGTERM then False else app_running)"

text \<open>The signals for which the handler is installed.\<close>

definition init_signals :: "int set" where
  "init_signals = {SIGINT}"

text \<open>
  \<open>app_running\<close> when iteration \<open>iter\<close> is about to start; \<open>sigs i\<close> are the signals that arrive before the test of iteration
  \<open>i\<close>. What a signal without a handler does to the process is not modelled.
\<close>

definition app_running :: "(nat \<Rightarrow> int list) \<Rightarrow> nat \<Rightarrow> bool" where
  "app_running sigs iter = fold (\<lambda>sig r. if sig \<in> init_signals then signal_handler sig r else r) (concat (map sigs [0..<Suc iter])) True"

text \<open>\<open>atoi\<close>: white space, a sign and digits, up to the first other character; \<open>None\<close> where the result does not fit an \<open>int\<close>.\<close>

definition atoi :: "string \<Rightarrow> int option" where
  "atoi cs =
     (let (neg, ds) = skip_sign (dropWhile is_space cs);
          n = int (digits_value 10 (takeWhile (is_digit 10) ds));
          v = (if neg then - n else n)
      in if - (2 ^ 31) \<le> v \<and> v < 2 ^ 31 then Some v else None)"

record test_opts =
  to_async :: bool
  to_iters :: int
  to_offset :: int
  to_bufsiz :: int
  to_sock_path :: "string option"

definition default_opts :: test_opts where
  "default_opts = \<lparr>to_async = False, to_iters = 3, to_offset = 0, to_bufsiz = 4 * 1024, to_sock_path = None\<rparr>"

text \<open>One option that \<open>getopt\<close> returns, with its argument.\<close>

definition parse_opt :: "char \<times> string \<Rightarrow> test_opts \<Rightarrow> test_opts option" where
  "parse_opt = (\<lambda>(opt, optarg) to.
     if opt = CHR ''a'' then Some (to\<lparr>to_async := True\<rparr>)
     else if opt = CHR ''S'' then map_option (\<lambda>n. to\<lparr>to_bufsiz := n\<rparr>) (atoi optarg)
     else if opt = CHR ''i'' then map_option (\<lambda>n. to\<lparr>to_iters := n\<rparr>) (atoi optarg)
     else if opt = CHR ''o'' then map_option (\<lambda>n. to\<lparr>to_offset := n\<rparr>) (atoi optarg)
     else if opt = CHR ''s'' then Some (to\<lparr>to_sock_path := Some optarg\<rparr>)
     else Some to)"

fun parse_opts :: "(char \<times> string) list \<Rightarrow> test_opts \<Rightarrow> test_opts option" where
  "parse_opts [] to = Some to"
| "parse_opts (o1 # os) to = do { to1 \<leftarrow> parse_opt o1 to; parse_opts os to1 }"

text \<open>
  \<open>main\<close>. The call of \<open>libvirtio_dev_init\<close> passes one of the two arguments of its declaration; what stands for the second is
  \<open>core_mask\<close>. The result is the status of the process before it is cut to eight bits; \<open>exit(-1)\<close> is \<open>-1\<close>.
\<close>

record test_env =
  te_eal :: "string list \<Rightarrow> int"
  te_maps :: "string list option"
  te_pid :: int
  te_core_mask :: int
  te_shm :: shm_state
  te_opts :: "(char \<times> string) list"
  te_signals :: "nat \<Rightarrow> int list"

definition test_main :: "test_env \<Rightarrow> ('d, _, 'r) open_env \<Rightarrow> ('r, ('d, 'r, 'z) dworld_scheme) test_input \<Rightarrow> ('d, 'r, 'z) dworld_scheme
    \<Rightarrow> (int \<times> ('d, 'r, 'z) dworld_scheme) option" where
  "test_main te oe x w = do {
     (rc, st) \<leftarrow> libvirtio_dev_init (te_eal te) (te_maps te) (te_pid te) MEM_MB (te_core_mask te) (te_shm te);
     if rc \<noteq> 0 then Some (-1, w)
     else do {
       to \<leftarrow> parse_opts (te_opts te) default_opts;
       case to_sock_path to of
         None \<Rightarrow> Some (-1, w)
       | Some path \<Rightarrow> do {
           let oe1 = oe\<lparr>oe_st := st\<rparr>;
           (ok, w1) \<leftarrow> open_virtio_dev oe1 path w;
           if \<not> ok then Some (-1, w1)
           else do {
             (rc, w2) \<leftarrow> test_io (oe_env oe) (x\<lparr>t_running := app_running (te_signals te)\<rparr>) (to_iters to) (to_size (to_offset to))
               (to_bufsiz to) (to_async to) w1;
             w3 \<leftarrow> close_virtio_dev oe1 w2;
             Some (rc, w3)
           }
         }
     }
   }"

end
