(* ===== verification/Test_Theorems.thy ===== *)
theory Test_Theorems
  imports Test_Program Open_Theorems
begin

text \<open>
  The test program against a server that works, in its synchronous mode: it does what \<open>verdict\<close>, a run of the test on the bytes of the disk,
  says.
\<close>

section \<open>One iteration\<close>

lemma sync_ready_mem: "sync_ready e dev disk bs nblk q k (w_mem f w) = sync_ready e dev disk bs nblk q k w"
  by (simp add: sync_ready_def dev_ready_mem) (simp add: w_mem_def)

lemma data_matches_read: "data_matches data n m \<longleftrightarrow> mem_read m data n = test_pattern n"
  by (auto simp: data_matches_def test_pattern_def mem_read_def list_all_iff list_eq_iff_nth_eq)

lemma to_size_nat: "n < 2 ^ 64 \<Longrightarrow> to_size (int n) = n"
  by (simp add: to_size_def)

lemma zero_rest:
  assumes "mem_kept b data N (memset data 0 B m) m'" "live_range b data B"
  shows "mem_read m' (data + N) (B - N) = replicate (B - N) 0"
proof (rule nth_equalityI)
  fix i assume "i < length (mem_read m' (data + N) (B - N))"
  then have i: "i < B - N" by simp
  then have "live_range b (data + N + i) 1" using live_range_sub [OF assms(2), of "data + N + i" 1] by simp
  then have "m' (data + N + i) = memset data 0 B m (data + N + i)" using assms(1) by (simp add: mem_kept_def)
  then show "mem_read m' (data + N) (B - N) ! i = replicate (B - N) 0 ! i" using i by (simp add: memset_inside)
qed simp

text \<open>
  An iteration on a device that works, with any contents of the buffer: \<open>N\<close> bytes are written and come back, the rest of
  the buffer is zero afterwards, and the verdict depends on whether the buffer held the pattern before.
\<close>

lemma size_sub_le: "b \<le> a \<Longrightarrow> a < 2 ^ 64 \<Longrightarrow> size_sub a b = a - b"
  by (simp add: size_sub_def to_size_def nat_diff_distrib' flip: of_nat_diff)

lemma test_iter_sync:
  assumes "sync_ready e dev disk bs nblk q (8 + k) w" "byte_io dev bs nblk off B" "off < bs * nblk" "N = min B (bs * nblk - off)"
    "live_range (s_blocks (w_sys w)) data B"
  obtains w' where "test_iter e x dev False data (bs * nblk) (int B) i off w =
      Some (if mem_read (m_of w) data N = test_pattern N then (Inr (size_add off B mod (bs * nblk)), w') else (Inl (-1), virtio_buf_free data w'))"
    "sync_ready e dev disk bs nblk q k w'" "s_blocks (w_sys w') = s_blocks (w_sys w)" "s_tasks (w_sys w') = s_tasks (w_sys w)"
    "mem_read (m_of w') data B = mem_read (m_of w) data N @ replicate (B - N) 0" "dev_frame w w'"
    "disk (w_srv w') = disk_write off (mem_read (m_of w) data N) (disk (w_srv w))"
proof -
  have geo: "bs * nblk < 2 ^ 64" using assms(2) by (simp add: byte_io_def geometry_def)
  have B: "0 < B" "off + B < 2 ^ 64" "sizeof_resp + N < 2 ^ 31" using assms(2,4) by (simp_all add: byte_io_def clip_range_def)
  have N: "N \<le> B" "N \<noteq> B \<Longrightarrow> N = bs * nblk - off" "0 < N" using assms(3,4) B(1) by (auto simp: min_def split: if_splits)
  have lim: "B < 2 ^ 64" "N < 2 ^ 64" using B(2) N(1) by linarith+
  have same_clip: "min N (bs * nblk - off) = N" using assms(4) by simp
  moreover have "off + N < 2 ^ 64" using B(2) N(1) by linarith
  ultimately have io: "byte_io dev bs nblk off N" using assms(2) N(3) unfolding byte_io_def clip_range_def assms(4) [symmetric] by simp
  have "8 + k = 5 + (3 + k)" by simp
  then have ready: "sync_ready e dev disk bs nblk q (5 + (3 + k)) w" using assms(1) by metis
  have live: "live_range (s_blocks (w_sys w)) data N" using live_range_sub [OF assms(5), of data N] N(1) by simp
  obtain w1 where w1: "write_virtio_dev e dev data off B w = Some (int N, w1)" "sync_ready e dev disk bs nblk q (3 + k) w1" "write_xfer disk data off N w w1" "dev_frame w w1"
    by (rule write_bytes_ok [OF ready assms(2), folded assms(4), OF live])
  let ?w2 = "w_mem (memset data 0 B) w1"
  have same: "s_blocks (w_sys ?w2) = s_blocks (w_sys w)" "s_tasks (w_sys ?w2) = s_tasks (w_sys w)" using w1(3) by (simp_all add: write_xfer_def w_mem_def)
  have ready2: "sync_ready e dev disk bs nblk q (3 + k) ?w2" unfolding sync_ready_mem by (rule w1(2))
  obtain w3 where w3: "read_virtio_dev e dev data off N ?w2 = Some (int N, w3)" "sync_ready e dev disk bs nblk q k w3" "read_xfer disk data off N ?w2 w3" "dev_frame ?w2 w3"
    by (rule read_bytes_ok [OF ready2 io, unfolded same_clip same(1), OF live])
  have "disk_read disk (w_srv ?w2) off N = mem_read (m_of w) data N"
    using w1(3) by (intro nth_equalityI) (simp_all add: w_mem_def write_xfer_def disk_write_def)
  then have ret: "mem_read (m_of w3) data N = mem_read (m_of w) data N" using w3(3) by (simp add: read_xfer_def)
  have rest: "mem_read (m_of w3) (data + N) (B - N) = replicate (B - N) 0"
    using w3(3) assms(5) same(1) by (intro zero_rest [of "s_blocks (w_sys w)" _ N B "m_of w1"]) (simp_all add: read_xfer_def w_mem_def)
  have size: "to_size (int B) = B" "to_size (int N) = N" "size_sub (bs * nblk) off = bs * nblk - off"
    using lim geo assms(3) by (simp_all add: to_size_nat size_sub_le)
  have len: "\<not> (int N \<noteq> int B \<and> N \<noteq> bs * nblk - off)" using N(2) by auto
  have pos: "0 < bs" "0 < nblk" using assms(3) by (auto intro: ccontr)
  have "test_iter e x dev False data (bs * nblk) (int B) i off w =
      Some (if mem_read (m_of w) data N = test_pattern N then (Inr (size_add off B mod (bs * nblk)), w3) else (Inl (-1), virtio_buf_free data w3))"
    using w1(1) w3(1) ret len pos by (simp add: test_iter_def size data_matches_read c_assert_def) blast
  moreover have "mem_read (m_of w3) data B = mem_read (m_of w) data N @ replicate (B - N) 0"
    using mem_read_append [of "m_of w3" data N "B - N"] N(1) ret rest by simp
  moreover have "disk (w_srv w3) = disk_write off (mem_read (m_of w) data N) (disk (w_srv w))"
    using w1(3) w3(3) by (simp add: read_xfer_def write_xfer_def w_mem_def)
  ultimately show ?thesis using w3 same dev_frame_trans [OF w1(4), of w3] by (intro that [of w3]) (simp_all add: read_xfer_def)
qed

section \<open>The loop\<close>

text \<open>
  The test as it should be, on a disk of \<open>dsize\<close> bytes and a buffer: each iteration that a signal does not prevent writes the buffer, cut
  at the end of the disk, and finds an error exactly when what it wrote, and so what comes back, is not the pattern. The buffer then holds what came back
  and zeros behind it. The result is the return code and the disk.
\<close>

fun verdict :: "(nat \<Rightarrow> bool) \<Rightarrow> nat \<Rightarrow> nat \<Rightarrow> nat \<Rightarrow> nat \<Rightarrow> nat \<Rightarrow> u8 list \<Rightarrow> (nat \<Rightarrow> u8) \<Rightarrow> int \<times> (nat \<Rightarrow> u8)" where
  "verdict running dsize B 0 iter off buf dk = (0, dk)"
| "verdict running dsize B (Suc k) iter off buf dk =
     (if \<not> running iter then (0, dk)
      else let N = min B (dsize - off); dk1 = disk_write off (take N buf) dk in
           if take N buf \<noteq> test_pattern N then (-1, dk1)
           else verdict running dsize B k (Suc iter) ((off + B) mod dsize) (take N buf @ replicate (B - N) 0) dk1)"

text \<open>The requests of the iterations can be carried out.\<close>

definition admissible :: "virtio_dev \<Rightarrow> nat \<Rightarrow> nat \<Rightarrow> nat \<Rightarrow> nat \<Rightarrow> nat \<Rightarrow> bool" where
  "admissible dev bs nblk off B n \<longleftrightarrow> off < bs * nblk \<and> (\<forall>i < n. byte_io dev bs nblk ((off + i * B) mod (bs * nblk)) B)"

lemma next_offset:
  fixes dsize :: nat
  assumes "off < dsize"
  shows "((off + B) mod dsize + i * B) mod dsize = (off + Suc i * B) mod dsize" "(off + B) mod dsize < dsize"
  using assms by (simp_all add: mod_add_left_eq add.assoc)

lemma admissible_Suc:
  assumes "admissible dev bs nblk off B (Suc n)"
  shows "byte_io dev bs nblk off B" and "admissible dev bs nblk ((off + B) mod (bs * nblk)) B n"
proof -
  have off: "off < bs * nblk" and all: "\<And>i. i < Suc n \<Longrightarrow> byte_io dev bs nblk ((off + i * B) mod (bs * nblk)) B"
    using assms by (auto simp: admissible_def)
  show "byte_io dev bs nblk off B" using all [of 0] off by simp
  show "admissible dev bs nblk ((off + B) mod (bs * nblk)) B n"
    unfolding admissible_def next_offset(1) [OF off] using next_offset(2) [OF off, of B] all by (simp del: mult_Suc)
qed

lemma test_loop_sync:
  assumes "sync_ready e dev disk bs nblk q (8 * n + k) w" "admissible dev bs nblk off B n" "live_range (s_blocks (w_sys w)) data B"
    "v = verdict (t_running x) (bs * nblk) B n iter off (mem_read (m_of w) data B) (disk (w_srv w))"
  shows "\<exists>w' j. test_loop e x dev False data (bs * nblk) (int B) n iter off w = Some (fst v, virtio_buf_free data w') \<and>
    disk (w_srv w') = snd v \<and> sync_ready e dev disk bs nblk q j w' \<and> k \<le> j \<and> dev_frame w w' \<and>
    s_blocks (w_sys w') = s_blocks (w_sys w) \<and> s_tasks (w_sys w') = s_tasks (w_sys w)"
  using assms
proof (induction n arbitrary: iter off w)
  case 0
  then show ?case by (intro exI [of _ w] exI [of _ k]) simp
next
  case (Suc n)
  let ?buf = "mem_read (m_of w) data B" and ?N = "min B (bs * nblk - off)"
  have ready: "sync_ready e dev disk bs nblk q (8 + (8 * n + k)) w" using Suc.prems(1) by (metis add.assoc mult_Suc_right)
  note on = admissible_Suc [OF Suc.prems(2)]
  show ?case
  proof (cases "t_running x iter")
    case False
    then show ?thesis using Suc.prems(1,4) by (intro exI [of _ w] exI [of _ "8 * Suc n + k"]) simp
  next
    case True
    have off: "off < bs * nblk" "size_add off B = off + B" using Suc.prems(2) on(1) by (auto simp: admissible_def byte_io_def size_add_def)
    obtain w1 where w1: "test_iter e x dev False data (bs * nblk) (int B) (Suc iter) off w =
        Some (if mem_read (m_of w) data ?N = test_pattern ?N then (Inr (size_add off B mod (bs * nblk)), w1) else (Inl (-1), virtio_buf_free data w1))"
      "sync_ready e dev disk bs nblk q (8 * n + k) w1" "s_blocks (w_sys w1) = s_blocks (w_sys w)" "s_tasks (w_sys w1) = s_tasks (w_sys w)"
      "mem_read (m_of w1) data B = mem_read (m_of w) data ?N @ replicate (B - ?N) 0" "dev_frame w w1"
      "disk (w_srv w1) = disk_write off (mem_read (m_of w) data ?N) (disk (w_srv w))"
      by (rule test_iter_sync [OF ready on(1) off(1) refl Suc.prems(3)])
    have buf: "take ?N ?buf = mem_read (m_of w) data ?N" by (rule take_mem_read) simp
    show ?thesis
    proof (cases "mem_read (m_of w) data ?N = test_pattern ?N")
      case same: True
      have v: "v = verdict (t_running x) (bs * nblk) B n (Suc iter) ((off + B) mod (bs * nblk)) (mem_read (m_of w1) data B) (disk (w_srv w1))"
        using Suc.prems(4) True same by (simp add: buf w1(5,7) Let_def)
      have live: "live_range (s_blocks (w_sys w1)) data B" using Suc.prems(3) w1(3) by simp
      from Suc.IH [OF w1(2) on(2) live v] w1(3,4) dev_frame_trans [OF w1(6)] True w1(1) same off(2) show ?thesis by fastforce
    next
      case diff: False
      then show ?thesis using Suc.prems(4) True w1 by (intro exI [of _ w1] exI [of _ "8 * n + k"]) (simp add: buf Let_def)
    qed
  qed
qed

text \<open>The verdict is that all is well when no write is cut at the end of the disk.\<close>

lemma verdict_passes:
  assumes "off < dsize" "\<forall>i < n. (off + i * B) mod dsize + B \<le> dsize"
  shows "fst (verdict running dsize B n iter off (test_pattern B) dk) = 0"
  using assms
proof (induction n arbitrary: iter off dk)
  case (Suc n)
  have "min B (dsize - off) = B" using Suc.prems(2) [rule_format, of 0] Suc.prems(1) by simp
  moreover have "take B (test_pattern B) = test_pattern B" by (simp add: test_pattern_def)
  moreover have "\<forall>i < n. ((off + B) mod dsize + i * B) mod dsize + B \<le> dsize" unfolding next_offset(1) [OF Suc.prems(1)] using Suc.prems(2) by (auto simp del: mult_Suc)
  ultimately show ?case using Suc.IH [OF next_offset(2) [OF Suc.prems(1)]] by simp
qed simp


section \<open>The test\<close>

text \<open>The buffer is allocated and holds the pattern when the loop starts.\<close>

lemma test_io_start:
  assumes "env_ok e" "scsi_server (e_serve e) disk bs nblk" "geometry (a_dev w) bs nblk" "dev_ready q k w"
    "rm_room (e_rm e) (max (max sizeof_resp bs) B) 4 (s_blocks (w_sys w))" "B < 2 ^ 31" "n < 2 ^ 31"
  obtains p w1 where "test_io e x (int n) off (int B) a w = test_loop e x (a_dev w) a p (bs * nblk) (int B) n 0 off w1"
    "sync_ready e (a_dev w) disk bs nblk q k w1" "live_range (s_blocks (w_sys w1)) p B" "mem_read (m_of w1) p B = test_pattern B"
    "s_tasks (w_sys w1) = s_tasks (w_sys w)" "dev_frame w w1"
    "\<forall>s. s_blocks s = s_blocks (w_sys w1) \<longrightarrow> s_blocks (free_shared_buf p s) = s_blocks (w_sys w)" "w_srv w1 = w_srv w"
proof -
  let ?b = "s_blocks (w_sys w)" and ?al = "nat (to_uint (block_size (a_dev w)))"
  let ?p = "e_rm e ?b B ?al"
  let ?w1 = "w\<lparr>w_sys := (w_sys w)\<lparr>s_blocks := (?p, B) # ?b\<rparr>\<rparr>"
  let ?w2 = "w_mem (mem_write ?p (test_pattern B)) ?w1"
  have size: "to_size (int B) = B" "to_size (int n) = n" using assms(6,7) by (auto intro!: to_size_nat)
  have "?p \<noteq> NULL \<and> rm_room (e_rm e) (max (max sizeof_resp bs) B) 3 ((?p, B) # ?b)"
    using assms(5) rm_room.simps(2) [of "e_rm e" "max (max sizeof_resp bs) B" 3] by (simp add: eval_nat_numeral del: rm_room.simps)
  then have p: "?p \<noteq> NULL" "rm_room (e_rm e) (max sizeof_resp bs) 3 ((?p, B) # ?b)" using rm_room_smaller by auto
  have alloc: "alloc_shared_buf (e_rm e) (int B) (block_size (a_dev w)) (w_sys w) = (?p, w_sys ?w1)"
    using p(1) by (simp add: alloc_shared_buf_def size Let_def)
  have spec: "rte_malloc_spec (e_rm e)" using assms(1) by (simp add: env_ok_def)
  note fresh = alloc_shared_buf_fresh [OF spec alloc p(1), unfolded size]
  have "dev_ready q k ?w1" by (rule dev_ready_sys [OF assms(4)]) simp_all
  then have "sync_ready e (a_dev w) disk bs nblk q k ?w1" using assms(1-3) p(2) by (simp add: sync_ready_def del: rm_room.simps)
  then have ready: "sync_ready e (a_dev w) disk bs nblk q k ?w2" by (simp add: sync_ready_mem)
  have cap: "size_mul (virtio_dev_block_size (a_dev w)) (virtio_dev_blocks_num (a_dev w)) = bs * nblk"
    using assms(3) by (simp add: geometry_def virtio_dev_block_size_def virtio_dev_blocks_num_def size_mul_def to_size_def)
  have "test_io e x (int n) off (int B) a w = test_loop e x (a_dev w) a ?p (bs * nblk) (int B) n 0 off ?w2"
    using p(1) by (simp add: test_io_def virtio_buf_alloc_def alloc cap size Let_def)
  moreover have "live_range (s_blocks (w_sys ?w2)) ?p B" using p(1) fresh(2) by (simp add: live_range_own w_mem_def)
  moreover have "mem_read (m_of ?w2) ?p B = test_pattern B" by (simp add: w_mem_def test_pattern_def mem_read_write_same)
  moreover have "s_blocks (free_shared_buf ?p s) = ?b" if "s_blocks s = s_blocks (w_sys ?w2)" for s
    using p(1) that filter_fresh_block [OF fresh(1)] by (simp add: free_shared_buf_def w_mem_def)
  ultimately show ?thesis using ready by (intro that [of ?p ?w2]) (simp_all add: w_mem_def dev_frame_sys)
qed

text \<open>\<open>test_io\<close> returns the verdict and has given back its buffer and all tasks.\<close>

lemma test_io_ok:
  assumes "env_ok e" "scsi_server (e_serve e) disk bs nblk" "geometry (a_dev w) bs nblk" "dev_ready q (8 * n + k) w"
    "rm_room (e_rm e) (max (max sizeof_resp bs) B) 4 (s_blocks (w_sys w))" "admissible (a_dev w) bs nblk off B n" "B < 2 ^ 31" "n < 2 ^ 31"
    and v: "v = verdict (t_running x) (bs * nblk) B n 0 off (test_pattern B) (disk (w_srv w))"
  shows "\<exists>w' j. test_io e x (int n) off (int B) False w = Some (fst v, w') \<and> disk (w_srv w') = snd v \<and> dev_frame w w' \<and> dev_ready q j w' \<and> k \<le> j \<and>
    s_blocks (w_sys w') = s_blocks (w_sys w) \<and> s_tasks (w_sys w') = s_tasks (w_sys w)"
proof -
  obtain p w1 where start: "test_io e x (int n) off (int B) False w = test_loop e x (a_dev w) False p (bs * nblk) (int B) n 0 off w1"
    "sync_ready e (a_dev w) disk bs nblk q (8 * n + k) w1" "live_range (s_blocks (w_sys w1)) p B" "mem_read (m_of w1) p B = test_pattern B"
    "s_tasks (w_sys w1) = s_tasks (w_sys w)" "dev_frame w w1"
    "\<forall>s. s_blocks s = s_blocks (w_sys w1) \<longrightarrow> s_blocks (free_shared_buf p s) = s_blocks (w_sys w)" "w_srv w1 = w_srv w"
    by (rule test_io_start [OF assms(1-5,7,8), where x = x and off = off and a = False])
  have "v = verdict (t_running x) (bs * nblk) B n 0 off (mem_read (m_of w1) p B) (disk (w_srv w1))" using v start(4,8) by simp
  from test_loop_sync [OF start(2) assms(6) start(3) this] obtain w' j where
    "test_loop e x (a_dev w) False p (bs * nblk) (int B) n 0 off w1 = Some (fst v, virtio_buf_free p w')" "disk (w_srv w') = snd v"
    "s_blocks (w_sys w') = s_blocks (w_sys w1)" "s_tasks (w_sys w') = s_tasks (w_sys w1)"
    "dev_frame w1 w'" "dev_ready q j w'" "k \<le> j" unfolding sync_ready_def by metis
  moreover have "dev_ready q j (virtio_buf_free p w')"
    unfolding virtio_buf_free_def by (rule dev_ready_sys [OF \<open>dev_ready q j w'\<close>]) simp_all
  ultimately show ?thesis using start dev_frame_trans [OF start(6), of w']
    by (intro exI [of _ "virtio_buf_free p w'"] exI [of _ j]) (simp add: virtio_buf_free_def dev_frame_sys)
qed

text \<open>
  But it is wrong about a device whose size is not a multiple of the buffer: the iteration that reaches the end leaves zeros
  behind the part that was read back, and the next iteration writes them and reports corruption.
\<close>

lemma test_io_false_alarm:
  assumes "env_ok e" "scsi_server (e_serve e) disk bs nblk" "geometry (a_dev w) bs nblk" "dev_ready q (16 + k) w"
    "rm_room (e_rm e) (max (max sizeof_resp bs) B) 4 (s_blocks (w_sys w))" "B < 2 ^ 31" "t_running x 0" "t_running x 1"
    "byte_io (a_dev w) bs nblk off B" "off < bs * nblk" "L = bs * nblk - off" "L < B" "L mod 255 \<noteq> 0"
    "byte_io (a_dev w) bs nblk (B - L) B" "B - L + B \<le> bs * nblk"
  shows "\<exists>w'. test_io e x 2 off (int B) False w = Some (-1, w')"
proof -
  have k: "16 + k = 8 + (8 + k)" by simp
  obtain p w1 where start: "test_io e x (int 2) off (int B) False w = test_loop e x (a_dev w) False p (bs * nblk) (int B) 2 0 off w1"
    "sync_ready e (a_dev w) disk bs nblk q (8 + (8 + k)) w1" "live_range (s_blocks (w_sys w1)) p B" "mem_read (m_of w1) p B = test_pattern B"
    by (rule test_io_start [OF assms(1-3) assms(4) [unfolded k] assms(5,6), where n = 2 and x = x and off = off and a = False]) simp_all
  have L: "L = min B (bs * nblk - off)" "B = min B (bs * nblk - (B - L))" using assms(11,12,15) by auto
  have "off + B < 2 ^ 64" using assms(9) by (simp add: byte_io_def)
  then have "size_add off B = bs * nblk + (B - L)" using assms(10-12) by (simp add: size_add_def)
  moreover have nxt2: "B - L < bs * nblk" using assms(12,15) by linarith
  ultimately have nxt: "size_add off B mod (bs * nblk) = B - L" by simp
  have pat: "mem_read (m_of w1) p L = test_pattern L"
    using arg_cong [OF start(4), of "take L"] assms(12) by (simp add: test_pattern_def take_map mem_read_def)
  obtain w2 where w2: "test_iter e x (a_dev w) False p (bs * nblk) (int B) (Suc 0) off w1 = Some (Inr (B - L), w2)"
    "sync_ready e (a_dev w) disk bs nblk q (8 + k) w2" "s_blocks (w_sys w2) = s_blocks (w_sys w1)"
    "mem_read (m_of w2) p B = test_pattern L @ replicate (B - L) 0"
    by (rule test_iter_sync [OF start(2) assms(9,10) L(1) start(3)]) (simp add: pat nxt)
  have live: "live_range (s_blocks (w_sys w2)) p B" using start(3) w2(3) by simp
  have "(test_pattern L @ replicate (B - L) 0) ! L = 0" "test_pattern B ! L = of_nat (L mod 255)" using assms(12) by (simp_all add: nth_append test_pattern_def)
  moreover have "(of_nat (L mod 255) :: u8) \<noteq> 0" using assms(13) by (simp add: word_of_nat_eq_0_iff nat_dvd_not_less)
  ultimately have bad: "mem_read (m_of w2) p B \<noteq> test_pattern B" using w2(4) by metis
  obtain w3 where "test_iter e x (a_dev w) False p (bs * nblk) (int B) (Suc (Suc 0)) (B - L) w2 = Some (Inl (-1), virtio_buf_free p w3)"
    by (rule test_iter_sync [OF w2(2) assms(14) nxt2 L(2) live]) (simp add: bad)
  with w2(1) start(1) assms(7,8) show ?thesis by (simp add: numeral_2_eq_2)
qed

text \<open>The instance: three iterations of 1000 bytes from offset 700.\<close>

definition example_test_input :: "(ptr list, 'w) test_input" where
  "example_test_input = \<lparr>t_ops = list_ring 4, t_running = (\<lambda>_. True), t_write_wait = (\<lambda>_. []), t_read_wait = (\<lambda>_. []),
     t_write_frame = (\<lambda>_. (900, io_request 0 0 0)), t_read_frame = (\<lambda>_. (900, io_request 0 0 0))\<rparr>"


section \<open>The program\<close>

text \<open>
  C38. The whole program in its synchronous mode (without the option \<open>-a\<close>) against a server that works: when the huge pages are found, the options give a socket,
  the resources are there and the requests can be carried out, \<open>main\<close> initialises the memory, opens the device, runs the iterations, closes
  the device and returns what \<open>verdict\<close> says, with the disk as \<open>verdict\<close> says, whatever signals arrive. The verdict is 0 when no write is cut at the end of the device;
  after a cut write it may be -1, though the device works. The event descriptors are as before and the connection is closed; of the shared
  memory only the eight blocks of the probe commands stay allocated.
\<close>

theorem test_program_verdict:
  assumes "libvirtio_dev_init (te_eal te) (te_maps te) (te_pid te) MEM_MB (te_core_mask te) (te_shm te) = Some (0, st)"
    "parse_opts (te_opts te) default_opts =
      Some \<lparr>to_async = False, to_iters = int n, to_offset = int off, to_bufsiz = int B, to_sock_path = Some path\<rparr>"
    "env_ok (oe_env oe)" "scsi_server (e_serve (oe_env oe)) disk bs nblk" "scsi_probe (e_serve (oe_env oe)) disk bs nblk"
    "0 < bs" "bs < 2 ^ 30" "0 < nblk" "bs * nblk < 2 ^ 64" "oe_ring oe = Some r" "oe_tid oe = Some i"
    "s_oom (w_sys w) = (\<lambda>_. False)" "0 < s_next (w_sys w)" "\<forall>t \<ge> s_next (w_sys w). s_tasks (w_sys w) t = None" "fds_free 7 (w_sys w)"
    "rm_room (e_rm (oe_env oe)) (max (max sizeof_vhost_vring bs) B) 15 (s_blocks (w_sys w))"
    "peer_ready st 20 (d_net w)" "length path < SUN_PATH_SIZE" "oe_stop oe = inp # inps" "\<forall>v. pi_others inp v = v"
    "\<forall>dev. geometry dev bs nblk \<longrightarrow> admissible dev bs nblk off B n" "off < 2 ^ 31" "B < 2 ^ 31" "n \<le> 2 ^ 29"
    "v = verdict (app_running (te_signals te)) (bs * nblk) B n 0 off (test_pattern B) (disk (w_srv w))"
  shows "\<exists>w' lost. test_main te oe x w = Some (fst v, w') \<and> disk (w_srv w') = snd v \<and>
    ((\<forall>i < n. (off + i * B) mod (bs * nblk) + B \<le> bs * nblk) \<longrightarrow> fst v = 0) \<and> s_efd (w_sys w') = s_efd (w_sys w) \<and>
    s_blocks (w_sys w') = lost @ s_blocks (w_sys w) \<and> length lost = 8 \<and> d_client w' = None \<and> \<not> d_live w'"
proof -
  let ?L = "max (max sizeof_vhost_vring bs) B" and ?oe = "oe\<lparr>oe_st := st\<rparr>" and ?x = "x\<lparr>t_running := app_running (te_signals te)\<rparr>"
  have L: "sizeof_vhost_vring \<le> ?L" "bs \<le> ?L" "max (max sizeof_resp bs) B \<le> ?L" by (auto simp: sizeof_vhost_vring_def sizeof_resp_def)
  have pre: "env_ok (oe_env ?oe)" "scsi_server (e_serve (oe_env ?oe)) disk bs nblk" "scsi_probe (e_serve (oe_env ?oe)) disk bs nblk"
    "oe_ring ?oe = Some r" "oe_tid ?oe = Some i" "rm_room (e_rm (oe_env ?oe)) ?L (11 + 4) (s_blocks (w_sys w))"
    "peer_ready (oe_st ?oe) (19 + 1) (d_net w)" "8 * n + 0 \<le> 2 ^ 32" "oe_stop ?oe = inp # inps"
    using assms(3-5,10,11,16,17,19,24) by (simp_all del: rm_room.simps)
  obtain w1 own where w1: "open_virtio_dev ?oe path w = Some (True, w1)" "dev_ready empty_queue (8 * n + 0) w1" "geometry (a_dev w1) bs nblk"
    "rm_room (e_rm (oe_env ?oe)) ?L 4 (s_blocks (w_sys w1))" "peer_takes 1 (n_sends (d_net w1))" "length own = 8" "device_open (w_sys w) own w1" "disk (w_srv w1) = disk (w_srv w)"
    by (rule open_ok [OF pre(1-3) assms(6-9) pre(4,5) assms(12-15) pre(6) L(1,2) pre(7) assms(18) pre(8)])
  have n: "n < 2 ^ 31" and room: "rm_room (e_rm (oe_env oe)) (max (max sizeof_resp bs) B) 4 (s_blocks (w_sys w1))"
    and off: "to_size (int off) = off"
    using assms(22,24) rm_room_smaller [OF w1(4) L(3)] by (simp_all add: to_size_of_nat del: rm_room.simps)
  have v: "v = verdict (t_running ?x) (bs * nblk) B n 0 off (test_pattern B) (disk (w_srv w1))" using assms(25) w1(8) by simp
  from test_io_ok [OF assms(3,4) w1(3,2) room assms(21) [rule_format, OF w1(3)] assms(23) n v] obtain w2 where
    w2: "test_io (oe_env oe) ?x (int n) off (int B) False w1 = Some (fst v, w2)" "dev_frame w1 w2" "s_blocks (w_sys w2) = s_blocks (w_sys w1)"
      "disk (w_srv w2) = snd v" by blast
  have dev: "device_open (w_sys w) ([] @ own) w2" by (rule device_open_frame [OF w1(7) w2(2)]) (simp_all add: w2(3))
  have net: "send_returns (d_net w2)" using peer_takes_returns [OF w1(5)] same_rest_dev(1) [of w1 w2] w2(2) by (simp add: dev_frame_def)
  from close_ok [OF dev net pre(9) assms(20)] obtain w3 where w3: "close_virtio_dev ?oe w2 = Some w3" "s_blocks (w_sys w3) = own @ s_blocks (w_sys w)"
    "s_efd (w_sys w3) = s_efd (w_sys w)" "\<not> d_live w3" "d_client w3 = None" "w_srv w3 = w_srv w2" by auto
  have "test_main te oe x w = Some (fst v, w3)"
    using assms(1,2) w1(1) w2(1) w3(1) by (simp add: test_main_def off Let_def)
  moreover have "fst v = 0" if "\<forall>i < n. (off + i * B) mod (bs * nblk) + B \<le> bs * nblk"
    unfolding assms(25) using assms(21) [rule_format, OF w1(3)] by (intro verdict_passes that) (simp add: admissible_def)
  ultimately show ?thesis using w3 w1(6) w2(4) by (intro exI [of _ w3] exI [of _ own]) simp
qed

definition example_test_env :: test_env where
  "example_test_env = \<lparr>te_eal = (\<lambda>_. 0), te_maps = Some [maps_line ''100000'' ''300000'' ''rw-s'' ''00000000'' ''00:1a'' ''9'' 20
       (''/dev/hugepages/'' @ ''map_'' @ ''0'')], te_pid = 7, te_core_mask = 1, te_shm = \<lparr>nregions = 0, huges = []\<rparr>,
     te_opts = [(CHR ''s'', ''/tmp/vhost.0''), (CHR ''o'', ''700''), (CHR ''S'', ''1000''), (CHR ''i'', '' 3'')],
     te_signals = (\<lambda>i. if i = 2 then [SIGINT] else [])\<rparr>"

lemma example_main_init:
  "libvirtio_dev_init (te_eal example_test_env) (te_maps example_test_env) (te_pid example_test_env) MEM_MB (te_core_mask example_test_env)
    (te_shm example_test_env) = Some (0, example_shm)"
proof -
  have "parse_maps_line (maps_line ''100000'' ''300000'' ''rw-s'' ''00000000'' ''00:1a'' ''9'' 20 (''/dev/hugepages/'' @ ''map_'' @ ''0'')) =
      LineHuge \<lparr>hf_addr = 0x100000, hf_size = 0x200000, hf_path = ''/dev/hugepages/map_0''\<rparr>"
    by (subst parse_maps_line_huge)
      (simp_all add: maps_fields_def hex_field_def is_digit_def digit_value_def digits_value_def PATH_MAX_def)
  then show ?thesis
    by (simp add: libvirtio_dev_init_def init_shared_mem_def get_hugepage_file_info_def example_test_env_def example_shm_def
        VHOST_MEMORY_MAX_NREGIONS_def del: append.simps)
qed

lemma example_main_opts:
  "parse_opts (te_opts example_test_env) default_opts =
    Some \<lparr>to_async = False, to_iters = int 3, to_offset = int 700, to_bufsiz = int 1000, to_sock_path = Some ''/tmp/vhost.0''\<rparr>"
  by (simp add: example_test_env_def default_opts_def parse_opt_def atoi_def skip_sign_def is_space_def is_digit_def digit_value_def digits_value_def)

lemma example_admissible: "geometry dev 512 8 \<Longrightarrow> admissible dev 512 8 700 1000 3"
  unfolding admissible_def
proof (intro conjI allI impI)
  fix i :: nat assume geo: "geometry dev 512 8" and "i < 3"
  then have i: "(700 + i * 1000) mod (512 * 8) = 700 + i * 1000" "700 + i * 1000 + 1000 \<le> 512 * 8" by simp_all
  have "clip_range (512 * 8) (700 + i * 1000) 1000 = 1000" using i(2) by (simp add: clip_range_def)
  then show "byte_io dev 512 8 ((700 + i * 1000) mod (512 * 8)) 1000"
    using geo i by (simp add: byte_io_def sizeof_resp_def)
qed simp

lemma example_uncut: "\<forall>i < 3. (700 + i * 1000) mod (512 * 8) + 1000 \<le> (512 * 8 :: nat)"
proof (intro allI impI)
  fix i :: nat assume "i < 3"
  then have "700 + i * 1000 + 1000 \<le> (512 * 8 :: nat)" by simp
  then show "(700 + i * 1000) mod (512 * 8) + 1000 \<le> (512 * 8 :: nat)" by simp
qed

theorem test_program_verdict_witness:
  "\<exists>w' lost. test_main example_test_env close_example example_test_input close_world = Some (0, w') \<and>
    id (w_srv w') = snd (verdict (app_running (te_signals example_test_env)) (512 * 8) 1000 3 0 700 (test_pattern 1000) (id (w_srv close_world))) \<and>
    s_efd (w_sys w') = s_efd (w_sys close_world) \<and> s_blocks (w_sys w') = lost @ s_blocks (w_sys close_world) \<and> length lost = 8 \<and>
    d_client w' = None \<and> \<not> d_live w'"
proof -
  let ?v = "verdict (app_running (te_signals example_test_env)) (512 * 8) 1000 3 0 700 (test_pattern 1000) (id (w_srv close_world))"
  have room: "rm_room (e_rm (oe_env close_example)) (max (max sizeof_vhost_vring 512) 1000) 15 (s_blocks (w_sys close_world))"
  proof -
    have "rm_room bump_malloc (max (max sizeof_vhost_vring 512) 1000) 15 [(65536, 4096)]" by (rule bump_room) (simp add: sizeof_vhost_vring_def)
    then show ?thesis by (simp add: close_example_def close_world_def open_example_def open_world_def del: rm_room.simps)
  qed
  have peer: "peer_ready example_shm 20 (d_net close_world)" using close_facts(2) by (simp add: close_example_def open_example_def)
  have "\<exists>w' lost. test_main example_test_env close_example example_test_input close_world = Some (fst ?v, w') \<and> id (w_srv w') = snd ?v \<and>
    ((\<forall>i < 3. (700 + i * 1000) mod (512 * 8) + 1000 \<le> (512 * 8 :: nat)) \<longrightarrow> fst ?v = 0) \<and> s_efd (w_sys w') = s_efd (w_sys close_world) \<and>
    s_blocks (w_sys w') = lost @ s_blocks (w_sys close_world) \<and> length lost = 8 \<and> d_client w' = None \<and> \<not> d_live w'"
    by (rule test_program_verdict [OF example_main_init example_main_opts _ _ _ _ _ _ _ _ _ _ _ _ _ room peer, where disk = id and r = "[]" and i = 77
          and inp = quiet_input and inps = "[]"])
      (use close_facts(1) probe_server_disk probe_server_probes open_fds example_admissible in
        \<open>simp_all add: close_example_def close_world_def open_example_def open_world_def SUN_PATH_SIZE_def quiet_input_def del: rm_room.simps verdict.simps\<close>)
  with example_uncut show ?thesis by (metis (no_types, lifting))
qed

end
