(* ===== verification/Spec2Isabelle.thy ===== *)
theory Spec2Isabelle
  imports Poller_Theorems Sync_Wait Vhost_Theorems Virtio_Theorems Async_Theorems Open_Theorems Fio_Theorems Vring_Race Test_Theorems
begin

text \<open>
  Verification of the vhost-user client library under \<open>src/\<close>: a user-space virtio-scsi driver that gives a
  program block access to a disk behind a vhost-user server (SPDK), and its use as an I/O engine of fio.

  \<^bold>\<open>The parts and how they interact.\<close> All memory that the server sees comes from huge pages (\<open>shm.c\<close>). A SCSI command is a
  task (\<open>virtio_task.c\<close>), a list of buffers in this memory. The virtqueue (\<open>vring.c\<close>) turns a task into a chain of descriptors, announces
  the chain to the server and takes back completed chains. The poller (\<open>vring_poller.c\<close>) is a thread that
  fetches completions, calls the callbacks of the tasks and adapts the length of its sleep to the load. The client (\<open>vhost_client.c\<close>)
  sets up the session with the messages of \<open>vhost_user.c\<close>. The device (\<open>virtio_dev.c\<close>) is built on all of them: it opens and closes the
  session, builds the SCSI commands and offers reads and writes at any byte offset, with and without
  waiting. The engine (\<open>fio_plugin.c\<close>) maps fio's requests to the asynchronous interface of the device.

  \<^bold>\<open>Theories and sources.\<close>
  \<^item> \<open>Prelude\<close>: C's integer conversions, byte memory, reachability and the contract of an inductive invariant.
  \<^item> \<open>Endian\<close>: \<open>endian.h\<close>. The contract of a codec is the locale \<open>byte_codec\<close>, interpreted by all six pairs.
  \<^item> \<open>Shm\<close>, \<open>Shm_Maps\<close>: \<open>shm.c\<close>. The state \<open>sys\<close> of the first holds memory, the live shared blocks, the tasks by address and the event descriptors;
    the second has the parser of \<open>/proc/self/maps\<close>, the table of regions and the arguments of DPDK.
  \<^item> \<open>Virtio_Task\<close>: \<open>virtio_task.c\<close>.
  \<^item> \<open>Vring\<close>: \<open>vring.h\<close> and \<open>vring.c\<close> as sequential functions. \<open>Vring_Refine\<close> has the specification, a queue of tasks in flight and of completions
    (\<open>vqueue\<close>), the relation \<open>vring_rep\<close> between ring and queue and the locale \<open>task_ring\<close> that states what
    a client of the ring may use; \<open>Vring_Theorems\<close> has the statements about the functions.
  \<^item> \<open>Vring_Conc\<close>, \<open>Vring_Tickets\<close>, \<open>Vring_Race\<close>: \<open>vring.c\<close> as a step relation. Any number of threads run \<open>vring_put_task\<close>, one shared access
    per step, beside the loop of \<open>vring_get_task\<close> that frees a chain and the server.
  \<^item> \<open>Vring_Poller\<close>, \<open>Poller_Theorems\<close>: \<open>vring_poller.c\<close>. Callbacks are a parameter; the locales \<open>completion_handler\<close> and
    \<open>poll_handler\<close> state what the poller needs of them. \<open>Sync_Wait\<close> takes the waiting submission apart into the steps of its mutex and
    condition variable, for any number of waiting threads beside the poller and the server.
  \<^item> \<open>Vhost_Proto\<close>, \<open>Vhost_User\<close>, \<open>Vhost_Client\<close>, \<open>Vhost_Theorems\<close>: \<open>vhost_user.h\<close>, \<open>vhost_user.c\<close> and \<open>vhost_client.c\<close>. The socket is part of the state \<open>os\<close>; what the peer does is an
    input.
  \<^item> \<open>Virtio_Dev\<close>, \<open>Virtio_Async\<close>, \<open>Virtio_Open\<close>: \<open>virtio_dev.c\<close>, the synchronous operations, the asynchronous ones and the life cycle.
    \<open>Virtio_Sync\<close>, \<open>Virtio_Bytes\<close> and \<open>Virtio_Theorems\<close> prove the first correct, the theories \<open>Async_*\<close> the second, the theories \<open>Open_*\<close> the
    third. \<open>Disk_Server\<close> is a concrete server for the instances.
  \<^item> \<open>Fio_Plugin\<close>, \<open>Fio_Theorems\<close>: \<open>fio_plugin.c\<close>. \<open>Test_Program\<close>, \<open>Test_Theorems\<close>: \<open>test.c\<close>, from its options to its exit status.

  \<^bold>\<open>How state and effects are modelled.\<close> Structures are records with the fields of the source and state is passed explicitly. The result \<open>None\<close> stands for a failed
  assertion, a null pointer that is dereferenced, an access out of range or a spin that nobody ends; error returns are values.
  Integers that wrap are words or are reduced with the conversions of \<open>Prelude\<close>. Allocation can fail at any point
  (\<open>s_oom\<close>). Code that is not in the repository is a parameter with its documented contract as a named hypothesis: DPDK's
  allocator (\<open>rte_malloc_spec\<close>) and ring (\<open>rte_ring_spec\<close>), the vhost server (\<open>scsi_server\<close>), the initialisation of DPDK.

  \<^bold>\<open>What is shown.\<close>
  \<^item> The ring refines a queue: put appends, get takes the oldest completion and frees exactly its slots, a put on a full
    ring changes nothing, create and destroy balance. Put is safe for any number of threads, in every interleaving: slots
    are never shared, chains are published whole and in the order of the tickets, and some thread always makes headway. It is
    not safe against the loop of get, which clears a slot before it reads its link.
  \<^item> The poller hands out the completions of synchronous submissions once and in order, ends when it is stopped, and keeps the sleep within its bounds for every
    load. (A callback of an asynchronous request may fail an assertion: \<open>async_write_past_end_aborts\<close>.) Its hill climbing goes in the right direction
    for rates less than \<open>2 ^ 22\<close> apart. Threads that wait for their tasks never deadlock with it, and each run ends after ten steps for each of them; the poller
    touches only calls that have not returned. Both rest on a wait that does not return by itself, which the code does not check, and on calls into the
    ring that do not overlap.
  \<^item> Every vhost-user message reaches the peer with the contents that were asked for; the session is set up by the documented
    sequence; a server that reads the announcements by the protocol (\<open>server_learns\<close>) knows size, descriptors and addresses of each ring; error paths keep or release what they should, where they do not this is stated.
  \<^item> Reads and writes of any offset and length move exactly the bytes of the device, synchronously and asynchronously with the same result,
    and leave memory, shared blocks and tasks as they were. A write is read back. Asynchronous requests finish within a bounded number of rounds.
    Requests that finish reach the waiting thread through the output ring and its event descriptor, in their order; the wait ends within its timeout.
  \<^item> Opening succeeds when nothing fails, with the right geometry, and gives everything back when it fails. Closing gives back what
    opening took, but for the blocks of the three probe commands.
  \<^item> A read that is queued by fio comes back to fio as the same I/O unit with the bytes of the device. The test program
    as a whole, in its synchronous mode and against a server that works, does what the reference run \<open>verdict\<close> says: it passes as long as no write is cut at
    the end of the device; behind such a write it may report a corruption that is not there. Its asynchronous mode is modelled, without a statement about the whole run.

  \<^bold>\<open>Bounds and fuel.\<close> The search for a free slot gets \<open>VHOST_VRING_SIZE\<close> rounds, one for each slot, which \<open>claim_slot_correct\<close> shows to be enough. \<open>drain\<close>
  gets one round more than there are completions; all statements about it prove that it returns. The loop that frees a chain ends
  by a measure, the number of taken slots. The waiting loop of \<open>virtio_completed\<close> takes the observations of its
  polls as a list and is shown to return for timeouts up to 2147483600; its counter is an \<open>int\<close> that overflows beyond. Concurrency is sequentially consistent; the writes of a thread to a descriptor that it owns are one step.

  In \<open>Sync_Wait\<close> putting a task into the ring and fetching a completion are one step each: its statements are about the locks and the wake-up, for calls into the ring
  that do not overlap. \<open>Vring_Conc\<close> and \<open>Vring_Race\<close> have the interleavings inside the ring, and the second shows that a put and a fetch that overlap can corrupt it.

  The numbers of event descriptors and those of sockets and files are separate: a new event descriptor gets the lowest number that no
  event descriptor has. \<open>init_shared_mem\<close> replaces the table of regions of an earlier call; a process calls it once.

  \<^bold>\<open>Not modelled.\<close> The debug macros of \<open>common.h\<close>; the exit handler of \<open>test.c\<close>, which only clears a flag of a process that
  ends, and what a signal without a handler does; the structures and constants of \<open>scsi_spec.h\<close>, \<open>virtio_scsi.h\<close>, \<open>vring.h\<close> and \<open>vhost_user.h\<close>
  that no code of the library uses; messages on the standard error stream; the memory model of the processor.
\<close>

end
